(* ===== verification/Args.thy ===== *)
theory Args
  imports Prelude
begin

text \<open>
  \<^verbatim>\<open>crates/core/src/args.rs\<close> and \<^verbatim>\<open>crates/core/src/error.rs\<close>: the key/value bags that
  carry transport options, their escaped text forms for SOCKS authentication, SMETHOD
  lines and \<^verbatim>\<open>TOR_PT_SERVER_TRANSPORT_OPTIONS\<close>, and the errors of the parsers.

  A \<^verbatim>\<open>HashMap\<close> is an association list with distinct keys (\<open>args_inv\<close>); its order is
  the arbitrary iteration order of the map, and two bags are equal for \<^verbatim>\<open>PartialEq\<close>
  when their lookups agree (\<open>args_eq\<close>). The capacity that \<^verbatim>\<open>encode_delimited\<close> computes
  only reserves memory and has no counterpart.
\<close>

section \<open>Data\<close>

datatype core_error = ProxyError string | ParseError string | Unknown

fun core_error_display :: "core_error \<Rightarrow> string" where
  "core_error_display (ProxyError m) = ''PROXY-ERROR '' @ m"
| "core_error_display (ParseError m) = ''error parsing client params: '' @ m"
| "core_error_display Unknown = ''unknown data store error''"

type_synonym args = "(string \<times> string list) list"
type_synonym opts = "(string \<times> args) list"

abbreviation BSLASH :: char where "BSLASH \<equiv> CHR 0x5C"
abbreviation DQUOTE :: char where "DQUOTE \<equiv> CHR 0x22"

section \<open>The bag\<close>

definition args_new :: args where
  "args_new = []"

fun add_owned :: "args \<Rightarrow> string \<Rightarrow> string \<Rightarrow> args" where
  "add_owned [] key value = [(key, [value])]"
| "add_owned ((k, vs) # a) key value =
     (if k = key then (k, vs @ [value]) # a else (k, vs) # add_owned a key value)"

definition args_add :: "args \<Rightarrow> string \<Rightarrow> string \<Rightarrow> args" where
  "args_add a key value = add_owned a key value"

definition from_owned :: "string \<Rightarrow> string \<Rightarrow> args" where
  "from_owned key value = add_owned args_new key value"

definition args_get :: "args \<Rightarrow> string \<Rightarrow> string list option" where
  "args_get a key = map_of a key"

definition args_contains_key :: "args \<Rightarrow> string \<Rightarrow> bool" where
  "args_contains_key a key = (map_of a key \<noteq> None)"

definition args_is_empty :: "args \<Rightarrow> bool" where
  "args_is_empty a = (a = [])"

definition args_len :: "args \<Rightarrow> nat" where
  "args_len a = length a"

definition retrieve :: "args \<Rightarrow> string \<Rightarrow> string option" where
  "retrieve a key =
     (case map_of a key of
        None \<Rightarrow> None
      | Some v \<Rightarrow> (case v of [] \<Rightarrow> None | x # _ \<Rightarrow> Some x))"

section \<open>Escaping\<close>

fun push_backslash_escaped :: "string \<Rightarrow> string \<Rightarrow> char list \<Rightarrow> string" where
  "push_backslash_escaped out [] cset = out"
| "push_backslash_escaped out (c # s) cset =
     push_backslash_escaped
       (if c = BSLASH \<or> c \<in> set cset then out @ [BSLASH] @ [c] else out @ [c]) s cset"

text \<open>
  The loop of \<^verbatim>\<open>index_unescaped\<close> over \<^verbatim>\<open>char_indices\<close>: \<open>i\<close> is the byte position of the
  next character and \<open>unesc\<close> what has been unescaped so far. The terminators and the
  backslash are ASCII, so walking the bytes of a multi-byte character one by one pushes
  the same bytes as pushing the character at once.
\<close>

fun index_loop :: "string \<Rightarrow> char list \<Rightarrow> nat \<Rightarrow> string \<Rightarrow> string \<Rightarrow> core_error + (nat \<times> string)" where
  "index_loop s trm i [] unesc = Inr (length s, unesc)"
| "index_loop s trm i (c # cs) unesc =
     (if c \<in> set trm then Inr (i, unesc)
      else if c = BSLASH then
        (case cs of
           [] \<Rightarrow> Inl (ParseError (''nothing following final escape in '' @ [DQUOTE] @ s @ [DQUOTE]))
         | d # ds \<Rightarrow> index_loop s trm (i + 2) ds (unesc @ [d]))
      else index_loop s trm (i + 1) cs (unesc @ [c]))"

definition index_unescaped :: "string \<Rightarrow> char list \<Rightarrow> core_error + (nat \<times> string)" where
  "index_unescaped s trm = index_loop s trm 0 s []"

section \<open>Parsing and encoding of client parameters and SMETHOD arguments\<close>

function parse_loop :: "char \<Rightarrow> string \<Rightarrow> string \<Rightarrow> args \<Rightarrow> core_error + args" where
  "parse_loop delimiter description remaining args =
     (case index_unescaped remaining [CHR ''='', delimiter] of
        Inl e \<Rightarrow> Inl e
      | Inr (offset, key) \<Rightarrow>
          if length remaining \<le> offset \<or> remaining ! offset \<noteq> CHR ''='' then
            Inl (ParseError (''parsing '' @ description @ '' found no equals sign in ''
                             @ take offset remaining))
          else
            let remaining2 = drop (offset + 1) remaining in
            (case index_unescaped remaining2 [delimiter] of
               Inl e \<Rightarrow> Inl e
             | Inr (offset2, value) \<Rightarrow>
                 if key = [] then
                   Inl (ParseError (''parsing '' @ description @ '' encountered empty key in =''
                                    @ take offset2 remaining2))
                 else
                   let args2 = add_owned args key value;
                       remaining3 = drop offset2 remaining2
                   in if remaining3 = [] then Inr args2
                      else parse_loop delimiter description (drop 1 remaining3) args2))"
  by pat_completeness auto
termination
  by (relation "measure (\<lambda>(_, _, remaining, _). length remaining)") auto

declare parse_loop.simps [simp del]

definition parse_delimited :: "string \<Rightarrow> char \<Rightarrow> string \<Rightarrow> core_error + args" where
  "parse_delimited params delimiter description =
     (if params = [] then Inr args_new
      else parse_loop delimiter description params args_new)"

definition parse_client_parameters :: "string \<Rightarrow> core_error + args" where
  "parse_client_parameters params = parse_delimited params CHR '';'' ''client params''"

definition strip_prefix :: "string \<Rightarrow> string \<Rightarrow> string option" where
  "strip_prefix s p = (if take (length p) s = p then Some (drop (length p) s) else None)"

definition parse_smethod_args :: "string \<Rightarrow> core_error + args" where
  "parse_smethod_args params =
     (let p = (case strip_prefix params ''ARGS:'' of None \<Rightarrow> params | Some r \<Rightarrow> r)
      in parse_delimited p CHR '','' ''SMETHOD args'')"

fun encode_values ::
  "char \<Rightarrow> char list \<Rightarrow> string \<Rightarrow> string list \<Rightarrow> bool \<times> string \<Rightarrow> bool \<times> string" where
  "encode_values delimiter escaped key [] st = st"
| "encode_values delimiter escaped key (value # values) (first, encoded) =
     (let e1 = (if first then encoded else encoded @ [delimiter]);
          e2 = push_backslash_escaped e1 key escaped @ [CHR ''='']
      in encode_values delimiter escaped key values
           (False, push_backslash_escaped e2 value escaped))"

fun encode_entries :: "char \<Rightarrow> char list \<Rightarrow> args \<Rightarrow> bool \<times> string \<Rightarrow> bool \<times> string" where
  "encode_entries delimiter escaped [] st = st"
| "encode_entries delimiter escaped ((key, values) # entries) st =
     encode_entries delimiter escaped entries (encode_values delimiter escaped key values st)"

definition encode_delimited :: "args \<Rightarrow> char \<Rightarrow> char list \<Rightarrow> string" where
  "encode_delimited a delimiter escaped =
     (if args_is_empty a then []
      else snd (encode_entries delimiter escaped (sort_key fst a) (True, [])))"

definition encode_smethod_args :: "args \<Rightarrow> string" where
  "encode_smethod_args a = encode_delimited a CHR '','' [CHR ''='', CHR '','']"

definition encode_client_parameters :: "args \<Rightarrow> string" where
  "encode_client_parameters a = encode_delimited a CHR '';'' [CHR ''='', CHR '';'']"

section \<open>Server transport options\<close>

text \<open>The entry of a transport: extended when occupied, created when vacant.\<close>

fun opts_add :: "opts \<Rightarrow> string \<Rightarrow> string \<Rightarrow> string \<Rightarrow> opts" where
  "opts_add [] m key value = [(m, from_owned key value)]"
| "opts_add ((n, a) # os) m key value =
     (if n = m then (n, add_owned a key value) # os else (n, a) # opts_add os m key value)"

definition slice :: "nat \<Rightarrow> nat \<Rightarrow> string \<Rightarrow> string" where
  "slice i j s = take (j - i) (drop i s)"

function options_loop :: "string \<Rightarrow> nat \<Rightarrow> opts \<Rightarrow> core_error + opts" where
  "options_loop s begin_i opts =
     (case index_unescaped (drop begin_i s) [CHR '':'', CHR ''='', CHR '';''] of
        Inl e \<Rightarrow> Inl e
      | Inr (offset, method_name) \<Rightarrow>
          let i = begin_i + offset in
          if length s \<le> i \<or> s ! i \<noteq> CHR '':'' then
            Inl (ParseError (''no colon in '' @ slice begin_i i s))
          else
            let i = i + 1 in
            (case index_unescaped (drop i s) [CHR ''='', CHR '';''] of
               Inl e \<Rightarrow> Inl e
             | Inr (offset, key) \<Rightarrow>
                 let i = i + offset in
                 if length s \<le> i \<or> s ! i \<noteq> CHR ''='' then
                   Inl (ParseError (''no equals sign in '' @ slice begin_i i s))
                 else
                   let i = i + 1 in
                   (case index_unescaped (drop i s) [CHR '';''] of
                      Inl e \<Rightarrow> Inl e
                    | Inr (offset, value) \<Rightarrow>
                        let i = i + offset in
                        if method_name = [] then
                          Inl (ParseError (''empty method name in '' @ slice begin_i i s))
                        else if key = [] then
                          Inl (ParseError (''empty key in '' @ slice begin_i i s))
                        else
                          let opts = opts_add opts method_name key value in
                          if length s \<le> i then Inr opts
                          else options_loop s (i + 1) opts)))"
  by pat_completeness auto
termination
  by (relation "measure (\<lambda>(s, i, _). length s - i)") auto

declare options_loop.simps [simp del]

definition parse_server_transport_options :: "string \<Rightarrow> core_error + opts" where
  "parse_server_transport_options s = (if s = [] then Inr [] else options_loop s 0 [])"

definition opts_get :: "opts \<Rightarrow> string \<Rightarrow> args option" where
  "opts_get os key = map_of os key"

definition opts_remove :: "opts \<Rightarrow> string \<Rightarrow> args option \<times> opts" where
  "opts_remove os key = (map_of os key, filter (\<lambda>e. fst e \<noteq> key) os)"

section \<open>Invariant and equality of bags\<close>

definition args_inv :: "args \<Rightarrow> bool" where
  "args_inv a \<longleftrightarrow> distinct (map fst a)"

text \<open>What parsing produces: no empty key and no key without a value.\<close>

definition args_wf :: "args \<Rightarrow> bool" where
  "args_wf a \<longleftrightarrow> args_inv a \<and> (\<forall>(k, vs) \<in> set a. k \<noteq> [] \<and> vs \<noteq> [])"

definition args_eq :: "args \<Rightarrow> args \<Rightarrow> bool" where
  "args_eq a b \<longleftrightarrow> map_of a = map_of b"


section \<open>Facts on the bag\<close>

lemma map_of_add_owned [simp]:
  "map_of (add_owned a k v) =
     (map_of a)(k \<mapsto> (case map_of a k of None \<Rightarrow> [v] | Some vs \<Rightarrow> vs @ [v]))"
  by (induction a k v rule: add_owned.induct) (auto split: option.splits)

lemma fst_set_add_owned [simp]: "fst ` set (add_owned a k v) = insert k (fst ` set a)"
  by (induction a k v rule: add_owned.induct) auto

lemma args_wf_add_owned: "args_wf a \<Longrightarrow> k \<noteq> [] \<Longrightarrow> args_wf (add_owned a k v)"
  unfolding args_wf_def args_inv_def
  by (induction a k v rule: add_owned.induct) auto

lemma args_wf_new [simp]: "args_wf args_new"
  by (simp add: args_wf_def args_inv_def args_new_def)

lemma add_owned_fresh: "k \<notin> fst ` set a \<Longrightarrow> add_owned a k v = a @ [(k, [v])]"
  by (induction a k v rule: add_owned.induct) auto

lemma add_owned_last: "k \<notin> fst ` set a \<Longrightarrow> add_owned (a @ [(k, vs)]) k v = a @ [(k, vs @ [v])]"
  by (induction a k v rule: add_owned.induct) auto

section \<open>Facts on escaping\<close>

text \<open>The escaped form of a string, as a function of its own.\<close>

definition esc :: "char list \<Rightarrow> string \<Rightarrow> string" where
  "esc cset s = concat (map (\<lambda>c. if c = BSLASH \<or> c \<in> set cset then [BSLASH, c] else [c]) s)"

lemma esc_simps [simp]:
  "esc cset [] = []"
  "esc cset (c # s) = (if c = BSLASH \<or> c \<in> set cset then BSLASH # c # esc cset s else c # esc cset s)"
  by (simp_all add: esc_def)

lemma push_backslash_escaped_eq [simp]: "push_backslash_escaped out s cset = out @ esc cset s"
  by (induction out s cset rule: push_backslash_escaped.induct) auto

lemma esc_eq_Nil [simp]: "esc cset s = [] \<longleftrightarrow> s = []"
  by (cases s) auto

text \<open>
  Reading an escaped string: the scan consumes all of it and hands back the original,
  whenever every terminator is among the escaped characters.
\<close>

lemma index_loop_esc:
  assumes "set trm \<subseteq> set cset" "BSLASH \<notin> set trm"
  shows "index_loop s trm i (esc cset x @ rest) u
           = index_loop s trm (i + length (esc cset x)) rest (u @ x)"
  using assms by (induction x arbitrary: i u) auto

lemma index_unescaped_esc_end:
  assumes "set trm \<subseteq> set cset" "BSLASH \<notin> set trm"
  shows "index_unescaped (esc cset x) trm = Inr (length (esc cset x), x)"
  using index_loop_esc [OF assms, of "esc cset x" 0 x "[]" "[]"]
  by (simp add: index_unescaped_def)

lemma index_unescaped_esc_stop:
  assumes "set trm \<subseteq> set cset" "BSLASH \<notin> set trm" "t \<in> set trm"
  shows "index_unescaped (esc cset x @ t # rest) trm = Inr (length (esc cset x), x)"
  using index_loop_esc [OF assms(1,2), of "esc cset x @ t # rest" 0 x "t # rest" "[]"] assms(3)
  by (simp add: index_unescaped_def)

text \<open>
  The scan stops inside the string, on a terminator, or at its end.
\<close>

lemma index_loop_offset:
  assumes "index_loop s trm i cs u = Inr (n, x)" "i + length cs = length s" "drop i s = cs"
  shows "n \<le> length s \<and> (n < length s \<longrightarrow> s ! n \<in> set trm)"
  using assms
proof (induction s trm i cs u rule: index_loop.induct)
  case (2 s trm i c cs u)
  then have i: "i < length s" and c: "s ! i = c" and d: "drop (Suc i) s = cs"
    by (auto simp: Cons_nth_drop_Suc [symmetric])
  show ?case
  proof (cases "c \<in> set trm")
    case True
    with "2.prems" i c show ?thesis by auto
  next
    case False
    show ?thesis
    proof (cases "c = BSLASH")
      case True
      with False "2.prems"(1) obtain e ds where cs: "cs = e # ds"
        and r: "index_loop s trm (i + 2) ds (u @ [e]) = Inr (n, x)"
        by (auto split: list.splits)
      from d cs have "drop (i + 2) s = ds" by (simp add: drop_Suc flip: tl_drop)
      with "2.IH"(1) [OF False True cs r] "2.prems"(2) cs show ?thesis by simp
    next
      case nb: False
      with False "2.prems"(1) have "index_loop s trm (i + 1) cs (u @ [c]) = Inr (n, x)" by simp
      with "2.IH"(2) [OF False nb] "2.prems"(2) d show ?thesis by simp
    qed
  qed
qed simp

lemma index_unescaped_offset:
  "index_unescaped s trm = Inr (n, x) \<Longrightarrow> n \<le> length s \<and> (n < length s \<longrightarrow> s ! n \<in> set trm)"
  using index_loop_offset [of s trm 0 s "[]" n x] by (simp add: index_unescaped_def)


section \<open>Facts on the delimited text forms\<close>

definition pairs :: "args \<Rightarrow> (string \<times> string) list" where
  "pairs a = concat (map (\<lambda>(k, vs). map (Pair k) vs) a)"

definition pair_text :: "char \<Rightarrow> string \<times> string \<Rightarrow> string" where
  "pair_text d p = esc [CHR ''='', d] (fst p) @ CHR ''='' # esc [CHR ''='', d] (snd p)"

definition more_text :: "char \<Rightarrow> (string \<times> string) list \<Rightarrow> string" where
  "more_text d ps = concat (map (\<lambda>p. d # pair_text d p) ps)"

fun pairs_text :: "char \<Rightarrow> (string \<times> string) list \<Rightarrow> string" where
  "pairs_text d [] = []"
| "pairs_text d (p # ps) = pair_text d p @ more_text d ps"

definition add_pairs :: "(string \<times> string) list \<Rightarrow> args \<Rightarrow> args" where
  "add_pairs ps a = fold (\<lambda>(k, v) a. add_owned a k v) ps a"

lemma pairs_simps [simp]: "pairs [] = []" "pairs ((k, vs) # a) = map (Pair k) vs @ pairs a"
  by (simp_all add: pairs_def)

lemma more_text_simps [simp]:
  "more_text d [] = []" "more_text d (p # ps) = d # pair_text d p @ more_text d ps"
  "more_text d (ps @ qs) = more_text d ps @ more_text d qs"
  by (simp_all add: more_text_def)

lemma add_pairs_simps [simp]:
  "add_pairs [] a = a" "add_pairs ((k, v) # ps) a = add_pairs ps (add_owned a k v)"
  "add_pairs (ps @ qs) a = add_pairs qs (add_pairs ps a)"
  by (simp_all add: add_pairs_def)

lemma encode_values_more [simp]:
  "encode_values d [CHR ''='', d] k vs (False, out) = (False, out @ more_text d (map (Pair k) vs))"
  by (induction vs arbitrary: out) (auto simp: pair_text_def)

lemma encode_entries_more [simp]:
  "encode_entries d [CHR ''='', d] es (False, out) = (False, out @ more_text d (pairs es))"
  by (induction es arbitrary: out) auto

lemma encode_entries_eq:
  "snd (encode_entries d [CHR ''='', d] es (True, [])) = pairs_text d (pairs es)"
proof (induction es)
  case (Cons e es)
  obtain k vs where "e = (k, vs)" by (cases e)
  with Cons show ?case by (cases vs) (auto simp: pair_text_def)
qed simp

lemma pair_text_not_Nil [simp]: "pair_text d p \<noteq> []"
  by (simp add: pair_text_def)

lemma pairs_text_eq_Nil [simp]: "pairs_text d ps = [] \<longleftrightarrow> ps = []"
  by (cases ps) (auto simp: pair_text_def)

lemma add_pairs_key:
  "k \<notin> fst ` set a \<Longrightarrow> add_pairs (map (Pair k) ws) (a @ [(k, vs)]) = a @ [(k, vs @ ws)]"
  by (induction ws arbitrary: vs) (auto simp: add_owned_last)

lemma add_pairs_pairs:
  "distinct (map fst (a @ b)) \<Longrightarrow> \<forall>(k, vs) \<in> set b. vs \<noteq> [] \<Longrightarrow> add_pairs (pairs b) a = a @ b"
proof (induction b arbitrary: a)
  case (Cons e b)
  obtain k vs where e: "e = (k, vs)" by (cases e)
  with Cons.prems obtain w ws where vs: "vs = w # ws" by (cases vs) auto
  from Cons.prems e have k: "k \<notin> fst ` set a" by auto
  have "add_pairs (pairs (e # b)) a = add_pairs (pairs b) (a @ [e])"
    using k by (simp add: e vs add_owned_fresh add_pairs_key)
  also have "\<dots> = (a @ [e]) @ b"
    using Cons.prems by (intro Cons.IH) auto
  finally show ?case by simp
qed simp

text \<open>
  The text form for one delimiter. The client form uses \<open>;\<close> and the SMETHOD form \<open>,\<close>;
  everything below holds for any delimiter that is neither \<open>=\<close> nor a backslash.
\<close>

locale delimited_form =
  fixes d :: char
  assumes delim_not_eq: "d \<noteq> CHR ''=''"
    and delim_not_bslash: "d \<noteq> BSLASH"
begin

lemma parse_pairs:
  assumes "\<forall>p \<in> set (p # ps). fst p \<noteq> []"
  shows "parse_loop d desc (pair_text d p @ more_text d ps) a = Inr (add_pairs (p # ps) a)"
  using assms
proof (induction ps arbitrary: p a)
  case Nil
  then show ?case
    using index_unescaped_esc_stop [of "[CHR ''='', d]" "[CHR ''='', d]" "CHR ''=''" "fst p"]
      index_unescaped_esc_end [of "[d]" "[CHR ''='', d]" "snd p"]
      delim_not_eq delim_not_bslash
    by (subst parse_loop.simps) (simp add: pair_text_def add_pairs_def case_prod_beta nth_append)
next
  case (Cons q ps)
  then have IH: "parse_loop d desc (pair_text d q @ more_text d ps) (add_owned a (fst p) (snd p))
      = Inr (add_pairs (q # ps) (add_owned a (fst p) (snd p)))" by simp
  from Cons.prems show ?case
    using IH
      index_unescaped_esc_stop [of "[CHR ''='', d]" "[CHR ''='', d]" "CHR ''=''" "fst p"]
      index_unescaped_esc_stop [of "[d]" "[CHR ''='', d]" d "snd p"]
      delim_not_eq delim_not_bslash
    by (subst parse_loop.simps) (simp add: pair_text_def add_pairs_def case_prod_beta nth_append)
qed

lemma parse_encode:
  assumes "args_wf a"
  shows "parse_delimited (encode_delimited a d [CHR ''='', d]) d desc = Inr (sort_key fst a)"
proof (cases "pairs (sort_key fst a)")
  case Nil
  have "a = []"
  proof (rule ccontr)
    assume "a \<noteq> []"
    then obtain k vs where "(k, vs) \<in> set a" by (cases a) auto
    then have "(k, vs) \<in> set (sort_key fst a)" by simp
    with assms Nil show False by (auto simp: args_wf_def pairs_def)
  qed
  then show ?thesis by (simp add: parse_delimited_def encode_delimited_def args_is_empty_def args_new_def)
next
  case (Cons p ps)
  from assms have d: "distinct (map fst (sort_key fst a))"
    by (simp add: args_wf_def args_inv_def distinct_map)
  from assms have ne: "\<forall>(k, vs) \<in> set (sort_key fst a). vs \<noteq> []" by (auto simp: args_wf_def)
  have "\<forall>q \<in> set (pairs (sort_key fst a)). fst q \<noteq> []"
    using assms by (auto simp: args_wf_def pairs_def)
  moreover from Cons have "a \<noteq> []" by auto
  ultimately show ?thesis
    using Cons parse_pairs [of p ps desc "[]"] add_pairs_pairs [of "[]" "sort_key fst a"] d ne
    by (simp add: parse_delimited_def encode_delimited_def encode_entries_eq args_is_empty_def
        args_new_def)
qed

end

interpretation client_form: delimited_form "CHR '';''"
  by unfold_locales simp_all

interpretation smethod_form: delimited_form "CHR '',''"
  by unfold_locales simp_all

lemma parse_loop_wf:
  "parse_loop d desc s a = Inr b \<Longrightarrow> args_wf a \<Longrightarrow> args_wf b"
proof (induction d desc s a rule: parse_loop.induct)
  case (1 d desc s a)
  from "1.prems" show ?case
    by (subst (asm) parse_loop.simps)
      (auto simp: Let_def args_wf_add_owned split: sum.splits if_splits prod.splits intro: "1.IH")
qed

lemma parse_delimited_wf: "parse_delimited s d desc = Inr a \<Longrightarrow> args_wf a"
  by (auto simp: parse_delimited_def parse_loop_wf split: if_splits)

lemma args_eq_sort: "args_inv a \<Longrightarrow> args_eq (sort_key fst a) a"
  unfolding args_eq_def args_inv_def
  by (subst map_of_inject_set) (simp_all add: distinct_map)


lemma alist_by_keys:
  assumes "distinct (map fst xs)"
  shows "xs = map (\<lambda>k. (k, the (map_of xs k))) (map fst xs)"
proof -
  have "map_of xs (fst p) = Some (snd p)" if "p \<in> set xs" for p
    using assms that by (simp add: map_of_eq_Some_iff)
  then show ?thesis by (simp add: map_idI)
qed

lemma sort_key_map_of_eq:
  assumes "args_inv a" "args_inv b" "map_of a = map_of b"
  shows "sort_key fst a = sort_key fst b"
proof -
  have d: "distinct (map fst (sort_key fst x))" and s: "sorted (map fst (sort_key fst x))"
    if "args_inv x" for x :: args
    using that by (simp_all add: args_inv_def distinct_map)
  have m: "map_of (sort_key fst x) = map_of x" if "args_inv x" for x :: args
    using args_eq_sort [OF that] by (simp add: args_eq_def)
  have "fst ` set a = fst ` set b" by (metis assms(3) dom_map_of_conv_image_fst)
  then have keys: "map fst (sort_key fst a) = map fst (sort_key fst b)"
    using assms by (intro sorted_distinct_set_unique) (simp_all add: d s)
  have "sort_key fst a = map (\<lambda>k. (k, the (map_of (sort_key fst a) k))) (map fst (sort_key fst a))"
    using assms by (intro alist_by_keys d)
  also have "\<dots> = map (\<lambda>k. (k, the (map_of (sort_key fst b) k))) (map fst (sort_key fst b))"
    using assms by (simp only: keys m)
  also have "\<dots> = sort_key fst b"
    using assms by (intro alist_by_keys [symmetric] d)
  finally show ?thesis .
qed

section \<open>Facts on server transport options\<close>

definition opt_escapes :: "char list" where
  "opt_escapes = [CHR '':'', CHR ''='', CHR '';'']"

definition opt_text :: "string \<times> string \<times> string \<Rightarrow> string" where
  "opt_text t = (case t of (m, k, v) \<Rightarrow>
     esc opt_escapes m @ CHR '':'' # esc opt_escapes k @ CHR ''='' # esc opt_escapes v)"

fun opts_text :: "(string \<times> string \<times> string) list \<Rightarrow> string" where
  "opts_text [] = []"
| "opts_text [t] = opt_text t"
| "opts_text (t # ts) = opt_text t @ CHR '';'' # opts_text ts"

definition add_opts :: "(string \<times> string \<times> string) list \<Rightarrow> opts \<Rightarrow> opts" where
  "add_opts ts os = fold (\<lambda>(m, k, v) os. opts_add os m k v) ts os"

lemma options_loop_text:
  assumes "\<forall>(m, k, v) \<in> set ts. m \<noteq> [] \<and> k \<noteq> []" "ts \<noteq> []"
  shows "options_loop (pre @ opts_text ts) (length pre) os = Inr (add_opts ts os)"
  using assms
proof (induction ts arbitrary: pre os rule: opts_text.induct)
  case (2 t)
  obtain m k v where t: "t = (m, k, v)" by (cases t)
  note stop = index_unescaped_esc_stop [of _ opt_escapes]
  show ?case
    using "2.prems"
      stop [of "[CHR '':'', CHR ''='', CHR '';'']" "CHR '':''" m]
      stop [of "[CHR ''='', CHR '';'']" "CHR ''=''" k]
      index_unescaped_esc_end [of "[CHR '';'']" opt_escapes v]
    by (subst options_loop.simps)
      (simp add: t opt_text_def add_opts_def nth_append opt_escapes_def Let_def)
next
  case (3 t u ts)
  obtain m k v where t: "t = (m, k, v)" by (cases t)
  let ?pre = "pre @ opt_text t @ [CHR '';'']"
  have IH: "options_loop (?pre @ opts_text (u # ts)) (length ?pre) (opts_add os m k v)
      = Inr (add_opts (u # ts) (opts_add os m k v))"
    using "3.IH" [of ?pre "opts_add os m k v"] "3.prems" by simp
  note stop = index_unescaped_esc_stop [of _ opt_escapes]
  show ?case
    using "3.prems" IH
      stop [of "[CHR '':'', CHR ''='', CHR '';'']" "CHR '':''" m]
      stop [of "[CHR ''='', CHR '';'']" "CHR ''=''" k]
      stop [of "[CHR '';'']" "CHR '';''" v]
    by (subst options_loop.simps)
      (simp add: t opt_text_def add_opts_def nth_append opt_escapes_def Let_def ac_simps)
qed simp

section \<open>Properties\<close>

text \<open>
  C30. Client parameters survive the SOCKS transport: whatever bag the parser can produce
  (keys non-empty, every key with a value) is encoded to a text that
  \<^verbatim>\<open>parse_client_parameters\<close> accepts, and the bag it returns is equal (every key has the
  same values in the same order), whatever bytes keys and values hold.
\<close>

theorem client_parameters_roundtrip:
  assumes "args_wf a"
  shows "\<exists>b. parse_client_parameters (encode_client_parameters a) = Inr b \<and> args_eq b a"
  using client_form.parse_encode [OF assms] args_eq_sort [of a] assms
  by (auto simp: parse_client_parameters_def encode_client_parameters_def args_wf_def)

theorem client_parameters_roundtrip_witness:
  "\<exists>b. parse_client_parameters
          (encode_client_parameters [(''iat-mode'', [''0'', ''a;b'']), (''cert'', [''x=''])]) = Inr b
        \<and> args_eq b [(''iat-mode'', [''0'', ''a;b'']), (''cert'', [''x=''])]"
  by (rule client_parameters_roundtrip) (simp add: args_wf_def args_inv_def)

text \<open>
  A key that itself starts with \<^verbatim>\<open>ARGS:\<close> is where the round trip fails: it comes back
  without its first five characters.
\<close>

lemma smethod_args_prefix_lost:
  "parse_smethod_args (encode_smethod_args [(''ARGS:k'', [''v''])]) = Inr [(''k'', [''v''])]"
  by (simp add: parse_smethod_args_def encode_smethod_args_def encode_delimited_def
      args_is_empty_def strip_prefix_def parse_delimited_def parse_loop.simps
      index_unescaped_def args_new_def)

text \<open>
  C31. The SMETHOD form round-trips as well, except when the encoded text itself begins
  with \<^verbatim>\<open>ARGS:\<close>: the parser strips that prefix, which the encoder never escapes, so the
  bag with the one key \<^verbatim>\<open>ARGS:k\<close> comes back with the key \<^verbatim>\<open>k\<close>.
\<close>

theorem smethod_args_roundtrip:
  assumes "args_wf a" "strip_prefix (encode_smethod_args a) ''ARGS:'' = None"
  shows "(\<exists>b. parse_smethod_args (encode_smethod_args a) = Inr b \<and> args_eq b a)
       \<and> parse_smethod_args (encode_smethod_args [(''ARGS:k'', [''v''])]) = Inr [(''k'', [''v''])]"
  using smethod_form.parse_encode [OF assms(1)] args_eq_sort [of a] assms smethod_args_prefix_lost
  by (auto simp: parse_smethod_args_def encode_smethod_args_def args_wf_def)

theorem smethod_args_roundtrip_witness:
  "\<exists>b. parse_smethod_args (encode_smethod_args [(''cert'', [''a,b'']), (''iat-mode'', [''0''])]) = Inr b
        \<and> args_eq b [(''cert'', [''a,b'']), (''iat-mode'', [''0''])]"
  by (rule smethod_args_roundtrip [THEN conjunct1])
    (simp_all add: args_wf_def args_inv_def encode_smethod_args_def encode_delimited_def
      args_is_empty_def strip_prefix_def insort_key_def)

text \<open>
  Every bag the client parser accepts is well-formed: keys are distinct and
  non-empty, and each has at least one value, so \<^verbatim>\<open>retrieve\<close> answers exactly on the keys
  the bag contains.
\<close>

theorem parse_client_parameters_wf:
  assumes "parse_client_parameters s = Inr a"
  shows "args_wf a \<and> (\<forall>k. retrieve a k \<noteq> None \<longleftrightarrow> args_contains_key a k)"
proof -
  from assms have wf: "args_wf a" by (simp add: parse_client_parameters_def parse_delimited_wf)
  then have "vs \<noteq> []" if "map_of a k = Some vs" for k vs
    using map_of_SomeD [OF that] by (auto simp: args_wf_def)
  with wf show ?thesis
    by (auto simp: retrieve_def args_contains_key_def split: option.splits list.splits)
qed

theorem parse_client_parameters_wf_witness:
  "args_wf [(''a'', [''1'', ''2''])]
   \<and> (\<forall>k. retrieve [(''a'', [''1'', ''2''])] k \<noteq> None \<longleftrightarrow> args_contains_key [(''a'', [''1'', ''2''])] k)"
  by (rule parse_client_parameters_wf [of "''a=1;a=2''"])
    (simp add: parse_client_parameters_def parse_delimited_def parse_loop.simps
      index_unescaped_def args_new_def)

text \<open>
  The encoders do not depend on the iteration order of the hash map: two maps that
  are equal as maps have the same client-parameter and SMETHOD text.
\<close>

theorem encode_order_independent:
  assumes "args_inv a" "args_inv b" "args_eq a b"
  shows "encode_client_parameters a = encode_client_parameters b
       \<and> encode_smethod_args a = encode_smethod_args b"
proof -
  from assms have "sort_key fst a = sort_key fst b"
    by (intro sort_key_map_of_eq) (simp_all add: args_eq_def)
  moreover from assms have "a = [] \<longleftrightarrow> b = []"
    unfolding args_eq_def by (metis map_of.simps(1) map_of_eq_empty_iff)
  ultimately show ?thesis
    by (simp add: encode_client_parameters_def encode_smethod_args_def encode_delimited_def
        args_is_empty_def)
qed

theorem encode_order_independent_witness:
  "encode_client_parameters [(''b'', [''1'']), (''a'', [''2''])]
     = encode_client_parameters [(''a'', [''2'']), (''b'', [''1''])]
   \<and> encode_smethod_args [(''b'', [''1'']), (''a'', [''2''])]
     = encode_smethod_args [(''a'', [''2'']), (''b'', [''1''])]"
  by (rule encode_order_independent) (auto simp: args_inv_def args_eq_def)

text \<open>
  \<^verbatim>\<open>parse_server_transport_options\<close> reads back every list of
  \<open>transport:key=value\<close> options written with the specification's escapes: the result is
  the options added one by one, in order, to the empty map.
\<close>

theorem parse_server_transport_options_text:
  assumes "\<forall>(m, k, v) \<in> set ts. m \<noteq> [] \<and> k \<noteq> []"
  shows "parse_server_transport_options (opts_text ts) = Inr (add_opts ts [])"
  using options_loop_text [of ts "[]" "[]"] assms
  by (cases ts rule: opts_text.cases)
    (auto simp: parse_server_transport_options_def add_opts_def opt_text_def)

theorem parse_server_transport_options_text_witness:
  "parse_server_transport_options
     (opts_text [(''obfs4'', ''iat-mode'', ''1''), (''web:t'', ''k'', ''a;b''), (''obfs4'', ''k'', ''2'')])
   = Inr (add_opts [(''obfs4'', ''iat-mode'', ''1''), (''web:t'', ''k'', ''a;b''), (''obfs4'', ''k'', ''2'')] [])"
  by (rule parse_server_transport_options_text) simp

end
