(* ===== verification/Errors.thy ===== *)
theory Errors
  imports Prelude
begin

text \<open>
  The errors of the obfs4 crate: \<^verbatim>\<open>framing/mod.rs\<close> (\<^verbatim>\<open>FrameError\<close>),
  \<^verbatim>\<open>common/ntor_arti/mod.rs\<close> (\<^verbatim>\<open>RelayHandshakeError\<close>) and \<^verbatim>\<open>error.rs\<close> (\<^verbatim>\<open>Error\<close>), with
  their display texts and the conversions between them and \<^verbatim>\<open>std::io::Error\<close>.

  An \<^verbatim>\<open>io::Error\<close> is one of the three forms the standard library has: an operating-system
  code, a bare kind, or a kind with a message. What the operating system says about a
  code, and the description of a kind, are the parameter \<open>os\<close>. A boxed error is its
  display text; an error type of another crate that the code only passes on is its text too.
\<close>

datatype error_kind =
    NotFound | PermissionDenied | ConnectionRefused | ConnectionReset | ConnectionAborted
  | NotConnected | AddrInUse | AddrNotAvailable | BrokenPipe | AlreadyExists | WouldBlock
  | InvalidInput | InvalidData | TimedOut | WriteZero | Interrupted | Unsupported
  | UnexpectedEof | OutOfMemory | HostUnreachable | NetworkUnreachable | IsADirectory | NotADirectory
  | OtherKind

datatype io_error = IoOs int | IoSimple error_kind | IoCustom error_kind string

record os_errors =
  os_kind :: "int \<Rightarrow> error_kind"
  os_message :: "int \<Rightarrow> string"
  kind_message :: "error_kind \<Rightarrow> string"

fun io_kind :: "os_errors \<Rightarrow> io_error \<Rightarrow> error_kind" where
  "io_kind os (IoOs c) = os_kind os c"
| "io_kind os (IoSimple k) = k"
| "io_kind os (IoCustom k _) = k"

fun io_raw_os_error :: "io_error \<Rightarrow> int option" where
  "io_raw_os_error (IoOs c) = Some c"
| "io_raw_os_error (IoSimple _) = None"
| "io_raw_os_error (IoCustom _ _) = None"

fun io_display :: "os_errors \<Rightarrow> io_error \<Rightarrow> string" where
  "io_display os (IoOs c) = os_message os c"
| "io_display os (IoSimple k) = kind_message os k"
| "io_display os (IoCustom _ m) = m"

definition io_other :: "string \<Rightarrow> io_error" where
  "io_other m = IoCustom OtherKind m"

section \<open>Frame errors\<close>

datatype frame_error =
    InvalidPayloadLength nat
  | FCrypto string
  | FIO string
  | FIOWithKind string error_kind "int option"
  | FEAgain
  | TagMismatch
  | NonceCounterWrapped
  | ShortBuffer
  | InvalidMessage
  | InvalidFrame
  | InvalidHandshake
  | FReplayedHandshake
  | UnknownMessageType u8

fun frame_error_display :: "frame_error \<Rightarrow> string" where
  "frame_error_display (InvalidPayloadLength s) = ''framing: Invalid payload length: '' @ show_nat s"
| "frame_error_display (FCrypto e) = ''framing: Secretbox encrypt/decrypt error: '' @ e"
| "frame_error_display (FIO e) = ''framing: i/o error occured while processing frame: '' @ e"
| "frame_error_display (FIOWithKind m _ _) = ''framing: i/o error occured while processing frame: '' @ m"
| "frame_error_display FEAgain = ''framing: more data needed to decode''"
| "frame_error_display TagMismatch = ''framing: Poly1305 tag mismatch''"
| "frame_error_display NonceCounterWrapped = ''framing: Nonce counter wrapped''"
| "frame_error_display ShortBuffer = ''framing: provided bytes buffer was too short for payload''"
| "frame_error_display InvalidMessage = ''framing: incorrect message for context''"
| "frame_error_display InvalidFrame = ''framing: frame length out of range''"
| "frame_error_display InvalidHandshake = ''framing: failed to parse handshake message''"
| "frame_error_display FReplayedHandshake = ''framing: handshake replayed within TTL''"
| "frame_error_display (UnknownMessageType pt) =
     ''framing: unknown packet type ('' @ show_nat (unat pt) @ '')''"

definition frame_of_io :: "os_errors \<Rightarrow> io_error \<Rightarrow> frame_error" where
  "frame_of_io os e = FIOWithKind (io_display os e) (io_kind os e) (io_raw_os_error e)"

definition io_of_frame :: "frame_error \<Rightarrow> io_error" where
  "io_of_frame v =
     (case v of
        FIOWithKind m k raw \<Rightarrow> (case raw of None \<Rightarrow> IoCustom k m | Some c \<Rightarrow> IoOs c)
      | _ \<Rightarrow> io_other (frame_error_display v))"

section \<open>Handshake errors\<close>

datatype relay_handshake_error =
    REAgain
  | RFmt string
  | MissingKey
  | BadClientHandshake
  | BadServerHandshake
  | RReplayedHandshake
  | RFrameError string
  | RInternal string

fun relay_error_display :: "relay_handshake_error \<Rightarrow> string" where
  "relay_error_display REAgain = ''try again with updated input''"
| "relay_error_display (RFmt _) = ''Problem decoding onion handshake''"
| "relay_error_display MissingKey = ''Client asked for a key or ID that we don't have''"
| "relay_error_display BadClientHandshake = ''Bad handshake from client''"
| "relay_error_display BadServerHandshake = ''Bad handshake from server''"
| "relay_error_display RReplayedHandshake =
     ''Handshake from client was seen recently -- potentially replayed.''"
| "relay_error_display (RFrameError _) = ''Problem occured while building handshake''"
| "relay_error_display (RInternal _) = ''Internal error''"

section \<open>The crate's error\<close>

datatype obfs4_error =
    Bug string
  | EOther string
  | IOError io_error
  | EncodeError string
  | Utf8Error string
  | RngSourceErr string
  | ECrypto string
  | NullTransport
  | NotImplemented
  | NotSupported
  | Cancelled
  | HandshakeTimeout
  | BadCircHandshakeAuth
  | InvalidKDFOutputLength
  | CellDecodeErr string string
  | HandshakeErr relay_handshake_error
  | Obfs4Framing frame_error

fun obfs4_error_display :: "os_errors \<Rightarrow> obfs4_error \<Rightarrow> string" where
  "obfs4_error_display os (Bug _) = ''Internal error occured (bug)''"
| "obfs4_error_display os Cancelled = ''cancelled''"
| "obfs4_error_display os (EOther e) = e"
| "obfs4_error_display os (IOError e) = io_display os e"
| "obfs4_error_display os (EncodeError e) = e"
| "obfs4_error_display os (Utf8Error e) = e"
| "obfs4_error_display os (RngSourceErr e) = e"
| "obfs4_error_display os (ECrypto e) = ''cryptographic err: '' @ e"
| "obfs4_error_display os NotImplemented = ''NotImplemented''"
| "obfs4_error_display os NotSupported = ''NotSupported''"
| "obfs4_error_display os NullTransport = ''NullTransport''"
| "obfs4_error_display os HandshakeTimeout = ''handshake timed out''"
| "obfs4_error_display os BadCircHandshakeAuth = ''failed authentication for circuit handshake''"
| "obfs4_error_display os InvalidKDFOutputLength = ''Tried to extract too many bytes from a KDF''"
| "obfs4_error_display os (CellDecodeErr obj err) = ''Unable to decode cell '' @ obj @ '': '' @ err"
| "obfs4_error_display os (HandshakeErr err) =
     ''handshake failed or unable to complete: '' @ relay_error_display err"
| "obfs4_error_display os (Obfs4Framing e) = ''obfs4 framing error: '' @ frame_error_display e"

definition io_of_obfs4 :: "os_errors \<Rightarrow> obfs4_error \<Rightarrow> io_error" where
  "io_of_obfs4 os e =
     (case e of IOError io \<Rightarrow> io | _ \<Rightarrow> io_other (obfs4_error_display os e))"

section \<open>Facts\<close>

text \<open>An I/O error keeps its classification and its code through the framing layer.\<close>

lemma io_frame_roundtrip:
  "io_kind os (io_of_frame (frame_of_io os e)) = io_kind os e"
  "io_raw_os_error (io_of_frame (frame_of_io os e)) = io_raw_os_error e"
  "io_display os (io_of_frame (frame_of_io os e)) = io_display os e"
  by (cases e; simp add: frame_of_io_def io_of_frame_def)+

end
