(* ===== verification/SipHash.thy ===== *)
theory SipHash
  imports Prelude
begin

text \<open>
  The streaming interface of the \<^verbatim>\<open>siphasher\<close> crate, which the replay filter and the
  length-obfuscation generator call. The crate is a parameter: its hasher state is a type
  variable and its three operations are the fields of a record. \<open>sip_digest\<close> is the
  sequence the sources write out at each use: one \<^verbatim>\<open>write\<close>, \<^verbatim>\<open>finish\<close>, \<^verbatim>\<open>to_be\<close>.
\<close>

record 's siphasher =
  sip_new_with_key :: "bytes \<Rightarrow> 's"
  sip_write :: "'s \<Rightarrow> bytes \<Rightarrow> 's"
  sip_finish :: "'s \<Rightarrow> u64"

text \<open>\<^verbatim>\<open>u64::to_be\<close> on the little-endian targets the program is built for: the bytes swapped.\<close>

definition swap_bytes :: "u64 \<Rightarrow> u64" where
  "swap_bytes w = fold (\<lambda>i acc. push_bit 8 acc OR (drop_bit (8 * i) w AND 0xFF)) [0..<8] 0"

definition sip_digest :: "'s siphasher \<Rightarrow> bytes \<Rightarrow> bytes \<Rightarrow> u64" where
  "sip_digest sip key buf =
     swap_bytes (sip_finish sip (sip_write sip (sip_new_with_key sip key) buf))"

text \<open>
  A concrete hasher for the witnesses: it keeps the key and everything written and
  finishes with a sum of the bytes weighted by their position.
\<close>

definition sum_hasher :: "bytes siphasher" where
  "sum_hasher = \<lparr> sip_new_with_key = (\<lambda>key. key), sip_write = (\<lambda>s b. s @ b),
     sip_finish = (\<lambda>s. fold (\<lambda>x acc. acc * 257 + ucast x + 1) s 7) \<rparr>"

end
