(* ===== verification/ReplayFilter.thy ===== *)
theory ReplayFilter
  imports SipHash
begin

text \<open>
  \<^verbatim>\<open>crates/obfs4/src/common/replay_filter.rs\<close>: the filter that makes an obfs4 server
  answer a client handshake once. An \<^verbatim>\<open>Instant\<close> and a \<^verbatim>\<open>Duration\<close> are natural numbers of
  nanoseconds, \<^verbatim>\<open>saturating_duration_since\<close> is their truncating difference. The
  \<^verbatim>\<open>VecDeque\<close> is a list whose head is its front (the newest entry). The mutex around the
  filter serialises the calls and a poisoned lock is recovered, so the shared filter is
  the inner one. The random key is an argument of \<^verbatim>\<open>new\<close>.

  \<open>replay_guard\<close> is what the handshake relies on; it is interpreted on this filter below.
\<close>

section \<open>The filter\<close>

definition MAX_FILTER_SIZE :: nat where
  "MAX_FILTER_SIZE = 100 * 1024"

record entry =
  digest :: u64
  first_seen :: nat

record inner_replay_filter =
  filter_set :: "u64 set"
  fifo :: "entry list"
  rkey :: bytes
  ttl_limit :: nat
  max_cap :: nat
  latest_time :: "nat option"

definition inner_new :: "bytes \<Rightarrow> nat \<Rightarrow> nat \<Rightarrow> inner_replay_filter" where
  "inner_new key ttl cap =
     \<lparr> filter_set = {}, fifo = [], rkey = key, ttl_limit = ttl, max_cap = cap, latest_time = None \<rparr>"

definition evict_oldest :: "inner_replay_filter \<Rightarrow> inner_replay_filter" where
  "evict_oldest f =
     (if fifo f = [] then f
      else f \<lparr> fifo := butlast (fifo f),
               filter_set := filter_set f - {digest (last (fifo f))} \<rparr>)"

function garbage_collect :: "inner_replay_filter \<Rightarrow> nat \<Rightarrow> inner_replay_filter" where
  "garbage_collect f now =
     (if fifo f = [] then f
      else let e = last (fifo f);
               expired = (ttl_limit f = 0 \<or> now - first_seen e \<ge> ttl_limit f)
           in if \<not> expired then f else garbage_collect (evict_oldest f) now)"
  by pat_completeness auto
termination
  by (relation "measure (\<lambda>(f, _). length (fifo f))") (auto simp: evict_oldest_def)

text \<open>The loop that makes room; the caller has checked that the capacity is not zero.\<close>

function make_room :: "inner_replay_filter \<Rightarrow> inner_replay_filter" where
  "make_room f =
     (if fifo f \<noteq> [] \<and> length (fifo f) \<ge> max_cap f then make_room (evict_oldest f) else f)"
  by pat_completeness auto
termination
  by (relation "measure (\<lambda>f. length (fifo f))") (auto simp: evict_oldest_def)

declare garbage_collect.simps [simp del] make_room.simps [simp del]

definition inner_test_and_set ::
  "'s siphasher \<Rightarrow> inner_replay_filter \<Rightarrow> nat \<Rightarrow> bytes \<Rightarrow> bool \<times> inner_replay_filter" where
  "inner_test_and_set sip f now buf =
     (let now = (case latest_time f of
                   Some latest \<Rightarrow> if now < latest then latest else now
                 | None \<Rightarrow> now);
          f = f \<lparr> latest_time := Some now \<rparr>;
          f = garbage_collect f now;
          d = sip_digest sip (rkey f) buf
      in if d \<in> filter_set f then (True, f)
         else if max_cap f = 0 then (False, f)
         else let f = make_room f;
                  e = \<lparr> digest = d, first_seen = now \<rparr>;
                  f = f \<lparr> fifo := e # fifo f \<rparr>;
                  f = f \<lparr> filter_set := insert d (filter_set f) \<rparr>
              in (False, f))"

definition replay_filter_new :: "bytes \<Rightarrow> nat \<Rightarrow> inner_replay_filter" where
  "replay_filter_new key ttl = inner_new key ttl MAX_FILTER_SIZE"

definition test_and_set ::
  "'s siphasher \<Rightarrow> inner_replay_filter \<Rightarrow> nat \<Rightarrow> bytes \<Rightarrow> bool \<times> inner_replay_filter" where
  "test_and_set sip f now buf = inner_test_and_set sip f now buf"

text \<open>A sequence of calls, in the order in which they take the lock.\<close>

fun run_calls ::
  "('f \<Rightarrow> nat \<Rightarrow> bytes \<Rightarrow> bool \<times> 'f) \<Rightarrow> 'f \<Rightarrow> (nat \<times> bytes) list \<Rightarrow> 'f" where
  "run_calls tas f [] = f"
| "run_calls tas f ((now, buf) # cs) = run_calls tas (snd (tas f now buf)) cs"

definition filter_after ::
  "'s siphasher \<Rightarrow> bytes \<Rightarrow> nat \<Rightarrow> (nat \<times> bytes) list \<Rightarrow> inner_replay_filter" where
  "filter_after sip key ttl cs = run_calls (test_and_set sip) (replay_filter_new key ttl) cs"

section \<open>What the handshake relies on\<close>

text \<open>
  \<open>guards f b t n\<close>: before time \<open>t\<close>, and until \<open>n\<close> further calls have been made, the
  filter answers that \<open>b\<close> is a replay.
\<close>

locale replay_guard =
  fixes tas :: "'f \<Rightarrow> nat \<Rightarrow> bytes \<Rightarrow> bool \<times> 'f"
    and ok :: "'f \<Rightarrow> bool"
    and guards :: "'f \<Rightarrow> bytes \<Rightarrow> nat \<Rightarrow> nat \<Rightarrow> bool"
    and ttl :: "'f \<Rightarrow> nat"
    and cap :: "'f \<Rightarrow> nat"
  assumes ok_tas: "ok f \<Longrightarrow> ok (snd (tas f now b))"
    and accept_guards: "ok f \<Longrightarrow> tas f now b = (False, f') \<Longrightarrow> 0 < ttl f
          \<Longrightarrow> guards f' b (now + ttl f) (cap f)"
    and guards_step: "guards f b t (Suc n) \<Longrightarrow> now < t \<Longrightarrow> guards (snd (tas f now c)) b t n"
    and guards_rejects: "guards f b t (Suc n) \<Longrightarrow> now < t \<Longrightarrow> fst (tas f now b)"
begin

lemma guards_calls:
  assumes "guards f b t (length cs + n)" "\<forall>(now, c) \<in> set cs. now < t"
  shows "guards (run_calls tas f cs) b t n"
  using assms by (induction cs arbitrary: f) (auto simp: guards_step)

theorem no_second_acceptance:
  assumes "ok f" "tas f now b = (False, f')" "length cs < cap f"
    and "\<forall>(now', c) \<in> set cs. now' < now + ttl f" "later < now + ttl f" "0 < ttl f"
  shows "fst (tas (run_calls tas f' cs) later b)"
proof -
  from assms(3) obtain n where n: "cap f = length cs + Suc n"
    by (metis less_iff_Suc_add add_Suc_right)
  have "guards f' b (now + ttl f) (length cs + Suc n)"
    using accept_guards [OF assms(1,2,6)] n by simp
  then have "guards (run_calls tas f' cs) b (now + ttl f) (Suc n)"
    using assms(4) by (rule guards_calls)
  then show ?thesis using assms(5) by (rule guards_rejects)
qed

lemma ok_calls: "ok f \<Longrightarrow> ok (run_calls tas f cs)"
  by (induction cs arbitrary: f) (auto simp: ok_tas)

end

section \<open>Invariant\<close>

text \<open>
  The hash set holds exactly the digests of the queue, no digest is queued twice, the
  queue runs from newest to oldest, no entry is from the future and the capacity holds.
\<close>

definition filter_inv :: "inner_replay_filter \<Rightarrow> bool" where
  "filter_inv f \<longleftrightarrow>
     filter_set f = digest ` set (fifo f) \<and> distinct (map digest (fifo f))
     \<and> sorted_wrt (\<ge>) (map first_seen (fifo f)) \<and> length (fifo f) \<le> max_cap f
     \<and> (\<forall>e \<in> set (fifo f). \<exists>latest. latest_time f = Some latest \<and> first_seen e \<le> latest)"

definition expired_at :: "inner_replay_filter \<Rightarrow> nat \<Rightarrow> entry \<Rightarrow> bool" where
  "expired_at f now e \<longleftrightarrow> ttl_limit f = 0 \<or> now - first_seen e \<ge> ttl_limit f"

text \<open>The queue cut to a front part, the set with it: what every eviction does.\<close>

definition cut :: "inner_replay_filter \<Rightarrow> nat \<Rightarrow> inner_replay_filter" where
  "cut f k = f \<lparr> fifo := take k (fifo f), filter_set := digest ` set (take k (fifo f)) \<rparr>"

lemma cut_sel [simp]:
  "fifo (cut f k) = take k (fifo f)" "filter_set (cut f k) = digest ` set (take k (fifo f))"
  "rkey (cut f k) = rkey f" "ttl_limit (cut f k) = ttl_limit f" "max_cap (cut f k) = max_cap f"
  "latest_time (cut f k) = latest_time f"
  by (simp_all add: cut_def)

lemma cut_cut [simp]: "cut (cut f k) j = cut f (min j k)"
  by (simp add: cut_def min.commute)

lemma cut_id: "filter_inv f \<Longrightarrow> length (fifo f) \<le> k \<Longrightarrow> cut f k = f"
  by (simp add: cut_def filter_inv_def)

lemma filter_inv_cut [intro]:
  assumes "filter_inv f" shows "filter_inv (cut f k)"
proof -
  have "sorted_wrt (\<ge>) (map first_seen (take k (fifo f)))"
    using assms by (simp add: filter_inv_def sorted_wrt_take flip: take_map)
  moreover have "distinct (map digest (take k (fifo f)))"
    using assms by (simp add: filter_inv_def flip: take_map)
  ultimately show ?thesis using assms by (auto simp: filter_inv_def dest: in_set_takeD)
qed

lemma evict_oldest_cut:
  assumes "filter_inv f" shows "evict_oldest f = cut f (length (fifo f) - 1)"
proof (cases "fifo f = []")
  case True
  with assms show ?thesis by (simp add: evict_oldest_def cut_def filter_inv_def)
next
  case False
  then have e: "fifo f = butlast (fifo f) @ [last (fifo f)]" by simp
  then have "distinct (map digest (butlast (fifo f) @ [last (fifo f)]))"
    using assms by (simp add: filter_inv_def)
  then have "digest ` set (fifo f) - {digest (last (fifo f))} = digest ` set (butlast (fifo f))"
    by (subst e) auto
  with False assms show ?thesis
    by (simp add: evict_oldest_def cut_def filter_inv_def butlast_conv_take)
qed

lemma garbage_collect_cut:
  "filter_inv f \<Longrightarrow> garbage_collect f now =
     cut f (length (dropWhile (expired_at f now) (rev (fifo f))))"
proof (induction f now rule: garbage_collect.induct)
  case (1 f now)
  show ?case
  proof (cases "fifo f = []")
    case True
    with 1 show ?thesis by (simp add: garbage_collect.simps [of f] cut_id)
  next
    case False
    then obtain es e where es: "fifo f = es @ [e]" by (metis append_butlast_last_id)
    show ?thesis
    proof (cases "expired_at f now e")
      case True
      have "filter_inv (evict_oldest f)" using "1.prems" by (simp add: evict_oldest_cut filter_inv_cut)
      moreover have "fifo (evict_oldest f) = es" using False es by (simp add: evict_oldest_def)
      moreover have "expired_at (evict_oldest f) now = expired_at f now"
        by (auto simp: expired_at_def evict_oldest_def)
      ultimately have "garbage_collect (evict_oldest f) now =
          cut (evict_oldest f) (length (dropWhile (expired_at f now) (rev es)))"
        using "1.IH" False True es expired_at_def [of f now e] by simp
      then show ?thesis
        using True es "1.prems" length_dropWhile_le [of "expired_at f now" "rev es"]
        by (auto simp: garbage_collect.simps [of f] expired_at_def [of f now e] evict_oldest_cut
            min_def)
    next
      case live: False
      with es "1.prems" show ?thesis
        by (simp add: garbage_collect.simps [of f] expired_at_def cut_id)
    qed
  qed
qed

lemma make_room_cut:
  "filter_inv f \<Longrightarrow> 0 < max_cap f \<Longrightarrow> make_room f = cut f (max_cap f - 1)"
proof (induction f rule: make_room.induct)
  case (1 f)
  show ?case
  proof (cases "fifo f \<noteq> [] \<and> length (fifo f) \<ge> max_cap f")
    case True
    then have "length (fifo f) = max_cap f" using "1.prems" by (simp add: filter_inv_def)
    then show ?thesis
      using True "1.IH" "1.prems"
      by (simp add: make_room.simps [of f] evict_oldest_cut filter_inv_cut)
  next
    case False
    with "1.prems" show ?thesis by (auto simp: make_room.simps [of f] cut_id)
  qed
qed

text \<open>The entries still alive are a front part of the queue.\<close>

lemma dropWhile_rev_live:
  assumes "sorted_wrt (\<ge>) (map first_seen es)"
  shows "take (length (dropWhile (expired_at f now) (rev es))) es = filter (\<lambda>e. \<not> expired_at f now e) es"
  using assms
proof (induction es rule: rev_induct)
  case (snoc e es)
  show ?case
  proof (cases "expired_at f now e")
    case True
    with snoc show ?thesis
      using length_dropWhile_le [of "expired_at f now" "rev es"]
      by (auto simp: sorted_wrt_append)
  next
    case False
    then have "\<forall>x \<in> set es. \<not> expired_at f now x"
      using snoc.prems by (auto simp: sorted_wrt_append expired_at_def)
    with False show ?thesis by simp
  qed
qed simp

lemma gc_fifo:
  assumes "filter_inv f"
  shows "fifo (garbage_collect f now) = filter (\<lambda>e. \<not> expired_at f now e) (fifo f)"
    and "filter_inv (garbage_collect f now)"
  using assms dropWhile_rev_live [of "fifo f" f now]
  by (auto simp: garbage_collect_cut filter_inv_def [of f])

lemma gc_sel [simp]:
  "rkey (garbage_collect f now) = rkey f" "ttl_limit (garbage_collect f now) = ttl_limit f"
  "max_cap (garbage_collect f now) = max_cap f" "latest_time (garbage_collect f now) = latest_time f"
  by (induction f now rule: garbage_collect.induct;
      subst garbage_collect.simps; simp add: Let_def; simp add: evict_oldest_def)+

definition clamp :: "inner_replay_filter \<Rightarrow> nat \<Rightarrow> nat" where
  "clamp f now = (case latest_time f of None \<Rightarrow> now | Some latest \<Rightarrow> max now latest)"

text \<open>The filter at the moment it looks the digest up.\<close>

definition collected :: "inner_replay_filter \<Rightarrow> nat \<Rightarrow> inner_replay_filter" where
  "collected f now = garbage_collect (f \<lparr> latest_time := Some (clamp f now) \<rparr>) (clamp f now)"

lemma filter_inv_latest:
  "filter_inv f \<Longrightarrow> filter_inv (f \<lparr> latest_time := Some (clamp f now) \<rparr>)"
  by (fastforce simp: filter_inv_def clamp_def max_def split: option.splits)

lemma collected_sel [simp]:
  "rkey (collected f now) = rkey f" "ttl_limit (collected f now) = ttl_limit f"
  "max_cap (collected f now) = max_cap f" "latest_time (collected f now) = Some (clamp f now)"
  by (simp_all add: collected_def)

lemma collected_inv:
  assumes "filter_inv f"
  shows "filter_inv (collected f now)"
    and "fifo (collected f now) = filter (\<lambda>e. \<not> expired_at f (clamp f now) e) (fifo f)"
  using gc_fifo [OF filter_inv_latest [OF assms, of now], of "clamp f now"]
  by (simp_all add: collected_def expired_at_def)

lemma inner_test_and_set_eq:
  assumes "filter_inv f"
  shows "inner_test_and_set sip f now buf =
    (let g = collected f now; d = sip_digest sip (rkey f) buf
     in if d \<in> digest ` set (fifo g) then (True, g)
        else if max_cap f = 0 then (False, g)
        else (False, g \<lparr> fifo := \<lparr> digest = d, first_seen = clamp f now \<rparr> # take (max_cap f - 1) (fifo g),
                         filter_set := insert d (digest ` set (take (max_cap f - 1) (fifo g))) \<rparr>))"
proof -
  have c: "(case latest_time f of Some latest \<Rightarrow> if now < latest then latest else now | None \<Rightarrow> now)
             = clamp f now"
    by (auto simp: clamp_def max_def split: option.splits)
  have "filter_set (collected f now) = digest ` set (fifo (collected f now))"
    using collected_inv(1) [OF assms] by (simp add: filter_inv_def)
  then show ?thesis
    using collected_inv(1) [OF assms, of now]
    by (simp add: inner_test_and_set_def c Let_def make_room_cut cut_def flip: collected_def)
qed

lemma filter_inv_test_and_set:
  assumes "filter_inv f" shows "filter_inv (snd (inner_test_and_set sip f now buf))"
proof -
  note g = collected_inv [OF assms, of now]
  have le: "first_seen e \<le> clamp f now" if "e \<in> set (fifo f)" for e
    using assms that by (fastforce simp: filter_inv_def clamp_def)
  have "filter_inv (cut (collected f now) (max_cap f - 1))" using g(1) by blast
  with g le show ?thesis
    by (auto simp: inner_test_and_set_eq [OF assms] Let_def filter_inv_def
        dest: in_set_takeD)
qed

lemma test_and_set_sel [simp]:
  assumes "filter_inv f"
  shows "rkey (snd (inner_test_and_set sip f now buf)) = rkey f"
    "ttl_limit (snd (inner_test_and_set sip f now buf)) = ttl_limit f"
    "max_cap (snd (inner_test_and_set sip f now buf)) = max_cap f"
    "latest_time (snd (inner_test_and_set sip f now buf)) = Some (clamp f now)"
  by (simp_all add: inner_test_and_set_eq [OF assms] Let_def)

section \<open>The filter is a replay guard\<close>

text \<open>
  \<open>n\<close> more calls can push the entry of \<open>b\<close> no further than the capacity, and it is not
  expired before \<open>t\<close>.
\<close>

definition filter_guards ::
  "'s siphasher \<Rightarrow> inner_replay_filter \<Rightarrow> bytes \<Rightarrow> nat \<Rightarrow> nat \<Rightarrow> bool" where
  "filter_guards sip f b t n \<longleftrightarrow> filter_inv f \<and>
     (n = 0 \<or> (\<exists>i < length (fifo f).
        digest (fifo f ! i) = sip_digest sip (rkey f) b
        \<and> t \<le> first_seen (fifo f ! i) + ttl_limit f
        \<and> (\<exists>l. latest_time f = Some l \<and> l < first_seen (fifo f ! i) + ttl_limit f)
        \<and> i + n \<le> max_cap f))"

lemma filter_guardsI:
  assumes "filter_inv f"
    and "0 < n \<Longrightarrow> i < length (fifo f) \<and> digest (fifo f ! i) = sip_digest sip (rkey f) b
        \<and> t \<le> first_seen (fifo f ! i) + ttl_limit f \<and> latest_time f = Some l
        \<and> l < first_seen (fifo f ! i) + ttl_limit f \<and> i + n \<le> max_cap f"
  shows "filter_guards sip f b t n"
  using assms by (auto simp: filter_guards_def)

lemma collected_nth:
  assumes "filter_inv f" "i < length (fifo f)" "\<not> expired_at f (clamp f now) (fifo f ! i)"
  shows "i < length (fifo (collected f now)) \<and> fifo (collected f now) ! i = fifo f ! i"
proof -
  let ?P = "\<lambda>e. \<not> expired_at f (clamp f now) e"
  have "first_seen (fifo f ! i) \<le> first_seen (fifo f ! j)" if "j \<le> i" for j
    using assms(1,2) that sorted_wrt_nth_less [of "(\<ge>)" "map first_seen (fifo f)" j i]
    by (cases "j = i") (auto simp: filter_inv_def)
  then have "?P (fifo f ! j)" if "j \<le> i" for j
    using assms(3) that by (fastforce simp: expired_at_def)
  then have "\<forall>e \<in> set (take (Suc i) (fifo f)). ?P e"
    by (auto simp: in_set_conv_nth)
  then have "filter ?P (take (Suc i) (fifo f)) = take (Suc i) (fifo f)" by (simp add: filter_id_conv)
  then have "fifo (collected f now) = take (Suc i) (fifo f) @ filter ?P (drop (Suc i) (fifo f))"
    using collected_inv(2) [OF assms(1)] by (metis append_take_drop_id filter_append)
  with assms(2) show ?thesis by (simp add: nth_append)
qed

lemma guards_entry:
  assumes "filter_guards sip f b t (Suc n)" "now < t"
  obtains i where "i < length (fifo (collected f now))"
    "digest (fifo (collected f now) ! i) = sip_digest sip (rkey f) b"
    "t \<le> first_seen (fifo (collected f now) ! i) + ttl_limit f"
    "clamp f now < first_seen (fifo (collected f now) ! i) + ttl_limit f"
    "i + Suc n \<le> max_cap f" "filter_inv f"
proof -
  from assms obtain i l where i: "i < length (fifo f)"
      "digest (fifo f ! i) = sip_digest sip (rkey f) b"
      "t \<le> first_seen (fifo f ! i) + ttl_limit f" "latest_time f = Some l"
      "l < first_seen (fifo f ! i) + ttl_limit f" "i + Suc n \<le> max_cap f" and inv: "filter_inv f"
    by (auto simp: filter_guards_def)
  have c: "clamp f now < first_seen (fifo f ! i) + ttl_limit f"
    using i assms(2) by (simp add: clamp_def)
  have "first_seen (fifo f ! i) \<le> l" using inv i by (fastforce simp: filter_inv_def)
  with i have "ttl_limit f \<noteq> 0" by simp
  with c have "\<not> expired_at f (clamp f now) (fifo f ! i)" by (auto simp: expired_at_def)
  from collected_nth [OF inv i(1) this] i c inv that [of i] show ?thesis by simp
qed

interpretation obfs4_replay: replay_guard "inner_test_and_set sip" filter_inv
    "filter_guards sip" ttl_limit max_cap
  for sip :: "'s siphasher"
proof
  fix f :: inner_replay_filter and now b f' t n c
  show "filter_inv f \<Longrightarrow> filter_inv (snd (inner_test_and_set sip f now b))"
    by (rule filter_inv_test_and_set)
  show "filter_guards sip f' b (now + ttl_limit f) (max_cap f)"
    if "filter_inv f" "inner_test_and_set sip f now b = (False, f')" "0 < ttl_limit f"
  proof -
    have c: "now \<le> clamp f now" by (simp add: clamp_def split: option.splits)
    from that filter_inv_test_and_set [of f sip now b] c show ?thesis
      by (intro filter_guardsI [where i = 0 and l = "clamp f now"])
        (auto simp: inner_test_and_set_eq Let_def split: if_splits)
  qed
  show "fst (inner_test_and_set sip f now b)" if g: "filter_guards sip f b t (Suc n)" "now < t"
    using g
  proof (rule guards_entry)
    fix i
    assume "i < length (fifo (collected f now))" "filter_inv f"
      "digest (fifo (collected f now) ! i) = sip_digest sip (rkey f) b"
    then have "sip_digest sip (rkey f) b \<in> digest ` set (fifo (collected f now))" "filter_inv f"
      by (metis nth_mem imageI)+
    then show ?thesis by (simp add: inner_test_and_set_eq Let_def)
  qed
  show "filter_guards sip (snd (inner_test_and_set sip f now c)) b t n"
    if g: "filter_guards sip f b t (Suc n)" "now < t"
    using g
  proof (rule guards_entry)
    fix i
    assume i: "i < length (fifo (collected f now))"
      "digest (fifo (collected f now) ! i) = sip_digest sip (rkey f) b"
      "t \<le> first_seen (fifo (collected f now) ! i) + ttl_limit f"
      "clamp f now < first_seen (fifo (collected f now) ! i) + ttl_limit f"
      "i + Suc n \<le> max_cap f" "filter_inv f"
    show ?thesis
    proof (cases "n = 0 \<or> sip_digest sip (rkey f) c \<in> digest ` set (fifo (collected f now))")
      case True
      with i filter_inv_test_and_set [OF i(6), of sip now c] show ?thesis
        by (intro filter_guardsI [where i = i and l = "clamp f now"])
          (auto simp: inner_test_and_set_eq Let_def)
    next
      case False
      with i have "Suc i < max_cap f" by simp
      with False i filter_inv_test_and_set [OF i(6), of sip now c] show ?thesis
        by (intro filter_guardsI [where i = "Suc i" and l = "clamp f now"])
          (auto simp: inner_test_and_set_eq Let_def)
    qed
  qed
qed

section \<open>Properties\<close>

lemma filter_inv_new [simp]: "filter_inv (inner_new key ttl cap)"
  by (simp add: filter_inv_def inner_new_def)

lemma inner_new_sel [simp]:
  "fifo (inner_new key ttl cap) = []" "ttl_limit (inner_new key ttl cap) = ttl"
  "max_cap (inner_new key ttl cap) = cap" "rkey (inner_new key ttl cap) = key"
  "latest_time (inner_new key ttl cap) = None"
  by (simp_all add: inner_new_def)

lemma first_message_accepted [simp]:
  "\<not> fst (inner_test_and_set sip (inner_new key ttl cap) now buf)"
  by (simp add: inner_test_and_set_eq Let_def collected_inv(2))

lemma filter_inv_calls: "filter_inv (run_calls (inner_test_and_set sip) (inner_new key ttl cap) cs)"
  by (simp add: obfs4_replay.ok_calls)

lemma test_and_set_inner [simp]: "test_and_set sip = inner_test_and_set sip"
  by (intro ext) (simp add: test_and_set_def)

lemma max_cap_calls [simp]:
  "filter_inv f \<Longrightarrow> max_cap (run_calls (inner_test_and_set sip) f cs) = max_cap f"
  "filter_inv f \<Longrightarrow> ttl_limit (run_calls (inner_test_and_set sip) f cs) = ttl_limit f"
  by (induction cs arbitrary: f) (auto simp: filter_inv_test_and_set)

text \<open>
  C7. A handshake is accepted once: after the filter has let \<open>buf\<close> through at time \<open>now\<close>,
  in any state that a sequence of calls reaches, it answers ``replay'' for \<open>buf\<close> at every
  later call made before the time to live has passed since \<open>now\<close>, whatever calls come in
  between, in whatever order of their timestamps, as long as there are fewer of them than
  the capacity of 102,400 entries.
\<close>

theorem replay_detected:
  assumes "test_and_set sip (filter_after sip key ttl hist) now buf = (False, f)"
    and "0 < ttl" "length cs < MAX_FILTER_SIZE"
    and "\<forall>(t, c) \<in> set cs. t < now + ttl" "later < now + ttl"
  shows "fst (test_and_set sip (run_calls (test_and_set sip) f cs) later buf)"
  using obfs4_replay.no_second_acceptance
    [of "run_calls (inner_test_and_set sip) (inner_new key ttl MAX_FILTER_SIZE) hist" sip now buf f cs later]
    assms by (simp add: filter_after_def replay_filter_new_def filter_inv_calls)

theorem replay_detected_witness:
  "fst (test_and_set sum_hasher (run_calls (test_and_set sum_hasher)
     (snd (test_and_set sum_hasher (replay_filter_new [1, 2] 100) 5 [9, 9])) [(50, [1]), (7, [2, 3])])
     104 [9, 9])"
  by (rule replay_detected [where hist = "[]" and now = 5 and ttl = 100 and key = "[1, 2]"
        and f = "snd (test_and_set sum_hasher (replay_filter_new [1, 2] 100) 5 [9, 9])"])
    (simp_all add: prod_eq_iff filter_after_def replay_filter_new_def MAX_FILTER_SIZE_def)

text \<open>
  C32. The filter stays consistent and bounded: after any sequence of calls the hash set
  holds exactly the queued digests, none twice, the queue is ordered by age, and neither
  holds more than 102,400 entries.
\<close>

theorem replay_filter_bounded:
  "filter_inv (filter_after sip key ttl cs) \<and> length (fifo (filter_after sip key ttl cs)) \<le> 102400
   \<and> card (filter_set (filter_after sip key ttl cs)) = length (fifo (filter_after sip key ttl cs))"
proof -
  let ?f = "run_calls (inner_test_and_set sip) (inner_new key ttl MAX_FILTER_SIZE) cs"
  have inv: "filter_inv ?f" by (rule filter_inv_calls)
  moreover from inv have "length (fifo ?f) \<le> max_cap ?f" by (simp add: filter_inv_def)
  moreover from inv have "card (filter_set ?f) = length (map digest (fifo ?f))"
    by (simp add: filter_inv_def distinct_card flip: set_map)
  ultimately show ?thesis
    by (simp add: filter_after_def replay_filter_new_def) (simp add: MAX_FILTER_SIZE_def)
qed

text \<open>
  The specification: what was first seen when, entries older than the time to live
  forgotten; a message is new when its digest is not among those left.
\<close>

definition seen :: "inner_replay_filter \<Rightarrow> u64 \<rightharpoonup> nat" where
  "seen f = map_of (map (\<lambda>e. (digest e, first_seen e)) (fifo f))"

definition forget :: "nat \<Rightarrow> nat \<Rightarrow> (u64 \<rightharpoonup> nat) \<Rightarrow> (u64 \<rightharpoonup> nat)" where
  "forget ttl now m = (\<lambda>d. case m d of None \<Rightarrow> None | Some t \<Rightarrow> if now < t + ttl then Some t else None)"

definition spec_test_and_set ::
  "nat \<Rightarrow> nat \<Rightarrow> u64 \<Rightarrow> (u64 \<rightharpoonup> nat) \<Rightarrow> bool \<times> (u64 \<rightharpoonup> nat)" where
  "spec_test_and_set ttl now d m =
     (let m = forget ttl now m in if d \<in> dom m then (True, m) else (False, m(d \<mapsto> now)))"

lemma map_of_filter_distinct:
  "distinct (map fst xs) \<Longrightarrow>
   map_of (filter (\<lambda>p. P (snd p)) xs) k = (case map_of xs k of None \<Rightarrow> None | Some v \<Rightarrow> if P v then Some v else None)"
  by (induction xs) (auto split: option.splits simp: map_of_eq_None_iff image_iff)

lemma seen_collected:
  assumes "filter_inv f"
  shows "seen (collected f now) = forget (ttl_limit f) (clamp f now) (seen f)"
proof -
  let ?xs = "map (\<lambda>e. (digest e, first_seen e)) (fifo f)"
  let ?P = "\<lambda>t. clamp f now < t + ttl_limit f"
  have "\<not> expired_at f (clamp f now) e \<longleftrightarrow> ?P (first_seen e)" if "e \<in> set (fifo f)" for e
    using assms that by (fastforce simp: expired_at_def filter_inv_def clamp_def)
  then have "fifo (collected f now) = filter (\<lambda>e. ?P (first_seen e)) (fifo f)"
    using collected_inv(2) [OF assms] by (simp cong: filter_cong)
  then have "seen (collected f now) = map_of (filter (\<lambda>p. ?P (snd p)) ?xs)"
    by (simp add: seen_def filter_map comp_def)
  moreover have "distinct (map fst ?xs)" using assms by (simp add: filter_inv_def comp_def)
  ultimately show ?thesis
    using map_of_filter_distinct [of ?xs ?P] by (intro ext) (simp add: seen_def forget_def)
qed

text \<open>
  C33. While the live entries leave room, one call of the filter is one step of the
  specification on the clamped clock: it answers ``replay'' exactly when the digest was
  seen less than the time to live ago, and what it then remembers is what the
  specification remembers.
\<close>

theorem test_and_set_refines:
  assumes "filter_inv f" "length (fifo (collected f now)) < max_cap f"
  shows "(case test_and_set sip f now buf of (r, f') \<Rightarrow> (r, seen f')) =
     spec_test_and_set (ttl_limit f) (clamp f now) (sip_digest sip (rkey f) buf) (seen f)"
proof -
  have "dom (seen (collected f now)) = digest ` set (fifo (collected f now))"
    by (force simp: seen_def dom_map_of_conv_image_fst image_image)
  with assms seen_collected [OF assms(1), of now] show ?thesis
    by (auto simp: inner_test_and_set_eq spec_test_and_set_def Let_def seen_def)
qed

theorem test_and_set_refines_witness:
  "(case test_and_set sum_hasher (inner_new [] 10 2) 3 [5] of (r, f') \<Rightarrow> (r, seen f')) =
   spec_test_and_set 10 3 (sip_digest sum_hasher [] [5]) (seen (inner_new [] 10 2))"
  using test_and_set_refines [of "inner_new [] 10 2" 3 sum_hasher "[5]"]
  by (simp add: collected_inv(2) clamp_def)

end
