(* ===== verification/Drbg.thy ===== *)
theory Drbg
  imports SipHash Errors
begin

text \<open>
  \<^verbatim>\<open>crates/obfs4/src/common/drbg.rs\<close>: the SipHash generator in output-feedback mode that
  masks frame lengths and drives the padding distribution. A \<^verbatim>\<open>Seed\<close> is its 24 bytes. The
  operating system's random source and the \<^verbatim>\<open>hex\<close> crate are arguments.
\<close>

definition SIZE :: nat where
  [const_simps]: "SIZE = 8"

definition SEED_LENGTH :: nat where
  [const_simps]: "SEED_LENGTH = 16 + SIZE"

type_synonym seed = bytes

definition seed_wf :: "seed \<Rightarrow> bool" where
  "seed_wf s \<longleftrightarrow> length s = SEED_LENGTH"

definition seed_new :: "string + bytes \<Rightarrow> obfs4_error + seed" where
  "seed_new os_random = map_err RngSourceErr os_random"

definition to_pieces :: "seed \<Rightarrow> bytes \<times> bytes" where
  "to_pieces s = (take 16 s, drop 16 s)"

definition seed_from_hex :: "(string \<Rightarrow> string + bytes) \<Rightarrow> string \<Rightarrow> obfs4_error + seed" where
  "seed_from_hex hex msg = map_err EncodeError (hex msg)"

definition seed_try_from :: "bytes \<Rightarrow> obfs4_error + seed" where
  "seed_try_from arr =
     (if length arr \<noteq> SEED_LENGTH
      then Inl (EOther (''incorrect drbg seed length '' @ show_nat (length arr) @ ''!=''
                        @ show_nat SEED_LENGTH))
      else Inr arr)"

definition seed_display :: "(bytes \<Rightarrow> string) \<Rightarrow> seed \<Rightarrow> string" where
  "seed_display hex_encode s = hex_encode s"

record 's drbg =
  hash :: 's
  ofb :: bytes

definition to_new_drbg :: "'s siphasher \<Rightarrow> seed \<Rightarrow> 's drbg" where
  "to_new_drbg sip s =
     (let (key, ofb) = to_pieces s in \<lparr> hash = sip_new_with_key sip key, ofb = ofb \<rparr>)"

definition drbg_new :: "'s siphasher \<Rightarrow> string + bytes \<Rightarrow> seed option \<Rightarrow> obfs4_error + 's drbg" where
  "drbg_new sip os_random seed_in =
     bindr (case seed_in of Some s \<Rightarrow> Inr s | None \<Rightarrow> seed_new os_random)
       (\<lambda>s. Inr (to_new_drbg sip s))"

definition uint64 :: "'s siphasher \<Rightarrow> 's drbg \<Rightarrow> u64 \<times> 's drbg" where
  "uint64 sip d =
     (let h = sip_write sip (hash d) (ofb d);
          ret = swap_bytes (sip_finish sip h)
      in (ret, d \<lparr> hash := h, ofb := be64 ret \<rparr>))"

definition length_mask :: "'s siphasher \<Rightarrow> 's drbg \<Rightarrow> u16 \<times> 's drbg" where
  "length_mask sip d =
     (let h = sip_write sip (hash d) (ofb d);
          ret = swap_bytes (sip_finish sip h)
      in (ucast (drop_bit 48 ret), d \<lparr> hash := h, ofb := be64 ret \<rparr>))"

text \<open>An \<^verbatim>\<open>i64\<close> that cannot be negative is kept as its word.\<close>

definition int63 :: "'s siphasher \<Rightarrow> 's drbg \<Rightarrow> u64 \<times> 's drbg" where
  "int63 sip d = (let (ret, d) = uint64 sip d in (ret AND mask 63, d))"

definition next_block :: "'s siphasher \<Rightarrow> 's drbg \<Rightarrow> bytes \<times> 's drbg" where
  "next_block sip d = (let (h, d) = uint64 sip d in (be64 h, d))"

definition next_u64 :: "'s siphasher \<Rightarrow> 's drbg \<Rightarrow> u64 \<times> 's drbg" where
  "next_u64 sip d = uint64 sip d"

definition next_u32 :: "'s siphasher \<Rightarrow> 's drbg \<Rightarrow> 32 word \<times> 's drbg" where
  "next_u32 sip d = (let (h, d) = next_u64 sip d in (ucast h, d))"

section \<open>Facts\<close>

text \<open>The mask is the first two bytes of the block the generator moves to.\<close>

lemma length_mask_uint64:
  "length_mask sip d = (ucast (drop_bit 48 (fst (uint64 sip d))), snd (uint64 sip d))"
  by (simp add: length_mask_def uint64_def Let_def)

lemma length_mask_block: "be16 (fst (length_mask sip d)) = take 2 (fst (next_block sip d))"
proof -
  have "be16 (ucast (drop_bit 48 w)) = take 2 (be64 w)" for w :: u64
    by (auto simp: be16_def be64_def upt_rec bit_simps intro!: bit_word_eqI)
  then show ?thesis by (simp add: length_mask_uint64 next_block_def case_prod_beta)
qed

lemma int63_bound: "unat (fst (int63 sip d)) < 2 ^ 63"
proof -
  have "unat (w AND mask 63 :: u64) < 2 ^ 63" for w
    using take_bit_nat_less_exp [of 63 "unat w"]
    by (simp add: unsigned_take_bit_eq flip: take_bit_eq_mask)
  then show ?thesis by (simp add: int63_def case_prod_beta)
qed

end
