(* ===== verification/Framing.thy ===== *)
theory Framing
  imports Drbg
begin

text \<open>
  The packets inside obfs4 frames: the constants of \<^verbatim>\<open>framing/mod.rs\<close>,
  \<^verbatim>\<open>framing/messages_base.rs\<close> (\<^verbatim>\<open>build_and_marshall\<close>), \<^verbatim>\<open>framing/messages_v1/mod.rs\<close>
  (\<^verbatim>\<open>MessageTypes\<close>, \<^verbatim>\<open>Messages\<close>) and the two zero-copy buffers of \<^verbatim>\<open>framing/codecs.rs\<close>.

  \<open>byte_source\<close> is the contract of the \<^verbatim>\<open>Buf\<close> trait that the encoder relies on when it
  copies a plaintext; both frame buffers satisfy it.
\<close>

section \<open>Constants\<close>

definition TAG_SIZE :: nat where [const_simps]: "TAG_SIZE = 16"
definition LENGTH_LENGTH :: nat where [const_simps]: "LENGTH_LENGTH = 2"
definition KEY_LENGTH :: nat where [const_simps]: "KEY_LENGTH = 32"
definition NONCE_PREFIX_LENGTH :: nat where [const_simps]: "NONCE_PREFIX_LENGTH = 16"
definition MAX_SEGMENT_LENGTH :: nat where [const_simps]: "MAX_SEGMENT_LENGTH = 1500 - (40 + 12)"
definition SECRET_BOX_OVERHEAD :: nat where [const_simps]: "SECRET_BOX_OVERHEAD = TAG_SIZE"
definition FRAME_OVERHEAD :: nat where [const_simps]: "FRAME_OVERHEAD = LENGTH_LENGTH + SECRET_BOX_OVERHEAD"
definition MAX_FRAME_PAYLOAD_LENGTH :: nat where
  [const_simps]: "MAX_FRAME_PAYLOAD_LENGTH = MAX_SEGMENT_LENGTH - FRAME_OVERHEAD"
definition MESSAGE_OVERHEAD :: nat where [const_simps]: "MESSAGE_OVERHEAD = 2 + 1"
definition MAX_MESSAGE_PAYLOAD_LENGTH :: nat where
  [const_simps]: "MAX_MESSAGE_PAYLOAD_LENGTH = MAX_FRAME_PAYLOAD_LENGTH - MESSAGE_OVERHEAD"
definition MAX_FRAME_LENGTH :: nat where [const_simps]: "MAX_FRAME_LENGTH = MAX_SEGMENT_LENGTH - LENGTH_LENGTH"
definition MIN_FRAME_LENGTH :: nat where [const_simps]: "MIN_FRAME_LENGTH = FRAME_OVERHEAD - LENGTH_LENGTH"
definition KEY_MATERIAL_LENGTH :: nat where
  [const_simps]: "KEY_MATERIAL_LENGTH = KEY_LENGTH + NONCE_PREFIX_LENGTH + SEED_LENGTH"

section \<open>Messages\<close>

datatype message_types = MTPayload | MTPrngSeed

fun message_type_byte :: "message_types \<Rightarrow> u8" where
  "message_type_byte MTPayload = 0x00"
| "message_type_byte MTPrngSeed = 0x01"

definition message_type_try_from :: "u8 \<Rightarrow> frame_error + message_types" where
  "message_type_try_from value =
     (if value = 0x00 then Inr MTPayload
      else if value = 0x01 then Inr MTPrngSeed
      else Inl (UnknownMessageType value))"

datatype messages = Payload bytes | PrngSeed bytes | Padding nat

fun as_pt :: "messages \<Rightarrow> message_types" where
  "as_pt (Payload _) = MTPayload"
| "as_pt (PrngSeed _) = MTPrngSeed"
| "as_pt (Padding _) = MTPayload"

text \<open>
  \<^verbatim>\<open>checked_add\<close> on \<^verbatim>\<open>usize\<close>: a buffer is never long enough for it to fail after the
  check of the padding length, so the addition is that of the naturals.
\<close>

definition build_and_marshall :: "bytes \<Rightarrow> u8 \<Rightarrow> bytes \<Rightarrow> nat \<Rightarrow> frame_error + bytes" where
  "build_and_marshall dst pt data pad_len =
     (if pad_len > 65535 then Inl (InvalidPayloadLength pad_len)
      else let total_size = length data + pad_len in
        if total_size > MAX_MESSAGE_PAYLOAD_LENGTH then Inl (InvalidPayloadLength total_size)
        else Inr (dst @ [pt] @ be16 (of_nat (length data)) @ data
                  @ (if pad_len \<noteq> 0 then replicate pad_len 0 else [])))"

fun messages_marshall :: "messages \<Rightarrow> bytes \<Rightarrow> frame_error + bytes" where
  "messages_marshall (Payload b) dst = build_and_marshall dst (message_type_byte (as_pt (Payload b))) b 0"
| "messages_marshall (PrngSeed b) dst = build_and_marshall dst (message_type_byte (as_pt (PrngSeed b))) b 0"
| "messages_marshall (Padding n) dst = build_and_marshall dst (message_type_byte (as_pt (Padding n))) [] n"

text \<open>The parsed message and what is left in the buffer.\<close>

definition try_parse :: "bytes \<Rightarrow> frame_error + (messages \<times> bytes)" where
  "try_parse buf =
     (if length buf < MESSAGE_OVERHEAD then Inl InvalidMessage
      else bindr (message_type_try_from (buf ! 0)) (\<lambda>pt.
        let len = unat (rd16 (buf ! 1) (buf ! 2));
            buf = drop 3 buf
        in case pt of
             MTPayload \<Rightarrow>
               if len = 0 then Inr (Padding (length buf), [])
               else if length buf < len then Inl InvalidMessage
               else Inr (Payload (take len buf), drop len buf)
           | MTPrngSeed \<Rightarrow>
               if len \<noteq> SEED_LENGTH then Inl InvalidMessage
               else if length buf < len then Inl InvalidMessage
               else Inr (PrngSeed (take SEED_LENGTH buf), drop SEED_LENGTH buf)))"

section \<open>Zero-copy frame buffers\<close>

record payload_frame =
  pf_header :: bytes
  pf_header_pos :: nat
  pf_payload :: bytes
  pf_payload_pos :: nat

definition payload_frame_new :: "bytes \<Rightarrow> payload_frame" where
  "payload_frame_new payload =
     \<lparr> pf_header = [0, of_nat (length payload div 256), of_nat (length payload)],
       pf_header_pos = 0, pf_payload = payload, pf_payload_pos = 0 \<rparr>"

definition pf_remaining :: "payload_frame \<Rightarrow> nat" where
  "pf_remaining f = (MESSAGE_OVERHEAD - pf_header_pos f) + (length (pf_payload f) - pf_payload_pos f)"

definition pf_chunk :: "payload_frame \<Rightarrow> bytes" where
  "pf_chunk f =
     (if pf_header_pos f < MESSAGE_OVERHEAD then drop (pf_header_pos f) (pf_header f)
      else drop (pf_payload_pos f) (pf_payload f))"

text \<open>\<^verbatim>\<open>advance\<close> panics when it is asked for more than remains: \<^term>\<open>None\<close>.\<close>

definition pf_advance :: "nat \<Rightarrow> payload_frame \<Rightarrow> payload_frame option" where
  "pf_advance count f =
     (if count > pf_remaining f then None
      else let header_remaining = MESSAGE_OVERHEAD - pf_header_pos f in
        if count < header_remaining then Some (f \<lparr> pf_header_pos := pf_header_pos f + count \<rparr>)
        else Some (f \<lparr> pf_header_pos := MESSAGE_OVERHEAD,
                       pf_payload_pos := pf_payload_pos f + (count - header_remaining) \<rparr>))"

record padding_frame =
  pd_header_pos :: nat
  padding_len :: nat
  padding_pos :: nat

definition padding_frame_new :: "nat \<Rightarrow> padding_frame" where
  "padding_frame_new n = \<lparr> pd_header_pos = 0, padding_len = n, padding_pos = 0 \<rparr>"

definition pd_remaining :: "padding_frame \<Rightarrow> nat" where
  "pd_remaining f = (MESSAGE_OVERHEAD - pd_header_pos f) + (padding_len f - padding_pos f)"

definition pd_chunk :: "padding_frame \<Rightarrow> bytes" where
  "pd_chunk f =
     (if pd_header_pos f < MESSAGE_OVERHEAD then drop (pd_header_pos f) (replicate MESSAGE_OVERHEAD 0)
      else take (min (padding_len f - padding_pos f) MAX_MESSAGE_PAYLOAD_LENGTH)
             (replicate MAX_MESSAGE_PAYLOAD_LENGTH 0))"

definition pd_advance :: "nat \<Rightarrow> padding_frame \<Rightarrow> padding_frame option" where
  "pd_advance count f =
     (if count > pd_remaining f then None
      else let header_remaining = MESSAGE_OVERHEAD - pd_header_pos f in
        if count < header_remaining then Some (f \<lparr> pd_header_pos := pd_header_pos f + count \<rparr>)
        else Some (f \<lparr> pd_header_pos := MESSAGE_OVERHEAD,
                       padding_pos := padding_pos f + (count - header_remaining) \<rparr>))"

text \<open>
  \<^verbatim>\<open>BufMut::put\<close>: copy the current chunk, advance by its length, until nothing remains.
  A source whose chunk is empty although bytes remain would be copied for ever, so the loop is
  partial; \<^term>\<open>None\<close> is a panic or not ending.
\<close>

partial_function (option) buf_put ::
  "('b \<Rightarrow> nat) \<Rightarrow> ('b \<Rightarrow> bytes) \<Rightarrow> (nat \<Rightarrow> 'b \<Rightarrow> 'b option) \<Rightarrow> 'b \<Rightarrow> bytes \<Rightarrow> bytes option" where
  [code]: "buf_put rem chunk adv b dst =
     (if rem b = 0 then Some dst
      else case adv (length (chunk b)) b of
             None \<Rightarrow> None
           | Some b' \<Rightarrow> buf_put rem chunk adv b' (dst @ chunk b))"

section \<open>Facts on messages\<close>

lemmas message_defs = try_parse_def message_type_try_from_def

lemma build_ok:
  "length data + pad \<le> 1427 \<Longrightarrow>
   build_and_marshall dst pt data pad =
     Inr (dst @ [pt] @ be16 (of_nat (length data)) @ data @ replicate pad 0)"
  by (simp add: build_and_marshall_def const_simps)

lemma try_parse_built:
  assumes "length data < 65536"
  shows "try_parse ([pt] @ be16 (of_nat (length data)) @ data @ pad) =
    bindr (message_type_try_from pt) (\<lambda>t. case t of
        MTPayload \<Rightarrow> if data = [] then Inr (Padding (length pad), []) else Inr (Payload data, pad)
      | MTPrngSeed \<Rightarrow> if length data \<noteq> SEED_LENGTH then Inl InvalidMessage else Inr (PrngSeed data, pad))"
  using assms
  by (auto simp: try_parse_def be16_def const_simps Let_def unat_of_nat_u16
      intro!: arg_cong2 [of _ _ _ _ bindr]
      split: message_types.splits)

lemma message_type_roundtrip [simp]: "message_type_try_from (message_type_byte t) = Inr t"
  by (cases t) (simp_all add: message_type_try_from_def)

section \<open>Byte sources\<close>

locale byte_source =
  fixes rem :: "'b \<Rightarrow> nat"
    and chunk :: "'b \<Rightarrow> bytes"
    and adv :: "nat \<Rightarrow> 'b \<Rightarrow> 'b option"
    and ok :: "'b \<Rightarrow> bool"
    and contents :: "'b \<Rightarrow> bytes"
  assumes rem_contents: "ok b \<Longrightarrow> rem b = length (contents b)"
    and chunk_prefix: "ok b \<Longrightarrow> take (length (chunk b)) (contents b) = chunk b"
    and chunk_progress: "ok b \<Longrightarrow> 0 < rem b \<Longrightarrow> chunk b \<noteq> []"
    and adv_ok: "ok b \<Longrightarrow> n \<le> rem b \<Longrightarrow> \<exists>b'. adv n b = Some b' \<and> ok b' \<and> contents b' = drop n (contents b)"
begin

lemma put_contents: "ok b \<Longrightarrow> buf_put rem chunk adv b dst = Some (dst @ contents b)"
proof (induction "rem b" arbitrary: b dst rule: less_induct)
  case less
  show ?case
  proof (cases "rem b = 0")
    case True
    with less.prems rem_contents [of b] show ?thesis by (simp add: buf_put.simps)
  next
    case False
    have pre: "take (length (chunk b)) (contents b) = chunk b" using less.prems by (simp add: chunk_prefix)
    then have le: "length (chunk b) \<le> rem b"
      using less.prems rem_contents [of b] by (metis length_take min.absorb_iff2 min.commute nat_le_linear)
    from adv_ok [OF less.prems le] obtain b' where b': "adv (length (chunk b)) b = Some b'"
      "ok b'" "contents b' = drop (length (chunk b)) (contents b)" by blast
    have "chunk b \<noteq> []" using False less.prems by (simp add: chunk_progress)
    then have "rem b' < rem b" using b' False less.prems rem_contents [of b] rem_contents [of b'] by (cases "chunk b") auto
    with less.hyps [of b' "dst @ chunk b"] b' False show ?thesis
      by (subst buf_put.simps) (simp, metis append_take_drop_id pre)
  qed
qed

end

definition pf_ok :: "payload_frame \<Rightarrow> bool" where
  "pf_ok f \<longleftrightarrow> length (pf_header f) = 3 \<and> pf_header_pos f \<le> 3 \<and> pf_payload_pos f \<le> length (pf_payload f)
     \<and> (pf_header_pos f < 3 \<longrightarrow> pf_payload_pos f = 0)"

definition pf_contents :: "payload_frame \<Rightarrow> bytes" where
  "pf_contents f = drop (pf_header_pos f) (pf_header f) @ drop (pf_payload_pos f) (pf_payload f)"

interpretation payload_source: byte_source pf_remaining pf_chunk pf_advance pf_ok pf_contents
proof
  fix b :: payload_frame and n
  assume ok: "pf_ok b"
  then show "pf_remaining b = length (pf_contents b)"
    by (simp add: pf_ok_def pf_remaining_def pf_contents_def const_simps)
  from ok show "take (length (pf_chunk b)) (pf_contents b) = pf_chunk b"
    by (auto simp: pf_ok_def pf_chunk_def pf_contents_def const_simps)
  from ok show "0 < pf_remaining b \<Longrightarrow> pf_chunk b \<noteq> []"
    by (auto simp: pf_ok_def pf_chunk_def pf_remaining_def const_simps)
  from ok show "n \<le> pf_remaining b \<Longrightarrow>
      \<exists>b'. pf_advance n b = Some b' \<and> pf_ok b' \<and> pf_contents b' = drop n (pf_contents b)"
    by (auto simp: pf_ok_def pf_advance_def pf_remaining_def pf_contents_def const_simps Let_def
        add.commute numeral_3_eq_3)
qed

definition pd_ok :: "padding_frame \<Rightarrow> bool" where
  "pd_ok f \<longleftrightarrow> pd_header_pos f \<le> 3 \<and> padding_pos f \<le> padding_len f
     \<and> (pd_header_pos f < 3 \<longrightarrow> padding_pos f = 0)"

definition pd_contents :: "padding_frame \<Rightarrow> bytes" where
  "pd_contents f = replicate (3 - pd_header_pos f) 0 @ replicate (padding_len f - padding_pos f) 0"

interpretation padding_source: byte_source pd_remaining pd_chunk pd_advance pd_ok pd_contents
proof
  fix b :: padding_frame and n
  assume ok: "pd_ok b"
  then show "pd_remaining b = length (pd_contents b)"
    by (simp add: pd_ok_def pd_remaining_def pd_contents_def const_simps)
  from ok show "take (length (pd_chunk b)) (pd_contents b) = pd_chunk b"
    by (auto simp: pd_ok_def pd_chunk_def pd_contents_def const_simps min_def)
  from ok show "0 < pd_remaining b \<Longrightarrow> pd_chunk b \<noteq> []"
    by (auto simp: pd_ok_def pd_chunk_def pd_remaining_def const_simps)
  from ok show "n \<le> pd_remaining b \<Longrightarrow>
      \<exists>b'. pd_advance n b = Some b' \<and> pd_ok b' \<and> pd_contents b' = drop n (pd_contents b)"
    by (auto simp: pd_ok_def pd_advance_def pd_remaining_def pd_contents_def const_simps Let_def add.commute)
qed

section \<open>Properties\<close>

text \<open>
  A packet of at most 1,427 bytes of data and padding is always built, fits a frame,
  and parses back to its message with the padding left over; the payload type with no data
  is padding. Anything longer is refused with its length.
\<close>

theorem build_try_parse:
  "(length data + pad \<le> MAX_MESSAGE_PAYLOAD_LENGTH \<longrightarrow>
      (\<exists>buf. build_and_marshall [] (message_type_byte t) data pad = Inr buf
         \<and> length buf = MESSAGE_OVERHEAD + length data + pad \<and> length buf \<le> MAX_FRAME_PAYLOAD_LENGTH
         \<and> try_parse buf =
             (case t of MTPayload \<Rightarrow> if data = [] then Inr (Padding pad, [])
                                     else Inr (Payload data, replicate pad 0)
              | MTPrngSeed \<Rightarrow> if length data = SEED_LENGTH then Inr (PrngSeed data, replicate pad 0)
                              else Inl InvalidMessage)))
   \<and> (MAX_MESSAGE_PAYLOAD_LENGTH < length data + pad \<longrightarrow>
        (\<exists>n. build_and_marshall [] (message_type_byte t) data pad = Inl (InvalidPayloadLength n)))"
proof -
  have "length data + pad \<le> 1427 \<Longrightarrow>
    try_parse ([message_type_byte t] @ be16 (of_nat (length data)) @ data @ replicate pad 0) =
             (case t of MTPayload \<Rightarrow> if data = [] then Inr (Padding pad, [])
                                     else Inr (Payload data, replicate pad 0)
              | MTPrngSeed \<Rightarrow> if length data = SEED_LENGTH then Inr (PrngSeed data, replicate pad 0)
                              else Inl InvalidMessage)"
    by (subst try_parse_built) (auto split: message_types.split)
  then show ?thesis by (auto simp: build_ok const_simps) (auto simp: build_and_marshall_def const_simps)
qed

theorem build_try_parse_witness:
  "\<exists>buf. build_and_marshall [] (message_type_byte MTPayload) [7, 8] 3 = Inr buf
     \<and> length buf = MESSAGE_OVERHEAD + length [7 :: u8, 8] + 3 \<and> length buf \<le> MAX_FRAME_PAYLOAD_LENGTH
     \<and> try_parse buf = Inr (Payload [7, 8], replicate 3 0)"
  using build_try_parse [of "[7, 8]" 3 MTPayload] by (simp add: const_simps)

text \<open>
  The two zero-copy buffers hand the encoder exactly the bytes that marshalling would
  have built: copying a payload frame yields the payload packet, copying a padding frame
  the padding packet, and neither copy panics or fails to end.
\<close>

theorem zero_copy_frames_marshall:
  "(length p \<le> MAX_MESSAGE_PAYLOAD_LENGTH \<longrightarrow>
     map_option Inr (buf_put pf_remaining pf_chunk pf_advance (payload_frame_new p) dst)
       = Some (messages_marshall (Payload p) dst))
   \<and> (n \<le> MAX_MESSAGE_PAYLOAD_LENGTH \<longrightarrow>
     map_option Inr (buf_put pd_remaining pd_chunk pd_advance (padding_frame_new n) dst)
       = Some (messages_marshall (Padding n) dst))"
proof (intro conjI impI)
  assume p: "length p \<le> MAX_MESSAGE_PAYLOAD_LENGTH"
  have "be16 (of_nat (length p)) = [of_nat (length p div 256), of_nat (length p)]"
    using p by (simp add: be16_of_nat const_simps)
  then show "map_option Inr (buf_put pf_remaining pf_chunk pf_advance (payload_frame_new p) dst)
       = Some (messages_marshall (Payload p) dst)"
    using p payload_source.put_contents [of "payload_frame_new p" dst]
    by (simp add: pf_ok_def payload_frame_new_def pf_remaining_def pf_contents_def build_ok const_simps)
next
  assume "n \<le> MAX_MESSAGE_PAYLOAD_LENGTH"
  then show "map_option Inr (buf_put pd_remaining pd_chunk pd_advance (padding_frame_new n) dst)
       = Some (messages_marshall (Padding n) dst)"
    using padding_source.put_contents [of "padding_frame_new n" dst]
    by (simp add: pd_ok_def padding_frame_new_def pd_remaining_def pd_contents_def build_ok const_simps
        be16_def numeral_3_eq_3)
qed

theorem zero_copy_frames_marshall_witness:
  "map_option Inr (buf_put pf_remaining pf_chunk pf_advance (payload_frame_new [1, 2]) [9])
     = Some (messages_marshall (Payload [1, 2]) [9])
   \<and> map_option Inr (buf_put pd_remaining pd_chunk pd_advance (padding_frame_new 4) [])
     = Some (messages_marshall (Padding 4) [])"
  using zero_copy_frames_marshall [of "[1, 2]" "[9]" 0] zero_copy_frames_marshall [of "[]" "[]" 4]
  by (simp add: const_simps)

end
