(* ===== verification/Codec.thy ===== *)
theory Codec
  imports Framing
begin

text \<open>
  \<^verbatim>\<open>crates/obfs4/src/framing/codecs.rs\<close>: the XSalsa20-Poly1305 frame codec of the data
  channel: nonces, masked lengths, the encoder and the resumable decoder.

  The AEAD of \<^verbatim>\<open>crypto_secretbox\<close> is a parameter: a key, a nonce and a plaintext give a
  ciphertext with a detached tag, or an error. What the code relies on is \<open>aead_ok\<close>:
  sealing succeeds on every frame payload and keeps its length, opening inverts sealing, and
  opening succeeds on nothing but what sealing under the same key and nonce gives. The
  source buffer of the decoder and the destination of the encoder are byte lists, consumed
  and extended as \<^verbatim>\<open>BytesMut\<close> does; the decoder's working buffer is cleared at each use and
  has no counterpart in its state.
\<close>

section \<open>The AEAD\<close>

record aead =
  aead_encrypt :: "bytes \<Rightarrow> bytes \<Rightarrow> bytes \<Rightarrow> string + (bytes \<times> bytes)"
  aead_decrypt :: "bytes \<Rightarrow> bytes \<Rightarrow> bytes \<Rightarrow> bytes \<Rightarrow> string + bytes"

definition aead_ok :: "aead \<Rightarrow> bool" where
  "aead_ok A \<longleftrightarrow>
     (\<forall>k n p. length p \<le> MAX_FRAME_PAYLOAD_LENGTH \<longrightarrow> (\<exists>c t. aead_encrypt A k n p = Inr (c, t)))
   \<and> (\<forall>k n p c t. aead_encrypt A k n p = Inr (c, t) \<longrightarrow> length c = length p \<and> length t = TAG_SIZE)
   \<and> (\<forall>k n p c t. aead_encrypt A k n p = Inr (c, t) \<longleftrightarrow> aead_decrypt A k n c t = Inr p)"

text \<open>A small AEAD for the witnesses: it masks with the first key byte, the tag is the nonce.\<close>

definition toy_aead :: aead where
  "toy_aead = \<lparr>
     aead_encrypt = (\<lambda>k n p. Inr (map (\<lambda>b. b XOR hd (k @ [0])) p, take 16 (n @ replicate 16 0))),
     aead_decrypt = (\<lambda>k n c t. if t = take 16 (n @ replicate 16 0)
                               then Inr (map (\<lambda>b. b XOR hd (k @ [0])) c) else Inl ''tag'') \<rparr>"

section \<open>Nonces\<close>

definition NONCE_COUNTER_LENGTH :: nat where [const_simps]: "NONCE_COUNTER_LENGTH = 8"
definition NONCE_LENGTH :: nat where
  [const_simps]: "NONCE_LENGTH = NONCE_PREFIX_LENGTH + NONCE_COUNTER_LENGTH"

record nonce_box =
  prefix :: bytes
  counter :: u64

text \<open>The assertion on the length of the prefix is the \<^term>\<open>None\<close> branch.\<close>

definition nonce_box_new :: "bytes \<Rightarrow> nonce_box option" where
  "nonce_box_new p =
     (if length p < NONCE_PREFIX_LENGTH then None
      else Some \<lparr> prefix = take NONCE_PREFIX_LENGTH p, counter = 1 \<rparr>)"

definition nonce_inc :: "nonce_box \<Rightarrow> nonce_box" where
  "nonce_inc b = b \<lparr> counter := counter b + 1 \<rparr>"

definition nonce_next :: "nonce_box \<Rightarrow> frame_error + (bytes \<times> nonce_box)" where
  "nonce_next b =
     (if counter b = - 1 then Inl NonceCounterWrapped
      else Inr (prefix b @ be64 (counter b), nonce_inc b))"

section \<open>Encoder and decoder\<close>

record 's encoder =
  e_cipher :: bytes
  e_nonce :: nonce_box
  e_drbg :: "'s drbg"

record 's decoder =
  d_cipher :: bytes
  d_nonce :: nonce_box
  d_drbg :: "'s drbg"
  next_nonce :: bytes
  next_length :: u16

record 's codec =
  encoder :: "'s encoder"
  decoder :: "'s decoder"
  handshake_complete :: bool

text \<open>
  The key material is an array of 72 bytes, so neither the assertion of \<^verbatim>\<open>NonceBox::new\<close>
  nor the \<^verbatim>\<open>unwrap\<close>s of the seed can fail; \<^term>\<open>None\<close> is such a panic.
\<close>

definition split_material :: "'s siphasher \<Rightarrow> bytes \<Rightarrow> (bytes \<times> nonce_box \<times> 's drbg) option" where
  "split_material sip km =
     (case nonce_box_new (take NONCE_PREFIX_LENGTH (drop KEY_LENGTH km)) of
        None \<Rightarrow> None
      | Some nonce \<Rightarrow>
          (case seed_try_from (drop (KEY_LENGTH + NONCE_PREFIX_LENGTH) km) of
             Inl _ \<Rightarrow> None
           | Inr seed \<Rightarrow> Some (take KEY_LENGTH km, nonce, to_new_drbg sip seed)))"

definition encoder_new :: "'s siphasher \<Rightarrow> bytes \<Rightarrow> 's encoder option" where
  "encoder_new sip km =
     map_option (\<lambda>(k, n, d). \<lparr> e_cipher = k, e_nonce = n, e_drbg = d \<rparr>) (split_material sip km)"

definition decoder_new :: "'s siphasher \<Rightarrow> bytes \<Rightarrow> 's decoder option" where
  "decoder_new sip km =
     map_option (\<lambda>(k, n, d). \<lparr> d_cipher = k, d_nonce = n, d_drbg = d,
         next_nonce = replicate NONCE_LENGTH 0, next_length = 0 \<rparr>) (split_material sip km)"

definition codec_new :: "'s siphasher \<Rightarrow> bytes \<Rightarrow> bytes \<Rightarrow> 's codec option" where
  "codec_new sip ekm dkm =
     (case encoder_new sip ekm of None \<Rightarrow> None
      | Some e \<Rightarrow> (case decoder_new sip dkm of None \<Rightarrow> None
         | Some d \<Rightarrow> Some \<lparr> encoder = e, decoder = d, handshake_complete = False \<rparr>))"

definition set_handshake_complete :: "'s codec \<Rightarrow> 's codec" where
  "set_handshake_complete c = c \<lparr> handshake_complete := True \<rparr>"

section \<open>Encoding\<close>

text \<open>
  The nonce and the mask are consumed before sealing, so the state returned with an AEAD
  error has moved on, and the length, the zero tag and the plaintext stand in the buffer;
  every error but \<^term>\<open>InvalidPayloadLength\<close> is fatal to the session.
\<close>

definition encode ::
  "aead \<Rightarrow> 's siphasher \<Rightarrow> 's codec \<Rightarrow> bytes \<Rightarrow> bytes \<Rightarrow> (frame_error + unit) \<times> 's codec \<times> bytes" where
  "encode A sip c plaintext dst =
     (let pt_len = length plaintext in
      if pt_len > MAX_FRAME_PAYLOAD_LENGTH then (Inl (InvalidPayloadLength pt_len), c, dst)
      else case nonce_next (e_nonce (encoder c)) of
        Inl e \<Rightarrow> (Inl e, c, dst)
      | Inr (nonce_bytes, nonce) \<Rightarrow>
          let ct_len = pt_len + TAG_SIZE;
              (lmask, drbg) = length_mask sip (e_drbg (encoder c));
              c = c \<lparr> encoder := encoder c \<lparr> e_nonce := nonce, e_drbg := drbg \<rparr> \<rparr>;
              len = of_nat ct_len XOR lmask;
              dst = dst @ be16 len
          in case aead_encrypt A (e_cipher (encoder c)) nonce_bytes plaintext of
               Inl e \<Rightarrow> (Inl (FCrypto e), c, dst @ replicate TAG_SIZE 0 @ plaintext)
             | Inr (ct, tag) \<Rightarrow> (Inr (), c, dst @ tag @ ct))"

section \<open>Decoding\<close>

text \<open>
  One turn of the loop in \<^verbatim>\<open>decode\<close>. \<open>decode_length\<close> is the part under
  \<^verbatim>\<open>next_length == 0\<close>; its flag says whether a length is now known. \<open>Return\<close> leaves the
  loop, \<open>Continue\<close> is the \<^verbatim>\<open>continue\<close> for padding and unknown packets.
\<close>

datatype turn = Return "frame_error + messages option" | Continue

definition decode_length ::
  "'s siphasher \<Rightarrow> 's decoder \<Rightarrow> bytes \<Rightarrow> (frame_error + bool) \<times> 's decoder \<times> bytes" where
  "decode_length sip d src =
     (if next_length d \<noteq> 0 then (Inr True, d, src)
      else if LENGTH_LENGTH > length src then (Inr False, d, src)
      else case nonce_next (d_nonce d) of
        Inl e \<Rightarrow> (Inl e, d, src)
      | Inr (nb, nonce) \<Rightarrow>
          let len = rd16 (src ! 0) (src ! 1);
              src = drop 2 src;
              (lmask, drbg) = length_mask sip (d_drbg d);
              d = d \<lparr> next_nonce := nb, d_nonce := nonce, d_drbg := drbg \<rparr>;
              len = len XOR lmask
          in if MAX_FRAME_LENGTH < unat len \<or> MIN_FRAME_LENGTH > unat len
             then (Inl InvalidFrame, d, src)
             else (Inr True, d \<lparr> next_length := len \<rparr>, src))"

definition decode_frame :: "aead \<Rightarrow> 's decoder \<Rightarrow> bytes \<Rightarrow> turn \<times> 's decoder \<times> bytes" where
  "decode_frame A d src =
     (let next_len = unat (next_length d) in
      if next_len > length src then (Return (Inr None), d, src)
      else
        let scratch = take next_len src;
            tag = take TAG_SIZE scratch
        in case aead_decrypt A (d_cipher d) (next_nonce d) (drop TAG_SIZE scratch) tag of
             Inl e \<Rightarrow> (Return (Inl (FCrypto e)), d, src)
           | Inr plain \<Rightarrow>
               if length plain < MESSAGE_OVERHEAD then (Return (Inl InvalidMessage), d, src)
               else
                 let d = d \<lparr> next_length := 0 \<rparr>;
                     src = drop next_len src
                 in case try_parse plain of
                      Inr (Padding _, _) \<Rightarrow> (Continue, d, src)
                    | Inl (UnknownMessageType _) \<Rightarrow> (Continue, d, src)
                    | Inr (m, _) \<Rightarrow> (Return (Inr (Some m)), d, src)
                    | Inl e \<Rightarrow> (Return (Inl e), d, src))"

definition decode_turn ::
  "aead \<Rightarrow> 's siphasher \<Rightarrow> 's decoder \<Rightarrow> bytes \<Rightarrow> turn \<times> 's decoder \<times> bytes" where
  "decode_turn A sip d src =
     (case decode_length sip d src of
        (Inl e, d, src) \<Rightarrow> (Return (Inl e), d, src)
      | (Inr False, d, src) \<Rightarrow> (Return (Inr None), d, src)
      | (Inr True, d, src) \<Rightarrow> decode_frame A d src)"

text \<open>A turn that continues has consumed a frame, which is what makes the loop end.\<close>

lemma decode_length_known:
  assumes "decode_length sip d src = (Inr True, d', src')"
  shows "next_length d' \<noteq> 0 \<and> length src' \<le> length src"
  using assms
  by (auto simp: decode_length_def Let_def const_simps split: if_splits sum.splits prod.splits)

lemma decode_frame_continue:
  assumes "decode_frame A d src = (r, d', src')" "next_length d \<noteq> 0"
    "r = Continue \<or> r = Return (Inr (Some m))"
  shows "length src' < length src"
proof -
  have "0 < unat (next_length d)" using assms(2) by (simp add: unat_gt_0)
  then show ?thesis using assms
    by (auto simp: decode_frame_def Let_def
        split: if_splits sum.splits prod.splits messages.splits frame_error.splits)
qed

lemma decode_turn_consumes:
  assumes "decode_turn A sip d src = (r, d', src')" "r = Continue \<or> r = Return (Inr (Some m))"
  shows "length src' < length src"
proof (cases "decode_length sip d src")
  case (fields q e s)
  with assms have "q = Inr True" "decode_frame A e s = (r, d', src')"
    by (auto simp: decode_turn_def split: sum.splits bool.splits)
  with decode_length_known [of sip d src e s] decode_frame_continue [of A e s r d' src' m] assms(2) fields
  show ?thesis by auto
qed

function decode_loop ::
  "aead \<Rightarrow> 's siphasher \<Rightarrow> 's decoder \<Rightarrow> bytes \<Rightarrow> (frame_error + messages option) \<times> 's decoder \<times> bytes" where
  "decode_loop A sip d src =
     (case decode_turn A sip d src of
        (Return r, d', src') \<Rightarrow> (r, d', src')
      | (Continue, d', src') \<Rightarrow> decode_loop A sip d' src')"
  by pat_completeness auto
termination
  by (relation "measure (\<lambda>(_, _, _, src). length src)") (auto dest!: decode_turn_consumes [OF sym])

declare decode_loop.simps [simp del]

definition decode ::
  "aead \<Rightarrow> 's siphasher \<Rightarrow> 's codec \<Rightarrow> bytes \<Rightarrow> (frame_error + messages option) \<times> 's codec \<times> bytes" where
  "decode A sip c src =
     (let (r, d, src) = decode_loop A sip (decoder c) src in (r, c \<lparr> decoder := d \<rparr>, src))"

definition decode_eof ::
  "aead \<Rightarrow> 's siphasher \<Rightarrow> 's codec \<Rightarrow> bytes \<Rightarrow> (frame_error + messages option) \<times> 's codec \<times> bytes" where
  "decode_eof A sip c src = decode A sip c src"

section \<open>A connection's two ends\<close>

text \<open>
  The reader calls \<^verbatim>\<open>decode\<close> until it has no whole frame left (\<open>deliver\<close>), each time
  bytes have arrived (\<open>feed\<close>), and stops at an error; the writer encodes one packet after
  the other (\<open>encode_all\<close>).
\<close>

lemma decode_loop_consumes:
  "decode_loop A sip d src = (Inr (Some m), d', src') \<Longrightarrow> length src' < length src"
proof (induction A sip d src rule: decode_loop.induct)
  case (1 A sip d src)
  obtain q e s where t: "decode_turn A sip d src = (q, e, s)" by (cases "decode_turn A sip d src")
  show ?case
  proof (cases q)
    case Continue
    with t "1.prems" "1.IH" [OF t [symmetric]] decode_turn_consumes [OF t] show ?thesis
      by (simp add: decode_loop.simps [of A sip d src])
  next
    case (Return x)
    with t "1.prems" decode_turn_consumes [OF t, of m] show ?thesis
      by (simp add: decode_loop.simps [of A sip d src])
  qed
qed

function deliver ::
  "aead \<Rightarrow> 's siphasher \<Rightarrow> 's decoder \<Rightarrow> bytes
   \<Rightarrow> messages list \<times> frame_error option \<times> 's decoder \<times> bytes" where
  "deliver A sip d src =
     (case decode_loop A sip d src of
        (Inl e, d', src') \<Rightarrow> ([], Some e, d', src')
      | (Inr None, d', src') \<Rightarrow> ([], None, d', src')
      | (Inr (Some m), d', src') \<Rightarrow>
          (case deliver A sip d' src' of (ms, r) \<Rightarrow> (m # ms, r)))"
  by pat_completeness auto
termination
  by (relation "measure (\<lambda>(_, _, _, src). length src)") (auto dest!: decode_loop_consumes [OF sym])

declare deliver.simps [simp del]

fun feed ::
  "aead \<Rightarrow> 's siphasher \<Rightarrow> 's decoder \<Rightarrow> bytes \<Rightarrow> bytes list
   \<Rightarrow> messages list \<times> frame_error option \<times> 's decoder \<times> bytes" where
  "feed A sip d src [] = ([], None, d, src)"
| "feed A sip d src (c # cs) =
     (case deliver A sip d (src @ c) of
        (ms, Some e, d', src') \<Rightarrow> (ms, Some e, d', src')
      | (ms, None, d', src') \<Rightarrow> (case feed A sip d' src' cs of (ms', r) \<Rightarrow> (ms @ ms', r)))"

fun encode_all ::
  "aead \<Rightarrow> 's siphasher \<Rightarrow> 's codec \<Rightarrow> bytes list \<Rightarrow> bytes \<Rightarrow> (frame_error + unit) \<times> 's codec \<times> bytes" where
  "encode_all A sip c [] dst = (Inr (), c, dst)"
| "encode_all A sip c (p # ps) dst =
     (case encode A sip c p dst of
        (Inl e, c', dst') \<Rightarrow> (Inl e, c', dst')
      | (Inr _, c', dst') \<Rightarrow> encode_all A sip c' ps dst')"

section \<open>More bytes never change what was decoded\<close>

lemma decode_length_append:
  assumes "decode_length sip d src = (q, d', s')" "q \<noteq> Inr False"
  shows "decode_length sip d (src @ extra) = (q, d', s' @ extra)"
  using assms
  by (auto simp: decode_length_def Let_def const_simps nth_append split: if_splits sum.splits prod.splits)

lemma decode_length_wait:
  "decode_length sip d src = (Inr False, d', s') \<Longrightarrow> d' = d \<and> s' = src"
  by (auto simp: decode_length_def Let_def split: if_splits sum.splits prod.splits)

lemma decode_frame_append:
  assumes "decode_frame A d src = (r, d', s')" "r \<noteq> Return (Inr None)"
  shows "decode_frame A d (src @ extra) = (r, d', s' @ extra)"
proof -
  have le: "unat (next_length d) \<le> length src"
    using assms by (auto simp: decode_frame_def Let_def split: if_splits)
  then show ?thesis using assms
    by (auto simp: decode_frame_def Let_def
        split: if_splits sum.splits prod.splits messages.splits frame_error.splits)
qed

lemma decode_frame_wait:
  "decode_frame A d src = (Return (Inr None), d', s') \<Longrightarrow> d' = d \<and> s' = src"
  by (auto simp: decode_frame_def Let_def
      split: if_splits sum.splits prod.splits messages.splits frame_error.splits)

lemma decode_turn_append:
  assumes "decode_turn A sip d src = (r, d', s')" "r \<noteq> Return (Inr None)"
  shows "decode_turn A sip d (src @ extra) = (r, d', s' @ extra)"
proof (cases "decode_length sip d src")
  case (fields q e s)
  with assms have "q \<noteq> Inr False" by (auto simp: decode_turn_def)
  with decode_length_append [OF fields] assms fields show ?thesis
    by (auto simp: decode_turn_def decode_frame_append split: sum.splits bool.splits)
qed

lemma decode_turn_wait:
  assumes "decode_turn A sip d src = (Return (Inr None), d', s')"
  shows "decode_turn A sip d' (s' @ extra) = decode_turn A sip d (src @ extra)"
proof (cases "decode_length sip d src")
  case (fields q e s)
  show ?thesis
  proof (cases "q = Inr False")
    case True
    with fields assms decode_length_wait [of sip d src e s] show ?thesis by (simp add: decode_turn_def)
  next
    case False
    with fields assms have q: "q = Inr True" and f: "decode_frame A e s = (Return (Inr None), d', s')"
      by (auto simp: decode_turn_def split: sum.splits bool.splits)
    from decode_frame_wait [OF f] have e: "e = d'" "s = s'" by auto
    have "next_length d' \<noteq> 0" using decode_length_known fields q e by blast
    then have "decode_length sip d' (s' @ extra) = (Inr True, d', s' @ extra)"
      by (simp add: decode_length_def)
    with decode_length_append [OF fields False] q e show ?thesis by (simp add: decode_turn_def)
  qed
qed

lemma decode_loop_append:
  "decode_loop A sip d src = (r, d', s') \<Longrightarrow> r \<noteq> Inr None \<Longrightarrow>
   decode_loop A sip d (src @ extra) = (r, d', s' @ extra)"
proof (induction A sip d src rule: decode_loop.induct)
  case (1 A sip d src)
  obtain q e s where t: "decode_turn A sip d src = (q, e, s)" by (cases "decode_turn A sip d src")
  have "q \<noteq> Return (Inr None)" using "1.prems" t by (auto simp: decode_loop.simps [of A sip d src])
  with decode_turn_append [OF t] t "1.prems" "1.IH" [OF t [symmetric]] show ?case
    by (cases q) (simp_all add: decode_loop.simps [of A sip d])
qed

lemma decode_loop_wait:
  "decode_loop A sip d src = (Inr None, d', s') \<Longrightarrow>
   decode_loop A sip d' (s' @ extra) = decode_loop A sip d (src @ extra)"
proof (induction A sip d src rule: decode_loop.induct)
  case (1 A sip d src)
  obtain q e s where t: "decode_turn A sip d src = (q, e, s)" by (cases "decode_turn A sip d src")
  show ?case
  proof (cases q)
    case Continue
    with t "1.prems" "1.IH" [OF t [symmetric]] decode_turn_append [OF t] show ?thesis
      by (simp add: decode_loop.simps [of A sip d])
  next
    case (Return x)
    with t "1.prems" have "decode_turn A sip d src = (Return (Inr None), d', s')"
      by (simp add: decode_loop.simps [of A sip d src])
    from decode_turn_wait [OF this] show ?thesis by (simp add: decode_loop.simps)
  qed
qed

lemma deliver_append_error:
  "deliver A sip d src = (ms, Some e, d', s') \<Longrightarrow> deliver A sip d (src @ extra) = (ms, Some e, d', s' @ extra)"
proof (induction A sip d src arbitrary: ms rule: deliver.induct)
  case (1 A sip d src)
  obtain q f s where t: "decode_loop A sip d src = (q, f, s)" by (cases "decode_loop A sip d src")
  have "q \<noteq> Inr None" using "1.prems" t by (auto simp: deliver.simps [of A sip d src])
  with decode_loop_append [OF t] t "1.prems" "1.IH" [OF t [symmetric]] show ?case
    by (auto simp: deliver.simps [of A sip d] split: sum.splits option.splits prod.splits)
qed

lemma deliver_append:
  "deliver A sip d src = (ms, None, d', s') \<Longrightarrow>
   deliver A sip d (src @ extra) = (case deliver A sip d' (s' @ extra) of (ms', r) \<Rightarrow> (ms @ ms', r))"
proof (induction A sip d src arbitrary: ms rule: deliver.induct)
  case (1 A sip d src)
  obtain q f s where t: "decode_loop A sip d src = (q, f, s)" by (cases "decode_loop A sip d src")
  show ?case
  proof (cases "q = Inr None")
    case True
    with t "1.prems" have "f = d'" "s = s'" "ms = []" by (auto simp: deliver.simps [of A sip d src])
    with decode_loop_wait [of A sip d src d' s' extra] True t show ?thesis
      by (simp add: deliver.simps [of A sip d "src @ extra"] deliver.simps [of A sip d' "s' @ extra"])
  next
    case False
    with decode_loop_append [OF t] t "1.prems" "1.IH" [OF t [symmetric]] show ?thesis
      by (auto simp: deliver.simps [of A sip d] split: sum.splits option.splits prod.splits)
  qed
qed

lemma deliver_stuck:
  assumes "deliver A sip d src = (ms, None, d', s')"
  shows "deliver A sip d' s' = ([], None, d', s')"
  using assms
proof (induction A sip d src arbitrary: ms rule: deliver.induct)
  case (1 A sip d src)
  obtain q f s where t: "decode_loop A sip d src = (q, f, s)" by (cases "decode_loop A sip d src")
  show ?case
  proof (cases "q = Inr None")
    case True
    with t "1.prems" have "f = d'" "s = s'" by (auto simp: deliver.simps [of A sip d src])
    with decode_loop_wait [of A sip d src d' s' "[]"] True t show ?thesis
      by (simp add: deliver.simps)
  next
    case False
    with t "1.prems" "1.IH" [OF t [symmetric]] show ?thesis
      by (auto simp: deliver.simps [of A sip d src] split: sum.splits option.splits prod.splits)
  qed
qed

lemma feed_deliver:
  assumes "deliver A sip d src = ([], None, d, src)"
  shows "case feed A sip d src cs of (ms, e, d', s') \<Rightarrow>
     (\<exists>s''. deliver A sip d (src @ concat cs) = (ms, e, d', s'') \<and> (e = None \<longrightarrow> s'' = s'))"
  using assms
proof (induction cs arbitrary: d src)
  case (Cons c cs)
  obtain ms e d' s' where f: "deliver A sip d (src @ c) = (ms, e, d', s')"
    by (cases "deliver A sip d (src @ c)")
  show ?case
  proof (cases e)
    case None
    with f Cons.IH [OF deliver_stuck, of d "src @ c" ms] deliver_append [of A sip d "src @ c" ms d' s' "concat cs"]
    show ?thesis by (auto split: prod.splits)
  next
    case (Some x)
    with f deliver_append_error [of A sip d "src @ c" ms x d' s' "concat cs"] show ?thesis by simp
  qed
qed simp

lemma deliver_empty [simp]: "deliver A sip d [] = ([], None, d, [])"
proof -
  have "0 < unat (next_length d) \<or> next_length d = 0" by (simp add: unat_gt_0)
  then have "decode_turn A sip d [] = (Return (Inr None), d, [])"
    by (auto simp: decode_turn_def decode_length_def decode_frame_def const_simps)
  then show ?thesis by (simp add: deliver.simps decode_loop.simps)
qed

section \<open>Encoder and decoder in step\<close>

definition in_sync :: "'s encoder \<Rightarrow> 's decoder \<Rightarrow> bool" where
  "in_sync e d \<longleftrightarrow> d_cipher d = e_cipher e \<and> d_nonce d = e_nonce e \<and> d_drbg d = e_drbg e
     \<and> next_length d = 0"

text \<open>What the receiver makes of one packet.\<close>

definition turn_of :: "bytes \<Rightarrow> turn" where
  "turn_of p =
     (if length p < MESSAGE_OVERHEAD then Return (Inl InvalidMessage)
      else case try_parse p of
        Inr (Padding _, _) \<Rightarrow> Continue
      | Inl (UnknownMessageType _) \<Rightarrow> Continue
      | Inr (m, _) \<Rightarrow> Return (Inr (Some m))
      | Inl e \<Rightarrow> Return (Inl e))"

text \<open>The wire form of one packet, and the state it leaves.\<close>

definition frame_bytes :: "aead \<Rightarrow> 's siphasher \<Rightarrow> 's encoder \<Rightarrow> bytes \<Rightarrow> bytes \<times> bytes \<Rightarrow> bytes" where
  "frame_bytes A sip e p ct =
     be16 (of_nat (length p + TAG_SIZE) XOR fst (length_mask sip (e_drbg e))) @ snd ct @ fst ct"

definition encoder_next :: "'s siphasher \<Rightarrow> 's codec \<Rightarrow> 's codec" where
  "encoder_next sip c = c \<lparr> encoder := encoder c \<lparr> e_nonce := nonce_inc (e_nonce (encoder c)),
     e_drbg := snd (length_mask sip (e_drbg (encoder c))) \<rparr> \<rparr>"

lemma encode_ok_iff:
  "encode A sip c p dst = (Inr (), c', dst') \<longleftrightarrow>
     length p \<le> MAX_FRAME_PAYLOAD_LENGTH \<and> counter (e_nonce (encoder c)) \<noteq> - 1 \<and> c' = encoder_next sip c
     \<and> (\<exists>ct. aead_encrypt A (e_cipher (encoder c))
              (prefix (e_nonce (encoder c)) @ be64 (counter (e_nonce (encoder c)))) p = Inr ct
           \<and> dst' = dst @ frame_bytes A sip (encoder c) p ct)"
  by (auto simp: encode_def Let_def nonce_next_def frame_bytes_def encoder_next_def case_prod_beta
      split: sum.splits)

lemma aead_encrypt_total:
  "aead_ok A \<Longrightarrow> length p \<le> MAX_FRAME_PAYLOAD_LENGTH \<Longrightarrow> \<exists>c t. aead_encrypt A k n p = Inr (c, t)"
  unfolding aead_ok_def by blast

lemma aead_lengths:
  "aead_ok A \<Longrightarrow> aead_encrypt A k n p = Inr (c, t) \<Longrightarrow> length c = length p \<and> length t = TAG_SIZE"
  unfolding aead_ok_def by blast

lemma aead_open_iff:
  "aead_ok A \<Longrightarrow> aead_decrypt A k n c t = Inr p \<longleftrightarrow> aead_encrypt A k n p = Inr (c, t)"
  unfolding aead_ok_def by blast

lemma encode_total:
  assumes "aead_ok A" "length p \<le> MAX_FRAME_PAYLOAD_LENGTH" "counter (e_nonce (encoder c)) \<noteq> - 1"
  obtains w where "encode A sip c p dst = (Inr (), encoder_next sip c, dst @ w)"
    "length w = length p + FRAME_OVERHEAD"
proof -
  obtain ct t where e: "aead_encrypt A (e_cipher (encoder c))
      (prefix (e_nonce (encoder c)) @ be64 (counter (e_nonce (encoder c)))) p = Inr (ct, t)"
    using aead_encrypt_total [OF assms(1,2)] by blast
  with assms have "encode A sip c p dst =
      (Inr (), encoder_next sip c, dst @ frame_bytes A sip (encoder c) p (ct, t))"
    by (simp add: encode_ok_iff)
  moreover have "length (frame_bytes A sip (encoder c) p (ct, t)) = length p + FRAME_OVERHEAD"
    using aead_lengths [OF assms(1) e] by (simp add: frame_bytes_def const_simps)
  ultimately show thesis by (rule that)
qed

definition decoder_next :: "'s siphasher \<Rightarrow> 's decoder \<Rightarrow> 's decoder" where
  "decoder_next sip d = d \<lparr> next_nonce := prefix (d_nonce d) @ be64 (counter (d_nonce d)),
     d_nonce := nonce_inc (d_nonce d), d_drbg := snd (length_mask sip (d_drbg d)), next_length := 0 \<rparr>"

lemma in_sync_next:
  "in_sync (encoder c) d \<Longrightarrow> in_sync (encoder (encoder_next sip c)) (decoder_next sip d)"
  by (simp add: in_sync_def encoder_next_def decoder_next_def)

lemma u16_len_bounds: "n \<le> 1446 \<Longrightarrow> unat (of_nat n :: u16) = n"
  by (simp add: unat_of_nat_u16)

lemma decode_turn_encoded:
  assumes "aead_ok A" "in_sync (encoder c) d" "encode A sip c p dst = (Inr (), c', dst @ w)"
    "MESSAGE_OVERHEAD \<le> length p"
  shows "decode_turn A sip d (w @ rest) = (turn_of p, decoder_next sip d, rest)"
proof -
  from assms(3) obtain ct t where p: "length p \<le> 1430" and n: "counter (e_nonce (encoder c)) \<noteq> - 1"
    and e: "aead_encrypt A (e_cipher (encoder c))
         (prefix (e_nonce (encoder c)) @ be64 (counter (e_nonce (encoder c)))) p = Inr (ct, t)"
    and w: "w = frame_bytes A sip (encoder c) p (ct, t)"
    by (auto simp: encode_ok_iff const_simps)
  let ?len = "of_nat (length p + 16) :: u16"
  let ?d = "decoder_next sip d \<lparr> next_length := ?len \<rparr>"
  have len: "unat ?len = length p + 16" using p by (subst unat_of_nat_u16) auto
  have ls: "length ct = length p" "length t = 16"
    using aead_lengths [OF assms(1) e] by (auto simp: const_simps)
  have "decode_length sip d (w @ rest) = (Inr True, ?d, t @ ct @ rest)"
    using assms(2) n p len
    by (simp add: decode_length_def w frame_bytes_def in_sync_def nonce_next_def case_prod_beta Let_def
        xor_cancel decoder_next_def const_simps)
  moreover have "aead_decrypt A (d_cipher ?d) (next_nonce ?d) ct t = Inr p"
    using e assms(2) by (simp add: aead_open_iff [OF assms(1)] in_sync_def decoder_next_def)
  then have "decode_frame A ?d (t @ ct @ rest) = (turn_of p, decoder_next sip d, rest)"
    using len ls assms(4)
    by (auto simp: decode_frame_def Let_def turn_of_def const_simps decoder_next_def
        split: sum.splits prod.splits messages.splits frame_error.splits)
  ultimately show ?thesis by (simp add: decode_turn_def)
qed

text \<open>The other direction: what the decoder takes is what the encoder would have written.\<close>

lemma decode_turn_only_encoded:
  assumes "aead_ok A" "in_sync (encoder c) d" "decode_turn A sip d src = (r, d', src')"
    "r = Continue \<or> r = Return (Inr (Some m))"
  shows "\<exists>p w. encode A sip c p dst = (Inr (), encoder_next sip c, dst @ w) \<and> src = w @ src'
    \<and> turn_of p = r \<and> d' = decoder_next sip d \<and> MESSAGE_OVERHEAD \<le> length p"
proof -
  let ?k = "length_mask sip (d_drbg d)"
  let ?len = "rd16 (src ! 0) (src ! 1) XOR fst ?k"
  let ?d = "decoder_next sip d \<lparr> next_length := ?len \<rparr>"
  from assms(2-4) have n: "counter (d_nonce d) \<noteq> - 1" and two: "2 \<le> length src"
    and len: "unat ?len \<le> 1446" "16 \<le> unat ?len"
    and f: "decode_frame A ?d (drop 2 src) = (r, d', src')"
    by (auto simp: decode_turn_def decode_length_def in_sync_def nonce_next_def case_prod_beta Let_def
        decoder_next_def const_simps split: if_splits)
  let ?b = "take (unat ?len) (drop 2 src)"
  from f assms(4) obtain p where le: "unat ?len \<le> length src - 2"
    and o: "aead_decrypt A (d_cipher d) (next_nonce ?d) (drop 16 ?b) (take 16 ?b) = Inr p"
    and p: "3 \<le> length p" "turn_of p = r" "d' = decoder_next sip d" "src' = drop (unat ?len) (drop 2 src)"
    by (auto simp: decode_frame_def Let_def turn_of_def const_simps decoder_next_def
        split: if_splits sum.splits prod.splits messages.splits frame_error.splits)
  from o have e: "aead_encrypt A (e_cipher (encoder c))
      (prefix (e_nonce (encoder c)) @ be64 (counter (e_nonce (encoder c)))) p = Inr (drop 16 ?b, take 16 ?b)"
    using assms(2) by (simp add: aead_open_iff [OF assms(1)] in_sync_def decoder_next_def)
  have lp: "length p + 16 = unat ?len" using aead_lengths [OF assms(1) e] le len by (simp add: const_simps)
  have "of_nat (length p + 16) XOR fst ?k = rd16 (src ! 0) (src ! 1)"
    by (simp only: lp) (simp add: xor_cancel)
  then have "frame_bytes A sip (encoder c) p (drop 16 ?b, take 16 ?b) = [src ! 0, src ! 1] @ ?b"
    using assms(2) by (simp add: frame_bytes_def in_sync_def const_simps del: take_take)
  moreover have "src = ([src ! 0, src ! 1] @ ?b) @ src'"
    using two p(4) by (cases src; cases "tl src") auto
  moreover have "length p \<le> MAX_FRAME_PAYLOAD_LENGTH" using lp len by (simp add: const_simps)
  ultimately have "encode A sip c p dst = (Inr (), encoder_next sip c, dst @ [src ! 0, src ! 1] @ ?b)"
    "src = ([src ! 0, src ! 1] @ ?b) @ src'"
    using e n assms(2) unfolding encode_ok_iff in_sync_def by (metis, metis)
  moreover have "MESSAGE_OVERHEAD \<le> length p" using p(1) by (simp add: const_simps)
  ultimately show ?thesis using p(2,3) by blast
qed

section \<open>Whole streams\<close>

fun visible :: "bytes list \<Rightarrow> messages list" where
  "visible [] = []"
| "visible (p # ps) = (case turn_of p of Return (Inr (Some m)) \<Rightarrow> m # visible ps | _ \<Rightarrow> visible ps)"

text \<open>A packet the peer may send: it fits a frame and its message parses or is of a future type.\<close>

definition sendable :: "bytes \<Rightarrow> bool" where
  "sendable p \<longleftrightarrow> length p \<le> MAX_FRAME_PAYLOAD_LENGTH
     \<and> (turn_of p = Continue \<or> (\<exists>m. turn_of p = Return (Inr (Some m))))"

lemma sendable_length: "sendable p \<Longrightarrow> MESSAGE_OVERHEAD \<le> length p"
  by (auto simp: sendable_def turn_of_def split: if_splits)

lemma deliver_turn:
  assumes "decode_turn A sip d src = (q, d', s)" "q = Continue \<or> q = Return (Inr (Some m))"
  shows "deliver A sip d src =
     (case deliver A sip d' s of (ms, r) \<Rightarrow> (if q = Continue then ms else m # ms, r))"
  using assms by (auto simp: deliver.simps [of A sip d src] decode_loop.simps [of A sip d src]
      deliver.simps [of A sip d' s] split: prod.splits)

lemma encode_all_append:
  "encode_all A sip c (ps @ qs) dst =
     (case encode_all A sip c ps dst of (Inl e, r) \<Rightarrow> (Inl e, r) | (Inr _, c', dst') \<Rightarrow> encode_all A sip c' qs dst')"
  by (induction ps arbitrary: c dst) (auto split: prod.splits sum.splits)

lemma counter_encoder_next [simp]:
  "counter (e_nonce (encoder (encoder_next sip c))) = counter (e_nonce (encoder c)) + 1"
  by (simp add: encoder_next_def nonce_inc_def)

lemma unat_counter_inc:
  fixes w :: u64
  assumes "w \<noteq> - 1" shows "unat w < 2 ^ 64 - 1" "unat (w + 1) = unat w + 1"
proof -
  have "unat w \<noteq> 2 ^ 64 - 1"
  proof
    assume "unat w = 2 ^ 64 - 1"
    moreover have "of_nat (unat w) = w" by simp
    ultimately have "w = of_nat (2 ^ 64 - 1)" by simp
    with assms show False by simp
  qed
  moreover have "unat w < 2 ^ 64" using unsigned_less [of w] by simp
  ultimately show "unat w < 2 ^ 64 - 1" by simp
  then show "unat (w + 1) = unat w + 1" by (simp add: unat_word_ariths)
qed

lemma encode_all_extends: "encode_all A sip c ps dst = (Inr (), c', dst') \<Longrightarrow> \<exists>w. dst' = dst @ w"
proof (induction ps arbitrary: c dst)
  case (Cons p ps)
  then obtain c1 w1 where "encode_all A sip c1 ps (dst @ w1) = (Inr (), c', dst')"
    by (auto simp: encode_ok_iff split: prod.splits sum.splits)
  from Cons.IH [OF this] show ?case by auto
qed simp

lemma encode_all_total:
  assumes "aead_ok A" "\<forall>p \<in> set ps. length p \<le> MAX_FRAME_PAYLOAD_LENGTH"
    "unat (counter (e_nonce (encoder c))) + length ps < 2 ^ 64"
  shows "\<exists>c' w. encode_all A sip c ps dst = (Inr (), c', dst @ w)"
  using assms
proof (induction ps arbitrary: c dst)
  case (Cons p ps)
  have "counter (e_nonce (encoder c)) \<noteq> - 1"
    using Cons.prems(3) by (auto simp: unsigned_minus_1_eq_mask mask_eq_exp_minus_1)
  with Cons.prems obtain w where w: "encode A sip c p dst = (Inr (), encoder_next sip c, dst @ w)"
    by (auto elim: encode_total)
  from Cons.prems \<open>counter (e_nonce (encoder c)) \<noteq> - 1\<close>
  have "\<exists>c' w'. encode_all A sip (encoder_next sip c) ps (dst @ w) = (Inr (), c', (dst @ w) @ w')"
    by (intro Cons.IH) (auto simp: unat_counter_inc(2))
  with w show ?case by auto
qed simp

lemma deliver_encoded:
  assumes "aead_ok A" "in_sync (encoder c) d" "\<forall>p \<in> set ps. sendable p"
    "encode_all A sip c ps dst = (Inr (), c', dst @ w)"
  shows "\<exists>d'. deliver A sip d (w @ rest) = (case deliver A sip d' rest of (ms, r) \<Rightarrow> (visible ps @ ms, r))
    \<and> in_sync (encoder c') d'"
  using assms(2-4)
proof (induction ps arbitrary: c d dst w)
  case (Cons p ps)
  from Cons.prems(3) obtain c1 dst1 where e1: "encode A sip c p dst = (Inr (), c1, dst1)"
    and e2: "encode_all A sip c1 ps dst1 = (Inr (), c', dst @ w)"
    by (auto split: prod.splits sum.splits)
  from e1 obtain w1 where w1: "dst1 = dst @ w1" and c1: "c1 = encoder_next sip c"
    by (auto simp: encode_ok_iff)
  from encode_all_extends [OF e2] obtain w2 where w2: "w = w1 @ w2" by (auto simp: w1)
  have t: "decode_turn A sip d (w1 @ w2 @ rest) = (turn_of p, decoder_next sip d, w2 @ rest)"
    using decode_turn_encoded [OF assms(1) Cons.prems(1)] e1 w1 sendable_length Cons.prems(2) by simp
  from Cons.IH [of c1 "decoder_next sip d" dst1 w2] e2 w2 w1 Cons.prems c1
  obtain d' where d': "deliver A sip (decoder_next sip d) (w2 @ rest)
      = (case deliver A sip d' rest of (ms, r) \<Rightarrow> (visible ps @ ms, r))" "in_sync (encoder c') d'"
    by (auto simp: in_sync_next)
  from Cons.prems(2) consider "turn_of p = Continue" | m where "turn_of p = Return (Inr (Some m))"
    by (auto simp: sendable_def)
  then have "deliver A sip d (w @ rest) = (case deliver A sip d' rest of (ms, r) \<Rightarrow> (visible (p # ps) @ ms, r))"
    using deliver_turn [OF t] d'(1) w2 by cases (auto split: prod.splits)
  with d'(2) show ?case by blast
qed (auto split: prod.splits)

lemma in_sync_new:
  assumes "length a = KEY_MATERIAL_LENGTH" "length b = KEY_MATERIAL_LENGTH"
  shows "\<exists>c s. codec_new sip a b = Some c \<and> codec_new sip b a = Some s \<and>
    in_sync (encoder c) (decoder s) \<and> in_sync (encoder s) (decoder c)
    \<and> counter (e_nonce (encoder c)) = 1 \<and> counter (e_nonce (encoder s)) = 1"
proof -
  have "\<exists>n d. split_material sip km = Some (take 32 km, n, d) \<and> counter n = 1" if "length km = 72" for km
    using that by (simp add: split_material_def nonce_box_new_def seed_try_from_def const_simps)
  from this [of a] this [of b] assms show ?thesis
    by (auto simp: codec_new_def encoder_new_def decoder_new_def in_sync_def const_simps)
qed

lemma toy_aead_ok [simp]: "aead_ok toy_aead"
  by (auto simp: aead_ok_def toy_aead_def const_simps comp_def xor_cancel)

text \<open>A codec for the witnesses, in step with itself.\<close>

definition wit_decoder :: "bytes decoder" where
  "wit_decoder = \<lparr> d_cipher = [5], d_nonce = \<lparr> prefix = [6], counter = 1 \<rparr>,
     d_drbg = \<lparr> hash = [], ofb = [1, 2] \<rparr>, next_nonce = [], next_length = 0 \<rparr>"

definition wit_codec :: "bytes codec" where
  "wit_codec = \<lparr> encoder = \<lparr> e_cipher = [5], e_nonce = \<lparr> prefix = [6], counter = 1 \<rparr>,
     e_drbg = \<lparr> hash = [], ofb = [1, 2] \<rparr> \<rparr>, decoder = wit_decoder, handshake_complete = False \<rparr>"

section \<open>Properties\<close>

text \<open>
  C12. The data channel delivers: for two codecs made from the two halves of the session
  keys, any list of up to \<open>2\<^sup>64 - 2\<close> packets is encoded without error, and the bytes, cut
  into arbitrary pieces on the way, make the other end deliver exactly the messages in the
  packets, in order, skipping padding and packets of unknown type, with nothing left over,
  no error, and both ends in step for what follows.
\<close>

theorem data_channel_roundtrip:
  assumes "aead_ok A" "length a = KEY_MATERIAL_LENGTH" "length b = KEY_MATERIAL_LENGTH"
    and "\<forall>p \<in> set ps. sendable p" "length ps < 2 ^ 64 - 1"
  shows "\<exists>c s c' w. codec_new sip a b = Some c \<and> codec_new sip b a = Some s
    \<and> encode_all A sip c ps [] = (Inr (), c', w)
    \<and> (\<forall>chunks. concat chunks = w \<longrightarrow>
         (\<exists>d. feed A sip (decoder s) [] chunks = (visible ps, None, d, []) \<and> in_sync (encoder c') d))"
proof -
  obtain c s where n: "codec_new sip a b = Some c" "codec_new sip b a = Some s"
    and sync: "in_sync (encoder c) (decoder s)" and one: "counter (e_nonce (encoder c)) = 1"
    using in_sync_new [OF assms(2,3)] by blast
  from assms(4) have "\<forall>p \<in> set ps. length p \<le> MAX_FRAME_PAYLOAD_LENGTH" by (simp add: sendable_def)
  then obtain c' w where w: "encode_all A sip c ps [] = (Inr (), c', [] @ w)"
    using encode_all_total [OF assms(1), of ps c sip "[]"] assms(5) one by auto
  from deliver_encoded [OF assms(1) sync assms(4) w, of "[]"]
  obtain d where d: "deliver A sip (decoder s) w = (visible ps, None, d, [])" "in_sync (encoder c') d"
    by auto
  have "feed A sip (decoder s) [] chunks = (visible ps, None, d, [])" if "concat chunks = w" for chunks
    using feed_deliver [of A sip "decoder s" "[]" chunks] d(1) that by (auto split: prod.splits)
  with n w d(2) show ?thesis by auto
qed

theorem data_channel_roundtrip_witness:
  "\<exists>c s c' w. codec_new sum_hasher (replicate 72 3) (replicate 72 4) = Some c
    \<and> codec_new sum_hasher (replicate 72 4) (replicate 72 3) = Some s
    \<and> encode_all toy_aead sum_hasher c [[0, 0, 2, 7, 8], [0, 0, 0, 0], [9, 1, 1], [0, 0, 1, 5, 0]] [] = (Inr (), c', w)
    \<and> (\<forall>chunks. concat chunks = w \<longrightarrow>
         (\<exists>d. feed toy_aead sum_hasher (decoder s) [] chunks = ([Payload [7, 8], Payload [5]], None, d, [])
            \<and> in_sync (encoder c') d))"
proof -
  have v: "visible [[0, 0, 2, 7, 8], [0, 0, 0, 0], [9, 1, 1], [0, 0, 1, 5, 0]] = [Payload [7, 8], Payload [5]]"
    by (simp add: turn_of_def try_parse_def message_type_try_from_def const_simps rd16_def)
  show ?thesis
    using data_channel_roundtrip [of toy_aead "replicate 72 3" "replicate 72 4"
        "[[0, 0, 2, 7, 8], [0, 0, 0, 0], [9, 1, 1], [0, 0, 1, 5, 0]]" sum_hasher]
    unfolding v
    by (simp add: const_simps sendable_def turn_of_def try_parse_def message_type_try_from_def rd16_def)
qed

text \<open>
  C14. How the network cuts the stream does not matter, not even for hostile bytes: feeding
  a decoder any pieces gives the messages, the error and the decoder state that feeding
  their concatenation at once gives, and the same bytes left over when there is no error.
\<close>

theorem decoding_chunk_independent:
  "case feed A sip d [] chunks of (ms, e, d', rest) \<Rightarrow>
     (case feed A sip d [] [concat chunks] of (ms2, e2, d2, rest2) \<Rightarrow>
        ms2 = ms \<and> e2 = e \<and> d2 = d' \<and> (e = None \<longrightarrow> rest2 = rest))"
  using feed_deliver [of A sip d "[]" chunks] feed_deliver [of A sip d "[]" "[concat chunks]"]
  by (auto split: prod.splits)

theorem decoding_chunk_independent_witness:
  "case feed toy_aead sum_hasher wit_decoder [] [[1], [2, 3]] of (ms, e, d', rest) \<Rightarrow>
     (case feed toy_aead sum_hasher wit_decoder [] [[1, 2, 3]] of (ms2, e2, d2, rest2) \<Rightarrow>
        ms2 = ms \<and> e2 = e \<and> d2 = d' \<and> (e = None \<longrightarrow> rest2 = rest))"
  using decoding_chunk_independent [of toy_aead sum_hasher wit_decoder "[[1], [2, 3]]"] by simp

lemma decode_loop_only_encoded:
  "aead_ok A \<Longrightarrow> in_sync (encoder c) d \<Longrightarrow> decode_loop A sip d src = (Inr (Some m), d', src') \<Longrightarrow>
   \<exists>ps p c' w. encode_all A sip c (ps @ [p]) dst = (Inr (), c', dst @ w) \<and> src = w @ src'
     \<and> visible (ps @ [p]) = [m] \<and> (\<exists>r. try_parse p = Inr (m, r)) \<and> in_sync (encoder c') d'"
proof (induction A sip d src arbitrary: c dst rule: decode_loop.induct)
  case (1 A sip d src)
  obtain q e s where t: "decode_turn A sip d src = (q, e, s)" by (cases "decode_turn A sip d src")
  with "1.prems"(3) have q: "q = Continue \<or> q = Return (Inr (Some m))"
    by (cases q) (auto simp: decode_loop.simps [of A sip d src])
  from decode_turn_only_encoded [OF "1.prems"(1,2) t q, of dst] obtain p w
    where p: "encode A sip c p dst = (Inr (), encoder_next sip c, dst @ w)" "src = w @ s"
      "turn_of p = q" "e = decoder_next sip d" by blast
  have sync: "in_sync (encoder (encoder_next sip c)) e" using p(4) "1.prems"(2) by (simp add: in_sync_next)
  show ?case
  proof (cases q)
    case Continue
    with t "1.prems"(3) have "decode_loop A sip e s = (Inr (Some m), d', src')"
      by (simp add: decode_loop.simps [of A sip d src])
    from "1.IH" [OF t [symmetric] Continue refl "1.prems"(1) sync this, of "dst @ w"]
    obtain ps p' c' w' where "encode_all A sip (encoder_next sip c) (ps @ [p']) (dst @ w) = (Inr (), c', (dst @ w) @ w')"
      "s = w' @ src'" "visible (ps @ [p']) = [m]" "\<exists>r. try_parse p' = Inr (m, r)" "in_sync (encoder c') d'"
      by blast
    then show ?thesis using p Continue
      by (intro exI [of _ "p # ps"] exI [of _ p'] exI [of _ c'] exI [of _ "w @ w'"]) simp
  next
    case (Return x)
    with t "1.prems"(3) q have "x = Inr (Some m)" "e = d'" "s = src'"
      by (auto simp: decode_loop.simps [of A sip d src])
    moreover from p(3) Return this have "\<exists>r. try_parse p = Inr (m, r)"
      by (auto simp: turn_of_def split: if_splits sum.splits prod.splits messages.splits frame_error.splits)
    ultimately show ?thesis using p sync Return
      by (intro exI [of _ "[]"] exI [of _ p] exI [of _ "encoder_next sip c"] exI [of _ w]) simp
  qed
qed

text \<open>
  C13. Nothing but the peer's own frames is ever delivered: when a decoder that is in step
  with the peer's encoder returns a message, the bytes it consumed are exactly what that
  encoder writes for some sequence of packets, the last of which holds the message and the
  others nothing visible; and the two stay in step. A changed, dropped, repeated or
  reordered frame is therefore never accepted.
\<close>

theorem decoded_is_encoded:
  assumes "aead_ok A" "in_sync (encoder c) (decoder s)"
    and "decode A sip s src = (Inr (Some m), s', rest)"
  shows "\<exists>ps p c' w. encode_all A sip c (ps @ [p]) [] = (Inr (), c', w) \<and> src = w @ rest
     \<and> visible (ps @ [p]) = [m] \<and> (\<exists>r. try_parse p = Inr (m, r)) \<and> in_sync (encoder c') (decoder s')"
  using decode_loop_only_encoded [OF assms(1,2), of sip src m "decoder s'" rest "[]"] assms(3)
  by (auto simp: decode_def split: prod.splits)

lemma wit_decode:
  assumes "encode toy_aead sum_hasher wit_codec [0, 0, 1, 9] [] = (Inr (), c', w)"
  shows "\<exists>s'. decode toy_aead sum_hasher wit_codec (w @ [3]) = (Inr (Some (Payload [9])), s', [3])"
proof -
  have "decode_turn toy_aead sum_hasher wit_decoder (w @ [3]) =
      (turn_of [0, 0, 1, 9], decoder_next sum_hasher wit_decoder, [3])"
    using assms by (intro decode_turn_encoded [of _ wit_codec _ _ _ "[]" c'])
      (simp_all add: in_sync_def wit_codec_def wit_decoder_def const_simps)
  moreover have "turn_of [0, 0, 1, 9] = Return (Inr (Some (Payload [9])))"
    by (simp add: turn_of_def try_parse_def message_type_try_from_def const_simps rd16_def)
  ultimately show ?thesis by (simp add: decode_def wit_codec_def decode_loop.simps)
qed

theorem decoded_is_encoded_witness:
  "\<exists>w c' ps p. encode_all toy_aead sum_hasher wit_codec (ps @ [p]) [] = (Inr (), c', w)
     \<and> visible (ps @ [p]) = [Payload [9]]"
proof -
  obtain w where "encode toy_aead sum_hasher wit_codec [0, 0, 1, 9] [] = (Inr (), encoder_next sum_hasher wit_codec, [] @ w)"
    by (rule encode_total [of toy_aead "[0, 0, 1, 9]" wit_codec sum_hasher "[]"])
      (simp_all add: wit_codec_def const_simps)
  then obtain s' where "decode toy_aead sum_hasher wit_codec (w @ [3]) = (Inr (Some (Payload [9])), s', [3])"
    using wit_decode by force
  from decoded_is_encoded [OF _ _ this, of wit_codec] show ?thesis
    by (auto simp: in_sync_def wit_codec_def wit_decoder_def)
qed

section \<open>Nonces\<close>

text \<open>
  Every packet given to one encoder in turn, whether the packets before it were taken or
  not: the results and the bytes each call appended.
\<close>

fun encode_each :: "aead \<Rightarrow> 's siphasher \<Rightarrow> 's codec \<Rightarrow> bytes list \<Rightarrow> ((frame_error + unit) \<times> bytes) list" where
  "encode_each A sip c [] = []"
| "encode_each A sip c (p # ps) =
     (case encode A sip c p [] of (r, c', w) \<Rightarrow> (r, w) # encode_each A sip c' ps)"

definition fits_frame :: "bytes \<Rightarrow> bool" where
  "fits_frame p \<longleftrightarrow> length p \<le> MAX_FRAME_PAYLOAD_LENGTH"

text \<open>What a call appends when it seals \<open>p\<close> under the key \<open>k\<close> and the nonce \<open>n\<close>, behind the masked length \<open>l\<close>.\<close>

definition sealed :: "aead \<Rightarrow> bytes \<Rightarrow> bytes \<Rightarrow> bytes \<Rightarrow> bytes \<Rightarrow> (frame_error + unit) \<times> bytes" where
  "sealed A k n p l =
     (case aead_encrypt A k n p of
        Inl e \<Rightarrow> (Inl (FCrypto e), l @ replicate TAG_SIZE 0 @ p)
      | Inr (ct, tag) \<Rightarrow> (Inr (), l @ tag @ ct))"

lemma encode_fits:
  assumes "fits_frame p" "counter (e_nonce (encoder c)) \<noteq> - 1"
  shows "\<exists>l r w. encode A sip c p [] = (r, encoder_next sip c, w) \<and> length l = 2
    \<and> (r, w) = sealed A (e_cipher (encoder c)) (prefix (e_nonce (encoder c)) @ be64 (counter (e_nonce (encoder c)))) p l"
  using assms
  by (auto simp: encode_def fits_frame_def nonce_next_def Let_def encoder_next_def sealed_def case_prod_beta be16_def
      intro!: exI [of _ "be16 (of_nat (length p + TAG_SIZE) XOR fst (length_mask sip (e_drbg (encoder c))))"] split: sum.splits)

lemma encode_refused:
  "\<not> fits_frame p \<Longrightarrow> encode A sip c p [] = (Inl (InvalidPayloadLength (length p)), c, [])"
  "fits_frame p \<Longrightarrow> counter (e_nonce (encoder c)) = - 1 \<Longrightarrow> encode A sip c p [] = (Inl NonceCounterWrapped, c, [])"
  by (simp_all add: encode_def fits_frame_def nonce_next_def)

text \<open>The nonce of the \<open>k\<close>-th frame an encoder seals from the state \<open>b\<close> on.\<close>

definition frame_nonce :: "nonce_box \<Rightarrow> nat \<Rightarrow> bytes" where
  "frame_nonce b k = prefix b @ be64 (counter b + of_nat k)"

lemma frame_nonce_inc: "frame_nonce (nonce_inc b) k = frame_nonce b (Suc k)"
  by (simp add: frame_nonce_def nonce_inc_def ac_simps)

text \<open>
  The outcome of one call when \<open>k\<close> packets were sealed before and the encoder has \<open>limit\<close>
  nonces in all.
\<close>

definition call_result ::
  "aead \<Rightarrow> bytes \<Rightarrow> (nat \<Rightarrow> bytes) \<Rightarrow> nat \<Rightarrow> nat \<Rightarrow> bytes \<Rightarrow> (frame_error + unit) \<times> bytes \<Rightarrow> bool" where
  "call_result A key nonce limit k p r \<longleftrightarrow>
     (if \<not> fits_frame p then r = (Inl (InvalidPayloadLength (length p)), [])
      else if limit \<le> k then r = (Inl NonceCounterWrapped, [])
      else \<exists>l. length l = 2 \<and> r = sealed A key (nonce k) p l)"

definition nonces_left :: "nonce_box \<Rightarrow> nat" where
  "nonces_left b = 2 ^ 64 - 1 - unat (counter b)"

lemma nonces_left_inc:
  assumes "counter b \<noteq> - 1" shows "nonces_left b = Suc (nonces_left (nonce_inc b))"
proof -
  have "unat (counter b + 1) < 2 ^ 64" by (rule order_less_le_trans [OF unsigned_less]) simp
  with unat_counter_inc [OF assms] show ?thesis by (simp add: nonces_left_def nonce_inc_def)
qed

lemma nonces_left_0: "counter b = - 1 \<Longrightarrow> nonces_left b = 0"
  by (simp add: nonces_left_def unsigned_minus_1_eq_mask mask_eq_exp_minus_1)

lemma encode_each_nth:
  assumes "i < length ps"
  shows "call_result A (e_cipher (encoder c)) (frame_nonce (e_nonce (encoder c))) (nonces_left (e_nonce (encoder c)))
    (length (filter fits_frame (take i ps))) (ps ! i) (encode_each A sip c ps ! i)"
  using assms
proof (induction ps arbitrary: c i)
  case (Cons p ps)
  consider (long) "\<not> fits_frame p" | (spent) "fits_frame p" "counter (e_nonce (encoder c)) = - 1"
    | (seals) "fits_frame p" "counter (e_nonce (encoder c)) \<noteq> - 1" by blast
  then show ?case
  proof cases
    case long
    with Cons show ?thesis by (cases i) (simp_all add: encode_refused call_result_def [of _ _ _ _ _ p])
  next
    case spent
    note z = nonces_left_0 [OF spent(2)]
    show ?thesis using Cons.prems Cons.IH [of _ c] spent(1) encode_refused(2) [OF spent]
      by (cases i) (simp_all add: z call_result_def)
  next
    case seals
    then obtain l r w where e: "encode A sip c p [] = (r, encoder_next sip c, w)" "length l = 2"
        "(r, w) = sealed A (e_cipher (encoder c)) (frame_nonce (e_nonce (encoder c)) 0) p l"
      using encode_fits [of p c A sip] by (auto simp: frame_nonce_def)
    have n: "e_nonce (encoder (encoder_next sip c)) = nonce_inc (e_nonce (encoder c))"
        "e_cipher (encoder (encoder_next sip c)) = e_cipher (encoder c)" by (simp_all add: encoder_next_def)
    note u = nonces_left_inc [OF seals(2)]
    show ?thesis
    proof (cases i)
      case 0
      with e seals(1) u show ?thesis by (auto simp: call_result_def)
    next
      case (Suc j)
      with Cons.IH [of j "encoder_next sip c"] Cons.prems seals(1) e(1) u show ?thesis
        by (simp add: n frame_nonce_inc call_result_def)
    qed
  qed
qed simp

lemma codec_new_encoder:
  assumes "codec_new sip ekm dkm = Some c"
  shows "counter (e_nonce (encoder c)) = 1" "length (prefix (e_nonce (encoder c))) = NONCE_PREFIX_LENGTH"
    "e_cipher (encoder c) = take KEY_LENGTH ekm"
  using assms by (auto simp: codec_new_def encoder_new_def split_material_def nonce_box_new_def const_simps
      split: option.splits if_splits sum.splits)

lemma frame_nonce_inj: "counter b = 1 \<Longrightarrow> inj_on (frame_nonce b) {..<2 ^ 64 - 2}"
proof (rule inj_onI)
  fix i j :: nat
  assume "counter b = 1" and ij: "i \<in> {..<2 ^ 64 - 2}" "j \<in> {..<2 ^ 64 - 2}" and "frame_nonce b i = frame_nonce b j"
  then have "unat (of_nat i :: u64) = unat (of_nat j :: u64)" by (simp add: frame_nonce_def)
  with ij show "i = j" by (simp add: unat_of_nat take_bit_eq_mod)
qed

text \<open>
  C34. No nonce is used twice: there is one sequence of pairwise different nonces of 24 bytes,
  the same for every cipher, such that a session's encoder, whatever packets it is given,
  seals the packet before which \<open>k\<close> packets were sealed under its own key and exactly the
  \<open>k\<close>-th nonce. A packet too long for a frame is refused with its length, writes nothing and
  takes no nonce; after \<open>2\<^sup>64 - 2\<close> packets the encoder only reports the wrap and seals nothing.
\<close>

theorem nonces_unique:
  assumes "codec_new sip ekm dkm = Some c"
  shows "\<exists>nonce. inj_on nonce {..<2 ^ 64 - 2} \<and> (\<forall>k. length (nonce k) = NONCE_LENGTH)
    \<and> (\<forall>A ps i. i < length ps \<longrightarrow>
         call_result A (take KEY_LENGTH ekm) nonce (2 ^ 64 - 2) (length (filter fits_frame (take i ps))) (ps ! i)
           (encode_each A sip c ps ! i))"
proof -
  note b = codec_new_encoder [OF assms]
  have l: "nonces_left (e_nonce (encoder c)) = 2 ^ 64 - 2" using b(1) by (simp add: nonces_left_def)
  have len: "length (frame_nonce (e_nonce (encoder c)) k) = NONCE_LENGTH" for k
    using b(2) by (simp add: frame_nonce_def const_simps)
  show ?thesis
    by (intro exI [of _ "frame_nonce (e_nonce (encoder c))"] conjI allI impI frame_nonce_inj [OF b(1)] len)
      (rule encode_each_nth [where sip = sip and c = c, unfolded b(3) l])
qed

theorem nonces_unique_witness:
  "\<exists>c n0 n1. codec_new sum_hasher (replicate 72 7) (replicate 72 8) = Some c \<and> n0 \<noteq> n1
     \<and> (\<exists>l. encode_each toy_aead sum_hasher c [[0, 0, 1, 9], replicate 2000 0, [0, 0, 1, 9]] ! 0
          = sealed toy_aead (replicate 32 7) n0 [0, 0, 1, 9] l)
     \<and> encode_each toy_aead sum_hasher c [[0, 0, 1, 9], replicate 2000 0, [0, 0, 1, 9]] ! 1 = (Inl (InvalidPayloadLength 2000), [])
     \<and> (\<exists>l. encode_each toy_aead sum_hasher c [[0, 0, 1, 9], replicate 2000 0, [0, 0, 1, 9]] ! 2
          = sealed toy_aead (replicate 32 7) n1 [0, 0, 1, 9] l)"
proof -
  define long :: bytes where "long = replicate 2000 0"
  let ?ps = "[[0, 0, 1, 9], long, [0, 0, 1, 9]] :: bytes list"
  obtain c where c: "codec_new sum_hasher (replicate 72 7) (replicate 72 8) = Some c"
    by (auto simp: codec_new_def encoder_new_def decoder_new_def split_material_def nonce_box_new_def seed_try_from_def const_simps)
  have f: "fits_frame [0, 0, 1, 9]" "\<not> fits_frame long" "length long = 2000" by (simp_all add: fits_frame_def long_def const_simps)
  from nonces_unique [OF c] obtain nonce where n: "inj_on nonce {..<2 ^ 64 - 2}"
    and e: "\<And>i. i < length ?ps \<Longrightarrow> call_result toy_aead (take KEY_LENGTH (replicate 72 7)) nonce (2 ^ 64 - 2)
      (length (filter fits_frame (take i ?ps))) (?ps ! i) (encode_each toy_aead sum_hasher c ?ps ! i)" by blast
  have "nonce 0 \<noteq> nonce 1"
  proof
    assume "nonce 0 = nonce 1"
    from inj_onD [OF n this] show False by simp
  qed
  moreover have "\<exists>l. encode_each toy_aead sum_hasher c ?ps ! 0 = sealed toy_aead (replicate 32 7) (nonce 0) [0, 0, 1, 9] l"
    using e [of 0] f(1) by (auto simp: call_result_def const_simps simp del: encode_each.simps)
  moreover have "encode_each toy_aead sum_hasher c ?ps ! 1 = (Inl (InvalidPayloadLength 2000), [])"
    using e [of 1] f(2,3) by (simp add: call_result_def del: encode_each.simps)
  moreover have "\<exists>l. encode_each toy_aead sum_hasher c ?ps ! 2 = sealed toy_aead (replicate 32 7) (nonce 1) [0, 0, 1, 9] l"
    using e [of 2] f(1,2) by (auto simp: call_result_def const_simps simp del: encode_each.simps)
  ultimately show ?thesis using c unfolding long_def by blast
qed

text \<open>
  A frame is never longer than one segment: encoding a packet of at most 1,430 bytes
  appends exactly its length plus 18 bytes, at most 1,448; a longer packet is refused with
  its length and changes neither the codec nor the buffer, so the session survives it.
\<close>

theorem encode_frame_bounds:
  assumes "aead_ok A" "counter (e_nonce (encoder c)) \<noteq> - 1"
  shows "if length p \<le> MAX_FRAME_PAYLOAD_LENGTH
    then \<exists>c' w. encode A sip c p dst = (Inr (), c', dst @ w) \<and> length w = length p + 18
           \<and> length w \<le> MAX_SEGMENT_LENGTH \<and> decoder c' = decoder c
    else encode A sip c p dst = (Inl (InvalidPayloadLength (length p)), c, dst)"
proof (cases "length p \<le> MAX_FRAME_PAYLOAD_LENGTH")
  case True
  from encode_total [OF assms(1) True assms(2), of sip dst] obtain w
    where w: "encode A sip c p dst = (Inr (), encoder_next sip c, dst @ w)" "length w = length p + FRAME_OVERHEAD"
    by blast
  moreover from w(2) have "length w = length p + 18" "length w \<le> MAX_SEGMENT_LENGTH"
    using True by (simp_all add: const_simps)
  moreover have "decoder (encoder_next sip c) = decoder c" by (simp add: encoder_next_def)
  ultimately show ?thesis using True by auto
qed (simp add: encode_def)

theorem encode_frame_bounds_witness:
  "\<exists>c' w. encode toy_aead sum_hasher wit_codec [0, 0, 1, 9] [] = (Inr (), c', [] @ w)
     \<and> length w = length [0 :: u8, 0, 1, 9] + 18 \<and> length w \<le> MAX_SEGMENT_LENGTH \<and> decoder c' = decoder wit_codec"
  using encode_frame_bounds [of toy_aead wit_codec "[0, 0, 1, 9]" sum_hasher "[]"]
  by (simp add: wit_codec_def const_simps)

end
