(* ===== verification/Keys.thy ===== *)
theory Keys
  imports Errors
begin

text \<open>
  \<^verbatim>\<open>crates/obfs4/src/common/x25519_elligator2.rs\<close>: x25519 keys with Elligator2
  representatives. The curve itself (\<^verbatim>\<open>x25519_dalek\<close>, \<^verbatim>\<open>curve25519_elligator2\<close>) is the
  parameter \<open>curve\<close>; what the handshake relies on is \<open>curve_ok\<close>. A random source is the
  sequence of its draws. \<^term>\<open>None\<close> in place of a result is a panic.
\<close>

record curve =
  to_representative :: "bytes \<Rightarrow> u8 \<Rightarrow> bytes option"
  map_to_point :: "bytes \<Rightarrow> bytes"
  mul_base_clamped :: "bytes \<Rightarrow> bytes"
  static_public :: "bytes \<Rightarrow> bytes"
  x25519 :: "bytes \<Rightarrow> bytes \<Rightarrow> bytes"
  was_contributory :: "bytes \<Rightarrow> bool"

text \<open>
  A representative maps back to the public key it was made from, and both sides of a
  Diffie-Hellman exchange get the same secret, between two ephemeral keys and between an
  ephemeral and a static one.
\<close>

definition curve_ok :: "curve \<Rightarrow> bool" where
  "curve_ok V \<longleftrightarrow>
     (\<forall>sk t r. to_representative V sk t = Some r \<longrightarrow> length r = 32 \<and> map_to_point V r = mul_base_clamped V sk)
   \<and> (\<forall>a b. x25519 V a (mul_base_clamped V b) = x25519 V b (mul_base_clamped V a))
   \<and> (\<forall>a b. x25519 V a (static_public V b) = x25519 V b (mul_base_clamped V a))"

definition REPRESENTATIVE_LENGTH :: nat where [const_simps]: "REPRESENTATIVE_LENGTH = 32"
definition RETRY_LIMIT :: nat where "RETRY_LIMIT = 128"

record ephemeral_secret =
  eph_sk :: bytes
  eph_tweak :: u8

definition eph_diffie_hellman :: "curve \<Rightarrow> ephemeral_secret \<Rightarrow> bytes \<Rightarrow> bytes" where
  "eph_diffie_hellman V s their_public = x25519 V (eph_sk s) their_public"

definition eph_public :: "curve \<Rightarrow> ephemeral_secret \<Rightarrow> bytes" where
  "eph_public V s = mul_base_clamped V (eph_sk s)"

definition public_representative :: "curve \<Rightarrow> ephemeral_secret \<Rightarrow> bytes option" where
  "public_representative V s = to_representative V (eph_sk s) (eph_tweak s)"

definition representative_public :: "curve \<Rightarrow> bytes \<Rightarrow> bytes" where
  "representative_public V r = map_to_point V r"

fun ephemeral_attempts :: "curve \<Rightarrow> (nat \<Rightarrow> bytes \<times> u8) \<Rightarrow> nat \<Rightarrow> nat \<Rightarrow> obfs4_error + ephemeral_secret" where
  "ephemeral_attempts V rng i 0 =
     Inl (ECrypto ''elligator2: no representable secret within retry limit'')"
| "ephemeral_attempts V rng i (Suc n) =
     (let (private, tweak) = rng i in
      if to_representative V private tweak \<noteq> None
      then Inr \<lparr> eph_sk = private, eph_tweak = tweak \<rparr>
      else ephemeral_attempts V rng (i + 1) n)"

definition ephemeral_from_rng :: "curve \<Rightarrow> (nat \<Rightarrow> bytes \<times> u8) \<Rightarrow> obfs4_error + ephemeral_secret" where
  "ephemeral_from_rng V rng = ephemeral_attempts V rng 0 RETRY_LIMIT"

fun random_attempts ::
  "curve \<Rightarrow> (nat \<Rightarrow> bytes \<times> (string + u8)) \<Rightarrow> nat \<Rightarrow> nat \<Rightarrow> obfs4_error + ephemeral_secret" where
  "random_attempts V os i 0 =
     Inl (ECrypto ''elligator2: no representable secret within retry limit'')"
| "random_attempts V os i (Suc n) =
     (case os i of
        (private, Inl e) \<Rightarrow> Inl (RngSourceErr e)
      | (private, Inr tweak) \<Rightarrow>
          if to_representative V private tweak \<noteq> None
          then Inr \<lparr> eph_sk = private, eph_tweak = tweak \<rparr>
          else random_attempts V os (i + 1) n)"

definition random_ephemeral :: "curve \<Rightarrow> (nat \<Rightarrow> bytes \<times> (string + u8)) \<Rightarrow> obfs4_error + ephemeral_secret" where
  "random_ephemeral V os = random_attempts V os 0 RETRY_LIMIT"

section \<open>Facts\<close>

text \<open>
  Generation succeeds exactly when one of the first 128 draws is representable, and the
  secret it returns is the first such draw, so computing its representative cannot panic.
\<close>

lemma ephemeral_attempts_representable:
  "ephemeral_attempts V rng i n = Inr s \<Longrightarrow> public_representative V s \<noteq> None"
  by (induction V rng i n rule: ephemeral_attempts.induct)
    (auto simp: public_representative_def Let_def split: prod.splits if_splits)

lemma ephemeral_attempts_iff:
  "(\<exists>s. ephemeral_attempts V rng i n = Inr s) \<longleftrightarrow>
   (\<exists>j < n. case rng (i + j) of (p, t) \<Rightarrow> to_representative V p t \<noteq> None)"
proof (induction V rng i n rule: ephemeral_attempts.induct)
  case (2 V rng i n)
  show ?case
  proof (cases "case rng i of (p, t) \<Rightarrow> to_representative V p t \<noteq> None")
    case True
    then show ?thesis by (auto simp: Let_def split: prod.splits intro!: exI [of _ 0])
  next
    case False
    have "(\<exists>j < Suc n. case rng (i + j) of (p, t) \<Rightarrow> to_representative V p t \<noteq> None) \<longleftrightarrow>
        (\<exists>j < n. case rng (i + 1 + j) of (p, t) \<Rightarrow> to_representative V p t \<noteq> None)"
      using False by (auto simp: Ex_less_Suc2)
    with False 2 show ?thesis by (auto simp: Let_def split: prod.splits)
  qed
qed simp

lemma representative_roundtrip:
  assumes "curve_ok V" "public_representative V s = Some r"
  shows "representative_public V r = eph_public V s" "length r = 32"
  using assms unfolding curve_ok_def public_representative_def representative_public_def eph_public_def
  by blast+

lemma dh_agree:
  assumes "curve_ok V"
  shows "eph_diffie_hellman V a (eph_public V b) = eph_diffie_hellman V b (eph_public V a)"
    "eph_diffie_hellman V a (static_public V sk) = x25519 V sk (eph_public V a)"
  using assms unfolding curve_ok_def eph_diffie_hellman_def eph_public_def by blast+

text \<open>A curve for the witnesses: addition modulo 256 on the first byte.\<close>

definition toy_curve :: curve where
  "toy_curve = \<lparr> to_representative = (\<lambda>sk t. Some (replicate 32 (hd (sk @ [0])))),
     map_to_point = (\<lambda>r. replicate 32 (hd r)),
     mul_base_clamped = (\<lambda>sk. replicate 32 (hd (sk @ [0]))),
     static_public = (\<lambda>sk. replicate 32 (hd (sk @ [0]))),
     x25519 = (\<lambda>a p. replicate 32 (hd (a @ [0]) + hd p)), was_contributory = (\<lambda>s. hd s \<noteq> 0) \<rparr>"

lemma toy_curve_ok [simp]: "curve_ok toy_curve"
  by (auto simp: curve_ok_def toy_curve_def numeral_eq_Suc ac_simps)

end
