(* ===== verification/Handshake.thy ===== *)
theory Handshake
  imports Keys Codec ReplayFilter
begin

text \<open>
  The obfs4 ntor handshake: \<^verbatim>\<open>framing/handshake.rs\<close> (the two hello messages),
  \<^verbatim>\<open>handshake/utils.rs\<close>, \<^verbatim>\<open>handshake/mod.rs\<close> (key derivation, the key generator, node keys),
  \<^verbatim>\<open>handshake/handshake_client.rs\<close>, \<^verbatim>\<open>handshake/handshake_server.rs\<close> and \<^verbatim>\<open>common/kdf.rs\<close>.

  HMAC-SHA256 and HKDF-SHA256 are the fields of the parameter \<open>kdfs\<close>; updating an HMAC in
  pieces and finalising it is one application to the concatenation. The system clock, the
  monotonic clock and the random draws (padding bytes and lengths, keys) are arguments.
  A result in \<^typ>\<open>'a option\<close> around a \<^verbatim>\<open>Result\<close> has \<^term>\<open>None\<close> for a panic (an \<^verbatim>\<open>expect\<close> or
  \<^verbatim>\<open>unwrap\<close> that fails). The server's shared replay filter is passed and returned.
\<close>

section \<open>Constants\<close>

definition AUTHCODE_LENGTH :: nat where [const_simps]: "AUTHCODE_LENGTH = 32"
definition MAX_HANDSHAKE_LENGTH :: nat where [const_simps]: "MAX_HANDSHAKE_LENGTH = 8192"
definition SHA256_SIZE :: nat where [const_simps]: "SHA256_SIZE = 32"
definition MARK_LENGTH :: nat where [const_simps]: "MARK_LENGTH = SHA256_SIZE div 2"
definition MAC_LENGTH :: nat where [const_simps]: "MAC_LENGTH = SHA256_SIZE div 2"
definition SEED_MESSAGE_PAYLOAD_LENGTH :: nat where [const_simps]: "SEED_MESSAGE_PAYLOAD_LENGTH = SEED_LENGTH"
definition INLINE_SEED_FRAME_LENGTH :: nat where
  [const_simps]: "INLINE_SEED_FRAME_LENGTH = FRAME_OVERHEAD + MESSAGE_OVERHEAD + SEED_MESSAGE_PAYLOAD_LENGTH"
definition CLIENT_MIN_HANDSHAKE_LENGTH :: nat where
  [const_simps]: "CLIENT_MIN_HANDSHAKE_LENGTH = REPRESENTATIVE_LENGTH + MARK_LENGTH + MAC_LENGTH"
definition SERVER_MIN_HANDSHAKE_LENGTH :: nat where
  [const_simps]: "SERVER_MIN_HANDSHAKE_LENGTH = REPRESENTATIVE_LENGTH + AUTHCODE_LENGTH + MARK_LENGTH + MAC_LENGTH"
definition CLIENT_MIN_PAD_LENGTH :: nat where
  [const_simps]: "CLIENT_MIN_PAD_LENGTH =
     (SERVER_MIN_HANDSHAKE_LENGTH + INLINE_SEED_FRAME_LENGTH) - CLIENT_MIN_HANDSHAKE_LENGTH"
definition CLIENT_MAX_PAD_LENGTH :: nat where
  [const_simps]: "CLIENT_MAX_PAD_LENGTH = MAX_HANDSHAKE_LENGTH - CLIENT_MIN_HANDSHAKE_LENGTH"
definition SERVER_MIN_PAD_LENGTH :: nat where [const_simps]: "SERVER_MIN_PAD_LENGTH = 0"
definition SERVER_MAX_PAD_LENGTH :: nat where
  [const_simps]: "SERVER_MAX_PAD_LENGTH =
     MAX_HANDSHAKE_LENGTH - (SERVER_MIN_HANDSHAKE_LENGTH + INLINE_SEED_FRAME_LENGTH)"
definition SESSION_ID_LEN :: nat where [const_simps]: "SESSION_ID_LEN = 8"
definition NODE_ID_LENGTH :: nat where [const_simps]: "NODE_ID_LENGTH = 20"
definition NODE_PUBKEY_LENGTH :: nat where [const_simps]: "NODE_PUBKEY_LENGTH = 32"
definition REPLAY_TTL :: nat where "REPLAY_TTL = 30 * 3600 * 10 ^ 9"

definition PROTO_ID :: bytes where "PROTO_ID = str_bytes ''ntor-curve25519-sha256-1''"
definition T_MAC :: bytes where "T_MAC = str_bytes ''ntor-curve25519-sha256-1:mac''"
definition T_VERIFY :: bytes where "T_VERIFY = str_bytes ''ntor-curve25519-sha256-1:key_verify''"
definition T_KEY :: bytes where "T_KEY = str_bytes ''ntor-curve25519-sha256-1:key_extract''"
definition M_EXPAND :: bytes where "M_EXPAND = str_bytes ''ntor-curve25519-sha256-1:key_expand''"

section \<open>Keyed hashing and key derivation\<close>

record kdfs =
  hmac :: "bytes \<Rightarrow> bytes \<Rightarrow> bytes"
  hkdf :: "bytes \<Rightarrow> bytes \<Rightarrow> bytes \<Rightarrow> nat \<Rightarrow> bytes option"

definition kdfs_ok :: "kdfs \<Rightarrow> bool" where
  "kdfs_ok K \<longleftrightarrow> (\<forall>k d. length (hmac K k d) = SHA256_SIZE)
     \<and> (\<forall>s i n l. l \<le> 255 * 32 \<longrightarrow> (\<exists>okm. hkdf K s i n l = Some okm \<and> length okm = l))"

definition ntor1_derive :: "kdfs \<Rightarrow> bytes \<Rightarrow> bytes \<Rightarrow> bytes \<Rightarrow> nat \<Rightarrow> obfs4_error + bytes" where
  "ntor1_derive K t_key m_expand seed n_bytes =
     ok_or InvalidKDFOutputLength (hkdf K t_key seed m_expand n_bytes)"

section \<open>Node keys\<close>

record ntor_public_key =
  nk_id :: bytes
  nk_pk :: bytes

record ntor_secret_key =
  nsk_pk :: ntor_public_key
  nsk_sk :: bytes

definition ntor_public_key_new :: "bytes \<Rightarrow> bytes \<Rightarrow> ntor_public_key" where
  "ntor_public_key_new pk ident = \<lparr> nk_id = ident, nk_pk = pk \<rparr>"

definition ntor_pk_from_str :: "(string \<Rightarrow> string + bytes) \<Rightarrow> string \<Rightarrow> obfs4_error + ntor_public_key" where
  "ntor_pk_from_str b64_decode s =
     (case b64_decode (s @ ''=='') of
        Inl e \<Rightarrow> Inl (EOther (''failed to decode cert: '' @ e))
      | Inr decoded \<Rightarrow>
          if length decoded \<noteq> NODE_ID_LENGTH + NODE_PUBKEY_LENGTH
          then Inl (EOther (''cert length '' @ show_nat (length decoded) @ '' is invalid''))
          else Inr (ntor_public_key_new (drop NODE_ID_LENGTH decoded) (take NODE_ID_LENGTH decoded)))"

definition ntor_pk_to_string :: "(bytes \<Rightarrow> string) \<Rightarrow> ntor_public_key \<Rightarrow> string" where
  "ntor_pk_to_string b64_encode k = b64_encode (nk_id k @ nk_pk k)"

definition ntor_secret_key_new :: "curve \<Rightarrow> bytes \<Rightarrow> bytes \<Rightarrow> ntor_secret_key" where
  "ntor_secret_key_new V sk ident =
     \<lparr> nsk_pk = \<lparr> nk_id = ident, nk_pk = static_public V sk \<rparr>, nsk_sk = sk \<rparr>"

text \<open>The HMAC key of both hellos: the node's public key, then its identity.\<close>

definition mac_key :: "ntor_public_key \<Rightarrow> bytes" where
  "mac_key k = nk_pk k @ nk_id k"

section \<open>Key generation\<close>

record 's keygen =
  kg_seed :: bytes
  kg_codec :: "'s codec"
  kg_session_id :: bytes

definition keygen_kdf :: "kdfs \<Rightarrow> bytes \<Rightarrow> nat \<Rightarrow> obfs4_error + bytes" where
  "keygen_kdf K seed keylen = ntor1_derive K T_KEY M_EXPAND seed keylen"

definition keygen_new :: "kdfs \<Rightarrow> 's siphasher \<Rightarrow> bytes \<Rightarrow> bool \<Rightarrow> 's keygen option" where
  "keygen_new K sip seed is_client =
     (case keygen_kdf K seed (KEY_MATERIAL_LENGTH * 2 + SESSION_ID_LEN) of
        Inl _ \<Rightarrow> None
      | Inr okm \<Rightarrow>
          let ekm = take KEY_MATERIAL_LENGTH (drop KEY_MATERIAL_LENGTH okm);
              dkm = take KEY_MATERIAL_LENGTH okm;
              session_id = drop (KEY_MATERIAL_LENGTH * 2) okm
          in case (if is_client then codec_new sip dkm ekm else codec_new sip ekm dkm) of
               None \<Rightarrow> None
             | Some codec \<Rightarrow> Some \<lparr> kg_seed = seed, kg_codec = codec, kg_session_id = session_id \<rparr>)"

definition keygen_expand :: "kdfs \<Rightarrow> 's keygen \<Rightarrow> nat \<Rightarrow> obfs4_error + bytes" where
  "keygen_expand K g keylen = ntor1_derive K T_KEY M_EXPAND (kg_seed g) keylen"

text \<open>Writing to an owned buffer cannot fail, so the \<^verbatim>\<open>EncodeResult\<close> is always \<^verbatim>\<open>Ok\<close>.\<close>

definition ntor_derive ::
  "kdfs \<Rightarrow> bytes \<Rightarrow> bytes \<Rightarrow> ntor_public_key \<Rightarrow> bytes \<Rightarrow> bytes \<Rightarrow> bytes \<times> bytes" where
  "ntor_derive K xy xb server_pk x y =
     (let suffix = nk_pk server_pk @ nk_pk server_pk @ x @ y @ PROTO_ID @ nk_id server_pk;
          message = xy @ xb @ suffix;
          verify = hmac K T_VERIFY message;
          auth_input = verify @ suffix @ str_bytes ''Server'';
          auth = hmac K T_MAC auth_input;
          key_seed = hmac K T_KEY message
      in (key_seed, auth))"

section \<open>Utilities\<close>

text \<open>
  The system clock counts whole seconds since 1970, rounded down, and is negative before; the
  generator answers with the bytes asked for or fails. Both failures panic: \<^term>\<open>None\<close>.
\<close>

definition get_epoch_hour :: "int \<Rightarrow> nat option" where
  "get_epoch_hour unix_secs = (if unix_secs < 0 then None else Some (nat unix_secs div 3600))"

definition make_hs_pad :: "(nat \<Rightarrow> bytes option) \<Rightarrow> nat \<Rightarrow> bytes option" where
  "make_hs_pad rng pad_len = rng pad_len"

text \<open>\<^verbatim>\<open>windows(MARK_LENGTH).position(..)\<close>.\<close>

fun window_position :: "bytes \<Rightarrow> bytes \<Rightarrow> nat option" where
  "window_position mark [] = None"
| "window_position mark (x # xs) =
     (if length (x # xs) < MARK_LENGTH then None
      else if take MARK_LENGTH (x # xs) = mark then Some 0
      else map_option Suc (window_position mark xs))"

text \<open>Both callers have \<open>start_pos \<le> max_pos\<close>, so \<open>end_pos - start_pos\<close> does not underflow.\<close>

definition find_mac_mark :: "bytes \<Rightarrow> bytes \<Rightarrow> nat \<Rightarrow> nat \<Rightarrow> bool \<Rightarrow> nat option" where
  "find_mac_mark mark buffer start_pos max_pos from_tail =
     (if length buffer < MARK_LENGTH then None
      else if start_pos > length buffer then None
      else let end_pos = (if length buffer > max_pos then max_pos else length buffer) in
        if end_pos - start_pos < MARK_LENGTH + MAC_LENGTH then None
        else if from_tail then
          let pos = end_pos - (MARK_LENGTH + MAC_LENGTH) in
          if mark = take MARK_LENGTH (drop pos buffer) then Some pos else None
        else case window_position mark (take (end_pos - start_pos) (drop start_pos buffer)) of
            None \<Rightarrow> None
          | Some pos \<Rightarrow>
              if start_pos + pos + MARK_LENGTH + MAC_LENGTH > end_pos then None
              else Some (pos + start_pos))"

section \<open>Hello messages\<close>

record server_hello =
  sh_auth :: bytes
  sh_pad_len :: nat
  sh_repres :: bytes
  sh_pubkey :: "bytes option"
  sh_epoch_hour :: string

definition server_hello_new :: "nat \<Rightarrow> bytes \<Rightarrow> bytes \<Rightarrow> string \<Rightarrow> server_hello" where
  "server_hello_new pad_draw repres auth epoch_hr =
     \<lparr> sh_auth = auth, sh_pad_len = pad_draw, sh_repres = repres, sh_pubkey = None, sh_epoch_hour = epoch_hr \<rparr>"

definition server_pubkey :: "curve \<Rightarrow> server_hello \<Rightarrow> bytes \<times> server_hello" where
  "server_pubkey V m =
     (case sh_pubkey m of Some pk \<Rightarrow> (pk, m)
      | None \<Rightarrow> let pk = representative_public V (sh_repres m) in (pk, m \<lparr> sh_pubkey := Some pk \<rparr>))"

definition server_hello_marshall ::
  "kdfs \<Rightarrow> (nat \<Rightarrow> bytes option) \<Rightarrow> bytes \<Rightarrow> server_hello \<Rightarrow> bytes \<Rightarrow> bytes option" where
  "server_hello_marshall K rng key m buf =
     (let mark = take MARK_LENGTH (hmac K key (sh_repres m)) in
      case make_hs_pad rng (sh_pad_len m) of
        None \<Rightarrow> None
      | Some pad \<Rightarrow>
          let params = sh_repres m @ sh_auth m @ pad @ mark;
              mac = take MAC_LENGTH (hmac K key (params @ str_bytes (sh_epoch_hour m)))
          in Some (buf @ params @ mac))"

record client_hello =
  ch_pad_len :: nat
  ch_repres :: bytes
  ch_pubkey :: "bytes option"
  ch_epoch_hour :: string

definition client_hello_new :: "bytes \<Rightarrow> nat \<Rightarrow> string \<Rightarrow> client_hello" where
  "client_hello_new repres pad_len epoch_hour =
     \<lparr> ch_pad_len = pad_len, ch_repres = repres, ch_pubkey = None, ch_epoch_hour = epoch_hour \<rparr>"

definition get_public :: "curve \<Rightarrow> client_hello \<Rightarrow> bytes \<times> client_hello" where
  "get_public V m =
     (case ch_pubkey m of Some pk \<Rightarrow> (pk, m)
      | None \<Rightarrow> let pk = representative_public V (ch_repres m) in (pk, m \<lparr> ch_pubkey := Some pk \<rparr>))"

definition client_hello_marshall ::
  "kdfs \<Rightarrow> (nat \<Rightarrow> bytes option) \<Rightarrow> int \<Rightarrow> bytes \<Rightarrow> client_hello \<Rightarrow> bytes \<Rightarrow> (bytes \<times> client_hello) option" where
  "client_hello_marshall K rng unix_secs key m buf =
     (let mark = take MARK_LENGTH (hmac K key (ch_repres m)) in
      case make_hs_pad rng (ch_pad_len m) of
        None \<Rightarrow> None
      | Some pad \<Rightarrow>
          let params = ch_repres m @ pad @ mark in
          (case get_epoch_hour unix_secs of
             None \<Rightarrow> None
           | Some hour \<Rightarrow>
               let m = m \<lparr> ch_epoch_hour := show_nat hour \<rparr>;
                   mac = take MARK_LENGTH (hmac K key (params @ str_bytes (ch_epoch_hour m)))
               in Some (buf @ params @ mac, m)))"

section \<open>The client\<close>

record client_materials =
  cm_node_pubkey :: ntor_public_key
  cm_pad_len :: nat
  cm_session_id :: string

definition client_materials_new :: "nat \<Rightarrow> ntor_public_key \<Rightarrow> string \<Rightarrow> client_materials" where
  "client_materials_new pad_draw node_pubkey session_id =
     \<lparr> cm_node_pubkey = node_pubkey, cm_pad_len = pad_draw, cm_session_id = session_id \<rparr>"

record ntor_state =
  st_my_sk :: ephemeral_secret
  st_materials :: client_materials
  st_epoch_hr :: string

definition client_handshake_no_keygen ::
  "kdfs \<Rightarrow> curve \<Rightarrow> (nat \<Rightarrow> bytes option) \<Rightarrow> int \<Rightarrow> ephemeral_secret \<Rightarrow> client_materials \<Rightarrow> (ntor_state \<times> bytes) option" where
  "client_handshake_no_keygen K V rng unix_secs ephem materials =
     (case public_representative V ephem of
        None \<Rightarrow> None
      | Some repres \<Rightarrow>
          let ch_msg = client_hello_new repres (cm_pad_len materials) (cm_session_id materials);
              key = mac_key (cm_node_pubkey materials)
          in case client_hello_marshall K rng unix_secs key ch_msg [] of
               None \<Rightarrow> None
             | Some (buf, ch_msg) \<Rightarrow>
                 Some (\<lparr> st_my_sk = ephem, st_materials = materials, st_epoch_hr = ch_epoch_hour ch_msg \<rparr>, buf))"

definition client_handshake ::
  "kdfs \<Rightarrow> curve \<Rightarrow> (nat \<Rightarrow> bytes \<times> u8) \<Rightarrow> (nat \<Rightarrow> bytes option) \<Rightarrow> int \<Rightarrow> client_materials
   \<Rightarrow> (obfs4_error + (ntor_state \<times> bytes)) option" where
  "client_handshake K V krng rng unix_secs materials =
     (case ephemeral_from_rng V krng of
        Inl e \<Rightarrow> Some (Inl e)
      | Inr my_sk \<Rightarrow> map_option Inr (client_handshake_no_keygen K V rng unix_secs my_sk materials))"

definition try_parse_server_hello ::
  "kdfs \<Rightarrow> nat \<Rightarrow> bytes \<Rightarrow> ntor_state \<Rightarrow> obfs4_error + (server_hello \<times> nat)" where
  "try_parse_server_hello K pad_draw buf state =
     (if length buf < SERVER_MIN_HANDSHAKE_LENGTH then Inl (HandshakeErr REAgain)
      else
        let key = mac_key (cm_node_pubkey (st_materials state));
            r_bytes = take REPRESENTATIVE_LENGTH buf;
            server_auth = take AUTHCODE_LENGTH (drop REPRESENTATIVE_LENGTH buf);
            server_mark = take MARK_LENGTH (hmac K key r_bytes);
            start_pos = REPRESENTATIVE_LENGTH + AUTHCODE_LENGTH + SERVER_MIN_PAD_LENGTH
        in case find_mac_mark server_mark buf start_pos MAX_HANDSHAKE_LENGTH False of
             None \<Rightarrow>
               if length buf > MAX_HANDSHAKE_LENGTH then Inl (HandshakeErr BadServerHandshake)
               else Inl (HandshakeErr REAgain)
           | Some pos \<Rightarrow>
               let mac_calculated =
                     take MAC_LENGTH (hmac K key (take (pos + MARK_LENGTH) buf @ str_bytes (st_epoch_hr state)));
                   mac_received = take MAC_LENGTH (drop (pos + MARK_LENGTH) buf)
               in if mac_calculated = mac_received
                  then Inr (server_hello_new pad_draw r_bytes server_auth (st_epoch_hr state),
                            pos + MARK_LENGTH + MAC_LENGTH)
                  else Inl (HandshakeErr BadServerHandshake))"

definition client_handshake2 ::
  "kdfs \<Rightarrow> curve \<Rightarrow> 's siphasher \<Rightarrow> nat \<Rightarrow> bytes \<Rightarrow> ntor_state \<Rightarrow> (obfs4_error + ('s keygen \<times> bytes)) option" where
  "client_handshake2 K V sip pad_draw msg state =
     (case try_parse_server_hello K pad_draw msg state of
        Inl e \<Rightarrow> Some (Inl e)
      | Inr (shs_msg, n) \<Rightarrow>
          let (their_pk, shs_msg) = server_pubkey V shs_msg;
              auth = sh_auth shs_msg;
              node_pubkey = cm_node_pubkey (st_materials state);
              my_public = eph_public V (st_my_sk state);
              xy = eph_diffie_hellman V (st_my_sk state) their_pk;
              xb = eph_diffie_hellman V (st_my_sk state) (nk_pk node_pubkey);
              (key_seed, authcode) = ntor_derive K xy xb node_pubkey my_public their_pk
          in case keygen_new K sip key_seed True of
               None \<Rightarrow> None
             | Some keygen \<Rightarrow>
                 let okay = (authcode = auth \<and> was_contributory V xy \<and> was_contributory V xb) in
                 if \<not> okay then Some (Inl BadCircHandshakeAuth)
                 else if length msg < n then Some (Inl (HandshakeErr BadServerHandshake))
                 else Some (Inr (keygen, drop n msg)))"

section \<open>The server\<close>

record server_materials =
  sm_identity_keys :: ntor_secret_key
  sm_session_id :: string
  sm_len_seed :: bytes

definition server_materials_new :: "ntor_secret_key \<Rightarrow> string \<Rightarrow> bytes \<Rightarrow> server_materials" where
  "server_materials_new keys session_id len_seed =
     \<lparr> sm_identity_keys = keys, sm_session_id = session_id, sm_len_seed = len_seed \<rparr>"

definition get_hmac_key :: "server_materials \<Rightarrow> bytes" where
  "get_hmac_key m = mac_key (nsk_pk (sm_identity_keys m))"

text \<open>
  The loop over the three offsets: for each hour whose MAC matches, the received MAC goes
  through the replay filter. It returns the epoch string of the last match, if any.
\<close>

fun check_offsets ::
  "kdfs \<Rightarrow> 's siphasher \<Rightarrow> bytes \<Rightarrow> bytes \<Rightarrow> bytes \<Rightarrow> int \<Rightarrow> nat \<Rightarrow> int list \<Rightarrow> string option
   \<Rightarrow> inner_replay_filter \<Rightarrow> (obfs4_error + string option) \<times> inner_replay_filter" where
  "check_offsets K sip key covered mac_received hour now [] found f = (Inr found, f)"
| "check_offsets K sip key covered mac_received hour now (offset # offsets) found f =
     (let eh = show_int (offset + hour);
          mac_calculated = take MAC_LENGTH (hmac K key (covered @ str_bytes eh))
      in if mac_calculated = mac_received then
           (case test_and_set sip f now mac_received of
              (True, f) \<Rightarrow> (Inl (HandshakeErr RReplayedHandshake), f)
            | (False, f) \<Rightarrow> check_offsets K sip key covered mac_received hour now offsets (Some eh) f)
         else check_offsets K sip key covered mac_received hour now offsets found f)"

definition try_parse_client_handshake_at ::
  "kdfs \<Rightarrow> 's siphasher \<Rightarrow> nat \<Rightarrow> bytes \<Rightarrow> server_materials \<Rightarrow> nat \<Rightarrow> inner_replay_filter
   \<Rightarrow> (obfs4_error + client_hello) \<times> inner_replay_filter" where
  "try_parse_client_handshake_at K sip now buf materials server_epoch_hour f =
     (if CLIENT_MIN_HANDSHAKE_LENGTH > length buf then (Inl (HandshakeErr REAgain), f)
      else
        let key = get_hmac_key materials;
            r_bytes = take REPRESENTATIVE_LENGTH buf;
            mark = take MARK_LENGTH (hmac K key r_bytes)
        in case find_mac_mark mark buf (REPRESENTATIVE_LENGTH + CLIENT_MIN_PAD_LENGTH) MAX_HANDSHAKE_LENGTH True of
             None \<Rightarrow>
               (if length buf > MAX_HANDSHAKE_LENGTH then Inl (HandshakeErr BadClientHandshake)
                else Inl (HandshakeErr REAgain), f)
           | Some pos \<Rightarrow>
               (case check_offsets K sip key (take (pos + MARK_LENGTH) buf)
                       (take MAC_LENGTH (drop (pos + MARK_LENGTH) buf))
                       (int server_epoch_hour) now [0, -1, 1] None f of
                  (Inl e, f) \<Rightarrow> (Inl e, f)
                | (Inr None, f) \<Rightarrow> (Inl (HandshakeErr BadClientHandshake), f)
                | (Inr (Some epoch_hr), f) \<Rightarrow>
                    if length buf \<noteq> pos + MARK_LENGTH + MAC_LENGTH
                    then (Inl (HandshakeErr BadClientHandshake), f)
                    else (Inr (client_hello_new r_bytes 0 epoch_hr), f)))"

definition try_parse_client_handshake ::
  "kdfs \<Rightarrow> 's siphasher \<Rightarrow> int \<Rightarrow> nat \<Rightarrow> bytes \<Rightarrow> server_materials \<Rightarrow> inner_replay_filter
   \<Rightarrow> ((obfs4_error + client_hello) \<times> inner_replay_filter) option" where
  "try_parse_client_handshake K sip unix_secs now buf materials f =
     (case get_epoch_hour unix_secs of
        None \<Rightarrow> None
      | Some hour \<Rightarrow> Some (try_parse_client_handshake_at K sip now buf materials hour f))"

definition complete_server_hs ::
  "kdfs \<Rightarrow> aead \<Rightarrow> 's siphasher \<Rightarrow> (nat \<Rightarrow> bytes option) \<Rightarrow> nat \<Rightarrow> client_hello \<Rightarrow> server_materials \<Rightarrow> bytes
   \<Rightarrow> 's keygen \<Rightarrow> bytes \<Rightarrow> ((relay_handshake_error + bytes) \<times> 's keygen) option" where
  "complete_server_hs K A sip rng pad_draw client_hs materials session_repres keygen authcode =
     (let epoch_hr = ch_epoch_hour client_hs;
          sh_msg = server_hello_new pad_draw session_repres authcode epoch_hr
      in case server_hello_marshall K rng (get_hmac_key materials) sh_msg [] of
           None \<Rightarrow> None
         | Some buf \<Rightarrow>
             (case build_and_marshall [] (message_type_byte MTPrngSeed) (sm_len_seed materials) 0 of
                Inl e \<Rightarrow> Some (Inl (RFrameError (frame_error_display e)), keygen)
              | Inr prng_pkt_buf \<Rightarrow>
                  (case encode A sip (kg_codec keygen) prng_pkt_buf buf of
                     (Inl e, c, buf) \<Rightarrow> Some (Inl (RFrameError (frame_error_display e)), keygen \<lparr> kg_codec := c \<rparr>)
                   | (Inr _, c, buf) \<Rightarrow> Some (Inr buf, keygen \<lparr> kg_codec := c \<rparr>))))"

definition server_handshake_no_keygen ::
  "kdfs \<Rightarrow> curve \<Rightarrow> aead \<Rightarrow> 's siphasher \<Rightarrow> (nat \<Rightarrow> bytes option) \<Rightarrow> nat \<Rightarrow> int \<Rightarrow> nat \<Rightarrow> ephemeral_secret \<Rightarrow> bytes
   \<Rightarrow> server_materials \<Rightarrow> inner_replay_filter
   \<Rightarrow> ((relay_handshake_error + ('s keygen \<times> bytes)) \<times> inner_replay_filter) option" where
  "server_handshake_no_keygen K V A sip rng pad_draw unix_secs now session_sk msg materials f =
     (if CLIENT_MIN_HANDSHAKE_LENGTH > length msg then Some (Inl REAgain, f)
      else case try_parse_client_handshake K sip unix_secs now msg materials f of
        None \<Rightarrow> None
      | Some (Inl (HandshakeErr REAgain), f) \<Rightarrow> Some (Inl REAgain, f)
      | Some (Inl (HandshakeErr RReplayedHandshake), f) \<Rightarrow> Some (Inl RReplayedHandshake, f)
      | Some (Inl _, f) \<Rightarrow> Some (Inl BadClientHandshake, f)
      | Some (Inr client_hs, f) \<Rightarrow>
          let (their_pk, client_hs) = get_public V client_hs;
              ephem_pub = eph_public V session_sk
          in case public_representative V session_sk of
               None \<Rightarrow> None
             | Some session_repres \<Rightarrow>
                 let xy = eph_diffie_hellman V session_sk their_pk;
                     xb = x25519 V (nsk_sk (sm_identity_keys materials)) their_pk;
                     okay = (was_contributory V xy \<and> was_contributory V xb);
                     (key_seed, authcode) =
                       ntor_derive K xy xb (nsk_pk (sm_identity_keys materials)) their_pk ephem_pub
                 in case keygen_new K sip key_seed False of
                      None \<Rightarrow> None
                    | Some keygen \<Rightarrow>
                        (case complete_server_hs K A sip rng pad_draw client_hs materials session_repres
                                keygen authcode of
                           None \<Rightarrow> None
                         | Some (Inl e, _) \<Rightarrow> Some (Inl e, f)
                         | Some (Inr reply, keygen) \<Rightarrow>
                             if okay then Some (Inr (keygen, reply), f)
                             else Some (Inl BadClientHandshake, f)))"

definition server_handshake ::
  "kdfs \<Rightarrow> curve \<Rightarrow> aead \<Rightarrow> 's siphasher \<Rightarrow> (nat \<Rightarrow> bytes \<times> u8) \<Rightarrow> (nat \<Rightarrow> bytes option) \<Rightarrow> nat \<Rightarrow> int \<Rightarrow> nat \<Rightarrow> bytes
   \<Rightarrow> server_materials \<Rightarrow> inner_replay_filter
   \<Rightarrow> ((relay_handshake_error + ('s keygen \<times> bytes)) \<times> inner_replay_filter) option" where
  "server_handshake K V A sip krng rng pad_draw unix_secs now msg materials f =
     (case ephemeral_from_rng V krng of
        Inl _ \<Rightarrow> Some (Inl (RInternal ''failed to derive elligator2 server keypair''), f)
      | Inr session_sk \<Rightarrow>
          server_handshake_no_keygen K V A sip rng pad_draw unix_secs now session_sk msg materials f)"

text \<open>The trait's entry point: the reply function may refuse, and only the first key is used.\<close>

definition server_entry ::
  "kdfs \<Rightarrow> curve \<Rightarrow> aead \<Rightarrow> 's siphasher \<Rightarrow> (nat \<Rightarrow> bytes \<times> u8) \<Rightarrow> (nat \<Rightarrow> bytes option) \<Rightarrow> nat \<Rightarrow> int \<Rightarrow> nat
   \<Rightarrow> unit option \<Rightarrow> server_materials list \<Rightarrow> bytes \<Rightarrow> inner_replay_filter
   \<Rightarrow> ((relay_handshake_error + ('s keygen \<times> bytes)) \<times> inner_replay_filter) option" where
  "server_entry K V A sip krng rng pad_draw unix_secs now reply key msg f =
     (case reply of
        None \<Rightarrow> Some (Inl BadClientHandshake, f)
      | Some _ \<Rightarrow>
          (case key of
             [] \<Rightarrow> Some (Inl MissingKey, f)
           | shs_materials # _ \<Rightarrow> server_handshake K V A sip krng rng pad_draw unix_secs now msg shs_materials f))"

section \<open>Facts on the mark search\<close>

lemma window_position_iff:
  "window_position mark xs = Some i \<longleftrightarrow>
     i + MARK_LENGTH \<le> length xs \<and> take MARK_LENGTH (drop i xs) = mark
     \<and> (\<forall>j < i. take MARK_LENGTH (drop j xs) \<noteq> mark)"
proof (induction mark xs arbitrary: i rule: window_position.induct)
  case (1 mark)
  then show ?case by (simp add: const_simps)
next
  case (2 mark x xs)
  show ?case
  proof (cases i)
    case 0
    then show ?thesis by auto
  next
    case (Suc n)
    have "(\<forall>j < Suc n. take MARK_LENGTH (drop j (x # xs)) \<noteq> mark) \<longleftrightarrow>
        take MARK_LENGTH (x # xs) \<noteq> mark \<and> (\<forall>j < n. take MARK_LENGTH (drop j xs) \<noteq> mark)"
      by (auto simp: less_Suc_eq_0_disj)
    with 2 Suc show ?thesis by auto
  qed
qed

lemma take_drop_slice:
  "i + n \<le> e - s \<Longrightarrow> take n (drop i (take (e - s) (drop s xs))) = take n (drop (s + i) xs)"
  by (simp add: drop_take min_def add.commute)

lemma find_mac_mark_search:
  "find_mac_mark mark buf s m False = Some p \<longleftrightarrow>
     s \<le> p \<and> p + MARK_LENGTH + MAC_LENGTH \<le> min (length buf) m \<and> take MARK_LENGTH (drop p buf) = mark
     \<and> (\<forall>j. s \<le> j \<and> j < p \<longrightarrow> take MARK_LENGTH (drop j buf) \<noteq> mark)" (is "?L \<longleftrightarrow> ?R")
proof -
  let ?e = "min (length buf) m"
  let ?sl = "take (?e - s) (drop s buf)"
  have w: "take 16 (drop i ?sl) = take 16 (drop (s + i) buf)" if "i + 16 \<le> ?e - s" for i
    using that by (rule take_drop_slice)
  have len: "length ?sl = ?e - s" by simp
  show ?thesis
  proof
    assume ?L
    then obtain i where i: "window_position mark ?sl = Some i" "s + i + 32 \<le> ?e" "p = i + s"
      by (auto simp: find_mac_mark_def Let_def min_def const_simps split: if_splits option.splits)
    from i(1) have wi: "take 16 (drop i ?sl) = mark" "\<forall>j < i. take 16 (drop j ?sl) \<noteq> mark"
      by (auto simp: window_position_iff const_simps)
    have "take 16 (drop j buf) \<noteq> mark" if "s \<le> j" "j < p" for j
      using wi(2) [rule_format, of "j - s"] w [of "j - s"] that i by simp
    with i wi w [of i] show ?R by (auto simp: const_simps ac_simps)
  next
    assume R: ?R
    then have "window_position mark ?sl = Some (p - s)"
      unfolding window_position_iff len using w [of "p - s"]
      by (auto simp: const_simps w)
    with R show ?L by (auto simp: find_mac_mark_def Let_def min_def const_simps split: if_splits)
  qed
qed

lemma find_mac_mark_tail:
  "find_mac_mark mark buf s m True = Some p \<longleftrightarrow>
     s \<le> p \<and> p + MARK_LENGTH + MAC_LENGTH = min (length buf) m \<and> take MARK_LENGTH (drop p buf) = mark"
  (is "?L \<longleftrightarrow> ?R")
proof -
  let ?e = "min (length buf) m"
  have eq: "find_mac_mark mark buf s m True =
      (if 16 \<le> length buf \<and> s \<le> length buf \<and> 32 \<le> ?e - s \<and> mark = take 16 (drop (?e - 32) buf)
       then Some (?e - 32) else None)"
    by (simp add: find_mac_mark_def Let_def const_simps min_def)
  show ?thesis
  proof
    assume ?L
    then have "p = ?e - 32" "32 \<le> ?e - s" "mark = take 16 (drop p buf)"
      by (simp_all add: eq split: if_splits)
    moreover from this have "s \<le> p" "p + 32 = ?e" by linarith+
    ultimately show ?R by (simp add: const_simps)
  next
    assume ?R
    then have p: "?e = p + 32" "s \<le> p" "mark = take 16 (drop p buf)" by (simp_all add: const_simps)
    then have "p + 32 \<le> length buf" by simp
    with p show ?L unfolding eq by simp
  qed
qed

section \<open>Facts on the server's checks\<close>

definition hello_mark :: "kdfs \<Rightarrow> bytes \<Rightarrow> bytes \<Rightarrow> bytes" where
  "hello_mark K key r = take MARK_LENGTH (hmac K key r)"

definition hour_mac :: "kdfs \<Rightarrow> bytes \<Rightarrow> bytes \<Rightarrow> int \<Rightarrow> bytes" where
  "hour_mac K key params h = take MAC_LENGTH (hmac K key (params @ str_bytes (show_int h)))"

text \<open>The MACs of one message for different hours differ.\<close>

definition no_collision :: "kdfs \<Rightarrow> bytes \<Rightarrow> bytes \<Rightarrow> int set \<Rightarrow> bool" where
  "no_collision K key params hs \<longleftrightarrow>
     (\<forall>i \<in> hs. \<forall>j \<in> hs. hour_mac K key params i = hour_mac K key params j \<longrightarrow> i = j)"

definition near :: "int \<Rightarrow> int set" where
  "near h = {h - 1, h, h + 1}"

lemma check_offsets_none:
  "\<forall>o' \<in> set os. hour_mac K key c (o' + h) \<noteq> mac \<Longrightarrow>
   check_offsets K sip key c mac h now os found f = (Inr found, f)"
  by (induction os) (auto simp: hour_mac_def Let_def)

lemma check_offsets_one:
  assumes "\<forall>o' \<in> set xs \<union> set ys. hour_mac K key c (o' + h) \<noteq> mac" "hour_mac K key c (i + h) = mac"
  shows "check_offsets K sip key c mac h now (xs @ i # ys) found f =
    (case test_and_set sip f now mac of
       (True, f) \<Rightarrow> (Inl (HandshakeErr RReplayedHandshake), f)
     | (False, f) \<Rightarrow> (Inr (Some (show_int (i + h))), f))"
  using assms
proof (induction xs)
  case Nil
  then show ?case
    using check_offsets_none [of ys K key c h mac sip now]
    by (auto simp: hour_mac_def Let_def split: prod.splits bool.splits)
next
  case (Cons x xs)
  then show ?case by (auto simp: hour_mac_def Let_def)
qed

lemma check_offsets_outside:
  assumes "\<forall>i \<in> near h. hour_mac K key c i \<noteq> mac"
  shows "check_offsets K sip key c mac h now [0, -1, 1] None f = (Inr None, f)"
  using assms by (intro check_offsets_none) (auto simp: near_def add.commute)

lemma check_offsets_window:
  assumes "no_collision K key c (near h)" "i \<in> near h" "hour_mac K key c i = mac"
  shows "check_offsets K sip key c mac h now [0, -1, 1] None f =
    (case test_and_set sip f now mac of
       (True, f) \<Rightarrow> (Inl (HandshakeErr RReplayedHandshake), f)
     | (False, f) \<Rightarrow> (Inr (Some (show_int i)), f))"
proof -
  have uniq: "hour_mac K key c j \<noteq> mac" if "j \<in> near h" "j \<noteq> i" for j
    using assms that by (auto simp: no_collision_def)
  from assms(2) obtain d where d: "d \<in> set [0, -1, 1]" "i = d + h" by (auto simp: near_def)
  from split_list [OF d(1)] obtain xs ys where l: "[0, -1, 1] = xs @ d # ys" by blast
  have "distinct (xs @ d # ys)" by (simp flip: l)
  moreover have "o' + h \<in> near h" if "o' \<in> set (xs @ d # ys)" for o'
    using that by (auto simp: near_def simp flip: l)
  ultimately have "\<forall>o' \<in> set xs \<union> set ys. hour_mac K key c (o' + h) \<noteq> mac"
    using uniq d(2) by fastforce
  then show ?thesis
    unfolding l d(2) by (rule check_offsets_one) (use assms(3) d(2) in simp)
qed

section \<open>The hellos on the wire\<close>

lemma client_handshake_layout:
  assumes "client_handshake_no_keygen K V rng secs ephem m = Some (st, hello)"
  obtains r pad h where "public_representative V ephem = Some r" "rng (cm_pad_len m) = Some pad" "get_epoch_hour secs = Some h"
    "hello = r @ pad @ hello_mark K (mac_key (cm_node_pubkey m)) r
       @ hour_mac K (mac_key (cm_node_pubkey m)) (r @ pad @ hello_mark K (mac_key (cm_node_pubkey m)) r) (int h)"
    "st = \<lparr> st_my_sk = ephem, st_materials = m, st_epoch_hr = show_nat h \<rparr>"
  using assms
  by (auto simp: client_handshake_no_keygen_def client_hello_marshall_def client_hello_new_def
      hello_mark_def hour_mac_def make_hs_pad_def Let_def const_simps split: option.splits)

text \<open>Parsing a message that has the form of a hello: all that is left is the MAC and the filter.\<close>

lemma parse_client_hello:
  assumes "length r = 32" "77 \<le> length pad" "length pad \<le> 8128" "length mac = 16"
    "length (hello_mark K (get_hmac_key m) r) = 16"
  shows "try_parse_client_handshake_at K sip now (r @ pad @ hello_mark K (get_hmac_key m) r @ mac) m h f =
    (case check_offsets K sip (get_hmac_key m) (r @ pad @ hello_mark K (get_hmac_key m) r) mac
            (int h) now [0, -1, 1] None f of
       (Inl e, f) \<Rightarrow> (Inl e, f)
     | (Inr None, f) \<Rightarrow> (Inl (HandshakeErr BadClientHandshake), f)
     | (Inr (Some eh), f) \<Rightarrow> (Inr (client_hello_new r 0 eh), f))"
proof -
  let ?mark = "hello_mark K (get_hmac_key m) r"
  let ?buf = "r @ pad @ ?mark @ mac"
  let ?p = "32 + length pad"
  have f: "find_mac_mark ?mark ?buf (32 + 77) 8192 True = Some ?p"
    using assms by (subst find_mac_mark_tail) (simp add: const_simps)
  have c: "take (?p + 16) ?buf = r @ pad @ ?mark" "drop (?p + 16) ?buf = mac" using assms by simp_all
  have k: "CLIENT_MIN_HANDSHAKE_LENGTH = 64" "REPRESENTATIVE_LENGTH = 32" "MARK_LENGTH = 16"
    "CLIENT_MIN_PAD_LENGTH = 77" "MAX_HANDSHAKE_LENGTH = 8192" "MAC_LENGTH = 16"
    by (simp_all add: const_simps)
  have mark: "take 16 (hmac K (get_hmac_key m) (take 32 ?buf)) = ?mark"
    using assms(1) by (simp add: hello_mark_def const_simps)
  show ?thesis
    unfolding try_parse_client_handshake_at_def Let_def k mark f option.simps c
    using assms by (simp split: prod.splits sum.splits option.splits del: check_offsets.simps)
qed

text \<open>Conversely, what the server accepts has that form.\<close>

lemma accepted_client_hello:
  assumes "try_parse_client_handshake_at K sip now buf m h f = (Inr ch, f')" "kdfs_ok K"
  obtains r pad mac where
    "buf = r @ pad @ hello_mark K (get_hmac_key m) r @ mac" "length r = 32" "77 \<le> length pad"
    "length pad \<le> 8128" "length mac = 16" "ch_repres ch = r"
proof -
  let ?r = "take 32 buf"
  let ?mark = "hello_mark K (get_hmac_key m) ?r"
  from assms(1) obtain p where p: "find_mac_mark ?mark buf 109 8192 True = Some p"
    and len: "length buf = p + 32" and r: "ch_repres ch = ?r"
    by (auto simp: try_parse_client_handshake_at_def Let_def hello_mark_def const_simps client_hello_new_def
        split: if_splits option.splits prod.splits sum.splits)
  from p have p': "109 \<le> p" "p + 32 = min (length buf) 8192" "take 16 (drop p buf) = ?mark"
    by (auto simp: find_mac_mark_tail const_simps)
  let ?pad = "take (p - 32) (drop 32 buf)"
  have "drop 32 buf = ?pad @ drop p buf"
    using append_take_drop_id [of "p - 32" "drop 32 buf"] p'(1) by simp
  moreover have "drop p buf = take 16 (drop p buf) @ drop (p + 16) buf"
    using append_take_drop_id [of 16 "drop p buf"] by (simp add: add.commute)
  ultimately have "buf = ?r @ ?pad @ take 16 (drop p buf) @ drop (p + 16) buf"
    by (metis append_take_drop_id)
  then have "buf = ?r @ ?pad @ ?mark @ drop (p + 16) buf" by (simp only: p'(3))
  then show ?thesis
    by (rule that) (use p' len r in \<open>auto simp: min_def split: if_splits\<close>)
qed

section \<open>Properties of the server\<close>

lemma hello_lengths:
  assumes "kdfs_ok K"
  shows "length (hello_mark K key r) = 16" "length (hour_mac K key c h) = 16"
  using assms by (simp_all add: kdfs_ok_def hello_mark_def hour_mac_def const_simps)

text \<open>
  The mark search is exact: searching forward finds the first position from the start
  on at which the mark stands with room for a MAC before the limit, and nothing else;
  searching from the tail accepts the mark only right before the last 16 bytes.
\<close>

theorem find_mac_mark_exact:
  "(find_mac_mark mark buf s m False = Some p \<longleftrightarrow>
      s \<le> p \<and> p + 32 \<le> min (length buf) m \<and> take 16 (drop p buf) = mark
      \<and> (\<forall>j. s \<le> j \<and> j < p \<longrightarrow> take 16 (drop j buf) \<noteq> mark))
   \<and> (find_mac_mark mark buf s m True = Some p \<longleftrightarrow>
      s \<le> p \<and> p + 32 = min (length buf) m \<and> take 16 (drop p buf) = mark)"
  unfolding find_mac_mark_search find_mac_mark_tail by (simp add: const_simps add.assoc)

theorem find_mac_mark_exact_witness:
  "find_mac_mark (replicate 16 7) ([1] @ replicate 16 7 @ replicate 16 9) 0 8192 True = Some 1"
  using find_mac_mark_exact [of "replicate 16 7" "[1] @ replicate 16 7 @ replicate 16 9" 0 8192 1] by simp

lemma client_hello_parse:
  assumes "kdfs_ok K" "length r = 32" "77 \<le> length pad" "length pad \<le> 8128"
    and "key = get_hmac_key m" "params = r @ pad @ hello_mark K key r"
    and "no_collision K key params (insert (int e) (near (int h)))"
  shows "try_parse_client_handshake_at K sip now (params @ hour_mac K key params (int e)) m h f =
    (if int e \<in> near (int h)
     then case test_and_set sip f now (hour_mac K key params (int e)) of
        (True, f') \<Rightarrow> (Inl (HandshakeErr RReplayedHandshake), f')
      | (False, f') \<Rightarrow> (Inr (client_hello_new r 0 (show_nat e)), f')
     else (Inl (HandshakeErr BadClientHandshake), f))"
proof -
  let ?mac = "hour_mac K key params (int e)"
  have parse: "try_parse_client_handshake_at K sip now (params @ ?mac) m h f =
    (case check_offsets K sip key params ?mac (int h) now [0, -1, 1] None f of
       (Inl e, f) \<Rightarrow> (Inl e, f)
     | (Inr None, f) \<Rightarrow> (Inl (HandshakeErr BadClientHandshake), f)
     | (Inr (Some eh), f) \<Rightarrow> (Inr (client_hello_new r 0 eh), f))"
    using parse_client_hello [of r pad ?mac K m sip now h f] assms(2-6) hello_lengths [OF assms(1)] by simp
  show ?thesis
  proof (cases "int e \<in> near (int h)")
    case True
    with assms(7) have "no_collision K key params (near (int h))" by (simp add: insert_absorb)
    note w = check_offsets_window [OF this True refl, of sip now f]
    obtain b f' where "test_and_set sip f now ?mac = (b, f')" by (cases "test_and_set sip f now ?mac")
    with w True show ?thesis
      by (cases b) (simp_all add: parse del: check_offsets.simps test_and_set_inner)
  next
    case False
    with assms(7) have "\<forall>i \<in> near (int h). hour_mac K key params i \<noteq> ?mac"
      by (force simp: no_collision_def)
    from check_offsets_outside [OF this, of sip now f] False show ?thesis
      by (simp add: parse del: check_offsets.simps)
  qed
qed

text \<open>
  An honest client hello is accepted exactly in the window of one hour: for a hello made
  in the hour \<open>e\<close> and presented in the hour \<open>h\<close>, with \<open>e\<close> one of \<open>h - 1, h, h + 1\<close>, the
  server recovers the representative and the client's hour, or reports a replay when the
  filter has seen the MAC; in any other hour it is refused and the filter is not touched.
\<close>

theorem client_hello_window:
  assumes "kdfs_ok K" "length r = 32" "77 \<le> length pad" "length pad \<le> 8128"
    and "key = get_hmac_key m" "params = r @ pad @ hello_mark K key r"
    and "no_collision K key params (insert (int e) (near (int h)))"
  shows "try_parse_client_handshake_at K sip now (params @ hour_mac K key params (int e)) m h f =
    (if int e \<in> near (int h)
     then case test_and_set sip f now (hour_mac K key params (int e)) of
        (True, f') \<Rightarrow> (Inl (HandshakeErr RReplayedHandshake), f')
      | (False, f') \<Rightarrow> (Inr (client_hello_new r 0 (show_nat e)), f')
     else (Inl (HandshakeErr BadClientHandshake), f))"
  using assms by (rule client_hello_parse)

definition toy_kdfs :: kdfs where
  "toy_kdfs = \<lparr> hmac = (\<lambda>k d. take 16 (rev d @ replicate 16 0) @ replicate 16 0),
     hkdf = (\<lambda>s i n l. Some (map (\<lambda>j. of_nat j + hd (i @ [0])) [0..<l])) \<rparr>"

lemma toy_kdfs_ok [simp]: "kdfs_ok toy_kdfs"
  by (auto simp: kdfs_ok_def toy_kdfs_def const_simps min_def)

lemma hour_mac_toy: "hour_mac toy_kdfs key params h = take 16 (rev (str_bytes (show_int h)) @ rev params @ replicate 16 0)"
proof -
  have "take 16 (take 16 xs @ ys) = take 16 xs" if "16 \<le> length xs" for xs ys :: bytes
    using that by simp
  then show ?thesis by (simp add: hour_mac_def toy_kdfs_def const_simps del: take_append)
qed

lemma show_int_digit: "0 \<le> i \<Longrightarrow> i < 10 \<Longrightarrow> show_int i = [digit_char (nat i)]"
  by (simp add: show_int_def show_nat.simps [of "nat i"])

lemma no_collision_toy:
  assumes "\<forall>i \<in> hs. 0 \<le> i \<and> i < 10" shows "no_collision toy_kdfs key params hs"
proof -
  have "i = j" if "0 \<le> i" "i < 10" "0 \<le> j" "j < 10" "hour_mac toy_kdfs key params i = hour_mac toy_kdfs key params j" for i j
  proof -
    from that have "(of_nat (of_char (digit_char (nat i))) :: u8) = of_nat (of_char (digit_char (nat j)))"
      by (simp add: hour_mac_toy show_int_digit str_bytes_def)
    then have "str_bytes [digit_char (nat i)] = str_bytes [digit_char (nat j)]" by (simp add: str_bytes_def)
    then have "show_int i = show_int j" using that by (simp add: show_int_digit)
    then show ?thesis by simp
  qed
  with assms show ?thesis by (simp add: no_collision_def)
qed

definition toy_materials :: server_materials where
  "toy_materials = \<lparr> sm_identity_keys = \<lparr> nsk_pk = \<lparr> nk_id = [1], nk_pk = [2] \<rparr>, nsk_sk = [2] \<rparr>,
     sm_session_id = [], sm_len_seed = replicate 24 3 \<rparr>"

definition toy_params :: bytes where
  "toy_params = replicate 32 4 @ replicate 80 5 @ hello_mark toy_kdfs [2, 1] (replicate 32 4)"

definition toy_hello :: bytes where
  "toy_hello = toy_params @ hour_mac toy_kdfs [2, 1] toy_params (int 5)"

lemma toy_materials_key [simp]: "get_hmac_key toy_materials = [2, 1]"
  by (simp add: get_hmac_key_def toy_materials_def mac_key_def)

lemma toy_params_take: "take (length toy_hello - 16) toy_hello = toy_params"
  using hello_lengths(2) [OF toy_kdfs_ok, of "[2, 1]" toy_params "int 5"] by (simp add: toy_hello_def)

theorem client_hello_window_witness:
  "try_parse_client_handshake_at toy_kdfs sum_hasher 0 toy_hello toy_materials 6 (replay_filter_new [] REPLAY_TTL) =
   (case test_and_set sum_hasher (replay_filter_new [] REPLAY_TTL) 0 (hour_mac toy_kdfs [2, 1] toy_params (int 5)) of
      (True, f') \<Rightarrow> (Inl (HandshakeErr RReplayedHandshake), f')
    | (False, f') \<Rightarrow> (Inr (client_hello_new (replicate 32 4) 0 (show_nat 5)), f'))"
proof -
  have nc: "no_collision toy_kdfs [2, 1] toy_params (insert (int 5) (near (int 6)))"
    by (rule no_collision_toy) (simp add: near_def)
  show ?thesis
    using client_hello_window [OF toy_kdfs_ok _ _ _ _ toy_params_def nc, of toy_materials sum_hasher 0 "replay_filter_new [] REPLAY_TTL"]
    by (simp add: near_def toy_hello_def del: test_and_set_inner)
qed

text \<open>An accepted hello carries the MAC of an hour in the window, and its MAC was new to the filter.\<close>

lemma accepted_mac:
  assumes "kdfs_ok K" "try_parse_client_handshake_at K sip now buf m h f = (Inr ch, f')"
    and "params = take (length buf - 16) buf" "mac = drop (length buf - 16) buf"
    and "no_collision K (get_hmac_key m) params (near (int h))"
  shows "\<exists>i \<in> near (int h). hour_mac K (get_hmac_key m) params i = mac \<and> ch_epoch_hour ch = show_int i"
    "test_and_set sip f now mac = (False, f')"
proof -
  let ?key = "get_hmac_key m"
  from accepted_client_hello [OF assms(2,1)] obtain r pad mac' where
    buf: "buf = r @ pad @ hello_mark K ?key r @ mac'" and len: "length r = 32" "77 \<le> length pad"
      "length pad \<le> 8128" "length mac' = 16" by metis
  have pm: "params = r @ pad @ hello_mark K ?key r" "mac = mac'" using assms(3,4) len by (simp_all add: buf)
  have parse: "(Inr ch, f') =
    (case check_offsets K sip ?key params mac (int h) now [0, -1, 1] None f of
       (Inl e, f) \<Rightarrow> (Inl e, f)
     | (Inr None, f) \<Rightarrow> (Inl (HandshakeErr BadClientHandshake), f)
     | (Inr (Some eh), f) \<Rightarrow> (Inr (client_hello_new r 0 eh), f))"
    using parse_client_hello [where K = K and m = m and sip = sip and now = now and h = h and f = f, OF len]
      hello_lengths(1) [OF assms(1)] assms(2) buf pm by simp
  have "\<exists>i \<in> near (int h). hour_mac K ?key params i = mac"
  proof (rule ccontr)
    assume "\<not> ?thesis"
    then have "check_offsets K sip ?key params mac (int h) now [0, -1, 1] None f = (Inr None, f)"
      by (intro check_offsets_outside) auto
    with parse show False by (simp del: check_offsets.simps)
  qed
  then obtain i where i: "i \<in> near (int h)" "hour_mac K ?key params i = mac" by blast
  obtain b g where t: "test_and_set sip f now mac = (b, g)" by (cases "test_and_set sip f now mac")
  from parse check_offsets_window [OF assms(5) i, of sip now f] t
  have "\<not> b" "f' = g" "ch_epoch_hour ch = show_int i"
    by (cases b; simp add: client_hello_new_def del: check_offsets.simps test_and_set_inner)+
  with t i show "test_and_set sip f now mac = (False, f')"
    and "\<exists>i \<in> near (int h). hour_mac K ?key params i = mac \<and> ch_epoch_hour ch = show_int i" by auto
qed

text \<open>
  The same bytes presented again, in any hour: the MAC is checked against the hour of the
  hello, and then only the filter decides.
\<close>

lemma hello_again:
  assumes "kdfs_ok K" "try_parse_client_handshake_at K sip now buf m h f = (Inr ch, f')"
    and "params = take (length buf - 16) buf" "mac = drop (length buf - 16) buf"
    and "no_collision K (get_hmac_key m) params (near (int h) \<union> near (int h2))"
  shows "\<exists>i \<in> near (int h). ch_epoch_hour ch = show_int i \<and> test_and_set sip f now mac = (False, f') \<and> 64 \<le> length buf
    \<and> (\<forall>now2 f2. i \<notin> near (int h2) \<longrightarrow>
         try_parse_client_handshake_at K sip now2 buf m h2 f2 = (Inl (HandshakeErr BadClientHandshake), f2))
    \<and> (\<forall>now2 f2 g. i \<in> near (int h2) \<longrightarrow> test_and_set sip f2 now2 mac = (True, g) \<longrightarrow>
         try_parse_client_handshake_at K sip now2 buf m h2 f2 = (Inl (HandshakeErr RReplayedHandshake), g))"
proof -
  let ?key = "get_hmac_key m"
  have nc: "no_collision K ?key params (near (int h))" "no_collision K ?key params (near (int h2))"
    using assms(5) by (auto simp: no_collision_def)
  from accepted_mac [OF assms(1-4) nc(1)] obtain i where i: "i \<in> near (int h)" "hour_mac K ?key params i = mac"
      "ch_epoch_hour ch = show_int i" "test_and_set sip f now mac = (False, f')" by blast
  from accepted_client_hello [OF assms(2,1)] obtain r pad mac' where
    buf: "buf = r @ pad @ hello_mark K ?key r @ mac'" and len: "length r = 32" "77 \<le> length pad"
      "length pad \<le> 8128" "length mac' = 16" by metis
  have pm: "params = r @ pad @ hello_mark K ?key r" "mac = mac'" using assms(3,4) len by (simp_all add: buf)
  have parse: "try_parse_client_handshake_at K sip now2 buf m h2 f2 =
    (case check_offsets K sip ?key params mac (int h2) now2 [0, -1, 1] None f2 of
       (Inl e, f) \<Rightarrow> (Inl e, f)
     | (Inr None, f) \<Rightarrow> (Inl (HandshakeErr BadClientHandshake), f)
     | (Inr (Some eh), f) \<Rightarrow> (Inr (client_hello_new r 0 eh), f))" for now2 f2
    using parse_client_hello [where K = K and m = m and sip = sip and now = now2 and h = h2 and f = f2, OF len]
      hello_lengths(1) [OF assms(1)] buf pm by simp
  have "try_parse_client_handshake_at K sip now2 buf m h2 f2 = (Inl (HandshakeErr BadClientHandshake), f2)"
    if "i \<notin> near (int h2)" for now2 f2
  proof -
    have "\<forall>j \<in> near (int h2). hour_mac K ?key params j \<noteq> mac" using assms(5) i(1,2) that by (force simp: no_collision_def)
    from check_offsets_outside [OF this, of sip now2 f2] show ?thesis by (simp add: parse del: check_offsets.simps)
  qed
  moreover have "try_parse_client_handshake_at K sip now2 buf m h2 f2 = (Inl (HandshakeErr RReplayedHandshake), g)"
    if "i \<in> near (int h2)" "test_and_set sip f2 now2 mac = (True, g)" for now2 f2 g
    using check_offsets_window [OF nc(2) that(1) i(2), of sip now2 f2] that(2)
    by (simp add: parse del: check_offsets.simps test_and_set_inner)
  moreover have "64 \<le> length buf" using buf len by simp
  ultimately show ?thesis using i by blast
qed

text \<open>
  C5. A client hello is accepted at most once, ever: after a server has accepted it, a server
  with the same filter answers the same bytes, presented again at any later time, with
  exactly the replay error while the hour of the hello is in the window, and refuses them as
  a bad hello, without consulting the filter, once it is not; whatever fewer than 102,400
  other handshakes the filter has recorded since. The replay may come in the same second or
  the same nanosecond. The clocks need not agree: it is enough that the monotonic clock has
  not gained more than a day on the system clock between the two.
\<close>

theorem handshake_accepted_once:
  assumes "kdfs_ok K"
    and "try_parse_client_handshake K sip secs1 now1 buf m (filter_after sip rk REPLAY_TTL hist) = Some (Inr ch, f1)"
    and "length cs < MAX_FILTER_SIZE" "\<forall>(t, c) \<in> set cs. t \<le> now2" "f = run_calls (test_and_set sip) f1 cs"
    and "now1 \<le> now2" "int (now2 - now1) \<le> (secs2 - secs1 + 24 * 3600) * 10 ^ 9"
    and "get_epoch_hour secs1 = Some h1" "get_epoch_hour secs2 = Some h2"
    and "no_collision K (get_hmac_key m) (take (length buf - 16) buf) (near (int h1) \<union> near (int h2))"
  shows "\<exists>hour. ch_epoch_hour ch = show_int hour \<and> hour \<in> near (int h1)
    \<and> (if hour \<in> near (int h2)
        then \<exists>f2. try_parse_client_handshake K sip secs2 now2 buf m f = Some (Inl (HandshakeErr RReplayedHandshake), f2)
               \<and> server_handshake_no_keygen K V A sip rng pd secs2 now2 sk buf m f = Some (Inl RReplayedHandshake, f2)
        else server_handshake_no_keygen K V A sip rng pd secs2 now2 sk buf m f = Some (Inl BadClientHandshake, f))"
proof -
  let ?params = "take (length buf - 16) buf" and ?mac = "drop (length buf - 16) buf"
  let ?key = "get_hmac_key m"
  have "try_parse_client_handshake_at K sip now1 buf m h1 (filter_after sip rk REPLAY_TTL hist) = (Inr ch, f1)"
    using assms(2,8) by (simp add: try_parse_client_handshake_def)
  from hello_again [OF assms(1) this refl refl assms(10)] obtain i where
    i: "i \<in> near (int h1)" "ch_epoch_hour ch = show_int i" "64 \<le> length buf"
      "test_and_set sip (filter_after sip rk REPLAY_TTL hist) now1 ?mac = (False, f1)"
    and out: "i \<notin> near (int h2) \<Longrightarrow> try_parse_client_handshake_at K sip now2 buf m h2 f = (Inl (HandshakeErr BadClientHandshake), f)"
    and again: "\<And>g. i \<in> near (int h2) \<Longrightarrow> test_and_set sip f now2 ?mac = (True, g) \<Longrightarrow>
      try_parse_client_handshake_at K sip now2 buf m h2 f = (Inl (HandshakeErr RReplayedHandshake), g)" by blast
  have at: "try_parse_client_handshake K sip secs2 now2 buf m f = Some (try_parse_client_handshake_at K sip now2 buf m h2 f)"
    using assms(9) by (simp add: try_parse_client_handshake_def)
  have "\<exists>f2. try_parse_client_handshake_at K sip now2 buf m h2 f = (Inl (HandshakeErr RReplayedHandshake), f2)" if "i \<in> near (int h2)"
  proof -
    have "h2 \<le> h1 + 2" using i(1) that by (auto simp: near_def)
    then have "secs2 - secs1 < 3 * 3600" using assms(8,9) by (auto simp: get_epoch_hour_def split: if_splits)
    then have "(secs2 - secs1 + 24 * 3600) * 10 ^ 9 < int REPLAY_TTL" by (simp add: REPLAY_TTL_def)
    with assms(6,7) have "now2 < now1 + REPLAY_TTL" by linarith
    then have "fst (inner_test_and_set sip (run_calls (inner_test_and_set sip) f1 cs) now2 ?mac)"
      using i(4) assms(3,4)
      by (intro obfs4_replay.no_second_acceptance [of "filter_after sip rk REPLAY_TTL hist" sip now1])
        (auto simp: filter_after_def replay_filter_new_def filter_inv_calls REPLAY_TTL_def)
    then obtain g where "test_and_set sip f now2 ?mac = (True, g)" using assms(5) by (auto simp: prod_eq_iff)
    with again that show ?thesis by blast
  qed
  with i out at show ?thesis
    by (intro exI [of _ i]) (auto simp: server_handshake_no_keygen_def const_simps)
qed

lemma toy_accepted:
  "\<exists>f. try_parse_client_handshake toy_kdfs sum_hasher 18000 0 toy_hello toy_materials (replay_filter_new [] REPLAY_TTL)
     = Some (Inr (client_hello_new (replicate 32 4) 0 (show_nat 5)), f)"
proof -
  have nc: "no_collision toy_kdfs [2, 1] toy_params (insert (int 5) (near (int 5)))"
    by (rule no_collision_toy) (simp add: near_def)
  let ?t = "test_and_set sum_hasher (replay_filter_new [] REPLAY_TTL) 0 (hour_mac toy_kdfs [2, 1] toy_params (int 5))"
  have "fst ?t = False" by (simp add: replay_filter_new_def)
  then obtain f where "?t = (False, f)" by (metis prod.collapse)
  then show ?thesis
    using client_hello_parse [OF toy_kdfs_ok _ _ _ _ toy_params_def nc, of toy_materials sum_hasher 0 "replay_filter_new [] REPLAY_TTL"]
    by (simp add: near_def toy_hello_def try_parse_client_handshake_def get_epoch_hour_def del: test_and_set_inner)
qed

theorem handshake_accepted_once_witness:
  "\<exists>f1 f2. try_parse_client_handshake toy_kdfs sum_hasher 18000 0 toy_hello toy_materials (replay_filter_new [] REPLAY_TTL)
       = Some (Inr (client_hello_new (replicate 32 4) 0 (show_nat 5)), f1)
     \<and> server_handshake_no_keygen toy_kdfs toy_curve toy_aead sum_hasher (\<lambda>_. None) 0 18000 4 \<lparr> eph_sk = [9], eph_tweak = 0 \<rparr>
         toy_hello toy_materials (run_calls (test_and_set sum_hasher) f1 [(3, [1])]) = Some (Inl RReplayedHandshake, f2)"
proof -
  obtain f1 where f1: "try_parse_client_handshake toy_kdfs sum_hasher 18000 0 toy_hello toy_materials (replay_filter_new [] REPLAY_TTL)
       = Some (Inr (client_hello_new (replicate 32 4) 0 (show_nat 5)), f1)" using toy_accepted by blast
  have f0: "filter_after sum_hasher [] REPLAY_TTL [] = replay_filter_new [] REPLAY_TTL" by (simp add: filter_after_def)
  have "\<exists>hour. ch_epoch_hour (client_hello_new (replicate 32 4) 0 (show_nat 5)) = show_int hour \<and> hour \<in> near (int 5)
    \<and> (if hour \<in> near (int 5)
        then \<exists>f2. try_parse_client_handshake toy_kdfs sum_hasher 18000 4 toy_hello toy_materials (run_calls (test_and_set sum_hasher) f1 [(3, [1])])
                 = Some (Inl (HandshakeErr RReplayedHandshake), f2)
               \<and> server_handshake_no_keygen toy_kdfs toy_curve toy_aead sum_hasher (\<lambda>_. None) 0 18000 4 \<lparr> eph_sk = [9], eph_tweak = 0 \<rparr>
                   toy_hello toy_materials (run_calls (test_and_set sum_hasher) f1 [(3, [1])]) = Some (Inl RReplayedHandshake, f2)
        else server_handshake_no_keygen toy_kdfs toy_curve toy_aead sum_hasher (\<lambda>_. None) 0 18000 4 \<lparr> eph_sk = [9], eph_tweak = 0 \<rparr>
               toy_hello toy_materials (run_calls (test_and_set sum_hasher) f1 [(3, [1])])
             = Some (Inl BadClientHandshake, run_calls (test_and_set sum_hasher) f1 [(3, [1])]))"
    by (rule handshake_accepted_once [where cs = "[(3, [1])]", OF toy_kdfs_ok f1 [folded f0]])
      (simp_all add: MAX_FILTER_SIZE_def toy_params_take get_epoch_hour_def near_def no_collision_toy)
  with f1 show ?thesis by (auto split: if_splits)
qed

section \<open>Key agreement\<close>

text \<open>
  The two key generators made from one seed: same session id, and codecs that are in step
  in both directions.
\<close>

lemma keygen_pair:
  assumes "kdfs_ok K"
  obtains c s :: "'s keygen" where "keygen_new K sip seed True = Some c" "keygen_new K sip seed False = Some s"
    "kg_session_id c = kg_session_id s" "kg_seed c = seed" "kg_seed s = seed"
    "in_sync (encoder (kg_codec c)) (decoder (kg_codec s))" "in_sync (encoder (kg_codec s)) (decoder (kg_codec c))"
    "counter (e_nonce (encoder (kg_codec s))) = 1"
proof -
  have "\<exists>okm. hkdf K T_KEY seed M_EXPAND 152 = Some okm \<and> length okm = 152"
    using assms by (simp add: kdfs_ok_def)
  then obtain okm where okm: "keygen_kdf K seed 152 = Inr okm" "length okm = 152"
    by (auto simp: keygen_kdf_def ntor1_derive_def)
  let ?d = "take 72 okm" and ?e = "take 72 (drop 72 okm)"
  obtain c s :: "'s codec" where cs: "codec_new sip ?d ?e = Some c" "codec_new sip ?e ?d = Some s"
    "in_sync (encoder c) (decoder s)" "in_sync (encoder s) (decoder c)" "counter (e_nonce (encoder s)) = 1"
    using in_sync_new [of ?d ?e sip] okm(2) by (auto simp: const_simps)
  show thesis
    by (rule that [of "\<lparr> kg_seed = seed, kg_codec = c, kg_session_id = drop 144 okm \<rparr>"
          "\<lparr> kg_seed = seed, kg_codec = s, kg_session_id = drop 144 okm \<rparr>"])
      (use okm cs in \<open>simp_all add: keygen_new_def const_simps\<close>)
qed

text \<open>The server hello, with its frame and anything behind it, as the client parses it.\<close>

lemma parse_server_hello:
  assumes "kdfs_ok K" "length r = 32" "length auth = 32" "length pad \<le> 8051"
    "key = mac_key (cm_node_pubkey (st_materials st))"
    "\<forall>j < length pad. take 16 (drop j (pad @ hello_mark K key r)) \<noteq> hello_mark K key r"
    "params = r @ auth @ pad @ hello_mark K key r"
    "mac = take 16 (hmac K key (params @ str_bytes (st_epoch_hr st)))"
  shows "try_parse_server_hello K d (params @ mac @ rest) st =
    Inr (server_hello_new d r auth (st_epoch_hr st), length params + 16)"
proof -
  let ?mark = "hello_mark K key r"
  let ?buf = "params @ mac @ rest"
  have lm: "length ?mark = 16" "length mac = 16"
    using assms(1,8) by (simp_all add: hello_lengths kdfs_ok_def const_simps)
  have d: "drop j ?buf = drop (j - 64) (pad @ ?mark) @ mac @ rest" if "64 \<le> j" "j \<le> 64 + length pad" for j
    using that assms(2,3,7) lm by simp
  have nomark: "take 16 (drop j ?buf) \<noteq> ?mark" if j: "64 \<le> j" "j < 64 + length pad" for j
  proof -
    have "16 \<le> length (drop (j - 64) (pad @ ?mark))" using j lm by simp
    then have "take 16 (drop j ?buf) = take 16 (drop (j - 64) (pad @ ?mark))"
      using j by (simp add: d del: drop_append append_assoc)
    then show ?thesis using assms(6) [rule_format, of "j - 64"] j by simp
  qed
  have k: "SERVER_MIN_HANDSHAKE_LENGTH = 96" "REPRESENTATIVE_LENGTH = 32" "MARK_LENGTH = 16"
    "AUTHCODE_LENGTH = 32" "SERVER_MIN_PAD_LENGTH = 0" "MAX_HANDSHAKE_LENGTH = 8192" "MAC_LENGTH = 16"
    by (simp_all add: const_simps)
  have "take 16 (drop (64 + length pad) ?buf) = ?mark" "64 + length pad + 16 + 16 \<le> min (length ?buf) 8192"
    using assms(2-4,7) lm by simp_all
  then have "find_mac_mark ?mark ?buf (32 + 32 + 0) 8192 False = Some (64 + length pad)"
    unfolding find_mac_mark_search k using nomark
    by (simp del: append_assoc take_append drop_append length_append)
  moreover have "take (64 + length pad + 16) ?buf = params" "take 16 (drop (64 + length pad + 16) ?buf) = mac"
    using assms(2,3,7) lm by simp_all
  moreover have "take 32 ?buf = r" "take 32 (drop 32 ?buf) = auth" "96 \<le> length ?buf"
    "length params = 64 + length pad + 16" using assms(2,3,7) lm by simp_all
  moreover have "take 16 (hmac K key r) = ?mark" by (simp add: hello_mark_def const_simps)
  ultimately show ?thesis
    unfolding try_parse_server_hello_def k Let_def assms(5) [symmetric]
    using assms(8) by (simp del: append_assoc take_append drop_append)
qed

definition seed_packet :: "bytes \<Rightarrow> bytes" where
  "seed_packet seed = [1] @ be16 (of_nat (length seed)) @ seed"

lemma turn_of_seed: "length seed = 24 \<Longrightarrow> turn_of (seed_packet seed) = Return (Inr (Some (PrngSeed seed)))"
  using try_parse_built [of seed 1 "[]"]
  by (simp add: turn_of_def seed_packet_def message_type_try_from_def const_simps)

lemma complete_server_hs_ok:
  assumes "aead_ok A" "length (sm_len_seed m) = 24" "counter (e_nonce (encoder (kg_codec g))) = 1"
    "server_hello_marshall K rng (get_hmac_key m) (server_hello_new pd sr auth (ch_epoch_hour ch)) [] = Some hello"
  obtains w where
    "complete_server_hs K A sip rng pd ch m sr g auth = Some (Inr (hello @ w), g \<lparr> kg_codec := encoder_next sip (kg_codec g) \<rparr>)"
    "encode A sip (kg_codec g) (seed_packet (sm_len_seed m)) hello = (Inr (), encoder_next sip (kg_codec g), hello @ w)"
    "length w = 45"
proof -
  have b: "build_and_marshall [] (message_type_byte MTPrngSeed) (sm_len_seed m) 0 = Inr (seed_packet (sm_len_seed m))"
    using assms(2) by (simp add: build_ok seed_packet_def)
  have l: "length (seed_packet (sm_len_seed m)) = 27" using assms(2) by (simp add: seed_packet_def)
  obtain w where w: "encode A sip (kg_codec g) (seed_packet (sm_len_seed m)) hello
      = (Inr (), encoder_next sip (kg_codec g), hello @ w)" "length w = 27 + FRAME_OVERHEAD"
    using encode_total [OF assms(1), of "seed_packet (sm_len_seed m)" "kg_codec g" sip hello] l assms(3)
    by (auto simp: const_simps)
  then show thesis
    by (intro that [of w]) (simp_all add: complete_server_hs_def b [simplified] Let_def const_simps assms(4))
qed

text \<open>What the client finds behind the hello: the seed frame, then whatever follows.\<close>

lemma decode_seed_frame:
  assumes "aead_ok A" "length seed = 24" "in_sync (encoder s) (decoder c)"
    "encode A sip s (seed_packet seed) dst = (Inr (), s', dst @ w)"
  shows "\<exists>c'. decode A sip c (w @ extra) = (Inr (Some (PrngSeed seed)), c', extra)
    \<and> in_sync (encoder s') (decoder c') \<and> encoder c' = encoder c"
proof -
  have "decode_turn A sip (decoder c) (w @ extra) = (Return (Inr (Some (PrngSeed seed))), decoder_next sip (decoder c), extra)"
    using decode_turn_encoded [OF assms(1,3,4)] turn_of_seed [OF assms(2)] assms(2)
    by (simp add: seed_packet_def const_simps)
  moreover have "s' = encoder_next sip s" using assms(4) by (simp add: encode_ok_iff)
  ultimately show ?thesis
    using assms(3) by (simp add: decode_def decode_loop.simps in_sync_next)
qed

lemma server_side:
  assumes "aead_ok A" "length (sm_len_seed sm) = 24" "64 \<le> length hello"
    and parse: "try_parse_client_handshake K sip secs now hello sm f = Some (Inr (client_hello_new r 0 eh), f')"
    and pub: "representative_public V r = x" "public_representative V seph = Some sr"
    and dh: "eph_diffie_hellman V seph x = xy" "x25519 V (nsk_sk (sm_identity_keys sm)) x = xb"
      "was_contributory V xy" "was_contributory V xb"
    and drv: "ntor_derive K xy xb (nsk_pk (sm_identity_keys sm)) x (eph_public V seph) = (ks, auth)"
    and kg: "keygen_new K sip ks False = Some s" "counter (e_nonce (encoder (kg_codec s))) = 1"
    and sh: "server_hello_marshall K rng (get_hmac_key sm) (server_hello_new pd sr auth eh) [] = Some sh"
  obtains w where
    "server_handshake_no_keygen K V A sip rng pd secs now seph hello sm f =
       Some (Inr (s \<lparr> kg_codec := encoder_next sip (kg_codec s) \<rparr>, sh @ w), f')"
    "encode A sip (kg_codec s) (seed_packet (sm_len_seed sm)) sh = (Inr (), encoder_next sip (kg_codec s), sh @ w)"
    "length w = 45"
proof -
  let ?ch = "client_hello_new r 0 eh \<lparr> ch_pubkey := Some x \<rparr>"
  have "server_hello_marshall K rng (get_hmac_key sm) (server_hello_new pd sr auth (ch_epoch_hour ?ch)) [] = Some sh"
    by (simp add: sh client_hello_new_def)
  from complete_server_hs_ok [OF assms(1,2) kg(2) this, of sip] obtain w where
    w: "complete_server_hs K A sip rng pd ?ch sm sr s auth = Some (Inr (sh @ w), s \<lparr> kg_codec := encoder_next sip (kg_codec s) \<rparr>)"
      "encode A sip (kg_codec s) (seed_packet (sm_len_seed sm)) sh = (Inr (), encoder_next sip (kg_codec s), sh @ w)"
      "length w = 45" by metis
  have gp: "get_public V (client_hello_new r 0 eh) = (x, ?ch)"
    using pub(1) by (simp add: get_public_def client_hello_new_def Let_def)
  have "server_handshake_no_keygen K V A sip rng pd secs now seph hello sm f =
       Some (Inr (s \<lparr> kg_codec := encoder_next sip (kg_codec s) \<rparr>, sh @ w), f')"
    using assms(3) parse gp pub(2) dh drv kg(1) w(1)
    by (simp add: server_handshake_no_keygen_def Let_def const_simps)
  with w show thesis by (intro that)
qed

lemma client_side:
  assumes "kdfs_ok K" "length sr = 32" "length auth = 32" "rng pd = Some pad" "length pad = pd" "pd < 8051"
    and key: "key = mac_key (cm_node_pubkey (st_materials st))"
    and sh: "server_hello_marshall K rng key (server_hello_new pd sr auth (st_epoch_hr st)) [] = Some sh"
    and mark: "\<forall>j < pd. take 16 (drop j (pad @ hello_mark K key sr)) \<noteq> hello_mark K key sr"
    and dh: "representative_public V sr = y" "eph_diffie_hellman V (st_my_sk st) y = xy"
      "eph_diffie_hellman V (st_my_sk st) (nk_pk (cm_node_pubkey (st_materials st))) = xb"
      "was_contributory V xy" "was_contributory V xb"
    and drv: "ntor_derive K xy xb (cm_node_pubkey (st_materials st)) (eph_public V (st_my_sk st)) y = (ks, auth)"
    and kg: "keygen_new K sip ks True = Some c"
  shows "client_handshake2 K V sip d (sh @ rest) st = Some (Inr (c, rest))"
    "length sh = 96 + pd"
proof -
  let ?p = "sr @ auth @ pad @ hello_mark K key sr"
  let ?mac = "take 16 (hmac K key (?p @ str_bytes (st_epoch_hr st)))"
  have sh': "sh = ?p @ ?mac"
    using sh assms(4) by (simp add: server_hello_marshall_def server_hello_new_def hello_mark_def make_hs_pad_def Let_def const_simps)
  have lm: "length ?mac = 16" using assms(1) by (simp add: kdfs_ok_def const_simps)
  with assms(2-5) hello_lengths(1) [OF assms(1)] show "length sh = 96 + pd" by (simp add: sh')
  have ps: "try_parse_server_hello K d (?p @ ?mac @ rest) st
      = Inr (server_hello_new d sr auth (st_epoch_hr st), length ?p + 16)"
    using mark assms(5,6) by (intro parse_server_hello [OF assms(1-3) _ key _ refl refl]) auto
  have sp: "server_pubkey V (server_hello_new d sr auth (st_epoch_hr st))
      = (y, server_hello_new d sr auth (st_epoch_hr st) \<lparr> sh_pubkey := Some y \<rparr>)"
    using dh(1) by (simp add: server_pubkey_def server_hello_new_def Let_def)
  have sa: "sh_auth (server_hello_new d sr auth (st_epoch_hr st) \<lparr> sh_pubkey := Some y \<rparr>) = auth"
    by (simp add: server_hello_new_def)
  have "drop (length ?p + 16) (?p @ ?mac @ rest) = rest" using lm by simp
  moreover have "\<not> length (?p @ ?mac @ rest) < length ?p + 16" using lm by simp
  ultimately have "client_handshake2 K V sip d (?p @ ?mac @ rest) st = Some (Inr (c, rest))"
    using kg dh drv by (simp add: client_handshake2_def ps sp Let_def sa
        del: append_assoc drop_append length_append)
  then show "client_handshake2 K V sip d (sh @ rest) st = Some (Inr (c, rest))" by (simp add: sh')
qed

lemma honest_hello_parsed:
  assumes "kdfs_ok K" "curve_ok V" "client_handshake_no_keygen K V crng csecs ceph cm = Some (st, hello)"
    and "\<forall>n pad. crng n = Some pad \<longrightarrow> length pad = n" "CLIENT_MIN_PAD_LENGTH \<le> cm_pad_len cm" "cm_pad_len cm < CLIENT_MAX_PAD_LENGTH"
    and keys: "cm_node_pubkey cm = nsk_pk (sm_identity_keys sm)"
    and hours: "get_epoch_hour csecs = Some chour" "get_epoch_hour ssecs = Some shour" "int chour \<in> near (int shour)"
    and coll: "no_collision K (get_hmac_key sm) (take (length hello - 16) hello) (near (int shour))"
    and fresh: "\<not> fst (test_and_set sip f now (drop (length hello - 16) hello))"
  obtains r f' where "public_representative V ceph = Some r" "64 \<le> length hello"
    "st = \<lparr> st_my_sk = ceph, st_materials = cm, st_epoch_hr = show_nat chour \<rparr>"
    "try_parse_client_handshake K sip ssecs now hello sm f = Some (Inr (client_hello_new r 0 (show_nat chour)), f')"
proof -
  let ?key = "get_hmac_key sm" and ?h = chour
  have key: "mac_key (cm_node_pubkey cm) = ?key" using keys by (simp add: get_hmac_key_def)
  from client_handshake_layout [OF assms(3)] obtain r pad h where r: "public_representative V ceph = Some r"
    and pad: "crng (cm_pad_len cm) = Some pad" and "get_epoch_hour csecs = Some h"
    and h: "hello = r @ pad @ hello_mark K ?key r @ hour_mac K ?key (r @ pad @ hello_mark K ?key r) (int h)"
      "st = \<lparr> st_my_sk = ceph, st_materials = cm, st_epoch_hr = show_nat h \<rparr>" unfolding key by metis
  then have "h = ?h" using hours(1) by simp
  with h have hello: "hello = (r @ pad @ hello_mark K ?key r) @ hour_mac K ?key (r @ pad @ hello_mark K ?key r) (int ?h)"
    and st: "st = \<lparr> st_my_sk = ceph, st_materials = cm, st_epoch_hr = show_nat ?h \<rparr>" by simp_all
  define params where "params = r @ pad @ hello_mark K ?key r"
  note lens = hello_lengths [OF assms(1)] representative_roundtrip(2) [OF assms(2) r]
  have split: "take (length hello - 16) hello = params" "drop (length hello - 16) hello = hour_mac K ?key params (int ?h)"
    using hello lens by (simp_all flip: params_def)
  obtain f' where tas: "test_and_set sip f now (hour_mac K ?key params (int ?h)) = (False, f')"
    using fresh unfolding split by (metis prod.collapse)
  have "try_parse_client_handshake K sip ssecs now hello sm f = Some (Inr (client_hello_new r 0 (show_nat ?h)), f')"
    using client_hello_parse [OF assms(1) _ _ _ refl params_def, of ?h shour sip now f]
      lens assms(4-6) pad hours(3) coll [unfolded split] tas
    by (simp add: try_parse_client_handshake_def hours(2) hello insert_absorb const_simps flip: params_def
        del: test_and_set_inner)
  moreover have "64 \<le> length hello" using hello lens by simp
  ultimately show thesis using that r st by blast
qed

text \<open>
  The two sides together: the reply is a hello \<open>sh\<close> followed by the seed frame \<open>w\<close>, and the
  client leaves the seed frame and what follows for its stream to decode.
\<close>

lemma handshake_agrees:
  assumes "kdfs_ok K" "curve_ok V" "aead_ok A"
    and client: "client_handshake_no_keygen K V crng csecs ceph cm = Some (st, hello)"
    and pads: "\<forall>n pad. crng n = Some pad \<longrightarrow> length pad = n" "srng spad = Some spadding" "length spadding = spad"
      "CLIENT_MIN_PAD_LENGTH \<le> cm_pad_len cm" "cm_pad_len cm < CLIENT_MAX_PAD_LENGTH" "spad < SERVER_MAX_PAD_LENGTH"
    and keys: "sm_identity_keys sm = ntor_secret_key_new V sk ident" "cm_node_pubkey cm = nsk_pk (sm_identity_keys sm)"
      "public_representative V seph = Some sr"
    and hour: "get_epoch_hour csecs = Some chour" "get_epoch_hour ssecs = Some shour" "int chour \<in> near (int shour)"
      "no_collision K (get_hmac_key sm) (take (length hello - 16) hello) (near (int shour))"
    and fresh: "\<not> fst (test_and_set sip f now (drop (length hello - 16) hello))"
    and contrib: "was_contributory V (eph_diffie_hellman V ceph (eph_public V seph))"
      "was_contributory V (eph_diffie_hellman V ceph (static_public V sk))"
    and seed: "length (sm_len_seed sm) = SEED_LENGTH"
    and mark: "\<forall>j < spad. take 16 (drop j (spadding @ hello_mark K (get_hmac_key sm) sr)) \<noteq> hello_mark K (get_hmac_key sm) sr"
  shows "\<exists>skg ckg sh w f'. server_handshake_no_keygen K V A sip srng spad ssecs now seph hello sm f = Some (Inr (skg, sh @ w), f')
    \<and> length (sh @ w) \<le> MAX_HANDSHAKE_LENGTH \<and> kg_session_id ckg = kg_session_id skg \<and> kg_seed ckg = kg_seed skg
    \<and> (\<forall>d extra. client_handshake2 K V sip d (sh @ w @ extra) st = Some (Inr (ckg, w @ extra)))
    \<and> (\<forall>extra. \<exists>c'. decode A sip (kg_codec ckg) (w @ extra) = (Inr (Some (PrngSeed (sm_len_seed sm))), c', extra)
         \<and> in_sync (encoder (kg_codec skg)) (decoder c') \<and> in_sync (encoder c') (decoder (kg_codec skg)))"
proof -
  let ?key = "get_hmac_key sm" and ?h = chour
  let ?x = "eph_public V ceph" and ?y = "eph_public V seph" and ?npk = "nsk_pk (sm_identity_keys sm)"
  from honest_hello_parsed [OF assms(1,2) client pads(1,4,5) keys(2) hour fresh] obtain r f' where
    r: "public_representative V ceph = Some r" "64 \<le> length hello"
    and st: "st = \<lparr> st_my_sk = ceph, st_materials = cm, st_epoch_hr = show_nat ?h \<rparr>"
    and parse: "try_parse_client_handshake K sip ssecs now hello sm f = Some (Inr (client_hello_new r 0 (show_nat ?h)), f')" .
  define xy xb where "xy = eph_diffie_hellman V ceph ?y" and "xb = eph_diffie_hellman V ceph (static_public V sk)"
  obtain ks auth where drv: "ntor_derive K xy xb ?npk ?x ?y = (ks, auth)" by force
  have la: "length auth = 32" using drv assms(1) by (auto simp: ntor_derive_def Let_def kdfs_ok_def const_simps)
  obtain c s :: "'a keygen" where kg: "keygen_new K sip ks True = Some c" "keygen_new K sip ks False = Some s"
    "kg_session_id c = kg_session_id s" "kg_seed c = ks" "kg_seed s = ks"
    "in_sync (encoder (kg_codec c)) (decoder (kg_codec s))" "in_sync (encoder (kg_codec s)) (decoder (kg_codec c))"
    "counter (e_nonce (encoder (kg_codec s))) = 1" by (rule keygen_pair [OF assms(1), of sip ks])
  obtain sh where sh: "server_hello_marshall K srng ?key (server_hello_new spad sr auth (show_nat ?h)) [] = Some sh"
    using pads(2) by (simp add: server_hello_marshall_def make_hs_pad_def server_hello_new_def Let_def)
  have pub: "representative_public V r = ?x" "representative_public V sr = ?y" "length sr = 32"
    using representative_roundtrip [OF assms(2)] r(1) keys(3) by auto
  have dh: "eph_diffie_hellman V seph ?x = xy" "x25519 V (nsk_sk (sm_identity_keys sm)) ?x = xb" "nk_pk ?npk = static_public V sk"
    using dh_agree [OF assms(2)] by (simp_all add: xy_def xb_def keys ntor_secret_key_new_def)
  note con = contrib [folded xy_def xb_def]
  have len: "length (sm_len_seed sm) = 24" using seed by (simp add: const_simps)
  obtain w where
    w: "server_handshake_no_keygen K V A sip srng spad ssecs now seph hello sm f =
         Some (Inr (s \<lparr> kg_codec := encoder_next sip (kg_codec s) \<rparr>, sh @ w), f')"
      "encode A sip (kg_codec s) (seed_packet (sm_len_seed sm)) sh = (Inr (), encoder_next sip (kg_codec s), sh @ w)"
      "length w = 45"
    by (rule server_side [OF assms(3) len r(2) parse pub(1) keys(3) dh(1,2) con drv kg(2,8) sh])
  have st_sel: "st_my_sk st = ceph" "cm_node_pubkey (st_materials st) = ?npk" "st_epoch_hr st = show_nat ?h"
    using keys(2) by (simp_all add: st)
  note cl = client_side [where st = st and rng = srng and pd = spad and V = V, unfolded st_sel, OF assms(1) pub(3) la pads(2,3) _ _ sh]
  have c2: "client_handshake2 K V sip d (sh @ rest) st = Some (Inr (c, rest))" "length sh = 96 + spad" for d rest
    using cl [OF _ _ mark pub(2) _ _ con drv kg(1)] pads keys(2) dh(3)
    by (simp_all add: xy_def xb_def get_hmac_key_def const_simps)
  have "\<exists>c'. decode A sip (kg_codec c) (w @ extra) = (Inr (Some (PrngSeed (sm_len_seed sm))), c', extra)
      \<and> in_sync (encoder (encoder_next sip (kg_codec s))) (decoder c') \<and> encoder c' = encoder (kg_codec c)" for extra
    using decode_seed_frame [OF assms(3) len kg(7) w(2)] .
  moreover have "length (sh @ w) \<le> MAX_HANDSHAKE_LENGTH" using c2(2) w(3) pads(6) by (simp add: const_simps)
  moreover have "decoder (encoder_next sip (kg_codec s)) = decoder (kg_codec s)" by (simp add: encoder_next_def)
  ultimately show ?thesis
    unfolding w(1) using kg(3-6) c2(1)
    by (intro exI [of _ "s \<lparr> kg_codec := encoder_next sip (kg_codec s) \<rparr>"] exI [of _ c] exI [of _ sh] exI [of _ w] exI [of _ f'])
      (simp, metis)
qed

text \<open>
  C3. The handshake agrees: an honest client and the server it holds the certificate of,
  whose clocks are at most an hour apart, complete it in one round trip. The server answers
  with at most 8,192 bytes; from them, with anything behind them, the client derives the
  same session id and seed, and the first thing it decodes is the server's length seed;
  after that both directions of the two codecs are in step. The hypotheses are the laws of
  the curve, the MAC and the AEAD, contributory secrets, a hello the filter has not seen,
  and padding that does not happen to contain the mark.
\<close>

theorem key_agreement:
  assumes "kdfs_ok K" "curve_ok V" "aead_ok A"
    and client: "client_handshake_no_keygen K V crng csecs ceph cm = Some (st, hello)"
    and pads: "\<forall>n pad. crng n = Some pad \<longrightarrow> length pad = n" "srng spad = Some spadding" "length spadding = spad"
      "CLIENT_MIN_PAD_LENGTH \<le> cm_pad_len cm" "cm_pad_len cm < CLIENT_MAX_PAD_LENGTH" "spad < SERVER_MAX_PAD_LENGTH"
    and keys: "sm_identity_keys sm = ntor_secret_key_new V sk ident" "cm_node_pubkey cm = nsk_pk (sm_identity_keys sm)"
      "public_representative V seph = Some sr"
    and hour: "get_epoch_hour csecs = Some chour" "get_epoch_hour ssecs = Some shour" "int chour \<in> near (int shour)"
      "no_collision K (get_hmac_key sm) (take (length hello - 16) hello) (near (int shour))"
    and fresh: "\<not> fst (test_and_set sip f now (drop (length hello - 16) hello))"
    and contrib: "was_contributory V (eph_diffie_hellman V ceph (eph_public V seph))"
      "was_contributory V (eph_diffie_hellman V ceph (static_public V sk))"
    and seed: "length (sm_len_seed sm) = SEED_LENGTH"
    and mark: "\<forall>j < spad. take 16 (drop j (spadding @ hello_mark K (get_hmac_key sm) sr)) \<noteq> hello_mark K (get_hmac_key sm) sr"
  shows "\<exists>skg reply f'. server_handshake_no_keygen K V A sip srng spad ssecs now seph hello sm f = Some (Inr (skg, reply), f')
    \<and> length reply \<le> MAX_HANDSHAKE_LENGTH
    \<and> (\<forall>extra. \<exists>ckg rest c'. client_handshake2 K V sip d (reply @ extra) st = Some (Inr (ckg, rest))
         \<and> kg_session_id ckg = kg_session_id skg \<and> kg_seed ckg = kg_seed skg
         \<and> decode A sip (kg_codec ckg) rest = (Inr (Some (PrngSeed (sm_len_seed sm))), c', extra)
         \<and> in_sync (encoder (kg_codec skg)) (decoder c') \<and> in_sync (encoder c') (decoder (kg_codec skg)))"
proof -
  from handshake_agrees [where srng = srng and spad = spad, OF assms] obtain skg ckg :: "'a keygen" and sh w f' where
    a: "server_handshake_no_keygen K V A sip srng spad ssecs now seph hello sm f = Some (Inr (skg, sh @ w), f')"
      "length (sh @ w) \<le> MAX_HANDSHAKE_LENGTH" "kg_session_id ckg = kg_session_id skg" "kg_seed ckg = kg_seed skg"
      "\<And>d extra. client_handshake2 K V sip d (sh @ w @ extra) st = Some (Inr (ckg, w @ extra))"
      "\<And>extra. \<exists>c'. decode A sip (kg_codec ckg) (w @ extra) = (Inr (Some (PrngSeed (sm_len_seed sm))), c', extra)
         \<and> in_sync (encoder (kg_codec skg)) (decoder c') \<and> in_sync (encoder c') (decoder (kg_codec skg))" by blast
  have "\<exists>ckg rest c'. client_handshake2 K V sip d ((sh @ w) @ extra) st = Some (Inr (ckg, rest))
      \<and> kg_session_id ckg = kg_session_id skg \<and> kg_seed ckg = kg_seed skg
      \<and> decode A sip (kg_codec ckg) rest = (Inr (Some (PrngSeed (sm_len_seed sm))), c', extra)
      \<and> in_sync (encoder (kg_codec skg)) (decoder c') \<and> in_sync (encoder c') (decoder (kg_codec skg))" for extra
    using a(3,4) a(5) [of d extra] a(6) [of extra] unfolding append_assoc by blast
  with a(1,2) show ?thesis by blast
qed

definition wit_server :: server_materials where
  "wit_server = \<lparr> sm_identity_keys = ntor_secret_key_new toy_curve [2] [1], sm_session_id = [],
     sm_len_seed = replicate 24 3 \<rparr>"

definition wit_client :: client_materials where
  "wit_client = \<lparr> cm_node_pubkey = nsk_pk (sm_identity_keys wit_server), cm_pad_len = 80, cm_session_id = [] \<rparr>"

lemma toy_hello_facts:
  "hello_mark toy_kdfs key (replicate 32 9) = replicate 16 9" "no_collision toy_kdfs key params {4, 5, 6}"
  "take 16 (0 # replicate 16 9) \<noteq> (replicate 16 9 :: bytes)"
proof -
  show "hello_mark toy_kdfs key (replicate 32 9) = replicate 16 9" by (simp add: hello_mark_def toy_kdfs_def const_simps)
  show "no_collision toy_kdfs key params {4, 5, 6}" by (rule no_collision_toy) simp
  have "hd (take 16 (0 # replicate 16 9)) \<noteq> hd (replicate 16 9 :: bytes)" by simp
  then show "take 16 (0 # replicate 16 9) \<noteq> (replicate 16 9 :: bytes)" by metis
qed

lemmas toy_handshake_simps = toy_hello_facts(1,2) wit_client_def wit_server_def const_simps replay_filter_new_def near_def
  get_epoch_hour_def public_representative_def eph_diffie_hellman_def eph_public_def toy_curve_def

lemma toy_client_hello:
  "\<exists>st hello. client_handshake_no_keygen toy_kdfs toy_curve (\<lambda>n. Some (replicate n 0)) 18000 \<lparr> eph_sk = [3], eph_tweak = 0 \<rparr> m = Some (st, hello)"
  by (auto simp: client_handshake_no_keygen_def client_hello_marshall_def make_hs_pad_def get_epoch_hour_def
      public_representative_def toy_curve_def Let_def)

lemma toy_agrees:
  assumes "client_handshake_no_keygen toy_kdfs toy_curve (\<lambda>n. Some (replicate n 0)) 18000 \<lparr> eph_sk = [3], eph_tweak = 0 \<rparr>
       (wit_client \<lparr> cm_session_id := cid \<rparr>) = Some (st, hello)"
  shows "\<exists>skg ckg sh w f'. server_handshake_no_keygen toy_kdfs toy_curve toy_aead sum_hasher (\<lambda>n. Some (replicate n 0)) 1 21000 now
         \<lparr> eph_sk = [9], eph_tweak = 0 \<rparr> hello (wit_server \<lparr> sm_session_id := sid \<rparr>) (replay_filter_new [] REPLAY_TTL) = Some (Inr (skg, sh @ w), f')
     \<and> length (sh @ w) \<le> MAX_HANDSHAKE_LENGTH \<and> kg_session_id ckg = kg_session_id skg \<and> kg_seed ckg = kg_seed skg
     \<and> (\<forall>d extra. client_handshake2 toy_kdfs toy_curve sum_hasher d (sh @ w @ extra) st = Some (Inr (ckg, w @ extra)))
     \<and> (\<forall>extra. \<exists>c'. decode toy_aead sum_hasher (kg_codec ckg) (w @ extra) = (Inr (Some (PrngSeed (sm_len_seed (wit_server \<lparr> sm_session_id := sid \<rparr>)))), c', extra)
         \<and> in_sync (encoder (kg_codec skg)) (decoder c') \<and> in_sync (encoder c') (decoder (kg_codec skg)))"
  by (rule handshake_agrees [where sk = "[2]" and ident = "[1]" and sr = "replicate 32 9" and spadding = "[0]" and chour = 5 and shour = 5,
      OF toy_kdfs_ok toy_curve_ok toy_aead_ok assms])
    (use toy_hello_facts(3) in \<open>simp_all add: toy_handshake_simps\<close>)

theorem key_agreement_witness:
  "\<exists>st hello skg reply f'.
     client_handshake_no_keygen toy_kdfs toy_curve (\<lambda>n. Some (replicate n 0)) 18000 \<lparr> eph_sk = [3], eph_tweak = 0 \<rparr> wit_client
       = Some (st, hello)
     \<and> server_handshake_no_keygen toy_kdfs toy_curve toy_aead sum_hasher (\<lambda>n. Some (replicate n 0)) 1 21000 0
         \<lparr> eph_sk = [9], eph_tweak = 0 \<rparr> hello wit_server (replay_filter_new [] REPLAY_TTL) = Some (Inr (skg, reply), f')
     \<and> length reply \<le> MAX_HANDSHAKE_LENGTH"
proof -
  obtain st hello where c: "client_handshake_no_keygen toy_kdfs toy_curve (\<lambda>n. Some (replicate n 0)) 18000
      \<lparr> eph_sk = [3], eph_tweak = 0 \<rparr> wit_client = Some (st, hello)"
    using toy_client_hello by blast
  have "\<exists>skg reply f'. server_handshake_no_keygen toy_kdfs toy_curve toy_aead sum_hasher (\<lambda>n. Some (replicate n 0)) 1 21000 0
         \<lparr> eph_sk = [9], eph_tweak = 0 \<rparr> hello wit_server (replay_filter_new [] REPLAY_TTL) = Some (Inr (skg, reply), f')
     \<and> length reply \<le> MAX_HANDSHAKE_LENGTH
     \<and> (\<forall>extra. \<exists>ckg rest c'. client_handshake2 toy_kdfs toy_curve sum_hasher 0 (reply @ extra) st = Some (Inr (ckg, rest))
         \<and> kg_session_id ckg = kg_session_id skg \<and> kg_seed ckg = kg_seed skg
         \<and> decode toy_aead sum_hasher (kg_codec ckg) rest = (Inr (Some (PrngSeed (sm_len_seed wit_server))), c', extra)
         \<and> in_sync (encoder (kg_codec skg)) (decoder c') \<and> in_sync (encoder c') (decoder (kg_codec skg)))"
    by (rule key_agreement [where sk = "[2]" and ident = "[1]" and sr = "replicate 32 9" and spadding = "[0]" and chour = 5 and shour = 5,
        OF toy_kdfs_ok toy_curve_ok toy_aead_ok c])
      (use toy_hello_facts(3) in \<open>simp_all add: toy_handshake_simps\<close>)
  with c show ?thesis by blast
qed

text \<open>
  C6. The client accepts only the server it asked for: when it completes a handshake, the
  message carries, under the node's key and the hour of the client's own hello, a valid MAC
  behind the mark, the ntor authentication code the client computes itself from both
  secrets, and both secrets are contributory; the key generator is the one derived from
  them, and what remains is exactly what follows the MAC. Every other message of this form
  is refused.
\<close>

theorem client_authenticates_server:
  assumes "client_handshake2 K V sip d msg st = Some (Inr (kg, rest))"
    and "npk = cm_node_pubkey (st_materials st)" "y = representative_public V (take 32 msg)"
  shows "\<exists>pos. 64 \<le> pos \<and> pos + 32 \<le> length msg \<and> pos + 32 \<le> MAX_HANDSHAKE_LENGTH \<and> rest = drop (pos + 32) msg
    \<and> take 16 (drop pos msg) = hello_mark K (mac_key npk) (take 32 msg)
    \<and> take 16 (drop (pos + 16) msg) = take 16 (hmac K (mac_key npk) (take (pos + 16) msg @ str_bytes (st_epoch_hr st)))
    \<and> (\<exists>seed. ntor_derive K (eph_diffie_hellman V (st_my_sk st) y) (eph_diffie_hellman V (st_my_sk st) (nk_pk npk)) npk
             (eph_public V (st_my_sk st)) y = (seed, take 32 (drop 32 msg)) \<and> keygen_new K sip seed True = Some kg)
    \<and> was_contributory V (eph_diffie_hellman V (st_my_sk st) y)
    \<and> was_contributory V (eph_diffie_hellman V (st_my_sk st) (nk_pk npk))"
proof -
  let ?mark = "hello_mark K (mac_key npk) (take 32 msg)"
  from assms(1) obtain sh n where p: "try_parse_server_hello K d msg st = Inr (sh, n)"
    by (auto simp: client_handshake2_def split: sum.splits)
  then obtain pos where pos: "find_mac_mark ?mark msg 64 MAX_HANDSHAKE_LENGTH False = Some pos"
      "take 16 (drop (pos + 16) msg) = take 16 (hmac K (mac_key npk) (take (pos + 16) msg @ str_bytes (st_epoch_hr st)))"
      "sh = server_hello_new d (take 32 msg) (take 32 (drop 32 msg)) (st_epoch_hr st)" "n = pos + 32"
    by (auto simp: try_parse_server_hello_def Let_def hello_mark_def assms(2) const_simps split: if_splits option.splits)
  from pos(1) have "64 \<le> pos" "pos + 32 \<le> length msg" "pos + 32 \<le> MAX_HANDSHAKE_LENGTH" "take 16 (drop pos msg) = ?mark"
    by (auto simp: find_mac_mark_search const_simps)
  moreover have "rest = drop n msg \<and> (\<exists>seed. ntor_derive K (eph_diffie_hellman V (st_my_sk st) y)
        (eph_diffie_hellman V (st_my_sk st) (nk_pk npk)) npk (eph_public V (st_my_sk st)) y = (seed, take 32 (drop 32 msg))
        \<and> keygen_new K sip seed True = Some kg)
      \<and> was_contributory V (eph_diffie_hellman V (st_my_sk st) y)
      \<and> was_contributory V (eph_diffie_hellman V (st_my_sk st) (nk_pk npk))"
    using assms(1) unfolding client_handshake2_def p
    by (auto simp: pos(3) server_pubkey_def server_hello_new_def Let_def assms(2,3) split: prod.splits option.splits if_splits)
  ultimately show ?thesis using pos(2,4) by blast
qed

definition wit_state :: ntor_state where
  "wit_state = \<lparr> st_my_sk = \<lparr> eph_sk = [3], eph_tweak = 0 \<rparr>, st_materials = wit_client, st_epoch_hr = ''5'' \<rparr>"

theorem client_authenticates_server_witness:
  "\<exists>msg kg rest pos. client_handshake2 toy_kdfs toy_curve sum_hasher 0 msg wit_state = Some (Inr (kg, rest))
    \<and> 64 \<le> pos \<and> pos + 32 \<le> length msg \<and> rest = drop (pos + 32) msg"
proof -
  let ?key = "mac_key (cm_node_pubkey (st_materials wit_state))" and ?y = "replicate 32 9 :: bytes"
  let ?xy = "eph_diffie_hellman toy_curve (st_my_sk wit_state) ?y"
  let ?xb = "eph_diffie_hellman toy_curve (st_my_sk wit_state) (nk_pk (cm_node_pubkey (st_materials wit_state)))"
  obtain ks auth where drv: "ntor_derive toy_kdfs ?xy ?xb (cm_node_pubkey (st_materials wit_state))
      (eph_public toy_curve (st_my_sk wit_state)) ?y = (ks, auth)" by force
  then have la: "length auth = 32" using toy_kdfs_ok by (auto simp: ntor_derive_def Let_def kdfs_ok_def const_simps)
  obtain c where kg: "keygen_new toy_kdfs sum_hasher ks True = Some c"
    by (rule keygen_pair [OF toy_kdfs_ok, of sum_hasher ks])
  obtain sh where sh: "server_hello_marshall toy_kdfs (\<lambda>n. Some (replicate n 0)) ?key
      (server_hello_new 0 ?y auth (st_epoch_hr wit_state)) [] = Some sh"
    by (simp add: server_hello_marshall_def make_hs_pad_def Let_def)
  have run: "client_handshake2 toy_kdfs toy_curve sum_hasher 0 (sh @ []) wit_state = Some (Inr (c, []))"
    by (rule client_side(1) [where pad = "[]", OF toy_kdfs_ok _ la _ _ _ refl sh _ _ refl refl _ _ drv kg])
      (simp_all add: toy_curve_def representative_public_def eph_diffie_hellman_def wit_state_def wit_client_def
        wit_server_def ntor_secret_key_new_def)
  from client_authenticates_server [OF run refl refl] run show ?thesis by blast
qed

end
