(* ===== verification/ProbDist.thy ===== *)
theory ProbDist
  imports Drbg Complex_Main "HOL-Library.Multiset" "HOL-Library.Monad_Syntax"
begin

text \<open>
  \<^verbatim>\<open>crates/obfs4/src/common/probdist.rs\<close>: the weighted distribution that chooses frame and
  delay lengths. Floating-point numbers are a type variable with the operations the code
  uses on them, so what is proved of the tables' shape holds for every rounding, infinities
  and not-a-number included; the exactness of the alias method is proved at exact rational
  arithmetic. The \<^verbatim>\<open>rand\<close> crate's \<^verbatim>\<open>shuffle\<close>, \<^verbatim>\<open>gen_range\<close> and \<^verbatim>\<open>gen\<close> are parameters.
  A failed draw of the system generator, an index out of range, an empty slice and the
  failed assertion are panics, and \<open>None\<close>.
\<close>

section \<open>Arithmetic\<close>

record 'f f64_ops =
  f_of :: "nat \<Rightarrow> 'f"
  f_add :: "'f \<Rightarrow> 'f \<Rightarrow> 'f"
  f_sub :: "'f \<Rightarrow> 'f \<Rightarrow> 'f"
  f_mul :: "'f \<Rightarrow> 'f \<Rightarrow> 'f"
  f_div :: "'f \<Rightarrow> 'f \<Rightarrow> 'f"
  f_lt :: "'f \<Rightarrow> 'f \<Rightarrow> bool"
  f_ge :: "'f \<Rightarrow> 'f \<Rightarrow> bool"
  f_show :: "'f \<Rightarrow> string"

text \<open>The three draws of the \<^verbatim>\<open>rand\<close> crate, each with the generator it leaves.\<close>

record ('r, 'f) rand_ops =
  shuffle :: "'r \<Rightarrow> int list \<Rightarrow> int list \<times> 'r"
  gen_range :: "'r \<Rightarrow> int \<Rightarrow> int \<Rightarrow> int \<times> 'r"
  gen_f64 :: "'r \<Rightarrow> 'f \<times> 'r"

definition rand_ok :: "('r, 'f) rand_ops \<Rightarrow> bool" where
  "rand_ok R \<longleftrightarrow> (\<forall>r xs. mset (fst (shuffle R r xs)) = mset xs)
     \<and> (\<forall>r lo hi. lo \<le> hi \<longrightarrow> lo \<le> fst (gen_range R r lo hi) \<and> fst (gen_range R r lo hi) \<le> hi)"

text \<open>\<^verbatim>\<open>i32\<close> arithmetic of a release build.\<close>

definition i32 :: "int \<Rightarrow> int" where
  "i32 n = (n + 2 ^ 31) mod 2 ^ 32 - 2 ^ 31"

definition vec_get :: "'a list \<Rightarrow> nat \<Rightarrow> 'a option" where
  "vec_get xs i = (if i < length xs then Some (xs ! i) else None)"

definition vec_set :: "'a list \<Rightarrow> nat \<Rightarrow> 'a \<Rightarrow> 'a list option" where
  "vec_set xs i v = (if i < length xs then Some (xs[i := v]) else None)"

section \<open>The distribution\<close>

definition MIN_VALUES :: int where "MIN_VALUES = 1"
definition MAX_VALUES :: int where "MAX_VALUES = 100"

record 'f weighted_dist =
  min_value :: int
  max_value :: int
  biased :: bool
  dvalues :: "int list"
  weights :: "'f list"
  dalias :: "nat list"
  dprob :: "'f list"

definition gen_values :: "('r, 'f) rand_ops \<Rightarrow> 'r \<Rightarrow> 'f weighted_dist \<Rightarrow> ('f weighted_dist \<times> 'r) option" where
  "gen_values R r wd =
     (let n_values = i32 (max_value wd - min_value wd);
          (values, r) = shuffle R r [0..n_values];
          n_values = max n_values MIN_VALUES;
          n_values = min n_values MAX_VALUES;
          (n, r) = gen_range R r 1 n_values
      in if nat n \<le> length values then Some (wd \<lparr> dvalues := take (nat n) values \<rparr>, r) else None)"

fun biased_weights :: "'f f64_ops \<Rightarrow> ('r, 'f) rand_ops \<Rightarrow> nat \<Rightarrow> 'r \<Rightarrow> 'f \<Rightarrow> 'f list \<times> 'r" where
  "biased_weights F R 0 r cumul = ([], r)"
| "biased_weights F R (Suc n) r cumul =
     (let (x, r) = gen_f64 R r;
          w = f_mul F (f_sub F (f_of F 1) cumul) x;
          (ws, r) = biased_weights F R n r (f_add F cumul w)
      in (w # ws, r))"

fun uniform_weights :: "('r, 'f) rand_ops \<Rightarrow> nat \<Rightarrow> 'r \<Rightarrow> 'f list \<times> 'r" where
  "uniform_weights R 0 r = ([], r)"
| "uniform_weights R (Suc n) r =
     (let (x, r) = gen_f64 R r; (ws, r) = uniform_weights R n r in (x # ws, r))"

definition gen_biased_weights ::
  "'f f64_ops \<Rightarrow> ('r, 'f) rand_ops \<Rightarrow> 'r \<Rightarrow> 'f weighted_dist \<Rightarrow> 'f weighted_dist \<times> 'r" where
  "gen_biased_weights F R r wd =
     (let (ws, r) = biased_weights F R (length (dvalues wd)) r (f_of F 0) in (wd \<lparr> weights := ws \<rparr>, r))"

definition gen_uniform_weights :: "('r, 'f) rand_ops \<Rightarrow> 'r \<Rightarrow> 'f weighted_dist \<Rightarrow> 'f weighted_dist \<times> 'r" where
  "gen_uniform_weights R r wd =
     (let (ws, r) = uniform_weights R (length (dvalues wd)) r in (wd \<lparr> weights := ws \<rparr>, r))"

text \<open>One turn pairs the first small column with the first large one.\<close>

type_synonym 'f tables = "nat list \<times> nat list \<times> 'f list \<times> 'f list \<times> nat list"

definition alias_turn :: "'f f64_ops \<Rightarrow> nat \<Rightarrow> nat \<Rightarrow> 'f tables \<Rightarrow> 'f tables option" where
  "alias_turn F l g = (\<lambda>(small, large, scaled, prob, als).
     do {
       pl \<leftarrow> vec_get scaled l;
       prob \<leftarrow> vec_set prob l pl;
       als \<leftarrow> vec_set als l g;
       pg \<leftarrow> vec_get scaled g;
       let pg = f_sub F (f_add F pg pl) (f_of F 1);
       scaled \<leftarrow> vec_set scaled g pg;
       Some (if f_lt F pg (f_of F 1) then (small @ [g], large, scaled, prob, als)
             else (small, large @ [g], scaled, prob, als))
     })"

lemma alias_turn_shape:
  assumes "alias_turn F l g (small, large, scaled, prob, als) = Some (small', large', t')"
  shows "small' = small @ [g] \<and> large' = large \<or> small' = small \<and> large' = large @ [g]"
  using assms by (auto simp: alias_turn_def Let_def split: option.splits if_splits bind_splits)

text \<open>Every turn retires a column, so the number of columns left bounds the loop.\<close>

function alias_loop :: "'f f64_ops \<Rightarrow> 'f tables \<Rightarrow> 'f tables option" where
  "alias_loop F (small, large, scaled, prob, als) =
     (case (small, large) of
        (l # small', g # large') \<Rightarrow>
          (case alias_turn F l g (small', large', scaled, prob, als) of
             None \<Rightarrow> None
           | Some t \<Rightarrow> alias_loop F t)
      | _ \<Rightarrow> Some (small, large, scaled, prob, als))"
  by pat_completeness auto

termination
  by (relation "measure (\<lambda>(F, small, large, _). length small + length large)")
    (auto dest: alias_turn_shape)

fun fill_ones :: "'f f64_ops \<Rightarrow> nat list \<Rightarrow> 'f list \<Rightarrow> 'f list option" where
  "fill_ones F [] prob = Some prob"
| "fill_ones F (g # gs) prob = do { prob \<leftarrow> vec_set prob g (f_of F 1); fill_ones F gs prob }"

definition scaled_weights :: "'f f64_ops \<Rightarrow> 'f list \<Rightarrow> 'f list" where
  "scaled_weights F ws =
     (let sum = foldl (f_add F) (f_of F 0) ws
      in map (\<lambda>f. f_div F (f_mul F f (f_of F (length ws))) sum) ws)"

definition gen_tables :: "'f f64_ops \<Rightarrow> 'f weighted_dist \<Rightarrow> 'f weighted_dist option" where
  "gen_tables F wd =
     (let n = length (weights wd);
          scaled = scaled_weights F (weights wd);
          small = filter (\<lambda>i. f_lt F (scaled ! i) (f_of F 1)) [0..<n];
          large = filter (\<lambda>i. f_ge F (scaled ! i) (f_of F 1)) [0..<n]
      in do {
        (small, large, scaled, prob, als) \<leftarrow>
          alias_loop F (small, large, scaled, replicate n (f_of F 0), replicate n 0);
        prob \<leftarrow> fill_ones F large prob;
        prob \<leftarrow> fill_ones F small prob;
        Some (wd \<lparr> dprob := prob, dalias := als \<rparr>)
      })"

definition reseed ::
  "'f f64_ops \<Rightarrow> ('s drbg, 'f) rand_ops \<Rightarrow> 's siphasher \<Rightarrow> seed \<Rightarrow> 'f weighted_dist \<Rightarrow> 'f weighted_dist option" where
  "reseed F R sip seed wd = do {
     let r = to_new_drbg sip seed;
     (wd, r) \<leftarrow> gen_values R r wd;
     let (wd, r) = (if biased wd then gen_biased_weights F R r wd else gen_uniform_weights R r wd);
     gen_tables F wd
   }"

definition dist_new ::
  "'f f64_ops \<Rightarrow> ('s drbg, 'f) rand_ops \<Rightarrow> 's siphasher \<Rightarrow> seed \<Rightarrow> int \<Rightarrow> int \<Rightarrow> bool \<Rightarrow> 'f weighted_dist option" where
  "dist_new F R sip seed mn mx bias =
     reseed F R sip seed \<lparr> min_value = mn, max_value = mx, biased = bias, dvalues = [], weights = [],
       dalias = [], dprob = [] \<rparr>"

definition le64 :: "bytes \<Rightarrow> u64" where
  "le64 bs = foldr (\<lambda>b acc. push_bit 8 acc OR ucast b) bs 0"

text \<open>
  \<open>draw\<close> is what the operating system's generator answered: 16 bytes, or \<^term>\<open>None\<close> when it
  failed, which the code makes a panic before it looks at the tables.
\<close>

definition sample :: "'f f64_ops \<Rightarrow> bytes option \<Rightarrow> 'f weighted_dist \<Rightarrow> int option" where
  "sample F draw wd = do {
     buf \<leftarrow> draw;
     if dvalues wd = [] then None
      else do {
        let i = unat (le64 (take 8 buf)) mod length (dvalues wd);
        let bits = le64 (drop 8 buf);
        let f = f_div F (f_of F (unat (drop_bit 11 bits))) (f_of F (2 ^ 53));
        p \<leftarrow> vec_get (dprob wd) i;
        if f_lt F f p then do { v \<leftarrow> vec_get (dvalues wd) i; Some (i32 (min_value wd + v)) }
        else do {
          a \<leftarrow> vec_get (dalias wd) i;
          v \<leftarrow> vec_get (dvalues wd) a;
          Some (i32 (min_value wd + v))
        }
      }
   }"

lemma sample_no_draw [simp]: "sample F None wd = None"
  by (simp add: sample_def)

definition dist_display :: "'f f64_ops \<Rightarrow> (int \<Rightarrow> string) \<Rightarrow> 'f weighted_dist \<Rightarrow> string" where
  "dist_display F show_v wd =
     ''[ '' @ concat (map (\<lambda>(v, p). if f_lt F (f_div F (f_of F 1) (f_of F 100)) p
                                  then show_v v @ '': '' @ f_show F p @ '', '' else [])
                       (zip (dvalues wd) (weights wd))) @ '']''"

section \<open>The tables always fit\<close>

definition dist_ok :: "'f weighted_dist \<Rightarrow> bool" where
  "dist_ok d \<longleftrightarrow> dvalues d \<noteq> [] \<and> distinct (dvalues d) \<and> length (weights d) = length (dvalues d)
     \<and> length (dprob d) = length (dvalues d) \<and> length (dalias d) = length (dvalues d)
     \<and> list_all (\<lambda>a. a < length (dvalues d)) (dalias d)
     \<and> list_all (\<lambda>v. 0 \<le> v \<and> v \<le> max_value d - min_value d) (dvalues d)"

definition tables_fit :: "nat \<Rightarrow> 'f tables \<Rightarrow> bool" where
  "tables_fit n = (\<lambda>(small, large, scaled, prob, als).
     (\<forall>i \<in> set small. i < n) \<and> (\<forall>i \<in> set large. i < n)
     \<and> length scaled = n \<and> length prob = n \<and> length als = n \<and> (\<forall>a \<in> set als. a < n))"

lemma vec_get_in [simp]: "i < length xs \<Longrightarrow> vec_get xs i = Some (xs ! i)"
  by (simp add: vec_get_def)

lemma vec_set_in [simp]: "i < length xs \<Longrightarrow> vec_set xs i v = Some (xs[i := v])"
  by (simp add: vec_set_def)

lemma alias_turn_fit:
  assumes "tables_fit n (l # small, g # large, scaled, prob, als)"
  shows "\<exists>t. alias_turn F l g (small, large, scaled, prob, als) = Some t \<and> tables_fit n t"
  using assms set_update_subset_insert [of als l g] by (auto simp: tables_fit_def alias_turn_def Let_def)

lemma alias_loop_fit:
  "tables_fit n t \<Longrightarrow> \<exists>t'. alias_loop F t = Some t' \<and> tables_fit n t'"
proof (induction F t rule: alias_loop.induct)
  case (1 F small large scaled prob als)
  show ?case
  proof (cases "small = [] \<or> large = []")
    case False
    then obtain l small' g large' where c: "small = l # small'" "large = g # large'"
      by (metis list.exhaust)
    with 1(2) alias_turn_fit obtain t where
      t: "alias_turn F l g (small', large', scaled, prob, als) = Some t" "tables_fit n t" by blast
    then show ?thesis using 1(1) [OF refl c t(1) t(2)] c by simp
  qed (use 1(2) in \<open>auto split: list.splits\<close>)
qed

lemma fill_ones_nth:
  assumes "\<forall>g \<in> set gs. g < length prob"
  shows "\<exists>prob'. fill_ones F gs prob = Some prob' \<and> length prob' = length prob
    \<and> (\<forall>i < length prob. prob' ! i = (if i \<in> set gs then f_of F 1 else prob ! i))"
  using assms
proof (induction gs arbitrary: prob)
  case (Cons g gs)
  then obtain prob' where "fill_ones F gs (prob[g := f_of F 1]) = Some prob'" "length prob' = length prob"
      "\<forall>i < length prob. prob' ! i = (if i \<in> set gs then f_of F 1 else prob[g := f_of F 1] ! i)"
    by (metis length_list_update list.set_intros(2))
  with Cons.prems show ?case by (auto simp: nth_list_update)
qed simp

lemma gen_tables_fit:
  "\<exists>prob als. gen_tables F d = Some (d \<lparr> dprob := prob, dalias := als \<rparr>) \<and> length prob = length (weights d)
     \<and> length als = length (weights d) \<and> (\<forall>a \<in> set als. a < length (weights d))"
proof -
  let ?n = "length (weights d)" and ?s = "scaled_weights F (weights d)"
  let ?t = "(filter (\<lambda>i. f_lt F (?s ! i) (f_of F 1)) [0..<?n], filter (\<lambda>i. f_ge F (?s ! i) (f_of F 1)) [0..<?n], ?s,
    replicate ?n (f_of F 0), replicate ?n 0)"
  have "tables_fit ?n ?t" by (auto simp: tables_fit_def scaled_weights_def Let_def)
  then obtain small large scaled prob als where t: "alias_loop F ?t = Some (small, large, scaled, prob, als)"
      "tables_fit ?n (small, large, scaled, prob, als)"
    using alias_loop_fit by (metis prod_cases5)
  moreover from t(2) obtain p1 where p1: "fill_ones F large prob = Some p1" "length p1 = ?n"
    using fill_ones_nth [of large prob F] by (auto simp: tables_fit_def)
  moreover from t(2) p1(2) obtain p2 where "fill_ones F small p1 = Some p2" "length p2 = ?n"
    using fill_ones_nth [of small p1 F] by (auto simp: tables_fit_def)
  ultimately show ?thesis by (auto simp: gen_tables_def Let_def tables_fit_def)
qed

lemma i32_id: "- (2 ^ 31) \<le> n \<Longrightarrow> n < 2 ^ 31 \<Longrightarrow> i32 n = n"
  by (simp add: i32_def)

lemma gen_values_ok:
  assumes "rand_ok R" "min_value d \<le> max_value d" "max_value d - min_value d < 2 ^ 31"
  obtains r' vs where "gen_values R r d = Some (d \<lparr> dvalues := vs \<rparr>, r')" "vs \<noteq> []" "distinct vs"
    "\<forall>v \<in> set vs. 0 \<le> v \<and> v \<le> max_value d - min_value d"
proof -
  let ?n = "max_value d - min_value d"
  obtain xs r1 where s: "shuffle R r [0..?n] = (xs, r1)" by force
  with assms(1) have m: "mset xs = mset [0..?n]" unfolding rand_ok_def by (metis fst_conv)
  obtain k r2 where k: "gen_range R r1 1 (min (max ?n MIN_VALUES) MAX_VALUES) = (k, r2)" by force
  have "1 \<le> min (max ?n MIN_VALUES) MAX_VALUES" by (simp add: MIN_VALUES_def MAX_VALUES_def)
  with assms(1) have "1 \<le> k \<and> k \<le> min (max ?n MIN_VALUES) MAX_VALUES" unfolding rand_ok_def by (metis k fst_conv)
  moreover have l: "length xs = nat (?n + 1)" using m by (metis length_upto size_mset diff_zero)
  ultimately have b: "0 < nat k" "nat k \<le> length xs" using assms(2) by (auto simp: MIN_VALUES_def)
  have "distinct xs" "set xs = {0..?n}" using m by (metis distinct_upto mset_eq_imp_distinct_iff, metis set_upto set_mset_mset)
  with b have "take (nat k) xs \<noteq> []" "distinct (take (nat k) xs)" "\<forall>v \<in> set (take (nat k) xs). 0 \<le> v \<and> v \<le> ?n"
    using set_take_subset [of "nat k" xs] by (auto simp: subset_iff)
  moreover have "gen_values R r d = Some (d \<lparr> dvalues := take (nat k) xs \<rparr>, r2)"
    using assms(2,3) b(2) s k by (simp add: gen_values_def i32_id)
  ultimately show thesis using that by blast
qed

lemma biased_weights_length: "length (fst (biased_weights F R n r c)) = n"
  by (induction n arbitrary: r c) (simp_all add: case_prod_beta Let_def)

lemma uniform_weights_length: "length (fst (uniform_weights R n r)) = n"
  by (induction n arbitrary: r) (simp_all add: case_prod_beta Let_def)

lemma reseed_ok:
  assumes "rand_ok R" "min_value d \<le> max_value d" "max_value d - min_value d < 2 ^ 31"
  obtains d' where "reseed F R sip seed d = Some d'" "dist_ok d'"
    "min_value d' = min_value d" "max_value d' = max_value d" "biased d' = biased d"
proof -
  let ?r = "to_new_drbg sip seed"
  from gen_values_ok [OF assms, of ?r] obtain r1 vs where v: "gen_values R ?r d = Some (d \<lparr> dvalues := vs \<rparr>, r1)" "vs \<noteq> []"
      "distinct vs" "\<forall>v \<in> set vs. 0 \<le> v \<and> v \<le> max_value d - min_value d" by blast
  define ws where "ws = (if biased d then fst (biased_weights F R (length vs) r1 (f_of F 0)) else fst (uniform_weights R (length vs) r1))"
  have lw: "length ws = length vs" by (simp add: ws_def biased_weights_length uniform_weights_length)
  obtain p a where g: "gen_tables F (d \<lparr> dvalues := vs, weights := ws \<rparr>) = Some (d \<lparr> dvalues := vs, weights := ws, dprob := p, dalias := a \<rparr>)"
      "length p = length vs" "length a = length vs" "\<forall>x \<in> set a. x < length vs"
    using gen_tables_fit [of F "d \<lparr> dvalues := vs, weights := ws \<rparr>"] lw by auto
  have "reseed F R sip seed d = gen_tables F (d \<lparr> dvalues := vs, weights := ws \<rparr>)"
    by (simp add: reseed_def v(1) ws_def gen_biased_weights_def gen_uniform_weights_def case_prod_beta Let_def)
  with g v lw show thesis
    by (intro that [of "d \<lparr> dvalues := vs, weights := ws, dprob := p, dalias := a \<rparr>"]) (auto simp: dist_ok_def list_all_iff)
qed

lemma sample_ok:
  assumes "dist_ok d" "- (2 ^ 31) \<le> min_value d" "max_value d < 2 ^ 31"
  obtains v where "sample F (Some buf) d = Some v" "min_value d \<le> v" "v \<le> max_value d"
proof -
  let ?n = "length (dvalues d)" and ?i = "unat (le64 (take 8 buf)) mod length (dvalues d)"
  have i: "?i < ?n" using assms(1) by (simp add: dist_ok_def)
  with assms(1) have a: "dalias d ! ?i < ?n" by (auto simp: dist_ok_def list_all_iff)
  have "i32 (min_value d + dvalues d ! k) = min_value d + dvalues d ! k \<and> 0 \<le> dvalues d ! k
      \<and> min_value d + dvalues d ! k \<le> max_value d" if "k < ?n" for k
    using assms that by (fastforce simp: dist_ok_def list_all_iff intro!: i32_id dest!: nth_mem)
  with i a assms(1) show thesis
    by (intro that [of "the (sample F (Some buf) d)"]) (auto simp: sample_def dist_ok_def Let_def)
qed

text \<open>A distribution after a sequence of seeds, as a session reseeds it.\<close>

fun reseed_all :: "'f f64_ops \<Rightarrow> ('s drbg, 'f) rand_ops \<Rightarrow> 's siphasher \<Rightarrow> seed list \<Rightarrow> 'f weighted_dist \<Rightarrow> 'f weighted_dist option" where
  "reseed_all F R sip [] d = Some d"
| "reseed_all F R sip (s # ss) d = do { d \<leftarrow> reseed F R sip s d; reseed_all F R sip ss d }"

lemma reseed_all_ok:
  assumes "rand_ok R" "min_value d \<le> max_value d" "max_value d - min_value d < 2 ^ 31" "dist_ok d"
  shows "\<exists>d'. reseed_all F R sip ss d = Some d' \<and> dist_ok d' \<and> min_value d' = min_value d \<and> max_value d' = max_value d"
  using assms
proof (induction ss arbitrary: d)
  case (Cons s ss)
  from reseed_ok [OF Cons.prems(1-3), of F sip s] obtain d1 where d1: "reseed F R sip s d = Some d1" "dist_ok d1"
      "min_value d1 = min_value d" "max_value d1 = max_value d" by metis
  with Cons.IH [of d1] Cons.prems show ?case by simp
qed simp

text \<open>
  Sampling never fails and stays in range: whatever the floating-point arithmetic does
  (rounding, infinities and not-a-number included), a distribution made for a range of
  \<^verbatim>\<open>i32\<close> values, however often it is reseeded, has consistent non-empty tables, and every
  sample, for every output of the operating system's generator, is a value of the range:
  no index is out of bounds, no assertion fails and no addition wraps. The one panic left is
  that of a generator that fails.
\<close>

theorem sample_in_range:
  assumes "rand_ok R" "- (2 ^ 31) \<le> mn" "mn \<le> mx" "mx < 2 ^ 31" "mx - mn < 2 ^ 31"
  shows "\<exists>d d'. dist_new F R sip seed mn mx bias = Some d \<and> reseed_all F R sip seeds d = Some d' \<and> dist_ok d'
    \<and> sample F None d' = None \<and> (\<exists>v. sample F (Some buf) d' = Some v \<and> mn \<le> v \<and> v \<le> mx)"
proof -
  obtain d where d: "dist_new F R sip seed mn mx bias = Some d" "dist_ok d" "min_value d = mn" "max_value d = mx"
    unfolding dist_new_def
    by (rule reseed_ok [OF assms(1), of "\<lparr> min_value = mn, max_value = mx, biased = bias, dvalues = [], weights = [], dalias = [], dprob = [] \<rparr>" F sip seed])
      (use assms in simp_all)
  with reseed_all_ok [of R d F sip seeds] assms obtain d' where d': "reseed_all F R sip seeds d = Some d'" "dist_ok d'"
      "min_value d' = mn" "max_value d' = mx" by auto
  from sample_ok [OF d'(2), of F buf] d'(3,4) assms obtain v where "sample F (Some buf) d' = Some v" "mn \<le> v" "v \<le> mx" by metis
  with d d' show ?thesis by (auto intro!: exI)
qed

definition rat_ops :: "rat f64_ops" where
  "rat_ops = \<lparr> f_of = of_nat, f_add = (+), f_sub = (-), f_mul = (*), f_div = (/), f_lt = (<), f_ge = (\<lambda>x y. y \<le> x),
     f_show = (\<lambda>_. []) \<rparr>"

lemma rat_ops_sel:
  "f_of rat_ops = of_nat" "f_lt rat_ops x y \<longleftrightarrow> x < y" "f_ge rat_ops x y \<longleftrightarrow> y \<le> x"
  by (simp_all add: rat_ops_def)

definition half_rand :: "('s drbg, rat) rand_ops" where
  "half_rand = \<lparr> shuffle = (\<lambda>r xs. (rev xs, r)), gen_range = (\<lambda>r lo hi. (hi, r)), gen_f64 = (\<lambda>r. (1 / 2, r)) \<rparr>"

theorem sample_in_range_witness:
  "\<exists>d d' v. dist_new rat_ops half_rand sum_hasher (replicate 24 1) 0 1448 False = Some d
     \<and> reseed_all rat_ops half_rand sum_hasher [replicate 24 2, replicate 24 3] d = Some d'
     \<and> sample rat_ops (Some (replicate 16 200)) d' = Some v \<and> 0 \<le> v \<and> v \<le> 1448"
proof -
  have "rand_ok half_rand" by (simp add: rand_ok_def half_rand_def)
  from sample_in_range [OF this, of 0 1448 rat_ops sum_hasher "replicate 24 1" False "[replicate 24 2, replicate 24 3]" "replicate 16 200"]
  show ?thesis by force
qed

section \<open>The alias method is exact\<close>

text \<open>
  The share of column \<open>j\<close> that goes to index \<open>i\<close>: its own part below \<open>prob\<close> when it is
  \<open>i\<close>'s column, the part above when \<open>i\<close> is its alias.
\<close>

definition column_share :: "rat list \<Rightarrow> nat list \<Rightarrow> nat \<Rightarrow> nat \<Rightarrow> rat" where
  "column_share p a i j = (if j = i then p ! j else 0) + (if a ! j = i then 1 - p ! j else 0)"

definition alias_mass :: "rat list \<Rightarrow> nat list \<Rightarrow> nat \<Rightarrow> rat" where
  "alias_mass p a i = sum_list (map (column_share p a i) [0..<length p])"

lemma alias_mass_sum: "alias_mass p a i = (\<Sum>j<length p. column_share p a i j)"
  by (simp add: alias_mass_def interv_sum_list_conv_sum_set_nat atLeast0LessThan)

definition open_cols :: "nat list \<Rightarrow> nat list \<Rightarrow> nat set" where
  "open_cols small large = set small \<union> set large"

definition mass_inv :: "rat list \<Rightarrow> rat tables \<Rightarrow> bool" where
  "mass_inv s0 = (\<lambda>(small, large, s, p, a).
     tables_fit (length s0) (small, large, s, p, a) \<and> distinct (small @ large)
     \<and> (\<forall>i \<in> set small. 0 \<le> s ! i \<and> s ! i < 1) \<and> (\<forall>i \<in> set large. 1 \<le> s ! i)
     \<and> (\<forall>j < length s0. j \<notin> open_cols small large \<longrightarrow> 0 \<le> p ! j \<and> p ! j \<le> 1)
     \<and> (\<forall>i < length s0. (\<Sum>j \<in> {..<length s0} - open_cols small large. column_share p a i j)
            + (if i \<in> open_cols small large then s ! i else 0) = s0 ! i)
     \<and> (\<Sum>i \<in> open_cols small large. s ! i) = of_nat (card (open_cols small large)))"

lemma turn_open_cols:
  assumes "distinct ((l # small) @ (g # large))"
  shows "open_cols (small @ [g]) large = open_cols (l # small) (g # large) - {l}"
    "open_cols small (large @ [g]) = open_cols (l # small) (g # large) - {l}"
  using assms by (auto simp: open_cols_def)

lemma mass_inv_turn:
  assumes inv: "mass_inv s0 (l # small, g # large, s, p, a)"
  shows "\<exists>t. alias_turn rat_ops l g (small, large, s, p, a) = Some t \<and> mass_inv s0 t"
proof -
  let ?n = "length s0" and ?O = "open_cols (l # small) (g # large)" and ?pg = "s ! g + s ! l - 1"
  let ?s = "s[g := ?pg]" and ?p = "p[l := s ! l]" and ?a = "a[l := g]"
  let ?D = "{..<?n} - ?O"
  from inv have fit: "tables_fit ?n (l # small, g # large, s, p, a)" and dist: "distinct ((l # small) @ (g # large))"
    and sl: "0 \<le> s ! l" "s ! l < 1" and sg: "1 \<le> s ! g" by (auto simp: mass_inv_def)
  from fit have len: "length s = ?n" "length p = ?n" "length a = ?n" and lt: "l < ?n" "g < ?n" by (auto simp: tables_fit_def)
  have lg: "l \<noteq> g" "l \<in> ?O" "g \<in> ?O" "finite ?O" "?O \<subseteq> {..<?n}" using dist fit by (auto simp: open_cols_def tables_fit_def)
  have D: "{..<?n} - (?O - {l}) = insert l ?D" "l \<notin> ?D" using lg lt by auto
  have share: "column_share ?p ?a i j = column_share p a i j" if "j \<in> ?D" for i j
  proof -
    from that lg(2) have "l \<noteq> j" by blast
    then show ?thesis by (simp add: column_share_def)
  qed
  have mass: "(\<Sum>j \<in> {..<?n} - (?O - {l}). column_share ?p ?a i j) + (if i \<in> ?O - {l} then ?s ! i else 0) = s0 ! i"
    if "i < ?n" for i
  proof -
    have "(\<Sum>j \<in> {..<?n} - (?O - {l}). column_share ?p ?a i j) = column_share ?p ?a i l + (\<Sum>j \<in> ?D. column_share p a i j)"
      unfolding D(1) by (subst sum.insert) (use D(2) share in \<open>auto intro!: sum.cong\<close>)
    moreover have "column_share ?p ?a i l + (if i \<in> ?O - {l} then ?s ! i else 0) = (if i \<in> ?O then s ! i else 0)"
      using lg len lt by (auto simp: column_share_def)
    ultimately show ?thesis using inv that unfolding mass_inv_def by (auto simp only: split_conv)
  qed
  have "(\<Sum>i \<in> ?O. s ! i) = s ! l + (s ! g + (\<Sum>i \<in> ?O - {l} - {g}. s ! i))"
    using lg by (simp add: sum.remove [of ?O l] sum.remove [of "?O - {l}" g])
  moreover have "(\<Sum>i \<in> ?O - {l}. ?s ! i) = ?pg + (\<Sum>i \<in> ?O - {l} - {g}. ?s ! i)"
    using lg len lt by (simp add: sum.remove [of "?O - {l}" g])
  moreover have "(\<Sum>i \<in> ?O - {l} - {g}. ?s ! i) = (\<Sum>i \<in> ?O - {l} - {g}. s ! i)" by (intro sum.cong) auto
  moreover have "(\<Sum>i \<in> ?O. s ! i) = of_nat (card ?O)" using inv by (simp add: mass_inv_def)
  moreover have "(of_nat (card ?O) :: rat) = of_nat (card (?O - {l})) + 1"
    using lg by (metis card_Suc_Diff1 of_nat_Suc add.commute)
  ultimately have total: "(\<Sum>i \<in> ?O - {l}. ?s ! i) = of_nat (card (?O - {l}))" by simp
  have probs: "0 \<le> ?p ! j \<and> ?p ! j \<le> 1" if "j < ?n" "j \<notin> ?O - {l}" for j
    using that inv sl len lt by (cases "j = l") (auto simp: mass_inv_def)
  obtain t where t: "alias_turn rat_ops l g (small, large, s, p, a) = Some t" "tables_fit ?n t"
    using alias_turn_fit [OF fit] by blast
  have "t = (if ?pg < 1 then (small @ [g], large, ?s, ?p, ?a) else (small, large @ [g], ?s, ?p, ?a))"
    using t(1) len lt by (simp add: alias_turn_def rat_ops_def)
  moreover have "?s ! i = s ! i" if "i \<in> set small \<union> set large" for i
  proof -
    from that dist have "g \<noteq> i" by auto
    then show ?thesis by simp
  qed
  with inv have "\<forall>i \<in> set small. 0 \<le> ?s ! i \<and> ?s ! i < 1" "\<forall>i \<in> set large. 1 \<le> ?s ! i"
    by (simp_all add: mass_inv_def)
  ultimately have "mass_inv s0 t"
    using t(2) dist mass total probs sl sg len lt turn_open_cols [OF dist]
    by (cases "?pg < 1") (auto simp: mass_inv_def)
  with t show ?thesis by blast
qed

lemma mass_inv_loop:
  "mass_inv s0 t \<Longrightarrow> \<exists>small large rest. alias_loop rat_ops t = Some (small, large, rest)
     \<and> mass_inv s0 (small, large, rest) \<and> (small = [] \<or> large = [])"
proof (induction "rat_ops" t rule: alias_loop.induct)
  case (1 small large s p a)
  show ?case
  proof (cases "small = [] \<or> large = []")
    case False
    then obtain l small' g large' where c: "small = l # small'" "large = g # large'"
      by (metis list.exhaust)
    with 1(2) mass_inv_turn obtain t where t: "alias_turn rat_ops l g (small', large', s, p, a) = Some t" "mass_inv s0 t" by blast
    then show ?thesis using 1(1) [OF refl c t(1) t(2)] c by simp
  qed (use 1(2) in \<open>auto split: list.splits\<close>)
qed

text \<open>When one queue is empty, every column left holds exactly one unit.\<close>

lemma leftover_one:
  fixes s :: "rat list"
  assumes "(\<Sum>i \<in> A. s ! i) = of_nat (card A)" "finite A"
    and "(\<forall>i \<in> A. 1 \<le> s ! i) \<or> (\<forall>i \<in> A. s ! i < 1)" "i \<in> A"
  shows "s ! i = 1"
proof (rule ccontr)
  assume ne: "s ! i \<noteq> 1"
  have c: "(\<Sum>i \<in> A. 1 :: rat) = of_nat (card A)" by simp
  from assms(3) show False
  proof
    assume "\<forall>i \<in> A. 1 \<le> s ! i"
    with ne assms(4) have "(\<Sum>i \<in> A. 1 :: rat) < (\<Sum>i \<in> A. s ! i)"
      by (intro sum_strict_mono_ex1 [OF assms(2)]) (auto simp: less_le)
    with c assms(1) show False by simp
  next
    assume "\<forall>i \<in> A. s ! i < 1"
    with assms(2,4) have "(\<Sum>i \<in> A. s ! i) < (\<Sum>i \<in> A. 1 :: rat)" by (intro sum_strict_mono) auto
    with c assms(1) show False by simp
  qed
qed

lemma foldl_rat_add: "foldl (+) (x :: rat) ws = x + sum_list ws"
  by (induction ws arbitrary: x) (simp_all add: add.assoc)

lemma scaled_weights_rat:
  "scaled_weights rat_ops ws = map (\<lambda>w. w * of_nat (length ws) / sum_list ws) ws"
  by (simp add: scaled_weights_def rat_ops_def foldl_rat_add)

lemma mass_inv_init:
  assumes "\<forall>w \<in> set ws. 0 \<le> w" "0 < sum_list ws"
  defines "n \<equiv> length ws" and "s0 \<equiv> scaled_weights rat_ops ws"
  shows "mass_inv s0 (filter (\<lambda>i. s0 ! i < 1) [0..<n], filter (\<lambda>i. 1 \<le> s0 ! i) [0..<n], s0, replicate n 0, replicate n 0)"
proof -
  let ?c = "of_nat n / sum_list ws"
  have s0: "s0 = map (\<lambda>w. w * ?c) ws" by (simp add: s0_def n_def scaled_weights_rat)
  have O: "open_cols (filter (\<lambda>i. s0 ! i < 1) [0..<n]) (filter (\<lambda>i. 1 \<le> s0 ! i) [0..<n]) = {..<n}"
    by (auto simp: open_cols_def)
  have "(\<Sum>i<n. s0 ! i) = sum_list s0" by (simp add: sum_list_sum_nth s0 n_def atLeast0LessThan)
  also have "\<dots> = sum_list ws * ?c" unfolding s0 using sum_list_mult_const [where f = "\<lambda>w. w"] by (simp only: list.map_ident)
  also have "\<dots> = of_nat n" using assms(2) by simp
  finally have "(\<Sum>i<n. s0 ! i) = of_nat n" .
  moreover have "0 \<le> s0 ! i" if "i < n" for i using that assms(1,2) by (simp add: s0 n_def)
  moreover have "length s0 = n" by (simp add: s0 n_def)
  ultimately show ?thesis using O by (auto simp: mass_inv_def tables_fit_def)
qed

text \<open>
  C38. The alias tables are right: with exact arithmetic, for weights that are not negative
  and not all zero, the tables give index \<open>i\<close> the probability \<open>w\<^sub>i / sum\<close>, where a column is
  drawn uniformly and the coin of column \<open>j\<close> keeps \<open>j\<close> with probability \<open>prob\<^sub>j\<close> and takes
  its alias otherwise; every \<open>prob\<^sub>j\<close> is a probability.
\<close>

theorem alias_tables_exact:
  assumes "\<forall>w \<in> set (weights d). 0 \<le> w" "0 < sum_list (weights d)"
  shows "\<exists>d'. gen_tables rat_ops d = Some d' \<and> length (dprob d') = length (weights d)
    \<and> (\<forall>p \<in> set (dprob d'). 0 \<le> p \<and> p \<le> 1)
    \<and> (\<forall>i < length (weights d). alias_mass (dprob d') (dalias d') i / of_nat (length (weights d))
          = weights d ! i / sum_list (weights d))"
proof -
  let ?ws = "weights d" and ?n = "length (weights d)" and ?s0 = "scaled_weights rat_ops (weights d)"
  let ?small = "filter (\<lambda>i. ?s0 ! i < 1) [0..<?n]" and ?large = "filter (\<lambda>i. 1 \<le> ?s0 ! i) [0..<?n]"
  from mass_inv_loop [OF mass_inv_init [OF assms]] obtain small large s p a where
    run: "alias_loop rat_ops (?small, ?large, ?s0, replicate ?n 0, replicate ?n 0) = Some (small, large, s, p, a)"
    and inv: "mass_inv ?s0 (small, large, s, p, a)" and fin: "small = [] \<or> large = []" by (metis prod_cases3)
  let ?O = "open_cols small large"
  have n: "length ?s0 = ?n" "?n > 0" using assms(2) by (auto simp: scaled_weights_rat)
  from inv have fit: "tables_fit ?n (small, large, s, p, a)" by (simp add: mass_inv_def n)
  then have O: "finite ?O" "?O \<subseteq> {..<?n}" by (auto simp: open_cols_def tables_fit_def)
  obtain p1 where p1: "fill_ones rat_ops large p = Some p1" "length p1 = ?n"
      "\<forall>i < ?n. p1 ! i = (if i \<in> set large then 1 else p ! i)"
    using fit fill_ones_nth [of large p rat_ops] by (auto simp: tables_fit_def rat_ops_def)
  obtain p2 where p2: "fill_ones rat_ops small p1 = Some p2" "length p2 = ?n"
      "\<forall>i < ?n. p2 ! i = (if i \<in> set small then 1 else p1 ! i)"
    using fit p1(2) fill_ones_nth [of small p1 rat_ops] by (auto simp: tables_fit_def rat_ops_def)
  have p2p: "p2 ! i = (if i \<in> ?O then 1 else p ! i)" if "i < ?n" for i
    using that p1(3) p2(3) by (auto simp: open_cols_def)
  have one: "s ! i = 1" if "i \<in> ?O" for i
    by (rule leftover_one [where A = ?O]) (use inv fin O that in \<open>auto simp: mass_inv_def open_cols_def\<close>)
  have mass: "alias_mass p2 a i = ?s0 ! i" if i: "i < ?n" for i
  proof -
    have "alias_mass p2 a i = (\<Sum>j \<in> {..<?n} - ?O. column_share p2 a i j) + (\<Sum>j \<in> ?O. column_share p2 a i j)"
      unfolding alias_mass_sum p2(2) by (rule sum.subset_diff [OF O(2)]) simp
    also have "(\<Sum>j \<in> {..<?n} - ?O. column_share p2 a i j) = (\<Sum>j \<in> {..<?n} - ?O. column_share p a i j)"
      by (rule sum.cong) (auto simp: column_share_def p2p)
    also have "(\<Sum>j \<in> ?O. column_share p2 a i j) = (\<Sum>j \<in> ?O. if i = j then s ! i else 0)"
      by (rule sum.cong) (use O(2) one in \<open>auto simp: column_share_def p2p\<close>)
    also have "\<dots> = (if i \<in> ?O then s ! i else 0)" by (rule sum.delta' [OF O(1)])
    finally show ?thesis using inv i by (simp add: mass_inv_def n)
  qed
  have "gen_tables rat_ops d = Some (d \<lparr> dprob := p2, dalias := a \<rparr>)"
    using run p1(1) p2(1) by (simp add: gen_tables_def Let_def rat_ops_sel del: alias_loop.simps)
  moreover have "\<forall>q \<in> set p2. 0 \<le> q \<and> q \<le> 1"
    using p2p inv p2(2) by (auto simp: in_set_conv_nth mass_inv_def n)
  moreover have "alias_mass p2 a i / of_nat ?n = ?ws ! i / sum_list ?ws" if "i < ?n" for i
    using mass [OF that] that n by (simp add: scaled_weights_rat)
  ultimately show ?thesis using p2(2) by (intro exI [of _ "d \<lparr> dprob := p2, dalias := a \<rparr>"]) simp
qed

theorem alias_tables_exact_witness:
  "\<exists>d'. gen_tables rat_ops \<lparr> min_value = 0, max_value = 3, biased = False, dvalues = [0, 1, 2, 3], weights = [1, 4, 2, 1],
       dalias = [], dprob = [] \<rparr> = Some d' \<and> alias_mass (dprob d') (dalias d') 1 / 4 = 4 / 8"
  using alias_tables_exact [of "\<lparr> min_value = 0, max_value = 3, biased = False, dvalues = [0, 1, 2, 3], weights = [1, 4, 2, 1],
       dalias = [], dprob = [] \<rparr>"] by force

end
