(* ===== verification/Shaping.thy ===== *)
theory Shaping
  imports ProbDist Framing
begin

text \<open>
  The first half of \<^verbatim>\<open>crates/obfs4/src/proto.rs\<close>: the inter-arrival-time modes, handshake
  time limits, stored I/O errors, and \<^verbatim>\<open>IatCarrier\<close>, which cuts and delays the writes of an
  obfs4 stream on their way to the carrier.

  A poll answers \<open>Pending\<close> or \<open>Ready\<close>; a panic is the third answer \<open>Panic\<close>. The carrier is
  the transport the program is given: its state is a type variable and its four operations
  are a record. Times are nanoseconds of the monotonic clock; \<open>now\<close> is the time of the poll
  and \<open>clock_max\<close> the last instant the clock can represent: an addition beyond it panics.
  The outputs of the operating system's generator are the function \<open>rnd\<close> of the number of
  the draw, \<^term>\<open>None\<close> for a draw that fails, and the carrier counts its draws. A failed draw
  panics.
\<close>

section \<open>Modes and limits\<close>

datatype iat = Off | Enabled | Paranoid

definition iat_from_str :: "string \<Rightarrow> obfs4_error + iat" where
  "iat_from_str s =
     (if s = ''0'' then Inr Off
      else if s = ''1'' then Inr Enabled
      else if s = ''2'' then Inr Paranoid
      else Inl (EOther (''invalid iat-mode '' @ [CHR 0x27] @ s @ [CHR 0x27])))"

fun iat_to_string :: "iat \<Rightarrow> string" where
  "iat_to_string Off = ''0''"
| "iat_to_string Enabled = ''1''"
| "iat_to_string Paranoid = ''2''"

datatype maybe_timeout = TDefault | TFixed nat | TLength nat | TUnset

text \<open>\<open>clock_max\<close> is the last instant the platform's clock can represent.\<close>

definition instant_checked_add :: "nat \<Rightarrow> nat \<Rightarrow> nat \<Rightarrow> nat option" where
  "instant_checked_add clock_max t d = (if t + d \<le> clock_max then Some (t + d) else None)"

fun deadline :: "nat \<Rightarrow> nat \<Rightarrow> maybe_timeout \<Rightarrow> nat \<Rightarrow> io_error + nat option" where
  "deadline clock_max now TDefault dflt =
     (case instant_checked_add clock_max now dflt of
        Some t \<Rightarrow> Inr (Some t)
      | None \<Rightarrow> Inl (IoCustom InvalidInput ''handshake timeout overflows the monotonic clock''))"
| "deadline clock_max now (TFixed i) dflt = Inr (Some i)"
| "deadline clock_max now (TLength d) dflt =
     (case instant_checked_add clock_max now d of
        Some t \<Rightarrow> Inr (Some t)
      | None \<Rightarrow> Inl (IoCustom InvalidInput ''handshake timeout overflows the monotonic clock''))"
| "deadline clock_max now TUnset dflt = Inr None"

record stored_io_error =
  sio_message :: string
  sio_kind :: error_kind
  sio_raw :: "int option"

definition sio_from_error :: "os_errors \<Rightarrow> io_error \<Rightarrow> stored_io_error" where
  "sio_from_error os e = \<lparr> sio_message = io_display os e, sio_kind = io_kind os e, sio_raw = io_raw_os_error e \<rparr>"

definition sio_into_error :: "stored_io_error \<Rightarrow> io_error" where
  "sio_into_error s = (case sio_raw s of None \<Rightarrow> IoCustom (sio_kind s) (sio_message s) | Some c \<Rightarrow> IoOs c)"

section \<open>Polls and carriers\<close>

datatype 'a poll = Pending | Ready 'a | Panic

fun poll_bind :: "'a poll \<times> 's \<Rightarrow> ('a \<Rightarrow> 's \<Rightarrow> 'b poll \<times> 's) \<Rightarrow> 'b poll \<times> 's" where
  "poll_bind (Pending, s) f = (Pending, s)"
| "poll_bind (Panic, s) f = (Panic, s)"
| "poll_bind (Ready x, s) f = f x s"

lemma poll_bind_eq_Ready:
  "poll_bind p f = (Ready y, s') \<longleftrightarrow> (\<exists>x s. p = (Ready x, s) \<and> f x s = (Ready y, s'))"
  by (cases p; cases "fst p") auto

lemma poll_bind_eq_Pending:
  "poll_bind p f = (Pending, s') \<longleftrightarrow> p = (Pending, s') \<or> (\<exists>x s. p = (Ready x, s) \<and> f x s = (Pending, s'))"
  by (cases p; cases "fst p") auto

lemma poll_bind_eq_Panic:
  "poll_bind p f = (Panic, s') \<longleftrightarrow> p = (Panic, s') \<or> (\<exists>x s. p = (Ready x, s) \<and> f x s = (Panic, s'))"
  by (cases p; cases "fst p") auto

record 'c carrier =
  c_poll_read :: "nat \<Rightarrow> 'c \<Rightarrow> (io_error + bytes) poll \<times> 'c"
  c_poll_write :: "bytes \<Rightarrow> 'c \<Rightarrow> (io_error + nat) poll \<times> 'c"
  c_poll_flush :: "'c \<Rightarrow> (io_error + unit) poll \<times> 'c"
  c_poll_shutdown :: "'c \<Rightarrow> (io_error + unit) poll \<times> 'c"

text \<open>
  What a carrier documents of \<^verbatim>\<open>poll_write\<close>: it accepts a prefix, and \<open>out\<close>, the bytes it
  has accepted so far, grows by exactly that prefix.
\<close>

definition carrier_ok :: "'c carrier \<Rightarrow> ('c \<Rightarrow> bytes) \<Rightarrow> bool" where
  "carrier_ok C out \<longleftrightarrow>
     (\<forall>b c r c'. c_poll_write C b c = (r, c') \<longrightarrow> r \<noteq> Panic
        \<and> (case r of Ready (Inr n) \<Rightarrow> n \<le> length b \<and> out c' = out c @ take n b | _ \<Rightarrow> out c' = out c))
     \<and> (\<forall>c r c'. c_poll_flush C c = (r, c') \<longrightarrow> r \<noteq> Panic \<and> out c' = out c)
     \<and> (\<forall>c r c'. c_poll_shutdown C c = (r, c') \<longrightarrow> r \<noteq> Panic \<and> out c' = out c)"

section \<open>The shaping carrier\<close>

record ('c, 'f) iat_carrier =
  ic_inner :: 'c
  ic_mode :: iat
  ic_iat_dist :: "'f weighted_dist"
  ic_length_dist :: "'f weighted_dist"
  ic_sleep :: nat
  delay_pending :: bool
  shutdown_requested :: bool
  scheduled_target :: "nat option"
  pad_target :: "nat option"
  draws :: nat

definition iat_carrier_new ::
  "nat \<Rightarrow> 'c \<Rightarrow> iat \<Rightarrow> 'f weighted_dist \<Rightarrow> 'f weighted_dist \<Rightarrow> ('c, 'f) iat_carrier" where
  "iat_carrier_new now inner mode iat_dist length_dist =
     \<lparr> ic_inner = inner, ic_mode = mode, ic_iat_dist = iat_dist, ic_length_dist = length_dist, ic_sleep = now,
       delay_pending = False, shutdown_requested = False, scheduled_target = None, pad_target = None, draws = 0 \<rparr>"

definition clear_delay :: "('c, 'f) iat_carrier \<Rightarrow> ('c, 'f) iat_carrier" where
  "clear_delay cr = cr \<lparr> delay_pending := False, shutdown_requested := True \<rparr>"

definition take_pad_target :: "('c, 'f) iat_carrier \<Rightarrow> nat option \<times> ('c, 'f) iat_carrier" where
  "take_pad_target cr = (pad_target cr, cr \<lparr> pad_target := None \<rparr>)"

definition padding_added :: "nat \<Rightarrow> ('c, 'f) iat_carrier \<Rightarrow> ('c, 'f) iat_carrier" where
  "padding_added buffer_len cr =
     (if scheduled_target cr \<noteq> Some buffer_len then cr \<lparr> scheduled_target := None \<rparr> else cr)"

definition iat_poll_read ::
  "'c carrier \<Rightarrow> nat \<Rightarrow> ('c, 'f) iat_carrier \<Rightarrow> (io_error + bytes) poll \<times> ('c, 'f) iat_carrier" where
  "iat_poll_read C cap cr = (let (r, c) = c_poll_read C cap (ic_inner cr) in (r, cr \<lparr> ic_inner := c \<rparr>))"

text \<open>Choosing how much the next burst writes; in paranoid mode a short buffer asks for padding.\<close>

definition iat_schedule ::
  "'f f64_ops \<Rightarrow> (nat \<Rightarrow> bytes option) \<Rightarrow> nat \<Rightarrow> ('c, 'f) iat_carrier \<Rightarrow> unit poll \<times> ('c, 'f) iat_carrier" where
  "iat_schedule F rnd len cr =
     (if ic_mode cr = Paranoid \<and> scheduled_target cr = None then
        (case sample F (rnd (draws cr)) (ic_length_dist cr) of
           None \<Rightarrow> (Panic, cr)
         | Some v \<Rightarrow>
             let target = min (nat (max v 1)) MAX_SEGMENT_LENGTH;
                 cr = cr \<lparr> draws := draws cr + 1 \<rparr>
             in if len < target
                then (Pending, cr \<lparr> scheduled_target := Some target, pad_target := Some target \<rparr>)
                else (Ready (), cr \<lparr> scheduled_target := Some target \<rparr>))
      else if ic_mode cr \<noteq> Off \<and> scheduled_target cr = None then
        (Ready (), cr \<lparr> scheduled_target := Some (min len MAX_SEGMENT_LENGTH) \<rparr>)
      else (Ready (), cr))"

definition iat_wait :: "nat \<Rightarrow> ('c, 'f) iat_carrier \<Rightarrow> unit poll \<times> ('c, 'f) iat_carrier" where
  "iat_wait now cr =
     (if ic_mode cr \<noteq> Off \<and> delay_pending cr then
        (if now < ic_sleep cr then (Pending, cr) else (Ready (), cr \<lparr> delay_pending := False \<rparr>))
      else (Ready (), cr))"

text \<open>\<^verbatim>\<open>usize\<close> subtraction of a release build.\<close>

definition usize_sub :: "nat \<Rightarrow> nat \<Rightarrow> nat" where
  "usize_sub a b = (a + 2 ^ 64 - b) mod 2 ^ 64"

definition iat_account ::
  "'f f64_ops \<Rightarrow> (nat \<Rightarrow> bytes option) \<Rightarrow> nat \<Rightarrow> nat \<Rightarrow> nat \<Rightarrow> ('c, 'f) iat_carrier \<Rightarrow> unit poll \<times> ('c, 'f) iat_carrier" where
  "iat_account F rnd clock_max now written cr =
     (if 0 < written \<and> ic_mode cr \<noteq> Off then
        (case scheduled_target cr of
           None \<Rightarrow> (Panic, cr)
         | Some t \<Rightarrow>
             let t = usize_sub t written in
             if t = 0 then
               let cr = cr \<lparr> scheduled_target := None \<rparr> in
               if shutdown_requested cr then (Ready (), cr)
               else (case sample F (rnd (draws cr)) (ic_iat_dist cr) of
                       None \<Rightarrow> (Panic, cr)
                     | Some v \<Rightarrow>
                         let cr = cr \<lparr> draws := draws cr + 1 \<rparr>; delay = nat (max v 0) * 100 * 1000
                         in case instant_checked_add clock_max now delay of
                              None \<Rightarrow> (Panic, cr)
                            | Some t \<Rightarrow> (Ready (), cr \<lparr> ic_sleep := t, delay_pending := True \<rparr>))
             else (Ready (), cr \<lparr> scheduled_target := Some t \<rparr>))
      else (Ready (), cr))"

definition iat_poll_write ::
  "'f f64_ops \<Rightarrow> 'c carrier \<Rightarrow> (nat \<Rightarrow> bytes option) \<Rightarrow> nat \<Rightarrow> nat \<Rightarrow> bytes \<Rightarrow> ('c, 'f) iat_carrier
   \<Rightarrow> (io_error + nat) poll \<times> ('c, 'f) iat_carrier" where
  "iat_poll_write F C rnd clock_max now buf cr =
     (if buf = [] then (Ready (Inr 0), cr)
      else poll_bind (iat_schedule F rnd (length buf) cr) (\<lambda>_ cr.
        poll_bind (iat_wait now cr) (\<lambda>_ cr.
          let write_len = (case scheduled_target cr of None \<Rightarrow> length buf | Some t \<Rightarrow> min t (length buf));
              (r, c) = c_poll_write C (take write_len buf) (ic_inner cr);
              cr = cr \<lparr> ic_inner := c \<rparr>
          in case r of
               Ready (Inr written) \<Rightarrow>
                 poll_bind (iat_account F rnd clock_max now written cr) (\<lambda>_ cr. (Ready (Inr written), cr))
             | _ \<Rightarrow> (r, cr))))"

definition iat_poll_flush ::
  "'c carrier \<Rightarrow> nat \<Rightarrow> ('c, 'f) iat_carrier \<Rightarrow> (io_error + unit) poll \<times> ('c, 'f) iat_carrier" where
  "iat_poll_flush C now cr =
     poll_bind (iat_wait now cr) (\<lambda>_ cr.
       let (r, c) = c_poll_flush C (ic_inner cr) in (r, cr \<lparr> ic_inner := c \<rparr>))"

definition iat_poll_shutdown ::
  "'c carrier \<Rightarrow> ('c, 'f) iat_carrier \<Rightarrow> (io_error + unit) poll \<times> ('c, 'f) iat_carrier" where
  "iat_poll_shutdown C cr = (let (r, c) = c_poll_shutdown C (ic_inner cr) in (r, cr \<lparr> ic_inner := c \<rparr>))"

section \<open>Facts\<close>

lemma iat_string_roundtrip: "iat_from_str (iat_to_string m) = Inr m"
  by (cases m) (simp_all add: iat_from_str_def)

lemma iat_from_str_iff: "iat_from_str s = Inr m \<longleftrightarrow> s = iat_to_string m"
  by (cases m) (auto simp: iat_from_str_def)

lemma sio_roundtrip:
  "io_kind os (sio_into_error (sio_from_error os e)) = io_kind os e"
  "io_raw_os_error (sio_into_error (sio_from_error os e)) = io_raw_os_error e"
  "io_display os (sio_into_error (sio_from_error os e)) = io_display os e"
  by (cases e; simp add: sio_into_error_def sio_from_error_def)+

text \<open>
  The carrier's invariant: both distributions can be sampled, and a target that is
  scheduled is a segment's at most and not yet used up, as is one asked of the padding.
\<close>

definition dist_ready :: "int \<Rightarrow> 'f weighted_dist \<Rightarrow> bool" where
  "dist_ready mx d \<longleftrightarrow> dist_ok d \<and> min_value d = 0 \<and> max_value d = mx"

definition MAX_IAT_DELAY :: nat where [const_simps]: "MAX_IAT_DELAY = 100"

definition iat_inv :: "('c, 'f) iat_carrier \<Rightarrow> bool" where
  "iat_inv cr \<longleftrightarrow> dist_ready (int MAX_IAT_DELAY) (ic_iat_dist cr) \<and> dist_ready (int MAX_SEGMENT_LENGTH) (ic_length_dist cr)
     \<and> (case scheduled_target cr of None \<Rightarrow> True | Some t \<Rightarrow> 0 < t \<and> t \<le> MAX_SEGMENT_LENGTH)
     \<and> (case pad_target cr of None \<Rightarrow> True | Some t \<Rightarrow> t \<le> MAX_SEGMENT_LENGTH)"

lemma sample_ready:
  assumes "dist_ready mx d" "mx < 2 ^ 31"
  shows "sample F draw d = None \<longleftrightarrow> draw = None" "sample F draw d = Some v \<Longrightarrow> 0 \<le> v \<and> v \<le> mx"
proof -
  have s: "\<exists>v. sample F (Some buf) d = Some v \<and> 0 \<le> v \<and> v \<le> mx" for buf
    using assms sample_ok [of d F buf] by (auto simp: dist_ready_def)
  show "sample F draw d = None \<longleftrightarrow> draw = None" by (cases draw) (use s in \<open>simp_all add: option.discI\<close>, metis option.discI)
  show "0 \<le> v \<and> v \<le> mx" if "sample F draw d = Some v" by (cases draw) (use that in simp, metis s that option.inject)
qed

lemma usize_sub_le: "b \<le> a \<Longrightarrow> a < 2 ^ 64 \<Longrightarrow> usize_sub a b = a - b"
proof -
  assume "b \<le> a" "a < 2 ^ 64"
  then have "a + 2 ^ 64 - b = (a - b) + 2 ^ 64" by simp
  with \<open>a < 2 ^ 64\<close> show ?thesis unfolding usize_sub_def by (simp add: mod_add_self2 del: add_diff_assoc2)
qed

lemma iat_schedule_ok:
  assumes "iat_inv cr" "0 < n" "iat_schedule F rnd n cr = (r, cr')"
  shows "r = Panic \<Longrightarrow> ic_mode cr \<noteq> Off \<and> rnd (draws cr) = None"
    "iat_inv cr'" "ic_inner cr' = ic_inner cr" "ic_mode cr' = ic_mode cr" "ic_sleep cr' = ic_sleep cr"
    "delay_pending cr' = delay_pending cr" "shutdown_requested cr' = shutdown_requested cr"
    "r = Ready () \<Longrightarrow> ic_mode cr \<noteq> Off \<Longrightarrow> scheduled_target cr' \<noteq> None" "draws cr' \<in> {draws cr, draws cr + 1}"
proof -
  have d: "dist_ready 1448 (ic_length_dist cr)" using assms(1) by (simp add: iat_inv_def const_simps)
  note v = sample_ready [OF d, of F "rnd (draws cr)", simplified]
  show "r = Panic \<Longrightarrow> ic_mode cr \<noteq> Off \<and> rnd (draws cr) = None"
    "iat_inv cr'" "ic_inner cr' = ic_inner cr" "ic_mode cr' = ic_mode cr" "ic_sleep cr' = ic_sleep cr"
    "delay_pending cr' = delay_pending cr" "shutdown_requested cr' = shutdown_requested cr"
    "r = Ready () \<Longrightarrow> ic_mode cr \<noteq> Off \<Longrightarrow> scheduled_target cr' \<noteq> None" "draws cr' \<in> {draws cr, draws cr + 1}"
    using assms v by (auto simp: iat_schedule_def iat_inv_def Let_def const_simps split: if_splits option.splits)
qed

lemma iat_wait_ok:
  assumes "iat_wait now cr = (r, cr')"
  shows "r \<noteq> Panic" "iat_inv cr' = iat_inv cr" "ic_inner cr' = ic_inner cr" "ic_mode cr' = ic_mode cr"
    "shutdown_requested cr' = shutdown_requested cr" "scheduled_target cr' = scheduled_target cr"
    "r = Ready () \<Longrightarrow> ic_mode cr \<noteq> Off \<Longrightarrow> delay_pending cr \<Longrightarrow> ic_sleep cr \<le> now" "draws cr' = draws cr"
  using assms by (auto simp: iat_wait_def iat_inv_def split: if_splits)

lemma iat_account_ok:
  assumes "iat_inv cr" "ic_mode cr \<noteq> Off \<Longrightarrow> \<exists>t. scheduled_target cr = Some t \<and> n \<le> t"
    and "iat_account F rnd clock_max now n cr = (r, cr')"
  shows "r = Ready () \<or> r = Panic \<and> ic_mode cr \<noteq> Off \<and> (rnd (draws cr) = None \<or> clock_max < now + 10 ^ 7)"
    "iat_inv cr'" "ic_inner cr' = ic_inner cr"
    "r = Ready () \<Longrightarrow> ic_mode cr \<noteq> Off \<Longrightarrow> \<not> shutdown_requested cr \<Longrightarrow> scheduled_target cr' = None \<Longrightarrow> 0 < n
       \<Longrightarrow> delay_pending cr' \<and> now \<le> ic_sleep cr' \<and> ic_sleep cr' \<le> now + 10 ^ 7"
proof -
  have d: "dist_ready 100 (ic_iat_dist cr)" using assms(1) by (simp add: iat_inv_def const_simps)
  note v = sample_ready [OF d, of F "rnd (draws cr)", simplified]
  have w: "usize_sub t n = t - n" if "n \<le> t" "t \<le> 1448" for t using that by (intro usize_sub_le) simp_all
  have m: "nat (max v 0) * 100 * 1000 \<le> 10 ^ 7" if "sample F (rnd (draws cr)) (ic_iat_dist cr) = Some v" for v
    using v(2) [OF that] by auto
  have go: "(r = Ready () \<or> r = Panic \<and> (rnd (draws cr) = None \<or> clock_max < now + 10 ^ 7)) \<and> iat_inv cr' \<and> ic_inner cr' = ic_inner cr
      \<and> (r = Ready () \<longrightarrow> \<not> shutdown_requested cr \<longrightarrow> scheduled_target cr' = None
           \<longrightarrow> delay_pending cr' \<and> now \<le> ic_sleep cr' \<and> ic_sleep cr' \<le> now + 10 ^ 7)" if act: "0 < n" "ic_mode cr \<noteq> Off"
  proof -
    from assms(2) [OF act(2)] obtain t where t: "scheduled_target cr = Some t" "n \<le> t" by blast
    have "t \<le> 1448" using assms(1) t(1) by (simp add: iat_inv_def const_simps)
    note u = w [OF t(2) this]
    define c0 where "c0 = cr \<lparr> scheduled_target := None \<rparr>"
    have i0: "iat_inv c0" using assms(1) by (simp add: iat_inv_def c0_def)
    consider (part) "n < t" | (closing) "n = t" "shutdown_requested cr" | (arm) "n = t" "\<not> shutdown_requested cr" using t(2) by linarith
    then show ?thesis
    proof cases
      case part
      then show ?thesis using assms act t u \<open>t \<le> 1448\<close> by (auto simp: iat_account_def Let_def iat_inv_def const_simps)
    next
      case closing
      then show ?thesis using assms(3) act t u i0 by (auto simp: iat_account_def Let_def c0_def)
    next
      case arm
      show ?thesis
      proof (cases "sample F (rnd (draws cr)) (ic_iat_dist cr)")
        case None
        then show ?thesis using assms(3) act t u arm i0 v(1) by (auto simp: iat_account_def Let_def c0_def)
      next
        case (Some v)
        then show ?thesis using assms(3) act t u arm i0 m [OF Some]
          by (auto simp: iat_account_def Let_def c0_def instant_checked_add_def iat_inv_def split: if_splits)
      qed
    qed
  qed
  have off: "r = Ready () \<and> cr' = cr" if "\<not> (0 < n \<and> ic_mode cr \<noteq> Off)"
    using assms(3) that by (auto simp: iat_account_def)
  show "r = Ready () \<or> r = Panic \<and> ic_mode cr \<noteq> Off \<and> (rnd (draws cr) = None \<or> clock_max < now + 10 ^ 7)"
    "iat_inv cr'" "ic_inner cr' = ic_inner cr" using go off assms(1) by blast+
  show "delay_pending cr' \<and> now \<le> ic_sleep cr' \<and> ic_sleep cr' \<le> now + 10 ^ 7"
    if "r = Ready ()" "ic_mode cr \<noteq> Off" "\<not> shutdown_requested cr" "scheduled_target cr' = None" "0 < n"
    using go that by blast
qed

lemma carrier_write:
  assumes "carrier_ok C out" "c_poll_write C b c = (r, c')"
  shows "r \<noteq> Panic" "r = Ready (Inr n) \<Longrightarrow> n \<le> length b \<and> out c' = out c @ take n b"
    "\<nexists>n. r = Ready (Inr n) \<Longrightarrow> out c' = out c"
proof -
  from assms have "r \<noteq> Panic \<and> (case r of Ready (Inr n) \<Rightarrow> n \<le> length b \<and> out c' = out c @ take n b | _ \<Rightarrow> out c' = out c)"
    unfolding carrier_ok_def by blast
  then show "r \<noteq> Panic" "r = Ready (Inr n) \<Longrightarrow> n \<le> length b \<and> out c' = out c @ take n b"
    "\<nexists>n. r = Ready (Inr n) \<Longrightarrow> out c' = out c" by (auto split: poll.splits sum.splits)
qed

text \<open>What can make a shaped write panic: one of its two draws fails, or the clock is at its end.\<close>

definition iat_unlucky :: "(nat \<Rightarrow> bytes option) \<Rightarrow> nat \<Rightarrow> nat \<Rightarrow> ('c, 'f) iat_carrier \<Rightarrow> bool" where
  "iat_unlucky rnd clock_max now cr \<longleftrightarrow> ic_mode cr \<noteq> Off
     \<and> (rnd (draws cr) = None \<or> rnd (draws cr + 1) = None \<or> clock_max < now + 10 ^ 7)"

lemma iat_poll_write_ok:
  assumes C: "carrier_ok C out" and inv: "iat_inv cr" and run: "iat_poll_write F C rnd clock_max now buf cr = (r, cr')"
  shows "(r = Panic \<longrightarrow> iat_unlucky rnd clock_max now cr) \<and> iat_inv cr'
    \<and> (case r of Ready (Inr n) \<Rightarrow> n \<le> length buf \<and> out (ic_inner cr') = out (ic_inner cr) @ take n buf
                    \<and> (ic_mode cr = Off \<or> n \<le> MAX_SEGMENT_LENGTH)
                    \<and> (buf = [] \<or> ic_mode cr = Off \<or> \<not> delay_pending cr \<or> ic_sleep cr \<le> now)
                    \<and> (0 < n \<and> ic_mode cr \<noteq> Off \<and> \<not> shutdown_requested cr \<and> scheduled_target cr' = None
                       \<longrightarrow> delay_pending cr' \<and> now \<le> ic_sleep cr' \<and> ic_sleep cr' \<le> now + 10 ^ 7)
       | Panic \<Rightarrow> \<exists>n \<le> length buf. out (ic_inner cr') = out (ic_inner cr) @ take n buf
       | _ \<Rightarrow> out (ic_inner cr') = out (ic_inner cr))"
proof (cases "buf = []")
  case True
  with run inv show ?thesis by (auto simp: iat_poll_write_def)
next
  case False
  then have len: "0 < length buf" by simp
  obtain r1 c1 where s: "iat_schedule F rnd (length buf) cr = (r1, c1)" by force
  note so = iat_schedule_ok [OF inv len s]
  obtain r2 c2 where w: "iat_wait now c1 = (r2, c2)" by force
  note wo = iat_wait_ok [OF w]
  define wl where "wl = (case scheduled_target c2 of None \<Rightarrow> length buf | Some t \<Rightarrow> min t (length buf))"
  obtain r3 c3 where c: "c_poll_write C (take wl buf) (ic_inner c2) = (r3, c3)" by force
  note co = carrier_write [OF C c]
  have i3: "iat_inv (c2 \<lparr> ic_inner := c3 \<rparr>)" using so(2) wo(2) by (simp add: iat_inv_def)
  consider (undrawn) "r1 = Panic" | (early) "r1 = Pending" | (late) "r1 = Ready ()" "r2 = Pending" | (go) "r1 = Ready ()" "r2 = Ready ()"
    using wo(1) by (cases r1; cases r2) auto
  then show ?thesis
  proof cases
    case undrawn
    then have "r = Panic" "cr' = c1" using run s False by (simp_all add: iat_poll_write_def)
    with so(1) [OF undrawn] so(2,3) show ?thesis by (auto simp: iat_unlucky_def intro!: exI [of _ 0])
  next
    case go
    have sched: "\<exists>t. scheduled_target c2 = Some t \<and> n \<le> t \<and> t \<le> 1448" if "ic_mode cr \<noteq> Off" "n \<le> wl" for n
      using so(2,8) go that wo(6) inv by (auto simp: wl_def iat_inv_def const_simps split: option.splits)
    show ?thesis
    proof (cases "\<exists>n. r3 = Ready (Inr n)")
      case True
      then obtain n where n: "r3 = Ready (Inr n)" by blast
      obtain r4 c4 where a: "iat_account F rnd clock_max now n (c2 \<lparr> ic_inner := c3 \<rparr>) = (r4, c4)" by force
      have nle: "n \<le> wl" "n \<le> length buf" using co(2) [OF n] by auto
      note ao = iat_account_ok [OF i3 _ a]
      have i4: "iat_inv c4" "ic_inner c4 = c3" using ao(2,3) sched [OF _ nle(1)] so(4) wo(4) by auto
      have out: "out c3 = out (ic_inner cr) @ take n buf"
        using co(2) [OF n] nle so(3) wo(3) by (simp add: min_def)
      have res: "(r, cr') = (case r4 of Panic \<Rightarrow> Panic | _ \<Rightarrow> Ready (Inr n), c4)" if "r4 = Ready () \<or> r4 = Panic"
        using run s w go c n a that False by (auto simp: iat_poll_write_def wl_def Let_def)
      have r4: "r4 = Ready () \<or> r4 = Panic \<and> iat_unlucky rnd clock_max now cr"
        using ao(1) sched [OF _ nle(1)] so(4,9) wo(4,8) by (fastforce simp: iat_unlucky_def)
      have "ic_mode cr = Off \<or> n \<le> 1448" using sched [OF _ nle(1)] le_trans by blast
      moreover have "ic_mode cr = Off \<or> \<not> delay_pending cr \<or> ic_sleep cr \<le> now" using wo(7) so(4-6) go by auto
      moreover have "delay_pending c4 \<and> now \<le> ic_sleep c4 \<and> ic_sleep c4 \<le> now + 10 ^ 7"
        if "r4 = Ready ()" "ic_mode cr \<noteq> Off" "\<not> shutdown_requested cr" "scheduled_target c4 = None" "0 < n"
        using ao(4) that sched [OF _ nle(1)] so(4,7) wo(4,5) by fastforce
      ultimately show ?thesis using nle r4 res i4 out by (auto simp: const_simps)
    next
      case no: False
      then have "r = r3 \<and> cr' = c2 \<lparr> ic_inner := c3 \<rparr>"
        using run s w go c False by (auto simp: iat_poll_write_def wl_def Let_def split: poll.splits sum.splits)
      with no co(1) co(3) [OF no] i3 so(3) wo(3) show ?thesis by (auto split: poll.splits sum.splits)
    qed
  qed (use run s w so wo False in \<open>auto simp: iat_poll_write_def\<close>)
qed

definition sink_carrier :: "bytes carrier" where
  "sink_carrier = \<lparr> c_poll_read = (\<lambda>_ c. (Ready (Inr []), c)), c_poll_write = (\<lambda>b c. (Ready (Inr (length b)), c @ b)),
     c_poll_flush = (\<lambda>c. (Ready (Inr ()), c)), c_poll_shutdown = (\<lambda>c. (Ready (Inr ()), c)) \<rparr>"

lemma sink_carrier_ok: "carrier_ok sink_carrier (\<lambda>c. c)"
  by (simp add: carrier_ok_def sink_carrier_def)

definition flat_dist :: "int \<Rightarrow> rat weighted_dist" where
  "flat_dist mx = \<lparr> min_value = 0, max_value = mx, biased = False, dvalues = [50], weights = [1], dalias = [0], dprob = [1] \<rparr>"

definition wit_carrier :: "iat \<Rightarrow> (bytes, rat) iat_carrier" where
  "wit_carrier mode = iat_carrier_new 1000 [] mode (flat_dist 100) (flat_dist 1448)"

lemma wit_carrier_inv: "iat_inv (wit_carrier mode)"
  by (simp add: iat_inv_def wit_carrier_def iat_carrier_new_def flat_dist_def dist_ready_def dist_ok_def const_simps)

section \<open>Properties\<close>

text \<open>
  C37. Shaped writes: a write through the shaping carrier keeps the carrier's invariant and
  hands the transport exactly the prefix it reports, or nothing when it reports none. With
  shaping on, no write is longer than a segment, none happens before the running delay is
  over, and a write that completes its target arms the next delay, which is at most ten
  milliseconds. It panics only with shaping on, and only when one of the at most two draws
  it makes of the system generator fails or the monotonic clock is within ten milliseconds
  of its end; then, too, what the transport has taken is a prefix of the buffer.
\<close>

theorem iat_write_shaped:
  assumes "carrier_ok C out" "iat_inv cr" "iat_poll_write F C rnd clock_max now buf cr = (r, cr')"
  shows "(r = Panic \<longrightarrow> ic_mode cr \<noteq> Off
           \<and> (rnd (draws cr) = None \<or> rnd (draws cr + 1) = None \<or> clock_max < now + 10 ^ 7))
    \<and> iat_inv cr'
    \<and> (case r of Ready (Inr n) \<Rightarrow> n \<le> length buf \<and> out (ic_inner cr') = out (ic_inner cr) @ take n buf
                    \<and> (ic_mode cr = Off \<or> n \<le> MAX_SEGMENT_LENGTH)
                    \<and> (buf = [] \<or> ic_mode cr = Off \<or> \<not> delay_pending cr \<or> ic_sleep cr \<le> now)
                    \<and> (0 < n \<and> ic_mode cr \<noteq> Off \<and> \<not> shutdown_requested cr \<and> scheduled_target cr' = None
                       \<longrightarrow> delay_pending cr' \<and> now \<le> ic_sleep cr' \<and> ic_sleep cr' \<le> now + 10 ^ 7)
       | Panic \<Rightarrow> \<exists>n \<le> length buf. out (ic_inner cr') = out (ic_inner cr) @ take n buf
       | _ \<Rightarrow> out (ic_inner cr') = out (ic_inner cr))"
  by (rule iat_poll_write_ok [OF assms, unfolded iat_unlucky_def])

theorem iat_write_shaped_witness:
  "\<exists>r cr'. iat_poll_write rat_ops sink_carrier (\<lambda>_. Some (replicate 16 0)) (10 ^ 18) 2000 (replicate 70 7) (wit_carrier Paranoid) = (r, cr')
     \<and> r \<noteq> Panic \<and> iat_inv cr'"
proof -
  obtain r cr' where run: "iat_poll_write rat_ops sink_carrier (\<lambda>_. Some (replicate 16 0)) (10 ^ 18) 2000 (replicate 70 7) (wit_carrier Paranoid) = (r, cr')"
    by fastforce
  from iat_write_shaped [OF sink_carrier_ok wit_carrier_inv run] run show ?thesis by auto
qed

end
