(* ===== verification/Sessions.thy ===== *)
theory Sessions
  imports Handshake Shaping
begin

text \<open>
  The session records of \<^verbatim>\<open>crates/obfs4/src/sessions.rs\<close>. The type state of a Rust session
  (\<^verbatim>\<open>ClientSession<Initialized>\<close> and so on) is the type parameter of the record, so a
  transition that the Rust types forbid has no type here either. The colouring of session
  ids and the hexadecimal encoder are arguments.
\<close>

datatype initialized = Initialized
datatype established = Established
datatype client_handshaking = ClientHandshaking
datatype server_handshaking = ServerHandshaking
datatype handshake_failed = HandshakeFailed (details: string)

definition colorize :: "(bytes \<Rightarrow> string) \<Rightarrow> (u8 \<Rightarrow> u8 \<Rightarrow> u8 \<Rightarrow> string \<Rightarrow> string) \<Rightarrow> bytes \<Rightarrow> string" where
  "colorize hex truecolor b =
     (if length b < 3 then hex b else truecolor (b ! 0) (b ! 1) (b ! 2) (hex b))"

section \<open>Client sessions\<close>

record 'st client_session =
  cs_node_pubkey :: ntor_public_key
  cs_session_id :: bytes
  cs_iat_mode :: iat
  cs_epoch_hour :: string
  cs_biased :: bool
  cs_len_seed :: seed
  cs_state :: 'st

definition client_session_id :: "(bytes \<Rightarrow> string) \<Rightarrow> 'st client_session \<Rightarrow> string" where
  "client_session_id col s = ''c-'' @ col (cs_session_id s)"

definition client_set_session_id :: "bytes \<Rightarrow> 'st client_session \<Rightarrow> 'st client_session" where
  "client_set_session_id sid s = s \<lparr> cs_session_id := sid \<rparr>"

definition client_transition :: "'t \<Rightarrow> 'st client_session \<Rightarrow> 't client_session" where
  "client_transition t s = \<lparr> cs_node_pubkey = cs_node_pubkey s, cs_session_id = cs_session_id s, cs_iat_mode = cs_iat_mode s,
     cs_epoch_hour = cs_epoch_hour s, cs_biased = cs_biased s, cs_len_seed = cs_len_seed s, cs_state = t \<rparr>"

definition client_fault :: "handshake_failed \<Rightarrow> 'st client_session \<Rightarrow> handshake_failed client_session" where
  "client_fault f s = \<lparr> cs_node_pubkey = cs_node_pubkey s, cs_session_id = cs_session_id s, cs_iat_mode = cs_iat_mode s,
     cs_epoch_hour = cs_epoch_hour s, cs_biased = cs_biased s, cs_len_seed = cs_len_seed s, cs_state = f \<rparr>"

text \<open>
  The id comes from the generator given, whose \<^verbatim>\<open>fill_bytes\<close> has no error; the length seed
  comes from the operating system (\<open>os_random\<close>: its bytes, or why it has none), and a failure
  there is unwrapped: \<^term>\<open>None\<close> is that panic.
\<close>

definition new_client_session_with_rng ::
  "ntor_public_key \<Rightarrow> iat \<Rightarrow> (nat \<Rightarrow> bytes) \<Rightarrow> string + bytes \<Rightarrow> initialized client_session option" where
  "new_client_session_with_rng station_pubkey mode fill os_random =
     (let session_id = fill SESSION_ID_LEN in
      case seed_new os_random of
        Inl _ \<Rightarrow> None
      | Inr len_seed \<Rightarrow>
          Some \<lparr> cs_node_pubkey = station_pubkey, cs_session_id = session_id, cs_iat_mode = mode, cs_epoch_hour = '''',
                 cs_biased = False, cs_len_seed = len_seed, cs_state = Initialized \<rparr>)"

definition set_len_seed :: "seed \<Rightarrow> established client_session \<Rightarrow> established client_session" where
  "set_len_seed s c = c \<lparr> cs_len_seed := s \<rparr>"

definition client_session_debug :: "(bytes \<Rightarrow> string) \<Rightarrow> (iat \<Rightarrow> string) \<Rightarrow> 'st client_session \<Rightarrow> string" where
  "client_session_debug hex show_iat s =
     ''[ id:'' @ hex (nk_id (cs_node_pubkey s)) @ '', ident_pk:'' @ hex (nk_pk (cs_node_pubkey s))
     @ '', iat:'' @ show_iat (cs_iat_mode s) @ '', epoch_hr:'' @ cs_epoch_hour s @ '' ]''"

section \<open>Server sessions\<close>

record 'st server_session =
  ss_identity_keys :: ntor_secret_key
  ss_biased :: bool
  ss_iat_mode :: iat
  ss_session_id :: bytes
  ss_len_seed :: seed
  ss_iat_seed :: seed
  ss_state :: 'st

definition server_session_id :: "(bytes \<Rightarrow> string) \<Rightarrow> 'st server_session \<Rightarrow> string" where
  "server_session_id col s = ''s-'' @ col (ss_session_id s)"

definition server_set_session_id :: "bytes \<Rightarrow> 'st server_session \<Rightarrow> 'st server_session" where
  "server_set_session_id sid s = s \<lparr> ss_session_id := sid \<rparr>"

definition server_transition :: "'t \<Rightarrow> 'st server_session \<Rightarrow> 't server_session" where
  "server_transition t s = \<lparr> ss_identity_keys = ss_identity_keys s, ss_biased = ss_biased s, ss_iat_mode = ss_iat_mode s,
     ss_session_id = ss_session_id s, ss_len_seed = ss_len_seed s, ss_iat_seed = ss_iat_seed s, ss_state = t \<rparr>"

definition server_fault :: "handshake_failed \<Rightarrow> 'st server_session \<Rightarrow> handshake_failed server_session" where
  "server_fault f s = \<lparr> ss_identity_keys = ss_identity_keys s, ss_biased = ss_biased s, ss_iat_mode = ss_iat_mode s,
     ss_session_id = ss_session_id s, ss_len_seed = ss_len_seed s, ss_iat_seed = ss_iat_seed s, ss_state = f \<rparr>"

section \<open>Established sessions\<close>

datatype session = ClientSession "established client_session" | ServerSession "established server_session"

fun session_id :: "(bytes \<Rightarrow> string) \<Rightarrow> session \<Rightarrow> string" where
  "session_id col (ClientSession cs) = ''c'' @ client_session_id col cs"
| "session_id col (ServerSession ss) = ''s'' @ server_session_id col ss"

fun session_biased :: "session \<Rightarrow> bool" where
  "session_biased (ClientSession cs) = cs_biased cs"
| "session_biased (ServerSession ss) = ss_biased ss"

fun session_len_seed :: "session \<Rightarrow> seed" where
  "session_len_seed (ClientSession cs) = cs_len_seed cs"
| "session_len_seed (ServerSession ss) = ss_len_seed ss"

fun session_iat_mode :: "session \<Rightarrow> iat" where
  "session_iat_mode (ClientSession cs) = cs_iat_mode cs"
| "session_iat_mode (ServerSession ss) = ss_iat_mode ss"

end
