(* ===== verification/Proto.thy ===== *)
theory Proto
  imports Sessions Codec
begin

text \<open>
  The second half of \<^verbatim>\<open>crates/obfs4/src/proto.rs\<close>: \<^verbatim>\<open>O4Stream\<close>, the established obfs4 stream
  over a framed, shaping carrier.

  \<^verbatim>\<open>tokio_util\<close>'s \<^verbatim>\<open>Framed\<close> is not part of the repository. What the code reaches of it
  through its accessors (the carrier, the codec, the read and the write buffer) is the
  record \<open>framed\<close>, with a private component of any type; its sink and stream operations are
  the record \<open>framed_ops\<close>, of which \<open>framed_ok\<close> states what is documented: the sink
  operations hand the write buffer to the carrier from the front, \<^verbatim>\<open>start_send\<close> encodes onto
  its end, and the stream appends what it reads to the read buffer and decodes from it.

  The two distributions of a stream and its carrier share one cell in Rust
  (\<^verbatim>\<open>WeightedDist\<close> is an \<^verbatim>\<open>Arc\<close>), so the length distribution is kept once, in the carrier.
  The scratch buffer for padding is empty whenever it is used and is a local value here.
\<close>

section \<open>The environment of a stream\<close>

text \<open>
  \<open>env_rnd\<close> gives the draws of the operating system's generator, \<^term>\<open>None\<close> for one that
  fails; \<open>env_clock_max\<close> is the last instant of the monotonic clock.
\<close>

record ('s, 'f) obfs4_env =
  env_aead :: aead
  env_sip :: "'s siphasher"
  env_f64 :: "'f f64_ops"
  env_rand :: "('s drbg, 'f) rand_ops"
  env_sha256 :: "bytes \<Rightarrow> bytes"
  env_os :: os_errors
  env_rnd :: "nat \<Rightarrow> bytes option"
  env_clock_max :: nat

definition env_ok :: "('s, 'f) obfs4_env \<Rightarrow> bool" where
  "env_ok E \<longleftrightarrow> aead_ok (env_aead E) \<and> rand_ok (env_rand E) \<and> (\<forall>m. length (env_sha256 E m) = 32)"

record ('c, 'f, 's, 'p) framed =
  fr_io :: "('c, 'f) iat_carrier"
  fr_codec :: "'s codec"
  fr_rbuf :: bytes
  fr_wbuf :: bytes
  fr_priv :: 'p

record ('c, 'f, 's, 'p) framed_ops =
  sink_poll_ready :: "nat \<Rightarrow> ('c, 'f, 's, 'p) framed \<Rightarrow> (frame_error + unit) poll \<times> ('c, 'f, 's, 'p) framed"
  sink_poll_flush :: "nat \<Rightarrow> ('c, 'f, 's, 'p) framed \<Rightarrow> (frame_error + unit) poll \<times> ('c, 'f, 's, 'p) framed"
  sink_poll_close :: "nat \<Rightarrow> ('c, 'f, 's, 'p) framed \<Rightarrow> (frame_error + unit) poll \<times> ('c, 'f, 's, 'p) framed"
  sink_start_send :: "bytes \<Rightarrow> ('c, 'f, 's, 'p) framed \<Rightarrow> (frame_error + unit) \<times> ('c, 'f, 's, 'p) framed"
  stream_poll_next :: "nat \<Rightarrow> ('c, 'f, 's, 'p) framed
    \<Rightarrow> (frame_error + messages) option poll \<times> ('c, 'f, 's, 'p) framed"

section \<open>The stream\<close>

record ('c, 'f, 's, 'p) o4_stream =
  o4_framed :: "('c, 'f, 's, 'p) framed"
  o4_iat_mode :: iat
  o4_session :: session
  read_residual :: bytes
  terminal_error :: "stored_io_error option"
  shutdown_complete :: bool

definition HEADER_LENGTH :: nat where [const_simps]: "HEADER_LENGTH = FRAME_OVERHEAD + MESSAGE_OVERHEAD"

text \<open>\<^verbatim>\<open>stash_payload\<close> and \<^verbatim>\<open>drain_residual\<close>: what goes to the caller's buffer, and what stays.\<close>

definition stash_payload :: "bytes \<Rightarrow> nat \<Rightarrow> bytes \<Rightarrow> bytes \<times> bytes" where
  "stash_payload residual cap message =
     (let n = min cap (length message)
      in (take n message, if n < length message then residual @ drop n message else residual))"

definition drain_residual :: "bytes \<Rightarrow> nat \<Rightarrow> bytes \<times> bytes" where
  "drain_residual residual cap =
     (let n = min cap (length residual)
      in if n > 0 then (take n residual, drop n residual) else ([], residual))"

definition try_handle_non_payload_message ::
  "('s, 'f) obfs4_env \<Rightarrow> messages \<Rightarrow> ('c, 'f, 's, 'p) o4_stream
   \<Rightarrow> (obfs4_error + unit) poll \<times> ('c, 'f, 's, 'p) o4_stream" where
  "try_handle_non_payload_message E msg s =
     (case msg of
        Payload _ \<Rightarrow> (Ready (Inl (Obfs4Framing InvalidMessage)), s)
      | Padding _ \<Rightarrow> (Ready (Inr ()), s)
      | PrngSeed bytes \<Rightarrow>
          (case o4_session s of
             ServerSession _ \<Rightarrow> (Ready (Inr ()), s)
           | ClientSession client \<Rightarrow>
               let s = s \<lparr> o4_session := ClientSession (set_len_seed bytes client) \<rparr>;
                   io = fr_io (o4_framed s)
               in case reseed (env_f64 E) (env_rand E) (env_sip E) bytes (ic_length_dist io) of
                    None \<Rightarrow> (Panic, s)
                  | Some ld \<Rightarrow>
                      let io = io \<lparr> ic_length_dist := ld \<rparr>;
                          s = s \<lparr> o4_framed := o4_framed s \<lparr> fr_io := io \<rparr> \<rparr>
                      in case seed_try_from (take SEED_LENGTH (env_sha256 E bytes)) of
                           Inl e \<Rightarrow> (Ready (Inl e), s)
                         | Inr iat_seed \<Rightarrow>
                             (case reseed (env_f64 E) (env_rand E) (env_sip E) iat_seed (ic_iat_dist io) of
                                None \<Rightarrow> (Panic, s)
                              | Some d \<Rightarrow> (Ready (Inr ()),
                                  s \<lparr> o4_framed := o4_framed s \<lparr> fr_io := io \<lparr> ic_iat_dist := d \<rparr> \<rparr> \<rparr>))))"

section \<open>Construction\<close>

text \<open>The loop that decodes what the handshake read too far.\<close>

lemma decode_consumes:
  "decode A sip c src = (Inr (Some m), c', src') \<Longrightarrow> length src' < length src"
  by (auto simp: decode_def dest: decode_loop_consumes split: prod.splits)

function drain_handshake ::
  "('s, 'f) obfs4_env \<Rightarrow> ('c, 'f, 's, 'p) o4_stream \<Rightarrow> bytes \<Rightarrow> (obfs4_error + ('c, 'f, 's, 'p) o4_stream) option" where
  "drain_handshake E s buffered =
     (case decode (env_aead E) (env_sip E) (fr_codec (o4_framed s)) buffered of
        (Inl e, _) \<Rightarrow> Some (Inl (Obfs4Framing e))
      | (Inr None, c, buffered') \<Rightarrow>
          Some (Inr (s \<lparr> o4_framed := o4_framed s \<lparr> fr_codec := c, fr_rbuf := buffered' \<rparr> \<rparr>))
      | (Inr (Some m), c, buffered') \<Rightarrow>
          let s = s \<lparr> o4_framed := o4_framed s \<lparr> fr_codec := c \<rparr> \<rparr> in
          (case m of
             Payload bytes \<Rightarrow> drain_handshake E (s \<lparr> read_residual := read_residual s @ bytes \<rparr>) buffered'
           | _ \<Rightarrow> (case try_handle_non_payload_message E m s of
                     (Ready (Inr _), s) \<Rightarrow> drain_handshake E s buffered'
                   | (Ready (Inl e), _) \<Rightarrow> Some (Inl e)
                   | _ \<Rightarrow> None)))"
  by pat_completeness auto
termination
  by (relation "measure (\<lambda>(_, _, buffered). length buffered)") (auto dest!: decode_consumes [OF sym])

declare drain_handshake.simps [simp del]

definition o4_new ::
  "('s, 'f) obfs4_env \<Rightarrow> nat \<Rightarrow> 'p \<Rightarrow> 'c \<Rightarrow> 's codec \<Rightarrow> session \<Rightarrow> bytes
   \<Rightarrow> (obfs4_error + ('c, 'f, 's, 'p) o4_stream) option" where
  "o4_new E now priv inner codec session handshake_residual =
     (let len_seed = session_len_seed session;
          iat_mode = session_iat_mode session
      in case seed_try_from (take SEED_LENGTH (env_sha256 E len_seed)) of
           Inl _ \<Rightarrow> None
         | Inr iat_seed \<Rightarrow>
             (case dist_new (env_f64 E) (env_rand E) (env_sip E) len_seed 0 (int MAX_SEGMENT_LENGTH) (session_biased session) of
                None \<Rightarrow> None
              | Some length_dist \<Rightarrow>
                  (case dist_new (env_f64 E) (env_rand E) (env_sip E) iat_seed 0 (int MAX_IAT_DELAY) (session_biased session) of
                     None \<Rightarrow> None
                   | Some iat_dist \<Rightarrow>
                       let fr = \<lparr> fr_io = iat_carrier_new now inner iat_mode iat_dist length_dist, fr_codec = codec,
                                  fr_rbuf = [], fr_wbuf = [], fr_priv = priv \<rparr>
                       in drain_handshake E \<lparr> o4_framed = fr, o4_iat_mode = iat_mode, o4_session = session,
                            read_residual = [], terminal_error = None, shutdown_complete = False \<rparr> handshake_residual)))"

section \<open>Padding\<close>

definition pad_lengths :: "nat \<Rightarrow> nat \<Rightarrow> nat list" where
  "pad_lengths burst_len target =
     (let tail = burst_len mod MAX_SEGMENT_LENGTH;
          pad = (if target \<ge> tail then target - tail else MAX_SEGMENT_LENGTH - tail + target)
      in if pad = 0 then []
         else if pad > HEADER_LENGTH then [pad - HEADER_LENGTH]
         else [MAX_MESSAGE_PAYLOAD_LENGTH, pad])"

text \<open>\<^verbatim>\<open>encode\<close> copies a frame out of its buffer, which yields its contents.\<close>

fun pad_frames ::
  "('s, 'f) obfs4_env \<Rightarrow> nat list \<Rightarrow> ('c, 'f, 's, 'p) framed \<Rightarrow> (obfs4_error + unit) \<times> ('c, 'f, 's, 'p) framed" where
  "pad_frames E [] fr = (Inr (), fr)"
| "pad_frames E (n # ns) fr =
     (case encode (env_aead E) (env_sip E) (fr_codec fr) (pd_contents (padding_frame_new n)) [] of
        (Inl e, c, _) \<Rightarrow> (Inl (Obfs4Framing e), fr \<lparr> fr_codec := c \<rparr>)
      | (Inr _, c, scratch) \<Rightarrow> pad_frames E ns (fr \<lparr> fr_codec := c, fr_wbuf := fr_wbuf fr @ scratch \<rparr>))"

definition pad_burst ::
  "('s, 'f) obfs4_env \<Rightarrow> nat \<Rightarrow> nat \<Rightarrow> ('c, 'f, 's, 'p) framed \<Rightarrow> (obfs4_error + unit) \<times> ('c, 'f, 's, 'p) framed" where
  "pad_burst E burst_len target fr = pad_frames E (pad_lengths burst_len target) fr"

section \<open>Polling the sink with shaping\<close>

text \<open>
  The three loops \<^verbatim>\<open>poll_ready_with_iat\<close>, \<^verbatim>\<open>poll_flush_with_iat\<close> and \<^verbatim>\<open>poll_close_with_iat\<close> have
  the same body around their sink operation. A turn that adds padding repeats; in paranoid
  mode an unlucky generator can ask for padding again and again, so the loop is partial
  and \<^term>\<open>None\<close> is not returning.
\<close>

partial_function (option) poll_with_iat ::
  "('s, 'f) obfs4_env \<Rightarrow> (('c, 'f, 's, 'p) framed \<Rightarrow> (frame_error + unit) poll \<times> ('c, 'f, 's, 'p) framed)
   \<Rightarrow> ('c, 'f, 's, 'p) framed \<Rightarrow> ((io_error + unit) poll \<times> ('c, 'f, 's, 'p) framed) option" where
  [code]: "poll_with_iat E op fr =
     (case op fr of
        (Pending, fr) \<Rightarrow>
          (case take_pad_target (fr_io fr) of
             (None, io) \<Rightarrow> Some (Pending, fr \<lparr> fr_io := io \<rparr>)
           | (Some target, io) \<Rightarrow>
               (case pad_burst E (length (fr_wbuf fr)) target (fr \<lparr> fr_io := io \<rparr>) of
                  (Inl e, fr) \<Rightarrow> Some (Ready (Inl (io_of_obfs4 (env_os E) e)), fr)
                | (Inr _, fr) \<Rightarrow>
                    poll_with_iat E op (fr \<lparr> fr_io := padding_added (length (fr_wbuf fr)) (fr_io fr) \<rparr>)))
      | (Ready (Inr _), fr) \<Rightarrow> Some (Ready (Inr ()), fr)
      | (Ready (Inl e), fr) \<Rightarrow> Some (Ready (Inl (io_of_frame e)), fr)
      | (Panic, fr) \<Rightarrow> Some (Panic, fr))"

definition poll_ready_with_iat ::
  "('s, 'f) obfs4_env \<Rightarrow> ('c, 'f, 's, 'p) framed_ops \<Rightarrow> nat \<Rightarrow> ('c, 'f, 's, 'p) framed
   \<Rightarrow> ((io_error + unit) poll \<times> ('c, 'f, 's, 'p) framed) option" where
  "poll_ready_with_iat E Fr now fr = poll_with_iat E (sink_poll_ready Fr now) fr"

definition poll_flush_with_iat ::
  "('s, 'f) obfs4_env \<Rightarrow> ('c, 'f, 's, 'p) framed_ops \<Rightarrow> nat \<Rightarrow> ('c, 'f, 's, 'p) framed
   \<Rightarrow> ((io_error + unit) poll \<times> ('c, 'f, 's, 'p) framed) option" where
  "poll_flush_with_iat E Fr now fr = poll_with_iat E (sink_poll_flush Fr now) fr"

definition poll_close_with_iat ::
  "('s, 'f) obfs4_env \<Rightarrow> ('c, 'f, 's, 'p) framed_ops \<Rightarrow> nat \<Rightarrow> ('c, 'f, 's, 'p) framed
   \<Rightarrow> ((io_error + unit) poll \<times> ('c, 'f, 's, 'p) framed) option" where
  "poll_close_with_iat E Fr now fr = poll_with_iat E (sink_poll_close Fr now) fr"

section \<open>Writing\<close>

definition set_terminal :: "('s, 'f) obfs4_env \<Rightarrow> io_error \<Rightarrow> ('c, 'f, 's, 'p) o4_stream \<Rightarrow> ('c, 'f, 's, 'p) o4_stream" where
  "set_terminal E e s = s \<lparr> terminal_error := Some (sio_from_error (env_os E) e) \<rparr>"

text \<open>Padding at the end of a burst; an error is kept for the next operation.\<close>

definition pad_if_shaped ::
  "('s, 'f) obfs4_env \<Rightarrow> nat \<Rightarrow> ('c, 'f, 's, 'p) o4_stream \<Rightarrow> unit poll \<times> ('c, 'f, 's, 'p) o4_stream" where
  "pad_if_shaped E burst_len s =
     (if o4_iat_mode s \<noteq> Paranoid then
        let io = fr_io (o4_framed s) in
        (case sample (env_f64 E) (env_rnd E (draws io)) (ic_length_dist io) of
           None \<Rightarrow> (Panic, s)
         | Some v \<Rightarrow>
             (case pad_burst E burst_len (nat (max v 0)) (o4_framed s \<lparr> fr_io := io \<lparr> draws := draws io + 1 \<rparr> \<rparr>) of
                (Inl e, fr) \<Rightarrow> (Ready (), set_terminal E (io_of_obfs4 (env_os E) e) (s \<lparr> o4_framed := fr \<rparr>))
              | (Inr _, fr) \<Rightarrow> (Ready (), s \<lparr> o4_framed := fr \<rparr>)))
      else (Ready (), s))"

text \<open>A failed \<^verbatim>\<open>start_send\<close>: what was accepted before decides what the caller sees.\<close>

definition send_failed ::
  "('s, 'f) obfs4_env \<Rightarrow> nat \<Rightarrow> io_error \<Rightarrow> ('c, 'f, 's, 'p) o4_stream \<Rightarrow> (io_error + nat) poll \<times> ('c, 'f, 's, 'p) o4_stream" where
  "send_failed E len_sent e s =
     (if io_kind (env_os E) e = Interrupted then
        (if len_sent = 0 then (Pending, s) else (Ready (Inr len_sent), s))
      else (Ready (if len_sent = 0 then Inl e else Inr len_sent), set_terminal E e s))"

definition finish_burst ::
  "('s, 'f) obfs4_env \<Rightarrow> nat \<Rightarrow> nat \<Rightarrow> ('c, 'f, 's, 'p) o4_stream \<Rightarrow> (io_error + nat) poll \<times> ('c, 'f, 's, 'p) o4_stream" where
  "finish_burst E n burst_len s = poll_bind (pad_if_shaped E burst_len s) (\<lambda>_ s. (Ready (Inr n), s))"

function write_chunks ::
  "('s, 'f) obfs4_env \<Rightarrow> ('c, 'f, 's, 'p) framed_ops \<Rightarrow> nat \<Rightarrow> bytes \<Rightarrow> nat \<Rightarrow> nat \<Rightarrow> ('c, 'f, 's, 'p) o4_stream
   \<Rightarrow> ((io_error + nat) poll \<times> ('c, 'f, 's, 'p) o4_stream) option" where
  "write_chunks E Fr now buf len_sent burst_len s =
     (if length buf - len_sent > MAX_MESSAGE_PAYLOAD_LENGTH then
        let payload = take MAX_MESSAGE_PAYLOAD_LENGTH (drop len_sent buf);
            burst_len = burst_len + FRAME_OVERHEAD + MESSAGE_OVERHEAD + length payload
        in case sink_start_send Fr (pf_contents (payload_frame_new payload)) (o4_framed s) of
             (Inl e, fr) \<Rightarrow> Some (send_failed E len_sent (io_of_frame e) (s \<lparr> o4_framed := fr \<rparr>))
           | (Inr _, fr) \<Rightarrow>
               let len_sent' = len_sent + MAX_MESSAGE_PAYLOAD_LENGTH in
               (case poll_ready_with_iat E Fr now fr of
                  None \<Rightarrow> None
                | Some (Pending, fr) \<Rightarrow> Some (finish_burst E len_sent' burst_len (s \<lparr> o4_framed := fr \<rparr>))
                | Some (Ready (Inl e), fr) \<Rightarrow>
                    if io_kind (env_os E) e = Interrupted
                    then Some (finish_burst E len_sent' burst_len (s \<lparr> o4_framed := fr \<rparr>))
                    else Some (Ready (Inr len_sent'), set_terminal E e (s \<lparr> o4_framed := fr \<rparr>))
                | Some (Ready (Inr _), fr) \<Rightarrow> write_chunks E Fr now buf len_sent' burst_len (s \<lparr> o4_framed := fr \<rparr>)
                | Some (Panic, fr) \<Rightarrow> Some (Panic, s \<lparr> o4_framed := fr \<rparr>))
      else
        let payload = drop len_sent buf;
            burst_len = burst_len + FRAME_OVERHEAD + MESSAGE_OVERHEAD + length payload
        in case sink_start_send Fr (pf_contents (payload_frame_new payload)) (o4_framed s) of
             (Inl e, fr) \<Rightarrow> Some (send_failed E len_sent (io_of_frame e) (s \<lparr> o4_framed := fr \<rparr>))
           | (Inr _, fr) \<Rightarrow> Some (finish_burst E (length buf) burst_len (s \<lparr> o4_framed := fr \<rparr>)))"
  by pat_completeness auto
termination
  by (relation "measure (\<lambda>(_, _, _, buf, len_sent, _). length buf - len_sent)") (auto simp: const_simps)

declare write_chunks.simps [simp del]

definition not_shut_down :: io_error where
  "not_shut_down = IoCustom NotConnected ''obfs4 stream is already shut down''"

definition o4_poll_write ::
  "('s, 'f) obfs4_env \<Rightarrow> ('c, 'f, 's, 'p) framed_ops \<Rightarrow> nat \<Rightarrow> bytes \<Rightarrow> ('c, 'f, 's, 'p) o4_stream
   \<Rightarrow> ((io_error + nat) poll \<times> ('c, 'f, 's, 'p) o4_stream) option" where
  "o4_poll_write E Fr now buf s =
     (if buf = [] then Some (Ready (Inr 0), s)
      else if shutdown_complete s then Some (Ready (Inl not_shut_down), s)
      else case terminal_error s of
        Some e \<Rightarrow> Some (Ready (Inl (sio_into_error e)), s)
      | None \<Rightarrow>
          (case poll_ready_with_iat E Fr now (o4_framed s) of
             None \<Rightarrow> None
           | Some (Pending, fr) \<Rightarrow> Some (Pending, s \<lparr> o4_framed := fr \<rparr>)
           | Some (Panic, fr) \<Rightarrow> Some (Panic, s \<lparr> o4_framed := fr \<rparr>)
           | Some (Ready (Inl e), fr) \<Rightarrow>
               if io_kind (env_os E) e \<noteq> Interrupted
               then Some (Ready (Inl e), set_terminal E e (s \<lparr> o4_framed := fr \<rparr>))
               else Some (Pending, s \<lparr> o4_framed := fr \<rparr>)
           | Some (Ready (Inr _), fr) \<Rightarrow> write_chunks E Fr now buf 0 0 (s \<lparr> o4_framed := fr \<rparr>)))"

text \<open>The common end of \<^verbatim>\<open>poll_flush\<close> and \<^verbatim>\<open>poll_shutdown\<close>.\<close>

definition settle ::
  "('s, 'f) obfs4_env \<Rightarrow> (io_error + unit) poll \<Rightarrow> ('c, 'f, 's, 'p) o4_stream
   \<Rightarrow> (io_error + unit) poll \<times> ('c, 'f, 's, 'p) o4_stream" where
  "settle E r s =
     (case r of
        Ready (Inl e) \<Rightarrow> if io_kind (env_os E) e \<noteq> Interrupted then (r, set_terminal E e s) else (Pending, s)
      | _ \<Rightarrow> (r, s))"

definition o4_poll_flush ::
  "('s, 'f) obfs4_env \<Rightarrow> ('c, 'f, 's, 'p) framed_ops \<Rightarrow> nat \<Rightarrow> ('c, 'f, 's, 'p) o4_stream
   \<Rightarrow> ((io_error + unit) poll \<times> ('c, 'f, 's, 'p) o4_stream) option" where
  "o4_poll_flush E Fr now s =
     (if shutdown_complete s then Some (Ready (Inr ()), s)
      else case terminal_error s of
        Some e \<Rightarrow> Some (Ready (Inl (sio_into_error e)), s)
      | None \<Rightarrow> map_option (\<lambda>(r, fr). settle E r (s \<lparr> o4_framed := fr \<rparr>)) (poll_flush_with_iat E Fr now (o4_framed s)))"

definition o4_poll_shutdown ::
  "('s, 'f) obfs4_env \<Rightarrow> ('c, 'f, 's, 'p) framed_ops \<Rightarrow> nat \<Rightarrow> ('c, 'f, 's, 'p) o4_stream
   \<Rightarrow> ((io_error + unit) poll \<times> ('c, 'f, 's, 'p) o4_stream) option" where
  "o4_poll_shutdown E Fr now s =
     (if shutdown_complete s then Some (Ready (Inr ()), s)
      else case terminal_error s of
        Some e \<Rightarrow> Some (Ready (Inl (sio_into_error e)), s)
      | None \<Rightarrow>
          let fr = o4_framed s \<lparr> fr_io := clear_delay (fr_io (o4_framed s)) \<rparr> in
          map_option (\<lambda>(r, fr).
              let s = s \<lparr> o4_framed := fr \<rparr> in
              if r = Ready (Inr ()) then (r, s \<lparr> shutdown_complete := True \<rparr>) else settle E r s)
            (poll_close_with_iat E Fr now fr))"

section \<open>Reading\<close>

text \<open>A poll that reads returns the bytes it put into the caller's buffer of \<open>cap\<close> bytes.\<close>

partial_function (option) read_loop ::
  "('s, 'f) obfs4_env \<Rightarrow> ('c, 'f, 's, 'p) framed_ops \<Rightarrow> nat \<Rightarrow> nat \<Rightarrow> ('c, 'f, 's, 'p) o4_stream
   \<Rightarrow> ((io_error + bytes) poll \<times> ('c, 'f, 's, 'p) o4_stream) option" where
  [code]: "read_loop E Fr now cap s =
     (case stream_poll_next Fr now (o4_framed s) of
        (Pending, fr) \<Rightarrow> Some (Pending, s \<lparr> o4_framed := fr \<rparr>)
      | (Panic, fr) \<Rightarrow> Some (Panic, s \<lparr> o4_framed := fr \<rparr>)
      | (Ready None, fr) \<Rightarrow> Some (Ready (Inr []), s \<lparr> o4_framed := fr \<rparr>)
      | (Ready (Some (Inl e)), fr) \<Rightarrow> Some (Ready (Inl (io_of_frame e)), s \<lparr> o4_framed := fr \<rparr>)
      | (Ready (Some (Inr msg)), fr) \<Rightarrow>
          (case msg of
             Payload message \<Rightarrow>
               (let (out, residual) = stash_payload (read_residual s) cap message
                in Some (Ready (Inr out), s \<lparr> o4_framed := fr, read_residual := residual \<rparr>))
           | Padding _ \<Rightarrow> read_loop E Fr now cap (s \<lparr> o4_framed := fr \<rparr>)
           | PrngSeed _ \<Rightarrow>
               (case try_handle_non_payload_message E msg (s \<lparr> o4_framed := fr \<rparr>) of
                  (Ready (Inr _), s) \<Rightarrow> read_loop E Fr now cap s
                | (Ready (Inl e), s) \<Rightarrow> Some (Ready (Inl (io_of_obfs4 (env_os E) e)), s)
                | (Pending, s) \<Rightarrow> Some (Pending, s)
                | (Panic, s) \<Rightarrow> Some (Panic, s))))"

definition o4_poll_read ::
  "('s, 'f) obfs4_env \<Rightarrow> ('c, 'f, 's, 'p) framed_ops \<Rightarrow> nat \<Rightarrow> nat \<Rightarrow> ('c, 'f, 's, 'p) o4_stream
   \<Rightarrow> ((io_error + bytes) poll \<times> ('c, 'f, 's, 'p) o4_stream) option" where
  "o4_poll_read E Fr now cap s =
     (if cap = 0 then Some (Ready (Inr []), s)
      else if read_residual s \<noteq> [] then
        (let (out, residual) = drain_residual (read_residual s) cap
         in Some (Ready (Inr out), s \<lparr> read_residual := residual \<rparr>))
      else read_loop E Fr now cap s)"

end
