(* ===== verification/Stream.thy ===== *)
theory Stream
  imports Proto
begin

text \<open>
  What the established stream guarantees: what is written arrives once and in order among
  the frames, what is read is what the peer's frames carry, padding has the length it is
  meant to have, and a failed or closed stream stays so. The first section states what the
  code relies on of \<^verbatim>\<open>Framed\<close> and of the carrier.
\<close>

section \<open>The contracts\<close>

text \<open>\<open>inp\<close> is what the carrier has delivered so far; reading and writing are independent.\<close>

definition duplex_ok :: "'c carrier \<Rightarrow> ('c \<Rightarrow> bytes) \<Rightarrow> ('c \<Rightarrow> bytes) \<Rightarrow> bool" where
  "duplex_ok C out inp \<longleftrightarrow> carrier_ok C out
     \<and> (\<forall>cap c r c'. c_poll_read C cap c = (r, c') \<longrightarrow> out c' = out c
          \<and> inp c' = (case r of Ready (Inr bs) \<Rightarrow> inp c @ bs | _ \<Rightarrow> inp c))
     \<and> (\<forall>b c. inp (snd (c_poll_write C b c)) = inp c)
     \<and> (\<forall>c. inp (snd (c_poll_flush C c)) = inp c) \<and> (\<forall>c. inp (snd (c_poll_shutdown C c)) = inp c)"

text \<open>
  Between two moments a sink operation at time \<open>now\<close> only writes the front of its buffer,
  flushes or shuts down through the shaping carrier, in any order and number; it goes on only
  after calls that did not panic.
\<close>

inductive drains :: "('s, 'f) obfs4_env \<Rightarrow> 'c carrier \<Rightarrow> nat \<Rightarrow> ('c, 'f, 's, 'p) framed \<Rightarrow> ('c, 'f, 's, 'p) framed \<Rightarrow> bool"
  for E C now where
  drains_refl: "drains E C now fr fr"
| drains_priv: "drains E C now (fr \<lparr> fr_priv := p \<rparr>) fr' \<Longrightarrow> drains E C now fr fr'"
| drains_write:
    "iat_poll_write (env_f64 E) C (env_rnd E) (env_clock_max E) now (fr_wbuf fr) (fr_io fr) = (r, io) \<Longrightarrow> r \<noteq> Panic
     \<Longrightarrow> drains E C now (fr \<lparr> fr_io := io, fr_wbuf := drop (case r of Ready (Inr n) \<Rightarrow> n | _ \<Rightarrow> 0) (fr_wbuf fr) \<rparr>) fr'
     \<Longrightarrow> drains E C now fr fr'"
| drains_flush: "iat_poll_flush C now (fr_io fr) = (r, io) \<Longrightarrow> drains E C now (fr \<lparr> fr_io := io \<rparr>) fr' \<Longrightarrow> drains E C now fr fr'"
| drains_shutdown: "iat_poll_shutdown C (fr_io fr) = (r, io) \<Longrightarrow> drains E C now (fr \<lparr> fr_io := io \<rparr>) fr' \<Longrightarrow> drains E C now fr fr'"

inductive pulls ::
  "('s, 'f) obfs4_env \<Rightarrow> 'c carrier \<Rightarrow> ('c, 'f, 's, 'p) framed \<Rightarrow> (frame_error + messages) option poll
   \<Rightarrow> ('c, 'f, 's, 'p) framed \<Rightarrow> bool"
  for E C where
  pulls_pending: "pulls E C fr Pending fr"
| pulls_end: "pulls E C fr (Ready None) fr"
| pulls_error: "pulls E C fr (Ready (Some (Inl e))) fr"
| pulls_message:
    "decode (env_aead E) (env_sip E) (fr_codec fr) (fr_rbuf fr) = (Inr (Some m), c, rest)
     \<Longrightarrow> pulls E C fr (Ready (Some (Inr m))) (fr \<lparr> fr_codec := c, fr_rbuf := rest \<rparr>)"
| pulls_bad:
    "decode (env_aead E) (env_sip E) (fr_codec fr) (fr_rbuf fr) = (Inl e, c, rest)
     \<Longrightarrow> pulls E C fr (Ready (Some (Inl e))) (fr \<lparr> fr_codec := c, fr_rbuf := rest \<rparr>)"
| pulls_wait:
    "decode (env_aead E) (env_sip E) (fr_codec fr) (fr_rbuf fr) = (Inr None, c, rest)
     \<Longrightarrow> pulls E C (fr \<lparr> fr_codec := c, fr_rbuf := rest \<rparr>) r fr' \<Longrightarrow> pulls E C fr r fr'"
| pulls_read:
    "iat_poll_read C cap (fr_io fr) = (q, io)
     \<Longrightarrow> pulls E C (fr \<lparr> fr_io := io, fr_rbuf := fr_rbuf fr @ (case q of Ready (Inr bs) \<Rightarrow> bs | _ \<Rightarrow> []) \<rparr>) r fr'
     \<Longrightarrow> pulls E C fr r fr'"
| pulls_priv: "pulls E C (fr \<lparr> fr_priv := p \<rparr>) r fr' \<Longrightarrow> pulls E C fr r fr'"

text \<open>The generator answers, and the clock is more than the longest delay away from its end.\<close>

definition env_works :: "('s, 'f) obfs4_env \<Rightarrow> nat \<Rightarrow> bool" where
  "env_works E now \<longleftrightarrow> (\<forall>n. env_rnd E n \<noteq> None) \<and> now + 10 ^ 7 \<le> env_clock_max E"

text \<open>
  A sink operation is such a sequence when it answers. It does not panic of its own: only the
  shaping carrier below it does, which needs a failing generator or clock.
\<close>

definition sink_ok ::
  "('s, 'f) obfs4_env \<Rightarrow> 'c carrier \<Rightarrow> nat
   \<Rightarrow> (('c, 'f, 's, 'p) framed \<Rightarrow> (frame_error + unit) poll \<times> ('c, 'f, 's, 'p) framed) \<Rightarrow> bool" where
  "sink_ok E C now op \<longleftrightarrow>
     (\<forall>fr r fr'. op fr = (r, fr') \<longrightarrow>
        (r \<noteq> Panic \<longrightarrow> drains E C now fr fr') \<and> (iat_inv (fr_io fr) \<and> env_works E now \<longrightarrow> r \<noteq> Panic))"

definition framed_ok :: "('s, 'f) obfs4_env \<Rightarrow> 'c carrier \<Rightarrow> ('c, 'f, 's, 'p) framed_ops \<Rightarrow> bool" where
  "framed_ok E C Fr \<longleftrightarrow>
     (\<forall>now. sink_ok E C now (sink_poll_ready Fr now) \<and> sink_ok E C now (sink_poll_flush Fr now)
        \<and> sink_ok E C now (sink_poll_close Fr now))
     \<and> (\<forall>p fr. sink_start_send Fr p fr =
          (case encode (env_aead E) (env_sip E) (fr_codec fr) p (fr_wbuf fr) of
             (r, c, w) \<Rightarrow> (r, fr \<lparr> fr_codec := c, fr_wbuf := w \<rparr>)))
     \<and> (\<forall>now fr r fr'. stream_poll_next Fr now fr = (r, fr') \<longrightarrow> r \<noteq> Panic \<and> pulls E C fr r fr')"

section \<open>What has been sent\<close>

definition payloads :: "messages list \<Rightarrow> bytes" where
  "payloads ms = concat (map (\<lambda>m. case m of Payload b \<Rightarrow> b | _ \<Rightarrow> []) ms)"

lemma payloads_simps [simp]:
  "payloads [] = []" "payloads (Payload b # ms) = b @ payloads ms" "payloads (PrngSeed x # ms) = payloads ms"
  "payloads (Padding n # ms) = payloads ms" "payloads (ms @ ms') = payloads ms @ payloads ms'"
  by (simp_all add: payloads_def)

definition wire :: "('c \<Rightarrow> bytes) \<Rightarrow> ('c, 'f, 's, 'p) framed \<Rightarrow> bytes" where
  "wire out fr = out (ic_inner (fr_io fr)) @ fr_wbuf fr"

text \<open>
  \<open>sent E out c0 w0 ps fr\<close>: starting from codec \<open>c0\<close> and the bytes \<open>w0\<close>, the stream has
  encoded exactly the packets \<open>ps\<close>.
\<close>

definition sent ::
  "('s, 'f) obfs4_env \<Rightarrow> ('c \<Rightarrow> bytes) \<Rightarrow> 's codec \<Rightarrow> bytes \<Rightarrow> bytes list \<Rightarrow> ('c, 'f, 's, 'p) framed \<Rightarrow> bool" where
  "sent E out c0 w0 ps fr \<longleftrightarrow> (\<forall>p \<in> set ps. sendable p)
     \<and> encode_all (env_aead E) (env_sip E) c0 ps w0 = (Inr (), fr_codec fr \<lparr> decoder := decoder c0 \<rparr>, wire out fr)"

lemma payload_packet:
  assumes "0 < length p" "length p \<le> MAX_MESSAGE_PAYLOAD_LENGTH"
  shows "sendable (pf_contents (payload_frame_new p))" "visible [pf_contents (payload_frame_new p)] = [Payload p]"
proof -
  have "pf_contents (payload_frame_new p) = [message_type_byte MTPayload] @ be16 (of_nat (length p)) @ p @ []"
    using assms(2) by (simp add: pf_contents_def payload_frame_new_def be16_of_nat const_simps)
  moreover have "try_parse ([message_type_byte MTPayload] @ be16 (of_nat (length p)) @ p @ []) = Inr (Payload p, [])"
    using assms by (subst try_parse_built) (auto simp: const_simps message_type_try_from_def)
  moreover have "length ([message_type_byte MTPayload] @ be16 (of_nat (length p)) @ p @ []) = length p + 3"
    by (simp add: be16_def)
  ultimately show "sendable (pf_contents (payload_frame_new p))" "visible [pf_contents (payload_frame_new p)] = [Payload p]"
    using assms(2) by (auto simp: sendable_def turn_of_def const_simps)
qed

lemma padding_packet:
  assumes "n \<le> MAX_MESSAGE_PAYLOAD_LENGTH"
  shows "sendable (pd_contents (padding_frame_new n))" "visible [pd_contents (padding_frame_new n)] = []"
    "length (pd_contents (padding_frame_new n)) = n + MESSAGE_OVERHEAD"
proof -
  have "pd_contents (padding_frame_new n) = [message_type_byte MTPayload] @ be16 (of_nat (length ([] :: bytes))) @ [] @ replicate n 0"
    by (simp add: pd_contents_def padding_frame_new_def be16_def numeral_3_eq_3)
  moreover have "try_parse ([message_type_byte MTPayload] @ be16 (of_nat (length ([] :: bytes))) @ [] @ replicate n 0) = Inr (Padding n, [])"
    by (subst try_parse_built) (auto simp: message_type_try_from_def)
  ultimately show "sendable (pd_contents (padding_frame_new n))" "visible [pd_contents (padding_frame_new n)] = []"
    "length (pd_contents (padding_frame_new n)) = n + MESSAGE_OVERHEAD"
    using assms by (auto simp: sendable_def turn_of_def const_simps be16_def)
qed

lemma encode_cases:
  assumes "aead_ok A" "length p \<le> MAX_FRAME_PAYLOAD_LENGTH"
  obtains (ok) x where "\<And>w. encode A sip c p w = (Inr (), encoder_next sip c, w @ x)"
      "length x = length p + FRAME_OVERHEAD"
  | (exhausted) "\<And>w. encode A sip c p w = (Inl NonceCounterWrapped, c, w)"
proof (cases "counter (e_nonce (encoder c)) = - 1")
  case True
  with assms(2) have "encode A sip c p w = (Inl NonceCounterWrapped, c, w)" for w
    by (simp add: encode_def nonce_next_def)
  with exhausted show ?thesis by blast
next
  case False
  let ?k = "e_cipher (encoder c)" and ?n = "prefix (e_nonce (encoder c)) @ be64 (counter (e_nonce (encoder c)))"
  from assms obtain ct t where e: "aead_encrypt A ?k ?n p = Inr (ct, t)" using aead_encrypt_total by blast
  have "encode A sip c p w = (Inr (), encoder_next sip c, w @ frame_bytes A sip (encoder c) p (ct, t))" for w
    using False assms(2) e by (simp add: encode_ok_iff)
  moreover have "length (frame_bytes A sip (encoder c) p (ct, t)) = length p + FRAME_OVERHEAD"
    using aead_lengths [OF assms(1) e] by (simp add: frame_bytes_def be16_def const_simps)
  ultimately show ?thesis using ok by blast
qed

lemma encoder_next_decoder [simp]:
  "encoder_next sip (c \<lparr> decoder := d \<rparr>) = encoder_next sip c \<lparr> decoder := d \<rparr>" "decoder (encoder_next sip c) = decoder c"
  by (simp_all add: encoder_next_def)

lemma encode_other_decoder:
  "encode A sip c p w = (Inr (), c', w') \<Longrightarrow> encode A sip (c \<lparr> decoder := d \<rparr>) p w = (Inr (), c' \<lparr> decoder := d \<rparr>, w')"
  by (simp add: encode_ok_iff)

lemma sent_extend:
  assumes "sent E out c0 w0 ps fr" "sendable p"
    and "\<And>w. encode (env_aead E) (env_sip E) (fr_codec fr) p w = (Inr (), c', w @ x)"
  shows "sent E out c0 w0 (ps @ [p]) (fr \<lparr> fr_codec := c', fr_wbuf := fr_wbuf fr @ x \<rparr>)"
proof -
  let ?A = "env_aead E" and ?sip = "env_sip E"
  have "encode ?A ?sip (fr_codec fr \<lparr> decoder := decoder c0 \<rparr>) p (wire out fr)
      = (Inr (), c' \<lparr> decoder := decoder c0 \<rparr>, wire out fr @ x)"
    using assms(3) by (rule encode_other_decoder)
  with assms(1,2) show ?thesis by (auto simp: sent_def encode_all_append wire_def)
qed

text \<open>The padding loop adds padding packets only, and stops at the first error.\<close>

lemma pad_frames_sent:
  assumes "aead_ok (env_aead E)" "\<forall>n \<in> set ns. n \<le> MAX_MESSAGE_PAYLOAD_LENGTH" "sent E out c0 w0 ps fr"
    and "pad_frames E ns fr = (r, fr')"
  shows "\<exists>qs. sent E out c0 w0 (ps @ qs) fr' \<and> visible qs = [] \<and> fr_io fr' = fr_io fr
    \<and> (r = Inr () \<longrightarrow> length (fr_wbuf fr') = length (fr_wbuf fr) + sum_list (map (\<lambda>n. n + HEADER_LENGTH) ns))"
  using assms
proof (induction ns arbitrary: fr ps)
  case Nil
  then show ?case by (intro exI [of _ "[]"]) simp
next
  case (Cons n ns)
  let ?p = "pd_contents (padding_frame_new n)"
  have pk: "sendable ?p" "visible [?p] = []" "length ?p = n + MESSAGE_OVERHEAD"
    using padding_packet [of n] Cons.prems(2) by auto
  then have "length ?p \<le> MAX_FRAME_PAYLOAD_LENGTH" by (simp add: sendable_def)
  with Cons.prems(1) show ?case
  proof (cases rule: encode_cases [where sip = "env_sip E" and c = "fr_codec fr"])
    case (ok x)
    let ?fr = "fr \<lparr> fr_codec := encoder_next (env_sip E) (fr_codec fr), fr_wbuf := fr_wbuf fr @ x \<rparr>"
    have "sent E out c0 w0 (ps @ [?p]) ?fr" using sent_extend [OF Cons.prems(3) pk(1) ok(1)] .
    moreover have "pad_frames E ns ?fr = (r, fr')" using Cons.prems(4) ok(1) [of "[]"] by simp
    ultimately obtain qs where "sent E out c0 w0 ((ps @ [?p]) @ qs) fr'" "visible qs = []" "fr_io fr' = fr_io fr"
        "r = Inr () \<longrightarrow> length (fr_wbuf fr') = length (fr_wbuf fr @ x) + sum_list (map (\<lambda>n. n + HEADER_LENGTH) ns)"
      using Cons.IH [of "ps @ [?p]" ?fr] Cons.prems(1,2) by auto
    then show ?thesis using pk(2,3) ok(2)
      by (intro exI [of _ "?p # qs"]) (auto simp: const_simps split: turn.splits sum.splits option.splits)
  next
    case exhausted
    then show ?thesis using Cons.prems(3,4) by (intro exI [of _ "[]"]) auto
  qed
qed

lemma pad_lengths_bounded:
  "target \<le> MAX_SEGMENT_LENGTH \<Longrightarrow> n \<in> set (pad_lengths burst target) \<Longrightarrow> n \<le> MAX_MESSAGE_PAYLOAD_LENGTH"
  using mod_less_divisor [of MAX_SEGMENT_LENGTH burst]
  by (auto simp: pad_lengths_def Let_def const_simps split: if_splits)

section \<open>Sink operations keep what was sent\<close>

text \<open>The parts of a carrier that its own operations leave alone.\<close>

definition same_shape :: "('c, 'f) iat_carrier \<Rightarrow> ('c, 'f) iat_carrier \<Rightarrow> bool" where
  "same_shape cr cr' \<longleftrightarrow> ic_mode cr' = ic_mode cr
     \<and> (ic_mode cr \<noteq> Paranoid \<and> pad_target cr = None \<longrightarrow> pad_target cr' = None)
     \<and> ic_iat_dist cr' = ic_iat_dist cr \<and> ic_length_dist cr' = ic_length_dist cr"

lemma same_shape_refl [simp]: "same_shape cr cr"
  by (simp add: same_shape_def)

lemma same_shape_trans: "same_shape a b \<Longrightarrow> same_shape b c \<Longrightarrow> same_shape a c"
  by (auto simp: same_shape_def)

lemma iat_schedule_shape: "iat_schedule F rnd n cr = (r, cr') \<Longrightarrow> same_shape cr cr' \<and> ic_inner cr' = ic_inner cr"
  by (auto simp: iat_schedule_def same_shape_def Let_def split: if_splits option.splits)

lemma iat_wait_shape: "iat_wait now cr = (r, cr') \<Longrightarrow> same_shape cr cr' \<and> ic_inner cr' = ic_inner cr"
  by (auto simp: iat_wait_def same_shape_def split: if_splits)

lemma iat_account_shape: "iat_account F rnd cm now n cr = (r, cr') \<Longrightarrow> same_shape cr cr' \<and> ic_inner cr' = ic_inner cr"
  by (auto simp: iat_account_def same_shape_def Let_def split: if_splits option.splits)

lemma iat_poll_write_shape:
  assumes "iat_poll_write F C rnd cm now buf cr = (r, cr')"
  shows "same_shape cr cr' \<and> (ic_inner cr' = ic_inner cr \<or> (\<exists>b. ic_inner cr' = snd (c_poll_write C b (ic_inner cr))))"
proof (cases "buf = []")
  case True
  with assms show ?thesis by (simp add: iat_poll_write_def)
next
  case False
  obtain r1 c1 where s: "iat_schedule F rnd (length buf) cr = (r1, c1)" by force
  obtain r2 c2 where w: "iat_wait now c1 = (r2, c2)" by force
  define wl where "wl = (case scheduled_target c2 of None \<Rightarrow> length buf | Some t \<Rightarrow> min t (length buf))"
  obtain r3 c3 where c: "c_poll_write C (take wl buf) (ic_inner c2) = (r3, c3)" by force
  define io where "io = c2 \<lparr> ic_inner := c3 \<rparr>"
  obtain m r4 c4 where a: "iat_account F rnd cm now m io = (r4, c4)" "\<forall>n. r3 = Ready (Inr n) \<longrightarrow> m = n"
    by (metis poll.inject sum.inject(2) surj_pair)
  have "cr' \<in> {c1, c2, io, c4}"
    using assms s w c a False by (cases r1; cases r2; cases r3; cases r4; cases "\<exists>n. r3 = Ready (Inr n)")
      (auto simp: iat_poll_write_def wl_def io_def Let_def split: sum.splits)
  moreover have "same_shape cr c1" "ic_inner c1 = ic_inner cr" using iat_schedule_shape [OF s] by auto
  moreover have "same_shape c1 c2" "ic_inner c2 = ic_inner c1" using iat_wait_shape [OF w] by auto
  moreover have "same_shape c2 io" "ic_inner io = c3" by (auto simp: same_shape_def io_def)
  moreover have "same_shape io c4" "ic_inner c4 = ic_inner io" using iat_account_shape [OF a(1)] by auto
  moreover have "c3 = snd (c_poll_write C (take wl buf) (ic_inner c2))" using c by simp
  ultimately show ?thesis by (auto intro: same_shape_trans)
qed

lemma iat_poll_flush_ok:
  assumes "carrier_ok C out" "iat_poll_flush C now cr = (r, cr')"
  shows "same_shape cr cr' \<and> out (ic_inner cr') = out (ic_inner cr) \<and> iat_inv cr' = iat_inv cr
    \<and> (ic_inner cr' = ic_inner cr \<or> ic_inner cr' = snd (c_poll_flush C (ic_inner cr)))"
  using assms
  by (auto simp: iat_poll_flush_def iat_wait_def same_shape_def iat_inv_def carrier_ok_def split: if_splits prod.splits)

lemma iat_poll_shutdown_ok:
  assumes "carrier_ok C out" "iat_poll_shutdown C cr = (r, cr')"
  shows "same_shape cr cr' \<and> out (ic_inner cr') = out (ic_inner cr) \<and> iat_inv cr' = iat_inv cr
    \<and> ic_inner cr' = snd (c_poll_shutdown C (ic_inner cr))"
  using assms by (auto simp: iat_poll_shutdown_def same_shape_def iat_inv_def carrier_ok_def split: prod.splits)

lemma drains_keeps:
  assumes "drains E C now fr fr'" "duplex_ok C out inp" "iat_inv (fr_io fr)"
  shows "fr_codec fr' = fr_codec fr \<and> wire out fr' = wire out fr \<and> iat_inv (fr_io fr') \<and> same_shape (fr_io fr) (fr_io fr')
    \<and> fr_rbuf fr' = fr_rbuf fr \<and> inp (ic_inner (fr_io fr')) = inp (ic_inner (fr_io fr))"
  using assms
proof (induction rule: drains.induct)
  case (drains_write fr r io fr')
  have C: "carrier_ok C out" using drains_write.prems(1) by (simp add: duplex_ok_def)
  note w = iat_poll_write_ok [OF C drains_write.prems(2) drains_write.hyps(1)]
  have "inp (ic_inner io) = inp (ic_inner (fr_io fr))" "same_shape (fr_io fr) io"
    using iat_poll_write_shape [OF drains_write.hyps(1)] drains_write.prems(1) by (auto simp: duplex_ok_def)
  moreover have "out (ic_inner io) @ drop (case r of Ready (Inr n) \<Rightarrow> n | _ \<Rightarrow> 0) (fr_wbuf fr) = wire out fr"
    using w drains_write.hyps(2) by (auto simp: wire_def split: poll.splits sum.splits)
  ultimately show ?case using drains_write.IH drains_write.prems w by (auto simp: wire_def intro: same_shape_trans)
next
  case (drains_flush fr r io fr')
  have C: "carrier_ok C out" using drains_flush.prems(1) by (simp add: duplex_ok_def)
  from iat_poll_flush_ok [OF C drains_flush.hyps(1)] drains_flush.IH drains_flush.prems show ?case
    by (auto simp: wire_def duplex_ok_def intro: same_shape_trans)
next
  case (drains_shutdown fr r io fr')
  have C: "carrier_ok C out" using drains_shutdown.prems(1) by (simp add: duplex_ok_def)
  from iat_poll_shutdown_ok [OF C drains_shutdown.hyps(1)] drains_shutdown.IH drains_shutdown.prems show ?case
    by (auto simp: wire_def duplex_ok_def intro: same_shape_trans)
qed (auto simp: wire_def)

text \<open>
  What a poll that adds only padding leaves: \<open>padded E out inp c0 w0 ps fr fr'\<close> is that
  between \<open>fr\<close> and \<open>fr'\<close> only invisible packets were sent, and nothing was read.
\<close>

definition padded where
  "padded E out inp c0 w0 ps fr fr' \<longleftrightarrow> (\<exists>qs. sent E out c0 w0 (ps @ qs) fr' \<and> visible qs = [])
     \<and> iat_inv (fr_io fr') \<and> same_shape (fr_io fr) (fr_io fr') \<and> fr_rbuf fr' = fr_rbuf fr
     \<and> decoder (fr_codec fr') = decoder (fr_codec fr)
     \<and> inp (ic_inner (fr_io fr')) = inp (ic_inner (fr_io fr))"

lemma padded_refl: "sent E out c0 w0 ps fr \<Longrightarrow> iat_inv (fr_io fr) \<Longrightarrow> padded E out inp c0 w0 ps fr fr"
  unfolding padded_def by (auto intro!: exI [of _ "[]"])

lemma visible_append: "visible (ps @ qs) = visible ps @ visible qs"
  by (induction ps) (auto split: turn.splits sum.splits option.splits)

lemma padded_trans:
  assumes "padded E out inp c0 w0 ps fr fr1"
    and "\<And>qs. sent E out c0 w0 (ps @ qs) fr1 \<Longrightarrow> padded E out inp c0 w0 (ps @ qs) fr1 fr2"
  shows "padded E out inp c0 w0 ps fr fr2"
proof -
  from assms(1) obtain qs where q: "sent E out c0 w0 (ps @ qs) fr1" "visible qs = []" by (auto simp: padded_def)
  with assms(2) obtain rs where "sent E out c0 w0 ((ps @ qs) @ rs) fr2" "visible rs = []" by (auto simp: padded_def)
  with q(2) have "\<exists>xs. sent E out c0 w0 (ps @ xs) fr2 \<and> visible xs = []"
    by (intro exI [of _ "qs @ rs"]) (simp add: visible_append)
  with assms(1) assms(2) [OF q(1)] show ?thesis by (auto simp: padded_def intro: same_shape_trans)
qed

lemma pad_frames_decoder:
  "pad_frames E ns fr = (r, fr') \<Longrightarrow> decoder (fr_codec fr') = decoder (fr_codec fr) \<and> fr_rbuf fr' = fr_rbuf fr"
proof (induction ns arbitrary: fr)
  case (Cons n ns)
  obtain q c w where e: "encode (env_aead E) (env_sip E) (fr_codec fr) (pd_contents (padding_frame_new n)) [] = (q, c, w)"
    by (metis prod_cases3)
  then have "decoder c = decoder (fr_codec fr)"
    by (auto simp: encode_def Let_def split: if_splits sum.splits prod.splits)
  with Cons e show ?case by (cases q) fastforce+
qed simp

lemma pad_burst_padded:
  assumes "aead_ok (env_aead E)" "target \<le> MAX_SEGMENT_LENGTH" "sent E out c0 w0 ps fr" "iat_inv (fr_io fr)"
    and "pad_burst E burst target fr = (r, fr')"
  shows "padded E out inp c0 w0 ps fr fr' \<and> fr_io fr' = fr_io fr"
proof -
  have b: "\<forall>n \<in> set (pad_lengths burst target). n \<le> MAX_MESSAGE_PAYLOAD_LENGTH"
    using pad_lengths_bounded [OF assms(2)] by blast
  from assms(5) have pf: "pad_frames E (pad_lengths burst target) fr = (r, fr')" by (simp add: pad_burst_def)
  from pad_frames_sent [OF assms(1) b assms(3) pf] pad_frames_decoder [OF pf] assms(4) show ?thesis
    by (auto simp: padded_def)
qed

lemma sink_step:
  assumes "duplex_ok C out inp" "sink_ok E C now op" "sent E out c0 w0 ps fr" "iat_inv (fr_io fr)" "op fr = (r, fr')"
  shows "(r \<noteq> Panic \<longrightarrow> padded E out inp c0 w0 ps fr fr') \<and> (env_works E now \<longrightarrow> r \<noteq> Panic)"
proof -
  from assms(2,5) have d: "r \<noteq> Panic \<Longrightarrow> drains E C now fr fr'" and p: "iat_inv (fr_io fr) \<and> env_works E now \<longrightarrow> r \<noteq> Panic"
    unfolding sink_ok_def by blast+
  have "padded E out inp c0 w0 ps fr fr'" if "r \<noteq> Panic"
    using drains_keeps [OF d [OF that] assms(1,4)] assms(3,4) by (auto simp: padded_def sent_def intro!: exI [of _ "[]"])
  with p assms(4) show ?thesis by blast
qed

lemma padded_inv: "padded E out inp c0 w0 ps fr fr' \<Longrightarrow> iat_inv (fr_io fr')"
  by (simp add: padded_def)

lemma padded_take_target:
  "padded E out inp c0 w0 ps fr fr1 \<Longrightarrow> padded E out inp c0 w0 ps fr (fr1 \<lparr> fr_io := fr_io fr1 \<lparr> pad_target := None \<rparr> \<rparr>)"
  by (auto simp: padded_def sent_def wire_def iat_inv_def same_shape_def split: option.splits)

lemma padded_padding_added:
  "padded E out inp c0 w0 ps fr fr1 \<Longrightarrow> padded E out inp c0 w0 ps fr (fr1 \<lparr> fr_io := padding_added n (fr_io fr1) \<rparr>)"
  by (auto simp: padded_def padding_added_def sent_def wire_def iat_inv_def same_shape_def)

lemma padded_pad_burst:
  assumes "aead_ok (env_aead E)" "padded E out inp c0 w0 ps fr fr1" "target \<le> MAX_SEGMENT_LENGTH"
    and "pad_burst E burst target fr1 = (r, fr')"
  shows "padded E out inp c0 w0 ps fr fr'"
proof (rule padded_trans [OF assms(2)])
  fix qs
  assume s: "sent E out c0 w0 (ps @ qs) fr1"
  have "iat_inv (fr_io fr1)" using assms(2) by (simp add: padded_def)
  from pad_burst_padded [OF assms(1,3) s this assms(4)] show "padded E out inp c0 w0 (ps @ qs) fr1 fr'" by blast
qed

lemma poll_with_iat_padded:
  fixes E :: "('s, 'f) obfs4_env" and fr :: "('c, 'f, 's, 'p) framed"
  assumes "poll_with_iat E op fr = Some (r, fr')"
    and "aead_ok (env_aead E)" "duplex_ok C out inp" "sink_ok E C now op" "sent E out c0 w0 ps fr" "iat_inv (fr_io fr)"
  shows "(r \<noteq> Panic \<longrightarrow> padded E out inp c0 w0 ps fr fr') \<and> (env_works E now \<longrightarrow> r \<noteq> Panic)"
proof -
  let ?P = "\<lambda>(E :: ('s, 'f) obfs4_env) op (fr :: ('c, 'f, 's, 'p) framed) y. aead_ok (env_aead E) \<longrightarrow> sink_ok E C now op \<longrightarrow>
    (\<forall>ps. sent E out c0 w0 ps fr \<longrightarrow> iat_inv (fr_io fr) \<longrightarrow>
       (fst y \<noteq> Panic \<longrightarrow> padded E out inp c0 w0 ps fr (snd y)) \<and> (env_works E now \<longrightarrow> fst y \<noteq> Panic))"
  have "?P E op fr (r, fr')"
  proof (rule poll_with_iat.raw_induct [OF _ assms(1)], intro impI allI)
    fix loop and E :: "('s, 'f) obfs4_env" and op and fr :: "('c, 'f, 's, 'p) framed" and y ps
    assume IH: "\<And>E op fr y. loop E op fr = Some y \<Longrightarrow> ?P E op fr y"
      and body: "(case op fr of
        (Pending, fr) \<Rightarrow>
          (case take_pad_target (fr_io fr) of
             (None, io) \<Rightarrow> Some (Pending, fr \<lparr> fr_io := io \<rparr>)
           | (Some target, io) \<Rightarrow>
               (case pad_burst E (length (fr_wbuf fr)) target (fr \<lparr> fr_io := io \<rparr>) of
                  (Inl e, fr) \<Rightarrow> Some (Ready (Inl (io_of_obfs4 (env_os E) e)), fr)
                | (Inr _, fr) \<Rightarrow>
                    loop E op (fr \<lparr> fr_io := padding_added (length (fr_wbuf fr)) (fr_io fr) \<rparr>)))
      | (Ready (Inl e), fr) \<Rightarrow> Some (Ready (Inl (io_of_frame e)), fr)
      | (Ready (Inr _), fr) \<Rightarrow> Some (Ready (Inr ()), fr)
      | (Panic, fr) \<Rightarrow> Some (Panic, fr)) = Some y"
      and A: "aead_ok (env_aead E)" "sink_ok E C now op" "sent E out c0 w0 ps fr" "iat_inv (fr_io fr)"
    obtain q fr1 where op: "op fr = (q, fr1)" by force
    note st = sink_step [OF assms(3) A(2-4) op]
    show "(fst y \<noteq> Panic \<longrightarrow> padded E out inp c0 w0 ps fr (snd y)) \<and> (env_works E now \<longrightarrow> fst y \<noteq> Panic)"
    proof (cases "q = Pending \<and> pad_target (fr_io fr1) \<noteq> None")
      case True
      then obtain t where t: "q = Pending" "pad_target (fr_io fr1) = Some t" by blast
      define fr2 where "fr2 = fr1 \<lparr> fr_io := fr_io fr1 \<lparr> pad_target := None \<rparr> \<rparr>"
      obtain e fr3 where pb: "pad_burst E (length (fr_wbuf fr1)) t fr2 = (e, fr3)" by force
      have st1: "padded E out inp c0 w0 ps fr fr1" using st t(1) by simp
      have "t \<le> MAX_SEGMENT_LENGTH" using st1 t by (auto simp: padded_def iat_inv_def)
      with st1 have p3: "padded E out inp c0 w0 ps fr fr3"
        using padded_pad_burst [OF A(1) padded_take_target _ pb [unfolded fr2_def]] by blast
      define fr4 where "fr4 = fr3 \<lparr> fr_io := padding_added (length (fr_wbuf fr3)) (fr_io fr3) \<rparr>"
      have p4: "padded E out inp c0 w0 ps fr fr4" unfolding fr4_def using p3 by (rule padded_padding_added)
      show ?thesis
      proof (cases e)
        case (Inl x)
        with body op t pb p3 show ?thesis by (auto simp: take_pad_target_def fr2_def)
      next
        case (Inr u)
        with body op t pb have lp: "loop E op fr4 = Some y" by (auto simp: take_pad_target_def fr2_def fr4_def)
        have r: "(fst y \<noteq> Panic \<longrightarrow> padded E out inp c0 w0 (ps @ qs) fr4 (snd y)) \<and> (env_works E now \<longrightarrow> fst y \<noteq> Panic)"
          if "sent E out c0 w0 (ps @ qs) fr4" for qs
          using IH [OF lp] A(1,2) that padded_inv [OF p4] by blast
        moreover from p4 obtain qs where "sent E out c0 w0 (ps @ qs) fr4" by (auto simp: padded_def)
        ultimately show ?thesis using padded_trans [OF p4] by blast
      qed
    next
      case False
      then show ?thesis using body op st padded_take_target [of E out inp c0 w0 ps fr fr1]
        by (cases q) (auto simp: take_pad_target_def split: sum.splits)
    qed
  qed
  with assms show ?thesis by simp
qed

section \<open>Writing\<close>

text \<open>Between \<open>fr\<close> and \<open>fr'\<close> the packets sent carry exactly the bytes \<open>bs\<close>, and nothing was read.\<close>

definition wrote where
  "wrote E out inp c0 w0 ps bs fr fr' \<longleftrightarrow> (\<exists>qs. sent E out c0 w0 (ps @ qs) fr' \<and> payloads (visible qs) = bs)
     \<and> iat_inv (fr_io fr') \<and> same_shape (fr_io fr) (fr_io fr') \<and> fr_rbuf fr' = fr_rbuf fr
     \<and> decoder (fr_codec fr') = decoder (fr_codec fr)
     \<and> inp (ic_inner (fr_io fr')) = inp (ic_inner (fr_io fr))"

lemma padded_wrote: "padded E out inp c0 w0 ps fr fr' \<Longrightarrow> wrote E out inp c0 w0 ps [] fr fr'"
  by (auto simp: padded_def wrote_def)

lemma wrote_trans:
  assumes "wrote E out inp c0 w0 ps bs fr fr1"
    and "\<And>qs. sent E out c0 w0 (ps @ qs) fr1 \<Longrightarrow> iat_inv (fr_io fr1) \<Longrightarrow> wrote E out inp c0 w0 (ps @ qs) bs' fr1 fr2"
  shows "wrote E out inp c0 w0 ps (bs @ bs') fr fr2"
proof -
  from assms(1) obtain qs where q: "sent E out c0 w0 (ps @ qs) fr1" "payloads (visible qs) = bs" "iat_inv (fr_io fr1)"
    by (auto simp: wrote_def)
  with assms(2) [OF q(1,3)] obtain rs where "sent E out c0 w0 ((ps @ qs) @ rs) fr2" "payloads (visible rs) = bs'"
    by (auto simp: wrote_def)
  with q(2) have "\<exists>xs. sent E out c0 w0 (ps @ xs) fr2 \<and> payloads (visible xs) = bs @ bs'"
    by (intro exI [of _ "qs @ rs"]) (simp add: visible_append)
  with assms(1) assms(2) [OF q(1,3)] show ?thesis by (auto simp: wrote_def intro: same_shape_trans)
qed

lemma pad_if_shaped_wrote:
  assumes "aead_ok (env_aead E)" "sent E out c0 w0 ps (o4_framed s)" "iat_inv (fr_io (o4_framed s))"
    and "pad_if_shaped E burst s = (r, s')"
  shows "(r \<noteq> Panic \<longrightarrow> r = Ready () \<and> wrote E out inp c0 w0 ps [] (o4_framed s) (o4_framed s'))
    \<and> (r = Panic \<longrightarrow> env_rnd E (draws (fr_io (o4_framed s))) = None)"
proof (cases "o4_iat_mode s = Paranoid")
  case True
  with assms show ?thesis by (auto simp: pad_if_shaped_def intro: padded_wrote padded_refl)
next
  case False
  let ?io = "fr_io (o4_framed s)"
  have d: "dist_ready 1448 (ic_length_dist ?io)" using assms(3) by (simp add: iat_inv_def const_simps)
  note sr = sample_ready [OF d, of "env_f64 E" "env_rnd E (draws ?io)", simplified]
  show ?thesis
  proof (cases "sample (env_f64 E) (env_rnd E (draws ?io)) (ic_length_dist ?io)")
    case None
    with sr(1) assms(4) False show ?thesis by (auto simp: pad_if_shaped_def Let_def)
  next
    case (Some v)
  note v = Some conjunct1 [OF sr(2) [OF Some]] conjunct2 [OF sr(2) [OF Some]]
  let ?fr = "o4_framed s \<lparr> fr_io := ?io \<lparr> draws := draws ?io + 1 \<rparr> \<rparr>"
  obtain q fr' where pb: "pad_burst E burst (nat (max v 0)) ?fr = (q, fr')" by force
  have "padded E out inp c0 w0 ps (o4_framed s) ?fr"
    using padded_refl [OF assms(2,3)] by (auto simp: padded_def sent_def wire_def iat_inv_def same_shape_def)
  moreover have "nat (max v 0) \<le> MAX_SEGMENT_LENGTH" using v by (simp add: const_simps)
  ultimately have "padded E out inp c0 w0 ps (o4_framed s) fr'" using padded_pad_burst [OF assms(1) _ _ pb] by blast
  with assms(4) False v pb show ?thesis
    by (cases q) (auto simp: pad_if_shaped_def Let_def set_terminal_def dest: padded_wrote)
  qed
qed

lemma finish_burst_wrote:
  assumes "aead_ok (env_aead E)" "sent E out c0 w0 ps (o4_framed s)" "iat_inv (fr_io (o4_framed s))"
    and "finish_burst E n burst s = (r, s')"
  shows "(r \<noteq> Panic \<longrightarrow> r = Ready (Inr n) \<and> wrote E out inp c0 w0 ps [] (o4_framed s) (o4_framed s'))
    \<and> (env_works E now \<longrightarrow> r \<noteq> Panic)"
proof -
  obtain q s1 where p: "pad_if_shaped E burst s = (q, s1)" by force
  from pad_if_shaped_wrote [OF assms(1-3) p, of inp] assms(4) p show ?thesis
    by (cases q) (auto simp: finish_burst_def env_works_def)
qed

text \<open>Sending one payload frame either appends it whole or changes nothing.\<close>

lemma start_send_wrote:
  assumes "framed_ok E C Fr" "aead_ok (env_aead E)" "sent E out c0 w0 ps fr" "iat_inv (fr_io fr)"
    and "0 < length p" "length p \<le> MAX_MESSAGE_PAYLOAD_LENGTH"
    and "sink_start_send Fr (pf_contents (payload_frame_new p)) fr = (r, fr')"
  shows "wrote E out inp c0 w0 ps (if r = Inr () then p else []) fr fr'"
proof -
  let ?p = "pf_contents (payload_frame_new p)"
  note pk = payload_packet [OF assms(5,6)]
  then have "length ?p \<le> MAX_FRAME_PAYLOAD_LENGTH" by (simp add: sendable_def)
  with assms(2) show ?thesis
  proof (cases rule: encode_cases [where sip = "env_sip E" and c = "fr_codec fr"])
    case (ok x)
    with assms(1,7) have "r = Inr ()" "fr' = fr \<lparr> fr_codec := encoder_next (env_sip E) (fr_codec fr), fr_wbuf := fr_wbuf fr @ x \<rparr>"
      by (auto simp: framed_ok_def)
    with sent_extend [OF assms(3) pk(1) ok(1)] pk(2) assms(4) show ?thesis
      by (auto simp: wrote_def intro!: exI [of _ "[?p]"])
  next
    case exhausted
    with assms(1,3,4,7) show ?thesis by (auto simp: framed_ok_def wrote_def intro!: exI [of _ "[]"])
  qed
qed

definition write_outcome where
  "write_outcome E now out inp c0 w0 ps buf k s r s' \<longleftrightarrow>
     (r \<noteq> Panic \<longrightarrow>
        (\<exists>n. wrote E out inp c0 w0 ps (take n (drop k buf)) (o4_framed s) (o4_framed s') \<and> k + n \<le> length buf
           \<and> (case r of Ready (Inr m) \<Rightarrow> m = k + n \<and> 0 < m | _ \<Rightarrow> n = 0 \<and> k = 0)))
     \<and> (env_works E now \<longrightarrow> r \<noteq> Panic)"

lemma wrote_append: "wrote E out inp c0 w0 ps bs fr fr1 \<Longrightarrow>
    (\<And>qs. sent E out c0 w0 (ps @ qs) fr1 \<Longrightarrow> iat_inv (fr_io fr1) \<Longrightarrow> wrote E out inp c0 w0 (ps @ qs) [] fr1 fr2) \<Longrightarrow>
    wrote E out inp c0 w0 ps bs fr fr2"
  using wrote_trans [of E out inp c0 w0 ps bs fr fr1 "[]" fr2] by simp

lemma send_failed_outcome:
  assumes "wrote E out inp c0 w0 ps [] (o4_framed s) fr'" "k \<le> length buf"
    and "send_failed E k e (s \<lparr> o4_framed := fr' \<rparr>) = (r, s')"
  shows "write_outcome E now out inp c0 w0 ps buf k s r s'"
  using assms unfolding write_outcome_def
  by (intro conjI impI exI [of _ 0]) (auto simp: send_failed_def set_terminal_def split: if_splits)

lemma finish_burst_outcome:
  assumes "aead_ok (env_aead E)" "wrote E out inp c0 w0 ps (take n (drop k buf)) (o4_framed s) fr'" "k + n \<le> length buf" "0 < n"
    and "finish_burst E (k + n) burst (s \<lparr> o4_framed := fr' \<rparr>) = (r, s')"
  shows "write_outcome E now out inp c0 w0 ps buf k s r s'"
proof -
  have f: "(r \<noteq> Panic \<longrightarrow> r = Ready (Inr (k + n)) \<and> wrote E out inp c0 w0 (ps @ qs) [] fr' (o4_framed s')) \<and> (env_works E now \<longrightarrow> r \<noteq> Panic)"
    if "sent E out c0 w0 (ps @ qs) fr'" "iat_inv (fr_io fr')" for qs
    using finish_burst_wrote [OF assms(1) _ _ assms(5), of out c0 w0 "ps @ qs" inp] that by simp
  from assms(2) obtain qs where qs: "sent E out c0 w0 (ps @ qs) fr'" "iat_inv (fr_io fr')" by (auto simp: wrote_def)
  have "r = Ready (Inr (k + n)) \<and> wrote E out inp c0 w0 ps (take n (drop k buf)) (o4_framed s) (o4_framed s')" if "r \<noteq> Panic"
    using wrote_append [OF assms(2)] f f [OF qs] that by blast
  with f [OF qs] show ?thesis using assms(3,4) unfolding write_outcome_def by (intro conjI impI exI [of _ n]) auto
qed

lemma poll_ready_wrote:
  assumes "framed_ok E C Fr" "aead_ok (env_aead E)" "duplex_ok C out inp" "poll_ready_with_iat E Fr now fr1 = Some (q, fr2)"
    and "wrote E out inp c0 w0 ps bs fr fr1"
  shows "q \<noteq> Panic \<Longrightarrow> wrote E out inp c0 w0 ps bs fr fr2" "env_works E now \<Longrightarrow> q \<noteq> Panic"
proof -
  have ok: "sink_ok E C now (sink_poll_ready Fr now)" using assms(1) by (simp add: framed_ok_def)
  have p: "(q \<noteq> Panic \<longrightarrow> padded E out inp c0 w0 (ps @ qs) fr1 fr2) \<and> (env_works E now \<longrightarrow> q \<noteq> Panic)"
    if "sent E out c0 w0 (ps @ qs) fr1" "iat_inv (fr_io fr1)" for qs
    using poll_with_iat_padded [OF assms(4) [unfolded poll_ready_with_iat_def] assms(2,3) ok that] .
  then show "wrote E out inp c0 w0 ps bs fr fr2" if "q \<noteq> Panic" using wrote_append [OF assms(5)] padded_wrote that by blast
  from assms(5) p show "q \<noteq> Panic" if "env_works E now" using that by (auto simp: wrote_def)
qed

lemma write_outcome_later:
  assumes "wrote E out inp c0 w0 ps (take n (drop k buf)) (o4_framed s) fr'" "0 < n"
    and "\<And>qs. sent E out c0 w0 (ps @ qs) fr' \<Longrightarrow> iat_inv (fr_io fr')
      \<Longrightarrow> write_outcome E now out inp c0 w0 (ps @ qs) buf (k + n) (s \<lparr> o4_framed := fr' \<rparr>) r s'"
  shows "write_outcome E now out inp c0 w0 ps buf k s r s'"
proof -
  from assms(1) obtain qs where q: "sent E out c0 w0 (ps @ qs) fr'" "iat_inv (fr_io fr')" by (auto simp: wrote_def)
  show ?thesis
  proof (cases "r = Panic")
    case True
    with assms(3) [OF q] show ?thesis by (auto simp: write_outcome_def)
  next
    case False
  have o: "\<exists>n'. wrote E out inp c0 w0 (ps @ qs) (take n' (drop (k + n) buf)) fr' (o4_framed s') \<and> k + n + n' \<le> length buf
      \<and> r = Ready (Inr (k + n + n'))" if "sent E out c0 w0 (ps @ qs) fr'" for qs
  proof (cases r)
    case (Ready x)
    then show ?thesis using assms(3) [OF that q(2)] assms(2) by (cases x) (auto simp: write_outcome_def)
  qed (use assms(3) [OF that q(2)] assms(2) False in \<open>auto simp: write_outcome_def\<close>)
  then obtain n' where n': "r = Ready (Inr (k + n + n'))" "k + n + n' \<le> length buf" using q(1) by blast
  have "wrote E out inp c0 w0 (ps @ qs) (take n' (drop (k + n) buf)) fr' (o4_framed s')" if "sent E out c0 w0 (ps @ qs) fr'" for qs
    using o [OF that] n' by auto
  then have "wrote E out inp c0 w0 ps (take n (drop k buf) @ take n' (drop (k + n) buf)) (o4_framed s) (o4_framed s')"
    using wrote_trans [OF assms(1)] by blast
  moreover have "take n (drop k buf) @ take n' (drop (k + n) buf) = take (n + n') (drop k buf)"
    by (simp add: take_add add.commute)
  ultimately show ?thesis using n' assms(2) unfolding write_outcome_def by (intro conjI impI exI [of _ "n + n'"]) (simp_all add: add.assoc)
  qed
qed

text \<open>One turn of the chunk loop, with the two branches over the size of the rest side by side.\<close>

lemma write_chunks_step:
  defines "n \<equiv> \<lambda>buf k. if length buf - k > MAX_MESSAGE_PAYLOAD_LENGTH then MAX_MESSAGE_PAYLOAD_LENGTH else length buf - k"
  assumes "sink_start_send Fr (pf_contents (payload_frame_new (take (n buf k) (drop k buf)))) (o4_framed s) = (q, fr1)"
    and "b' = b + FRAME_OVERHEAD + MESSAGE_OVERHEAD + length (take (n buf k) (drop k buf))"
  shows "write_chunks E Fr now buf k b s =
    (case q of
       Inl e \<Rightarrow> Some (send_failed E k (io_of_frame e) (s \<lparr> o4_framed := fr1 \<rparr>))
     | Inr _ \<Rightarrow>
         if length buf - k > MAX_MESSAGE_PAYLOAD_LENGTH then
           (case poll_ready_with_iat E Fr now fr1 of
              None \<Rightarrow> None
            | Some (Pending, fr) \<Rightarrow> Some (finish_burst E (k + n buf k) b' (s \<lparr> o4_framed := fr \<rparr>))
            | Some (Ready (Inl e), fr) \<Rightarrow>
                if io_kind (env_os E) e = Interrupted then Some (finish_burst E (k + n buf k) b' (s \<lparr> o4_framed := fr \<rparr>))
                else Some (Ready (Inr (k + n buf k)), set_terminal E e (s \<lparr> o4_framed := fr \<rparr>))
            | Some (Ready (Inr _), fr) \<Rightarrow> write_chunks E Fr now buf (k + n buf k) b' (s \<lparr> o4_framed := fr \<rparr>)
            | Some (Panic, fr) \<Rightarrow> Some (Panic, s \<lparr> o4_framed := fr \<rparr>))
         else Some (finish_burst E (length buf) b' (s \<lparr> o4_framed := fr1 \<rparr>)))"
proof (cases "length buf - k > MAX_MESSAGE_PAYLOAD_LENGTH")
  case True
  then show ?thesis using assms(2) unfolding assms(3) n_def by (subst write_chunks.simps) (cases q; simp add: Let_def)
next
  case False
  then show ?thesis using assms(2) unfolding assms(3) n_def by (subst write_chunks.simps) (cases q; simp add: Let_def)
qed

lemma write_chunks_outcome:
  assumes "framed_ok E C Fr" "aead_ok (env_aead E)" "duplex_ok C out inp"
  shows "write_chunks E Fr now buf k b s = Some (r, s') \<Longrightarrow> k < length buf \<Longrightarrow> sent E out c0 w0 ps (o4_framed s)
    \<Longrightarrow> iat_inv (fr_io (o4_framed s)) \<Longrightarrow> write_outcome E now out inp c0 w0 ps buf k s r s'"
  using assms
proof (induction E Fr now buf k b s arbitrary: ps rule: write_chunks.induct)
  case (1 E Fr now buf k b s)
  let ?big = "length buf - k > MAX_MESSAGE_PAYLOAD_LENGTH"
  define n where "n = (if ?big then MAX_MESSAGE_PAYLOAD_LENGTH else length buf - k)"
  define p where "p = take n (drop k buf)"
  have n: "0 < n" "k + n \<le> length buf" "length p = n" "n \<le> MAX_MESSAGE_PAYLOAD_LENGTH"
    using "1.prems"(2) by (auto simp: n_def p_def const_simps)
  obtain q fr1 where snd: "sink_start_send Fr (pf_contents (payload_frame_new p)) (o4_framed s) = (q, fr1)" by force
  from start_send_wrote [OF "1.prems"(5,6,3,4) _ _ snd, of inp] n
  have w: "wrote E out inp c0 w0 ps (if q = Inr () then p else []) (o4_framed s) fr1" by simp
  define b' where "b' = b + FRAME_OVERHEAD + MESSAGE_OVERHEAD + length p"
  note eq = write_chunks_step [OF snd [unfolded p_def n_def] b'_def [unfolded p_def n_def], folded n_def]
  show ?case
  proof (cases q)
    case (Inl e)
    with "1.prems"(1) have "send_failed E k (io_of_frame e) (s \<lparr> o4_framed := fr1 \<rparr>) = (r, s')" unfolding eq by simp
    then show ?thesis using send_failed_outcome w Inl "1.prems"(2) by (metis less_imp_le sum.simps(4))
  next
    case (Inr u)
    then have w1: "wrote E out inp c0 w0 ps (take n (drop k buf)) (o4_framed s) fr1" using w by (simp add: p_def)
    show ?thesis
    proof (cases ?big)
      case False
      then have kn: "k + n = length buf" using "1.prems"(2) by (simp add: n_def)
      from False "1.prems"(1) Inr have "finish_burst E (k + n) b' (s \<lparr> o4_framed := fr1 \<rparr>) = (r, s')" unfolding eq kn by simp
      from finish_burst_outcome [OF "1.prems"(6) w1 n(2,1) this] show ?thesis .
    next
      case True
      from "1.prems"(1) True Inr obtain t fr2 where rd: "poll_ready_with_iat E Fr now fr1 = Some (t, fr2)"
        unfolding eq by (auto split: option.splits)
      note pw = poll_ready_wrote [OF "1.prems"(5,6,7) rd w1]
      consider (panic) "t = Panic" "r = Panic" | (stop) "t \<noteq> Panic" "finish_burst E (k + n) b' (s \<lparr> o4_framed := fr2 \<rparr>) = (r, s')"
        | (dead) e where "t \<noteq> Panic" "r = Ready (Inr (k + n))" "s' = set_terminal E e (s \<lparr> o4_framed := fr2 \<rparr>)"
        | (more) "t = Ready (Inr ())" "write_chunks E Fr now buf (k + n) b' (s \<lparr> o4_framed := fr2 \<rparr>) = Some (r, s')"
        using "1.prems"(1) rd True Inr unfolding eq by (cases t) (auto split: sum.splits if_splits)
      then show ?thesis
      proof cases
        case panic
        with pw(2) show ?thesis by (auto simp: write_outcome_def)
      next
        case stop
        from finish_burst_outcome [OF "1.prems"(6) pw(1) [OF stop(1)] n(2,1) stop(2)] show ?thesis .
      next
        case dead
        then show ?thesis using pw(1) n unfolding write_outcome_def by (intro conjI impI exI [of _ n]) (simp_all add: set_terminal_def)
      next
        case more
        have pw1: "wrote E out inp c0 w0 ps (take n (drop k buf)) (o4_framed s) fr2" using pw(1) more(1) by simp
        have lt: "k + n < length buf" using True by (simp add: n_def)
        have snd': "(Inr (), fr1) =
            sink_start_send Fr (pf_contents (payload_frame_new (take MAX_MESSAGE_PAYLOAD_LENGTH (drop k buf)))) (o4_framed s)"
          using snd Inr True by (simp add: p_def n_def)
        note IH = "1.IH" [OF True refl refl snd' refl refl rd refl more(1) refl]
        show ?thesis
        proof (rule write_outcome_later [OF pw1 n(1)])
          fix qs
          assume A: "sent E out c0 w0 (ps @ qs) fr2" "iat_inv (fr_io fr2)"
          show "write_outcome E now out inp c0 w0 (ps @ qs) buf (k + n) (s \<lparr> o4_framed := fr2 \<rparr>) r s'"
            using IH A more(2) lt "1.prems"(5-7) by (simp add: b'_def p_def n_def True)
        qed
      qed
    qed
  qed
qed

lemma poll_write_outcome:
  assumes "framed_ok E C Fr" "aead_ok (env_aead E)" "duplex_ok C out inp"
    and "o4_poll_write E Fr now buf s = Some (r, s')" "sent E out c0 w0 ps (o4_framed s)" "iat_inv (fr_io (o4_framed s))"
  shows "(r \<noteq> Panic \<longrightarrow> (\<exists>n. wrote E out inp c0 w0 ps (take n buf) (o4_framed s) (o4_framed s') \<and> n \<le> length buf
      \<and> (case r of Ready (Inr m) \<Rightarrow> m = n \<and> (buf = [] \<or> 0 < m) | _ \<Rightarrow> n = 0)))
    \<and> (env_works E now \<longrightarrow> r \<noteq> Panic)"
proof -
  have w0: "wrote E out inp c0 w0 ps [] (o4_framed s) (o4_framed s)" using assms(5,6) by (rule padded_wrote [OF padded_refl])
  show ?thesis
  proof (cases "buf = [] \<or> shutdown_complete s \<or> terminal_error s \<noteq> None")
    case True
    then show ?thesis using assms(4) w0
      by (intro conjI impI exI [of _ 0]) (auto simp: o4_poll_write_def split: if_splits option.splits)
  next
    case False
    then have b: "buf \<noteq> []" "\<not> shutdown_complete s" "terminal_error s = None" by auto
    with assms(4) obtain q fr1 where rd: "poll_ready_with_iat E Fr now (o4_framed s) = Some (q, fr1)"
      by (auto simp: o4_poll_write_def split: option.splits)
    note pw = poll_ready_wrote [OF assms(1-3) rd w0]
    show ?thesis
    proof (cases "q = Ready (Inr ())")
      case True
      then have wc: "write_chunks E Fr now buf 0 0 (s \<lparr> o4_framed := fr1 \<rparr>) = Some (r, s')"
        using assms(4) b rd by (simp add: o4_poll_write_def)
      have later: "write_outcome E now out inp c0 w0 (ps @ qs) buf 0 (s \<lparr> o4_framed := fr1 \<rparr>) r s'"
        if "sent E out c0 w0 (ps @ qs) fr1" "iat_inv (fr_io fr1)" for qs
        using write_chunks_outcome [OF assms(1-3) wc] that b by simp
      have w1: "wrote E out inp c0 w0 ps [] (o4_framed s) fr1" using pw(1) True by simp
      then obtain qs where qs: "sent E out c0 w0 (ps @ qs) fr1" "iat_inv (fr_io fr1)" by (auto simp: wrote_def)
      show ?thesis
      proof (cases "r = Panic")
        case True
        with later [OF qs] show ?thesis by (simp add: write_outcome_def)
      next
        case False
        define n where "n = (case r of Ready (Inr m) \<Rightarrow> m | _ \<Rightarrow> 0)"
        have o: "wrote E out inp c0 w0 (ps @ qs) (take n buf) fr1 (o4_framed s') \<and> n \<le> length buf \<and> (\<forall>m. r = Ready (Inr m) \<longrightarrow> 0 < m)"
          if "sent E out c0 w0 (ps @ qs) fr1" "iat_inv (fr_io fr1)" for qs
          using later [OF that] False by (fastforce simp: write_outcome_def n_def split: poll.splits sum.splits)
        have "wrote E out inp c0 w0 ps ([] @ take n buf) (o4_framed s) (o4_framed s')"
          by (rule wrote_trans [OF w1]) (use o in auto)
        with o [OF qs] False show ?thesis
          by (intro conjI impI exI [of _ n]) (auto simp: n_def split: poll.splits sum.splits)
      qed
    next
      case False
      then show ?thesis using assms(4) b rd pw
        by (intro conjI impI exI [of _ 0]; cases q) (auto simp: o4_poll_write_def set_terminal_def split: sum.splits if_splits)
    qed
  qed
qed

section \<open>Reading\<close>

text \<open>
  \<open>received E inp d0 ms fr\<close>: from a decoder in state \<open>d0\<close>, what the carrier has delivered so
  far amounts to the messages \<open>ms\<close> and to what the stream still holds undecoded, whatever
  comes next.
\<close>

definition received ::
  "('s, 'f) obfs4_env \<Rightarrow> ('c \<Rightarrow> bytes) \<Rightarrow> 's decoder \<Rightarrow> bytes \<Rightarrow> messages list \<Rightarrow> ('c, 'f, 's, 'p) framed \<Rightarrow> bool" where
  "received E inp d0 i0 ms fr \<longleftrightarrow>
     (\<exists>w. inp (ic_inner (fr_io fr)) = i0 @ w
        \<and> (\<forall>x. deliver (env_aead E) (env_sip E) d0 (w @ x) =
             (case deliver (env_aead E) (env_sip E) (decoder (fr_codec fr)) (fr_rbuf fr @ x) of (ms', r) \<Rightarrow> (ms @ ms', r))))"

lemma deliver_message:
  "decode_loop A sip d src = (Inr (Some m), d', src') \<Longrightarrow>
   deliver A sip d (src @ x) = (case deliver A sip d' (src' @ x) of (ms, r) \<Rightarrow> (m # ms, r))"
  by (subst deliver.simps) (simp add: decode_loop_append split: prod.splits)

lemma deliver_wait:
  assumes "decode_loop A sip d src = (Inr None, d', src')"
  shows "deliver A sip d (src @ x) = deliver A sip d' (src' @ x)"
  by (simp add: deliver.simps [of A sip d] deliver.simps [of A sip d'] decode_loop_wait [OF assms])

lemma decode_eq:
  "decode A sip c src = (r, c', rest) \<longleftrightarrow> (\<exists>d. decode_loop A sip (decoder c) src = (r, d, rest) \<and> c' = c \<lparr> decoder := d \<rparr>)"
  by (auto simp: decode_def split: prod.splits)

lemma received_message:
  assumes "received E inp d0 i0 ms fr" "decode (env_aead E) (env_sip E) (fr_codec fr) (fr_rbuf fr) = (Inr (Some m), c, rest)"
  shows "received E inp d0 i0 (ms @ [m]) (fr \<lparr> fr_codec := c, fr_rbuf := rest \<rparr>)"
  using assms by (fastforce simp: received_def decode_eq deliver_message split: prod.splits)

lemma received_wait:
  assumes "received E inp d0 i0 ms fr" "decode (env_aead E) (env_sip E) (fr_codec fr) (fr_rbuf fr) = (Inr None, c, rest)"
  shows "received E inp d0 i0 ms (fr \<lparr> fr_codec := c, fr_rbuf := rest \<rparr>)"
  using assms by (fastforce simp: received_def decode_eq deliver_wait)

lemma received_read:
  assumes "received E inp d0 i0 ms fr" "inp (ic_inner io) = inp (ic_inner (fr_io fr)) @ bs"
  shows "received E inp d0 i0 ms (fr \<lparr> fr_io := io, fr_rbuf := fr_rbuf fr @ bs \<rparr>)"
proof -
  from assms(1) obtain w where w: "inp (ic_inner (fr_io fr)) = i0 @ w"
      "\<And>x. deliver (env_aead E) (env_sip E) d0 (w @ x) =
         (case deliver (env_aead E) (env_sip E) (decoder (fr_codec fr)) (fr_rbuf fr @ x) of (ms', r) \<Rightarrow> (ms @ ms', r))"
    by (auto simp: received_def)
  then show ?thesis using assms(2) w(2) [of "bs @ x" for x] unfolding received_def by (intro exI [of _ "w @ bs"]) simp
qed

text \<open>What a read leaves alone: the encoder, the buffers of the other direction and the shape.\<close>

definition reads_only where
  "reads_only out fr fr' \<longleftrightarrow> wire out fr' = wire out fr \<and> encoder (fr_codec fr') = encoder (fr_codec fr)
     \<and> handshake_complete (fr_codec fr') = handshake_complete (fr_codec fr)
     \<and> (iat_inv (fr_io fr) \<longrightarrow> iat_inv (fr_io fr')) \<and> ic_mode (fr_io fr') = ic_mode (fr_io fr)
     \<and> pad_target (fr_io fr') = pad_target (fr_io fr)"

lemma reads_only_refl [simp]: "reads_only out fr fr"
  by (simp add: reads_only_def)

lemma reads_only_trans: "reads_only out a b \<Longrightarrow> reads_only out b c \<Longrightarrow> reads_only out a c"
  by (simp add: reads_only_def)

lemma reads_only_decode:
  "decode A sip (fr_codec fr) src = (r, c, rest) \<Longrightarrow> reads_only out fr (fr \<lparr> fr_codec := c, fr_rbuf := rest \<rparr>)"
  by (auto simp: reads_only_def decode_eq wire_def)

lemma iat_poll_read_ok:
  assumes "duplex_ok C out inp" "iat_poll_read C cap cr = (q, io)"
  shows "inp (ic_inner io) = inp (ic_inner cr) @ (case q of Ready (Inr bs) \<Rightarrow> bs | _ \<Rightarrow> [])" "out (ic_inner io) = out (ic_inner cr)"
    "io = cr \<lparr> ic_inner := ic_inner io \<rparr>"
proof -
  obtain c where c: "c_poll_read C cap (ic_inner cr) = (q, c)" "io = cr \<lparr> ic_inner := c \<rparr>"
    using assms(2) by (auto simp: iat_poll_read_def split: prod.splits)
  from assms(1) c(1) have "out c = out (ic_inner cr) \<and> inp c = (case q of Ready (Inr bs) \<Rightarrow> inp (ic_inner cr) @ bs | _ \<Rightarrow> inp (ic_inner cr))"
    unfolding duplex_ok_def by blast
  with c(2) show "inp (ic_inner io) = inp (ic_inner cr) @ (case q of Ready (Inr bs) \<Rightarrow> bs | _ \<Rightarrow> [])"
    "out (ic_inner io) = out (ic_inner cr)" "io = cr \<lparr> ic_inner := ic_inner io \<rparr>"
    by (auto split: poll.splits sum.splits)
qed

definition pulled :: "(frame_error + messages) option poll \<Rightarrow> messages list" where
  "pulled r = (case r of Ready (Some (Inr m)) \<Rightarrow> [m] | _ \<Rightarrow> [])"

lemma pulls_received:
  assumes "pulls E C fr r fr'" "duplex_ok C out inp" "received E inp d0 i0 ms fr"
  shows "reads_only out fr fr' \<and> ((\<exists>e. r = Ready (Some (Inl e))) \<or> received E inp d0 i0 (ms @ pulled r) fr')"
  using assms
proof (induction rule: pulls.induct)
  case (pulls_message fr m c rest)
  then show ?case using received_message reads_only_decode by (fastforce simp: pulled_def)
next
  case (pulls_bad fr e c rest)
  then show ?case using reads_only_decode by blast
next
  case (pulls_wait fr c rest r fr')
  then show ?case using received_wait reads_only_decode reads_only_trans by blast
next
  case (pulls_read cap fr q io r fr')
  note o = iat_poll_read_ok [OF pulls_read.prems(1) pulls_read.hyps(1)]
  have "iat_inv io = iat_inv (fr_io fr)" "ic_mode io = ic_mode (fr_io fr)" "pad_target io = pad_target (fr_io fr)"
    by (subst o(3), simp add: iat_inv_def)+
  then have "reads_only out fr (fr \<lparr> fr_io := io, fr_rbuf := fr_rbuf fr @ (case q of Ready (Inr bs) \<Rightarrow> bs | _ \<Rightarrow> []) \<rparr>)"
    using o(2) by (simp add: reads_only_def wire_def)
  with pulls_read.IH [OF pulls_read.prems(1) received_read [OF pulls_read.prems(2) o(1)]] show ?case
    by (blast intro: reads_only_trans)
next
  case (pulls_priv fr p r fr')
  then show ?case by (auto simp: reads_only_def received_def wire_def)
qed (auto simp: pulled_def)

lemma reseed_ready:
  assumes "rand_ok R" "dist_ready mx d" "0 \<le> mx" "mx < 2 ^ 31"
  shows "\<exists>d'. reseed F R sip seed d = Some d' \<and> dist_ready mx d'"
proof -
  from assms obtain d' where "reseed F R sip seed d = Some d'" "dist_ok d'" "min_value d' = min_value d" "max_value d' = max_value d"
    using reseed_ok [of R d F sip seed] by (auto simp: dist_ready_def)
  with assms(2) show ?thesis by (simp add: dist_ready_def)
qed

lemma handle_non_payload:
  assumes "env_ok E" "iat_inv (fr_io (o4_framed s))" "\<forall>b. m \<noteq> Payload b"
    and "try_handle_non_payload_message E m s = (r, s')"
  shows "r = Ready (Inr ()) \<and> read_residual s' = read_residual s \<and> reads_only out (o4_framed s) (o4_framed s')
    \<and> (received E inp d0 i0 ms (o4_framed s) \<longrightarrow> received E inp d0 i0 ms (o4_framed s'))
    \<and> o4_iat_mode s' = o4_iat_mode s"
proof (cases "\<exists>b client. m = PrngSeed b \<and> o4_session s = ClientSession client")
  case True
  then obtain b client where m: "m = PrngSeed b" "o4_session s = ClientSession client" by blast
  let ?io = "fr_io (o4_framed s)"
  have R: "rand_ok (env_rand E)" using assms(1) by (simp add: env_ok_def)
  have dr: "dist_ready 1448 (ic_length_dist ?io)" "dist_ready 100 (ic_iat_dist ?io)"
    using assms(2) by (simp_all add: iat_inv_def const_simps)
  obtain ld where ld: "reseed (env_f64 E) (env_rand E) (env_sip E) b (ic_length_dist ?io) = Some ld" "dist_ready 1448 ld"
    using reseed_ready [OF R dr(1)] by fastforce
  obtain sd where sd: "seed_try_from (take SEED_LENGTH (env_sha256 E b)) = Inr sd"
    using assms(1) by (auto simp: seed_try_from_def env_ok_def const_simps)
  obtain d where d: "reseed (env_f64 E) (env_rand E) (env_sip E) sd (ic_iat_dist ?io) = Some d" "dist_ready 100 d"
    using reseed_ready [OF R dr(2)] by fastforce
  show ?thesis using assms(4) m ld sd d assms(2)
    by (auto simp: try_handle_non_payload_message_def Let_def reads_only_def received_def wire_def iat_inv_def const_simps)
next
  case False
  then show ?thesis using assms(3,4)
    by (auto simp: try_handle_non_payload_message_def split: messages.splits session.splits)
qed

definition read_outcome where
  "read_outcome E out inp d0 i0 ms s r s' \<longleftrightarrow> reads_only out (o4_framed s) (o4_framed s') \<and> r \<noteq> Panic
     \<and> ((\<exists>e. r = Ready (Inl e)) \<or>
        (\<exists>ms'. received E inp d0 i0 (ms @ ms') (o4_framed s')
           \<and> read_residual s @ payloads ms' = (case r of Ready (Inr b) \<Rightarrow> b | _ \<Rightarrow> []) @ read_residual s'))"

lemma read_outcome_later:
  assumes "reads_only out (o4_framed s) (o4_framed s1)" "read_residual s1 = read_residual s" "payloads [m] = []"
    and "read_outcome E out inp d0 i0 (ms @ [m]) s1 r s'"
  shows "read_outcome E out inp d0 i0 ms s r s'"
proof -
  have "\<exists>ms'. received E inp d0 i0 (ms @ ms') (o4_framed s')
      \<and> read_residual s @ payloads ms' = (case r of Ready (Inr b) \<Rightarrow> b | _ \<Rightarrow> []) @ read_residual s'"
    if "received E inp d0 i0 ((ms @ [m]) @ xs) (o4_framed s')"
      "read_residual s1 @ payloads xs = (case r of Ready (Inr b) \<Rightarrow> b | _ \<Rightarrow> []) @ read_residual s'" for xs
    using that assms(2) payloads_simps(5) [of "[m]" xs] assms(3) by (intro exI [of _ "m # xs"]) simp
  with assms(1,4) show ?thesis unfolding read_outcome_def by (blast intro: reads_only_trans)
qed

lemma stash_payload_split: "stash_payload [] cap m = (o', res) \<Longrightarrow> m = o' @ res"
  by (auto simp: stash_payload_def Let_def split: if_splits)

lemma read_loop_outcome:
  fixes E :: "('s, 'f) obfs4_env" and s :: "('c, 'f, 's, 'p) o4_stream"
  assumes "read_loop E Fr now cap s = Some (r, s')" "env_ok E" "framed_ok E C Fr" "duplex_ok C out inp"
    and "iat_inv (fr_io (o4_framed s))" "read_residual s = []" "received E inp d0 i0 ms (o4_framed s)"
  shows "read_outcome E out inp d0 i0 ms s r s'"
proof -
  let ?P = "\<lambda>(E :: ('s, 'f) obfs4_env) Fr (now :: nat) (cap :: nat) (s :: ('c, 'f, 's, 'p) o4_stream) y.
    env_ok E \<longrightarrow> framed_ok E C Fr \<longrightarrow> iat_inv (fr_io (o4_framed s)) \<longrightarrow> read_residual s = []
    \<longrightarrow> (\<forall>ms. received E inp d0 i0 ms (o4_framed s) \<longrightarrow> read_outcome E out inp d0 i0 ms s (fst y) (snd y))"
  have "?P E Fr now cap s (r, s')"
  proof (rule read_loop.raw_induct [OF _ assms(1)], intro impI allI)
    fix loop and E :: "('s, 'f) obfs4_env" and Fr now cap and s :: "('c, 'f, 's, 'p) o4_stream" and y ms
    assume IH: "\<And>E Fr now cap s y. loop E Fr now cap s = Some y \<Longrightarrow> ?P E Fr now cap s y"
      and body: "(case stream_poll_next Fr now (o4_framed s) of
        (Pending, fr) \<Rightarrow> Some (Pending, s \<lparr> o4_framed := fr \<rparr>)
      | (Ready None, fr) \<Rightarrow> Some (Ready (Inr []), s \<lparr> o4_framed := fr \<rparr>)
      | (Ready (Some (Inl e)), fr) \<Rightarrow> Some (Ready (Inl (io_of_frame e)), s \<lparr> o4_framed := fr \<rparr>)
      | (Ready (Some (Inr msg)), fr) \<Rightarrow>
          (case msg of
             Payload message \<Rightarrow>
               (let (out, residual) = stash_payload (read_residual s) cap message
                in Some (Ready (Inr out), s \<lparr> o4_framed := fr, read_residual := residual \<rparr>))
           | PrngSeed _ \<Rightarrow>
               (case try_handle_non_payload_message E msg (s \<lparr> o4_framed := fr \<rparr>) of
                  (Pending, s) \<Rightarrow> Some (Pending, s)
                | (Ready (Inl e), s) \<Rightarrow> Some (Ready (Inl (io_of_obfs4 (env_os E) e)), s)
                | (Ready (Inr _), s) \<Rightarrow> loop E Fr now cap s
                | (Panic, s) \<Rightarrow> Some (Panic, s))
           | Padding _ \<Rightarrow> loop E Fr now cap (s \<lparr> o4_framed := fr \<rparr>))
      | (Panic, fr) \<Rightarrow> Some (Panic, s \<lparr> o4_framed := fr \<rparr>)) = Some y"
      and A: "env_ok E" "framed_ok E C Fr" "iat_inv (fr_io (o4_framed s))" "read_residual s = []"
        "received E inp d0 i0 ms (o4_framed s)"
    obtain q fr1 where nx: "stream_poll_next Fr now (o4_framed s) = (q, fr1)" by force
    with A(2) have pl: "q \<noteq> Panic" "pulls E C (o4_framed s) q fr1" unfolding framed_ok_def by blast+
    note pr = pulls_received [OF pl(2) assms(4) A(5)]
    show "read_outcome E out inp d0 i0 ms s (fst y) (snd y)"
    proof (cases "\<exists>m. q = Ready (Some (Inr m)) \<and> (\<forall>b. m \<noteq> Payload b)")
      case True
      then obtain m where m: "q = Ready (Some (Inr m))" "\<forall>b. m \<noteq> Payload b" by blast
      then have rc: "received E inp d0 i0 (ms @ [m]) fr1" and ro: "reads_only out (o4_framed s) fr1" "iat_inv (fr_io fr1)"
        and pm: "payloads [m] = []" using pr A(3) by (auto simp: pulled_def payloads_def reads_only_def split: messages.splits)
      obtain t s1 where h: "try_handle_non_payload_message E m (s \<lparr> o4_framed := fr1 \<rparr>) = (t, s1)" by force
      from handle_non_payload [OF A(1) _ m(2) h, of out inp d0 i0 "ms @ [m]"] rc ro
      have t: "t = Ready (Inr ())" "read_residual s1 = []" "reads_only out fr1 (o4_framed s1)"
          "received E inp d0 i0 (ms @ [m]) (o4_framed s1)" using A(4) by auto
      have go: "loop E Fr now cap s1 = Some y"
        using body nx m t(1) h by (cases m) (auto simp: try_handle_non_payload_message_def)
      have ro1: "reads_only out (o4_framed s) (o4_framed s1)" using ro(1) t(3) by (rule reads_only_trans)
      moreover have "iat_inv (fr_io (o4_framed s1))" using ro1 A(3) by (simp add: reads_only_def)
      ultimately show ?thesis using read_outcome_later [of out s s1 m E inp d0 i0 ms "fst y" "snd y"] IH [OF go] A(1,2,4) t pm
        by simp
    next
      case False
      show ?thesis
      proof (cases "\<exists>b. q = Ready (Some (Inr (Payload b)))")
        case True
        then obtain b where b: "q = Ready (Some (Inr (Payload b)))" by blast
        obtain o' res where st: "stash_payload [] cap b = (o', res)" by force
        have "fst y = Ready (Inr o')" "snd y = s \<lparr> o4_framed := fr1, read_residual := res \<rparr>"
          using body nx b st A(4) by auto
        moreover have "received E inp d0 i0 (ms @ [Payload b]) fr1" using pr b by (simp add: pulled_def)
        ultimately show ?thesis using pr stash_payload_split [OF st] A(4) unfolding read_outcome_def
          by (intro conjI disjI2 exI [of _ "[Payload b]"]) simp_all
      next
        case no: False
        then show ?thesis using False body nx pr pl(1) A(4) unfolding read_outcome_def
          by (cases q) (auto simp: pulled_def split: option.splits sum.splits messages.splits intro!: exI [of _ "[]"])
      qed
    qed
  qed
  with assms show ?thesis by simp
qed

lemma poll_read_outcome:
  assumes "o4_poll_read E Fr now cap s = Some (r, s')" "env_ok E" "framed_ok E C Fr" "duplex_ok C out inp"
    and "iat_inv (fr_io (o4_framed s))" "received E inp d0 i0 ms (o4_framed s)"
  shows "read_outcome E out inp d0 i0 ms s r s'"
proof (cases "cap = 0 \<or> read_residual s \<noteq> []")
  case True
  then have "o4_framed s' = o4_framed s" "\<exists>b. r = Ready (Inr b) \<and> read_residual s = b @ read_residual s'"
    using assms(1) by (auto simp: o4_poll_read_def drain_residual_def Let_def split: if_splits)
  with assms(6) show ?thesis unfolding read_outcome_def by (auto intro!: exI [of _ "[]"])
next
  case False
  with assms(1) have "read_loop E Fr now cap s = Some (r, s')" by (simp add: o4_poll_read_def)
  from read_loop_outcome [OF this assms(2-5) _ assms(6)] False show ?thesis by blast
qed

section \<open>Both directions at once\<close>

text \<open>
  The operations a user of the stream interleaves, each at its time. A run collects what
  the stream accepted and what it delivered; it is \<open>None\<close> when an operation does not
  return or panics, which ends the stream, or a read fails.
\<close>

datatype stream_op = Write bytes | Flush | Shutdown | Read nat

definition step_op ::
  "('s, 'f) obfs4_env \<Rightarrow> ('c, 'f, 's, 'p) framed_ops \<Rightarrow> nat \<Rightarrow> stream_op \<Rightarrow> ('c, 'f, 's, 'p) o4_stream
   \<Rightarrow> (bytes \<times> bytes \<times> ('c, 'f, 's, 'p) o4_stream) option" where
  "step_op E Fr now op s =
     (case op of
        Write buf \<Rightarrow> (case o4_poll_write E Fr now buf s of
                        Some (Ready (Inr n), s) \<Rightarrow> Some (take n buf, [], s)
                      | Some (Ready (Inl _), s) \<Rightarrow> Some ([], [], s)
                      | Some (Pending, s) \<Rightarrow> Some ([], [], s)
                      | _ \<Rightarrow> None)
      | Flush \<Rightarrow> (case o4_poll_flush E Fr now s of
                     Some (r, s) \<Rightarrow> if r = Panic then None else Some ([], [], s)
                   | None \<Rightarrow> None)
      | Shutdown \<Rightarrow> (case o4_poll_shutdown E Fr now s of
                        Some (r, s) \<Rightarrow> if r = Panic then None else Some ([], [], s)
                      | None \<Rightarrow> None)
      | Read cap \<Rightarrow> (case o4_poll_read E Fr now cap s of
                      Some (Ready (Inr b), s) \<Rightarrow> Some ([], b, s)
                    | Some (Pending, s) \<Rightarrow> Some ([], [], s)
                    | _ \<Rightarrow> None))"

fun run_ops ::
  "('s, 'f) obfs4_env \<Rightarrow> ('c, 'f, 's, 'p) framed_ops \<Rightarrow> (nat \<times> stream_op) list \<Rightarrow> ('c, 'f, 's, 'p) o4_stream
   \<Rightarrow> (bytes \<times> bytes \<times> ('c, 'f, 's, 'p) o4_stream) option" where
  "run_ops E Fr [] s = Some ([], [], s)"
| "run_ops E Fr ((now, op) # ops) s =
     (case step_op E Fr now op s of
        None \<Rightarrow> None
      | Some (acc, got, s1) \<Rightarrow>
          (case run_ops E Fr ops s1 of None \<Rightarrow> None | Some (acc', got', s2) \<Rightarrow> Some (acc @ acc', got @ got', s2)))"

text \<open>What holds of a stream that has sent packets \<open>ps\<close> and received messages \<open>ms\<close>.\<close>

definition stream_inv where
  "stream_inv E out inp c0 w0 ps d0 i0 ms s \<longleftrightarrow> iat_inv (fr_io (o4_framed s))
     \<and> sent E out c0 w0 ps (o4_framed s) \<and> received E inp d0 i0 ms (o4_framed s)"

lemma received_wrote:
  "received E inp d0 i0 ms fr \<Longrightarrow> wrote E out inp c0 w0 ps bs fr fr' \<Longrightarrow> received E inp d0 i0 ms fr'"
  by (simp add: received_def wrote_def)

lemma sent_reads_only: "sent E out c0 w0 ps fr \<Longrightarrow> reads_only out fr fr' \<Longrightarrow> sent E out c0 w0 ps fr'"
  unfolding sent_def reads_only_def by (cases "fr_codec fr"; cases "fr_codec fr'") simp

lemma wrote_stream_inv:
  assumes "stream_inv E out inp c0 w0 ps d0 i0 ms s" "wrote E out inp c0 w0 ps bs (o4_framed s) (o4_framed s')"
  shows "\<exists>qs. stream_inv E out inp c0 w0 (ps @ qs) d0 i0 ms s' \<and> payloads (visible qs) = bs"
proof -
  have "received E inp d0 i0 ms (o4_framed s')" using assms received_wrote by (auto simp: stream_inv_def)
  with assms(2) show ?thesis by (auto simp: stream_inv_def wrote_def)
qed

lemma sink_poll_wrote:
  assumes "duplex_ok C out inp" "aead_ok (env_aead E)" "sink_ok E C now op" "poll_with_iat E op fr = Some (r, fr')"
    and "sent E out c0 w0 ps fr" "iat_inv (fr_io fr)"
  shows "r \<noteq> Panic \<Longrightarrow> wrote E out inp c0 w0 ps [] fr fr'" "env_works E now \<Longrightarrow> r \<noteq> Panic"
  using poll_with_iat_padded [OF assms(4,2,1,3,5,6)] padded_wrote by blast+

lemma settle_keeps:
  "o4_framed (snd (settle E r s)) = o4_framed s" "read_residual (snd (settle E r s)) = read_residual s"
  "fst (settle E r s) = Panic \<longleftrightarrow> r = Panic"
  by (auto simp: settle_def set_terminal_def split: poll.splits sum.splits)

lemma flush_wrote:
  assumes "duplex_ok C out inp" "aead_ok (env_aead E)" "framed_ok E C Fr" "o4_poll_flush E Fr now s = Some (r, s')"
    and "sent E out c0 w0 ps (o4_framed s)" "iat_inv (fr_io (o4_framed s))"
  shows "(r \<noteq> Panic \<longrightarrow> wrote E out inp c0 w0 ps [] (o4_framed s) (o4_framed s')) \<and> read_residual s' = read_residual s
    \<and> (env_works E now \<longrightarrow> r \<noteq> Panic)"
proof -
  have ok: "sink_ok E C now (sink_poll_flush Fr now)" using assms(3) by (simp add: framed_ok_def)
  have w: "wrote E out inp c0 w0 ps [] (o4_framed s) (o4_framed s)" using assms(5,6) by (rule padded_wrote [OF padded_refl])
  show ?thesis
  proof (cases "shutdown_complete s \<or> terminal_error s \<noteq> None")
    case True
    with assms(4) w show ?thesis by (auto simp: o4_poll_flush_def split: if_splits option.splits)
  next
    case False
    with assms(4) obtain q fr' where c: "poll_with_iat E (sink_poll_flush Fr now) (o4_framed s) = Some (q, fr')"
      by (auto simp: o4_poll_flush_def poll_flush_with_iat_def)
    with False assms(4) have "(r, s') = settle E q (s \<lparr> o4_framed := fr' \<rparr>)"
      by (simp add: o4_poll_flush_def poll_flush_with_iat_def)
    then have "s' = snd (settle E q (s \<lparr> o4_framed := fr' \<rparr>))" "r = Panic \<longleftrightarrow> q = Panic" by (metis snd_conv, metis fst_conv settle_keeps(3))
    with sink_poll_wrote [OF assms(1,2) ok c assms(5,6)] show ?thesis by (simp add: settle_keeps)
  qed
qed

lemma shutdown_wrote:
  assumes "duplex_ok C out inp" "aead_ok (env_aead E)" "framed_ok E C Fr" "o4_poll_shutdown E Fr now s = Some (r, s')"
    and "sent E out c0 w0 ps (o4_framed s)" "iat_inv (fr_io (o4_framed s))"
  shows "(r \<noteq> Panic \<longrightarrow> wrote E out inp c0 w0 ps [] (o4_framed s) (o4_framed s')) \<and> read_residual s' = read_residual s
    \<and> (env_works E now \<longrightarrow> r \<noteq> Panic)"
proof -
  let ?fr = "o4_framed s \<lparr> fr_io := clear_delay (fr_io (o4_framed s)) \<rparr>"
  have ok: "sink_ok E C now (sink_poll_close Fr now)" using assms(3) by (simp add: framed_ok_def)
  have w: "wrote E out inp c0 w0 ps [] (o4_framed s) (o4_framed s)" using assms(5,6) by (rule padded_wrote [OF padded_refl])
  have "sent E out c0 w0 ps ?fr" "iat_inv (fr_io ?fr)"
    using assms(5,6) by (auto simp: sent_def wire_def clear_delay_def iat_inv_def)
  note sw = sink_poll_wrote [OF assms(1,2) ok _ this]
  have k: "wrote E out inp c0 w0 ps [] (o4_framed s) fr'" if "poll_with_iat E (sink_poll_close Fr now) ?fr = Some (q, fr')" "q \<noteq> Panic" for q fr'
    using sw(1) [OF that] by (fastforce simp: wrote_def same_shape_def clear_delay_def)
  show ?thesis
  proof (cases "shutdown_complete s \<or> terminal_error s \<noteq> None")
    case True
    with assms(4) w show ?thesis by (auto simp: o4_poll_shutdown_def split: if_splits option.splits)
  next
    case False
    with assms(4) obtain q fr' where c: "poll_with_iat E (sink_poll_close Fr now) ?fr = Some (q, fr')"
      by (auto simp: o4_poll_shutdown_def poll_close_with_iat_def Let_def)
    with False assms(4) have "q \<noteq> Panic \<and> r \<noteq> Panic \<and> s' = s \<lparr> o4_framed := fr', shutdown_complete := True \<rparr> \<or> (r, s') = settle E q (s \<lparr> o4_framed := fr' \<rparr>)"
      by (auto simp: o4_poll_shutdown_def poll_close_with_iat_def Let_def split: if_splits)
    then have "o4_framed s' = fr' \<and> read_residual s' = read_residual s \<and> (r = Panic \<longleftrightarrow> q = Panic)"
      using settle_keeps [of E q "s \<lparr> o4_framed := fr' \<rparr>"] by (auto simp: prod_eq_iff)
    with k [OF c] sw(2) [OF c] show ?thesis by simp
  qed
qed

lemma residual_kept [simp]:
  "read_residual (set_terminal E e s) = read_residual s"
  "read_residual (snd (send_failed E k e s)) = read_residual s"
  "read_residual (snd (finish_burst E n b s)) = read_residual s"
proof -
  show set: "read_residual (set_terminal E e s) = read_residual s" for e s by (simp add: set_terminal_def)
  show "read_residual (snd (send_failed E k e s)) = read_residual s" by (simp add: send_failed_def set)
  have "read_residual (snd (pad_if_shaped E b s)) = read_residual s"
    by (auto simp: pad_if_shaped_def Let_def set split: option.splits prod.splits sum.splits)
  then show "read_residual (snd (finish_burst E n b s)) = read_residual s"
    by (cases "pad_if_shaped E b s"; cases "fst (pad_if_shaped E b s)") (auto simp: finish_burst_def)
qed

lemma write_chunks_residual:
  "write_chunks E Fr now buf k b s = Some y \<Longrightarrow> read_residual (snd y) = read_residual s"
proof (induction E Fr now buf k b s rule: write_chunks.induct)
  case (1 E Fr now buf k b s)
  let ?n = "if length buf - k > MAX_MESSAGE_PAYLOAD_LENGTH then MAX_MESSAGE_PAYLOAD_LENGTH else length buf - k"
  obtain q fr1 where snd: "sink_start_send Fr (pf_contents (payload_frame_new (take ?n (drop k buf)))) (o4_framed s) = (q, fr1)"
    by force
  show ?case
  proof (cases "\<exists>u fr2. q = Inr u \<and> length buf - k > MAX_MESSAGE_PAYLOAD_LENGTH
      \<and> poll_ready_with_iat E Fr now fr1 = Some (Ready (Inr ()), fr2)")
    case True
    then obtain fr2 where c: "length buf - k > MAX_MESSAGE_PAYLOAD_LENGTH" "q = Inr ()"
        "poll_ready_with_iat E Fr now fr1 = Some (Ready (Inr ()), fr2)" by auto
    have "(Inr (), fr1) = sink_start_send Fr (pf_contents (payload_frame_new (take MAX_MESSAGE_PAYLOAD_LENGTH (drop k buf)))) (o4_framed s)"
      using snd c(1,2) by simp
    from "1.IH" [OF c(1) refl refl this refl refl c(3) refl refl refl] "1.prems" c
    show ?thesis unfolding write_chunks_step [OF snd refl] by simp
  next
    case False
    then show ?thesis using "1.prems" unfolding write_chunks_step [OF snd refl]
      by (cases q) (auto split: if_splits option.splits prod.splits poll.splits sum.splits)
  qed
qed

lemma poll_write_residual: "o4_poll_write E Fr now buf s = Some (r, s') \<Longrightarrow> read_residual s' = read_residual s"
  by (auto simp: o4_poll_write_def dest!: write_chunks_residual
      split: if_splits option.splits prod.splits poll.splits sum.splits)

lemma step_op_inv:
  assumes "framed_ok E C Fr" "env_ok E" "duplex_ok C out inp" "stream_inv E out inp c0 w0 ps d0 i0 ms s"
    and "step_op E Fr now op s = Some (acc, got, s')"
  shows "\<exists>qs ns. stream_inv E out inp c0 w0 (ps @ qs) d0 i0 (ms @ ns) s' \<and> payloads (visible qs) = acc
    \<and> read_residual s @ payloads ns = got @ read_residual s'"
proof -
  have A: "aead_ok (env_aead E)" using assms(2) by (simp add: env_ok_def)
  have inv: "sent E out c0 w0 ps (o4_framed s)" "iat_inv (fr_io (o4_framed s))" "received E inp d0 i0 ms (o4_framed s)"
    using assms(4) by (auto simp: stream_inv_def)
  have step: ?thesis if "wrote E out inp c0 w0 ps acc (o4_framed s) (o4_framed s')" "got = []" "read_residual s' = read_residual s"
    using wrote_stream_inv [OF assms(4) that(1)] that(2,3) by (metis append_Nil2 append_Nil payloads_simps(1))
  show ?thesis
  proof (cases op)
    case (Write buf)
    with assms(5) obtain r where r: "o4_poll_write E Fr now buf s = Some (r, s')" "got = []"
        "acc = (case r of Ready (Inr n) \<Rightarrow> take n buf | _ \<Rightarrow> [])" "r \<noteq> Panic"
      by (auto simp: step_op_def split: option.splits poll.splits sum.splits)
    from poll_write_outcome [OF assms(1) A assms(3) r(1) inv(1,2)] r(4) obtain n where
      "wrote E out inp c0 w0 ps (take n buf) (o4_framed s) (o4_framed s')"
      "case r of Ready (Inr m) \<Rightarrow> m = n \<and> (buf = [] \<or> 0 < m) | _ \<Rightarrow> n = 0" by blast
    moreover from this(2) have "take n buf = acc" using r(3) by (auto split: poll.splits sum.splits)
    ultimately show ?thesis using step r(2) poll_write_residual [OF r(1)] by simp
  next
    case Flush
    with assms(5) obtain r where "o4_poll_flush E Fr now s = Some (r, s')" "acc = []" "got = []" "r \<noteq> Panic"
      by (auto simp: step_op_def split: option.splits if_splits)
    with flush_wrote [OF assms(3) A assms(1) _ inv(1,2)] step show ?thesis by blast
  next
    case Shutdown
    with assms(5) obtain r where "o4_poll_shutdown E Fr now s = Some (r, s')" "acc = []" "got = []" "r \<noteq> Panic"
      by (auto simp: step_op_def split: option.splits if_splits)
    with shutdown_wrote [OF assms(3) A assms(1) _ inv(1,2)] step show ?thesis by blast
  next
    case (Read cap)
    with assms(5) obtain r where r: "o4_poll_read E Fr now cap s = Some (r, s')" "acc = []" "\<forall>e. r \<noteq> Ready (Inl e)"
        "got = (case r of Ready (Inr b) \<Rightarrow> b | _ \<Rightarrow> [])" by (auto simp: step_op_def split: option.splits poll.splits sum.splits)
    from poll_read_outcome [OF r(1) assms(2,1,3) inv(2,3)] r(3,4) obtain ns where
      "reads_only out (o4_framed s) (o4_framed s')" "received E inp d0 i0 (ms @ ns) (o4_framed s')"
      "read_residual s @ payloads ns = got @ read_residual s'" by (auto simp: read_outcome_def)
    moreover from this(1) have "sent E out c0 w0 (ps @ []) (o4_framed s')" "iat_inv (fr_io (o4_framed s'))"
      using sent_reads_only [OF inv(1)] inv(2) by (simp_all add: reads_only_def)
    ultimately show ?thesis using r(2) by (intro exI [of _ "[]"] exI [of _ ns]) (simp add: stream_inv_def)
  qed
qed

lemma run_ops_inv:
  assumes "framed_ok E C Fr" "env_ok E" "duplex_ok C out inp"
  shows "run_ops E Fr ops s = Some (acc, got, s') \<Longrightarrow> stream_inv E out inp c0 w0 ps d0 i0 ms s \<Longrightarrow>
    \<exists>qs ns. stream_inv E out inp c0 w0 (ps @ qs) d0 i0 (ms @ ns) s' \<and> payloads (visible qs) = acc
      \<and> read_residual s @ payloads ns = got @ read_residual s'"
proof (induction ops arbitrary: s acc got ps ms)
  case Nil
  then show ?case by (intro exI [of _ "[]"]) simp
next
  case (Cons a ops)
  obtain now op where a: "a = (now, op)" by force
  with Cons.prems(1) obtain a1 g1 s1 a2 g2 where st: "step_op E Fr now op s = Some (a1, g1, s1)"
      "run_ops E Fr ops s1 = Some (a2, g2, s')" "acc = a1 @ a2" "got = g1 @ g2"
    by (auto split: option.splits)
  from step_op_inv [OF assms Cons.prems(2) st(1)] obtain qs ns where
    1: "stream_inv E out inp c0 w0 (ps @ qs) d0 i0 (ms @ ns) s1" "payloads (visible qs) = a1"
      "read_residual s @ payloads ns = g1 @ read_residual s1" by blast
  from Cons.IH [OF st(2) 1(1)] obtain qs' ns' where
    2: "stream_inv E out inp c0 w0 ((ps @ qs) @ qs') d0 i0 ((ms @ ns) @ ns') s'" "payloads (visible qs') = a2"
      "read_residual s1 @ payloads ns' = g2 @ read_residual s'" by blast
  have "read_residual s @ payloads (ns @ ns') = g1 @ (read_residual s1 @ payloads ns')"
    using 1(3) by (simp flip: append_assoc)
  also have "\<dots> = got @ read_residual s'" using 2(3) st(4) by simp
  finally show ?case using 1 2 st(3) by (intro exI [of _ "qs @ qs'"] exI [of _ "ns @ ns'"]) (simp add: visible_append)
qed

section \<open>Operations return\<close>

text \<open>Outside paranoid mode no padding is ever asked for while polling, so the loops run once.\<close>

definition calm :: "('c, 'f, 's, 'p) framed \<Rightarrow> bool" where
  "calm fr \<longleftrightarrow> iat_inv (fr_io fr) \<and> ic_mode (fr_io fr) \<noteq> Paranoid \<and> pad_target (fr_io fr) = None"

lemma poll_with_iat_answers:
  assumes "op fr = (q, fr1)" "q \<noteq> Panic \<Longrightarrow> pad_target (fr_io fr1) = None"
  shows "\<exists>y. poll_with_iat E op fr = Some y"
  using assms by (subst poll_with_iat.simps) (auto simp: take_pad_target_def split: poll.splits sum.splits)

lemma poll_with_iat_returns:
  assumes "sink_ok E C now op" "duplex_ok C out inp" "calm fr"
  shows "\<exists>y. poll_with_iat E op fr = Some y"
proof -
  obtain q fr1 where op: "op fr = (q, fr1)" by force
  have "pad_target (fr_io fr1) = None" if "q \<noteq> Panic"
  proof -
    have "drains E C now fr fr1" using assms(1) op that unfolding sink_ok_def by blast
    from drains_keeps [OF this assms(2)] assms(3) show ?thesis by (auto simp: calm_def same_shape_def)
  qed
  with op show ?thesis by (rule poll_with_iat_answers)
qed

text \<open>
  In paranoid mode a poll that finds its buffer shorter than the target drawn pads the buffer
  and polls again. When the padding meets the target exactly, the whole buffer is due and no
  further target is drawn, so the next poll is the last.
\<close>

definition due :: "('c, 'f, 's, 'p) framed \<Rightarrow> bool" where
  "due fr \<longleftrightarrow> iat_inv (fr_io fr) \<and> ic_mode (fr_io fr) \<noteq> Off \<and> pad_target (fr_io fr) = None
     \<and> (fr_wbuf fr = [] \<or> scheduled_target (fr_io fr) = Some (length (fr_wbuf fr)))"

lemma iat_poll_write_due:
  assumes "carrier_ok C out" "iat_inv cr" "ic_mode cr \<noteq> Off" "pad_target cr = None" "scheduled_target cr = Some (length buf)"
    and "iat_poll_write F C rnd cm now buf cr = (r, cr')" "r \<noteq> Panic" "buf \<noteq> []"
  shows "pad_target cr' = None \<and> ic_mode cr' = ic_mode cr
    \<and> (let rest = drop (case r of Ready (Inr n) \<Rightarrow> n | _ \<Rightarrow> 0) buf in rest = [] \<or> scheduled_target cr' = Some (length rest))"
proof -
  have s: "iat_schedule F rnd (length buf) cr = (Ready (), cr)" using assms(5) by (simp add: iat_schedule_def)
  obtain r2 c2 where w: "iat_wait now cr = (r2, c2)" by force
  then have c2: "scheduled_target c2 = Some (length buf)" "pad_target c2 = None" "ic_mode c2 = ic_mode cr" "r2 \<noteq> Panic"
    using assms(4,5) by (auto simp: iat_wait_def split: if_splits)
  obtain r3 c3 where c: "c_poll_write C buf (ic_inner c2) = (r3, c3)" by force
  note co = carrier_write [OF assms(1) c]
  show ?thesis
  proof (cases "r2 = Ready () \<and> (\<exists>n. r3 = Ready (Inr n))")
    case False
    then show ?thesis using assms(6,8) s w c c2 co(1)
      by (cases r2; cases r3) (auto simp: iat_poll_write_def Let_def split: sum.splits)
  next
    case True
    then obtain n where n: "r3 = Ready (Inr n)" "r2 = Ready ()" by blast
    have le: "n \<le> length buf" using co(2) [OF n(1)] by simp
    have "length buf \<le> 1448" using assms(2,5) by (simp add: iat_inv_def const_simps)
    then have u: "usize_sub (length buf) n = length buf - n" using le by (intro usize_sub_le) simp_all
    obtain r4 c4 where a: "iat_account F rnd cm now n (c2 \<lparr> ic_inner := c3 \<rparr>) = (r4, c4)" by force
    have run: "poll_bind (r4, c4) (\<lambda>_ cr. (Ready (Inr n), cr)) = (r, cr')"
      using assms(6,8) s w c c2 n a by (simp add: iat_poll_write_def Let_def)
    then have "r4 \<noteq> Panic" using assms(7) by auto
    moreover from this have "r4 = Ready ()" using a by (auto simp: iat_account_def Let_def split: if_splits option.splits)
    ultimately show ?thesis using run a c2 u le assms(3)
      by (auto simp: iat_account_def Let_def split: if_splits option.splits)
  qed
qed

lemma drains_due:
  assumes "drains E C now fr fr'" "duplex_ok C out inp" "due fr"
  shows "due fr'"
  using assms
proof (induction rule: drains.induct)
  case (drains_write fr r io fr')
  have C: "carrier_ok C out" using drains_write.prems(1) by (simp add: duplex_ok_def)
  have inv: "iat_inv (fr_io fr)" using drains_write.prems(2) by (simp add: due_def)
  note w = iat_poll_write_ok [OF C inv drains_write.hyps(1)]
  have "due (fr \<lparr> fr_io := io, fr_wbuf := drop (case r of Ready (Inr n) \<Rightarrow> n | _ \<Rightarrow> 0) (fr_wbuf fr) \<rparr>)"
  proof (cases "fr_wbuf fr = []")
    case True
    then show ?thesis using drains_write.hyps(1) drains_write.prems(2) by (auto simp: iat_poll_write_def due_def)
  next
    case False
    then show ?thesis using iat_poll_write_due [OF C inv _ _ _ drains_write.hyps(1,2)] drains_write.prems(2) w
      by (auto simp: due_def Let_def)
  qed
  then show ?case using drains_write.IH drains_write.prems(1) by blast
next
  case (drains_flush fr r io fr')
  then have "due (fr \<lparr> fr_io := io \<rparr>)" by (auto simp: iat_poll_flush_def iat_wait_def due_def iat_inv_def split: if_splits prod.splits)
  then show ?case using drains_flush.IH drains_flush.prems(1) by blast
next
  case (drains_shutdown fr r io fr')
  then have "due (fr \<lparr> fr_io := io \<rparr>)" by (auto simp: iat_poll_shutdown_def due_def iat_inv_def split: prod.splits)
  then show ?case using drains_shutdown.IH drains_shutdown.prems(1) by blast
qed (auto simp: due_def)

lemma poll_with_iat_due:
  assumes "sink_ok E C now op" "duplex_ok C out inp" "due fr"
  shows "\<exists>y. poll_with_iat E op fr = Some y"
proof -
  obtain q fr1 where op: "op fr = (q, fr1)" by force
  have "pad_target (fr_io fr1) = None" if "q \<noteq> Panic"
  proof -
    have "drains E C now fr fr1" using assms(1) op that unfolding sink_ok_def by blast
    from drains_due [OF this assms(2,3)] show ?thesis by (simp add: due_def)
  qed
  with op show ?thesis by (rule poll_with_iat_answers)
qed

text \<open>
  One repetition of the polling loop: the operation asks for padding and gets it. \<open>pad_turns\<close>
  is the transport after a number of repetitions, \<open>None\<close> when the loop has ended before.
\<close>

definition pad_turn ::
  "('s, 'f) obfs4_env \<Rightarrow> (('c, 'f, 's, 'p) framed \<Rightarrow> (frame_error + unit) poll \<times> ('c, 'f, 's, 'p) framed)
   \<Rightarrow> ('c, 'f, 's, 'p) framed \<Rightarrow> ('c, 'f, 's, 'p) framed option" where
  "pad_turn E op fr =
     (case op fr of
        (Pending, fr) \<Rightarrow>
          (case take_pad_target (fr_io fr) of
             (None, io) \<Rightarrow> None
           | (Some target, io) \<Rightarrow>
               (case pad_burst E (length (fr_wbuf fr)) target (fr \<lparr> fr_io := io \<rparr>) of
                  (Inl e, fr) \<Rightarrow> None
                | (Inr _, fr) \<Rightarrow> Some (fr \<lparr> fr_io := padding_added (length (fr_wbuf fr)) (fr_io fr) \<rparr>)))
      | _ \<Rightarrow> None)"

fun pad_turns ::
  "('s, 'f) obfs4_env \<Rightarrow> (('c, 'f, 's, 'p) framed \<Rightarrow> (frame_error + unit) poll \<times> ('c, 'f, 's, 'p) framed)
   \<Rightarrow> nat \<Rightarrow> ('c, 'f, 's, 'p) framed \<Rightarrow> ('c, 'f, 's, 'p) framed option" where
  "pad_turns E op 0 fr = Some fr"
| "pad_turns E op (Suc k) fr = (case pad_turn E op fr of None \<Rightarrow> None | Some fr' \<Rightarrow> pad_turns E op k fr')"

text \<open>
  The only way not to return: the loop repeats for ever, and every time the padding misses
  the target it was meant to meet, so that the target is dropped and a new one drawn.
\<close>

definition misses_forever ::
  "('s, 'f) obfs4_env \<Rightarrow> (('c, 'f, 's, 'p) framed \<Rightarrow> (frame_error + unit) poll \<times> ('c, 'f, 's, 'p) framed)
   \<Rightarrow> ('c, 'f, 's, 'p) framed \<Rightarrow> bool" where
  "misses_forever E op fr \<longleftrightarrow>
     (\<forall>k. \<exists>fr'. pad_turns E op k fr = Some fr' \<and> (0 < k \<longrightarrow> fr_wbuf fr' \<noteq> [] \<and> scheduled_target (fr_io fr') = None))"

lemma poll_with_iat_None:
  assumes "poll_with_iat E op fr = None"
  shows "\<exists>fr'. pad_turn E op fr = Some fr' \<and> poll_with_iat E op fr' = None"
  using assms by (subst (asm) poll_with_iat.simps)
    (auto simp: pad_turn_def split: prod.splits poll.splits sum.splits option.splits)

lemma pad_turn_padded:
  assumes "duplex_ok C out inp" "sink_ok E C now op" "aead_ok (env_aead E)" "sent E out c0 w0 ps fr" "iat_inv (fr_io fr)"
    and "pad_turn E op fr = Some fr'"
  shows "padded E out inp c0 w0 ps fr fr'" "pad_target (fr_io fr') = None"
    "scheduled_target (fr_io fr') \<in> {None, Some (length (fr_wbuf fr'))}"
proof -
  obtain fr1 t fr3 where op: "op fr = (Pending, fr1)" and t: "pad_target (fr_io fr1) = Some t"
    and pb: "pad_burst E (length (fr_wbuf fr1)) t (fr1 \<lparr> fr_io := fr_io fr1 \<lparr> pad_target := None \<rparr> \<rparr>) = (Inr (), fr3)"
    and fr': "fr' = fr3 \<lparr> fr_io := padding_added (length (fr_wbuf fr3)) (fr_io fr3) \<rparr>"
    using assms(6) by (auto simp: pad_turn_def take_pad_target_def split: prod.splits poll.splits option.splits sum.splits)
  have st: "padded E out inp c0 w0 ps fr fr1" using sink_step [OF assms(1,2,4,5) op] by simp
  then have "t \<le> MAX_SEGMENT_LENGTH" using t by (auto simp: padded_def iat_inv_def)
  with st have p3: "padded E out inp c0 w0 ps fr fr3"
    using padded_pad_burst [OF assms(3) padded_take_target _ pb] by blast
  then show "padded E out inp c0 w0 ps fr fr'" unfolding fr' by (rule padded_padding_added)
  from padded_take_target [OF st] obtain qs where q: "sent E out c0 w0 (ps @ qs) (fr1 \<lparr> fr_io := fr_io fr1 \<lparr> pad_target := None \<rparr> \<rparr>)"
      "iat_inv (fr_io fr1 \<lparr> pad_target := None \<rparr>)" by (auto simp: padded_def)
  have "fr_io fr3 = fr_io fr1 \<lparr> pad_target := None \<rparr>"
    using pad_burst_padded [OF assms(3) \<open>t \<le> MAX_SEGMENT_LENGTH\<close> q(1) _ pb, of inp] q(2) by simp
  then show "pad_target (fr_io fr') = None" "scheduled_target (fr_io fr') \<in> {None, Some (length (fr_wbuf fr'))}"
    by (auto simp: fr' padding_added_def)
qed

lemma pad_turns_add: "pad_turns E op k fr = Some fr1 \<Longrightarrow> pad_turns E op (Suc k) fr = pad_turn E op fr1"
proof (induction k arbitrary: fr)
  case (Suc k)
  then obtain x where x: "pad_turn E op fr = Some x" "pad_turns E op k x = Some fr1" by (auto split: option.splits)
  show ?case using Suc.IH [OF x(2)] by (subst pad_turns.simps(2)) (simp only: x(1) option.case)
qed (simp split: option.splits)

lemma poll_with_iat_misses:
  assumes "duplex_ok C out inp" "sink_ok E C now op" "aead_ok (env_aead E)" "sent E out c0 w0 ps fr" "iat_inv (fr_io fr)"
    and "ic_mode (fr_io fr) \<noteq> Off" "poll_with_iat E op fr = None"
  shows "misses_forever E op fr"
proof -
  have "\<exists>fr' qs. pad_turns E op k fr = Some fr' \<and> poll_with_iat E op fr' = None \<and> sent E out c0 w0 (ps @ qs) fr' \<and> iat_inv (fr_io fr')
      \<and> ic_mode (fr_io fr') \<noteq> Off \<and> (0 < k \<longrightarrow> fr_wbuf fr' \<noteq> [] \<and> scheduled_target (fr_io fr') = None)" for k
  proof (induction k)
    case 0
    then show ?case using assms by (intro exI [of _ fr] exI [of _ "[]"]) simp
  next
    case (Suc k)
    then obtain f1 qs where f1: "pad_turns E op k fr = Some f1" "poll_with_iat E op f1 = None" "sent E out c0 w0 (ps @ qs) f1"
        "iat_inv (fr_io f1)" "ic_mode (fr_io f1) \<noteq> Off" by blast
    from poll_with_iat_None [OF f1(2)] obtain f2 where f2: "pad_turn E op f1 = Some f2" "poll_with_iat E op f2 = None" by blast
    note p = pad_turn_padded [OF assms(1-3) f1(3,4) f2(1)]
    from p(1) obtain rs where rs: "sent E out c0 w0 (ps @ qs @ rs) f2" "iat_inv (fr_io f2)" "ic_mode (fr_io f2) \<noteq> Off"
      using f1(5) by (auto simp: padded_def same_shape_def)
    have "\<not> due f2" using poll_with_iat_due [OF assms(2,1), of f2] f2(2) by auto
    then have "fr_wbuf f2 \<noteq> []" "scheduled_target (fr_io f2) = None" using p(2,3) rs(2,3) by (auto simp: due_def)
    with f2 rs pad_turns_add [OF f1(1)] show ?case by (intro exI [of _ f2] exI [of _ "qs @ rs"]) simp
  qed
  then show ?thesis unfolding misses_forever_def by blast
qed

text \<open>
  What an operation that polls through \<open>op\<close> answers at time \<open>now\<close>: it returns, and panics
  only when the generator fails or the clock is at its end; in paranoid mode it may also
  repeat one of its polls for ever.
\<close>

definition answers where
  "answers E now op s y \<longleftrightarrow>
     (case y of
        Some (r, _) \<Rightarrow> r = Panic \<longrightarrow> (\<exists>n. env_rnd E n = None) \<or> env_clock_max E < now + 10 ^ 7
      | None \<Rightarrow> ic_mode (fr_io (o4_framed s)) = Paranoid \<and> (\<exists>fr. misses_forever E op fr))"

lemma env_fails: "\<not> env_works E now \<longleftrightarrow> (\<exists>n. env_rnd E n = None) \<or> env_clock_max E < now + 10 ^ 7"
  by (auto simp: env_works_def)

lemma poll_None_misses:
  assumes "duplex_ok C out inp" "sink_ok E C now op" "aead_ok (env_aead E)" "sent E out c0 w0 ps fr" "iat_inv (fr_io fr)"
    and "poll_with_iat E op fr = None" "pad_target (fr_io fr) = None \<or> ic_mode (fr_io fr) = Paranoid"
  shows "ic_mode (fr_io fr) = Paranoid \<and> misses_forever E op fr"
proof -
  have "ic_mode (fr_io fr) = Paranoid"
    using poll_with_iat_returns [OF assms(2,1), of fr] assms(5-7) by (auto simp: calm_def)
  with poll_with_iat_misses [OF assms(1-5) _ assms(6)] show ?thesis by simp
qed

text \<open>A write that does not return is stuck in one of its polls.\<close>

lemma write_chunks_None:
  assumes "framed_ok E C Fr" "aead_ok (env_aead E)" "duplex_ok C out inp"
  shows "write_chunks E Fr now buf k b s = None \<Longrightarrow> k < length buf \<Longrightarrow> sent E out c0 w0 ps (o4_framed s) \<Longrightarrow> iat_inv (fr_io (o4_framed s))
    \<Longrightarrow> \<exists>fr qs. poll_ready_with_iat E Fr now fr = None \<and> sent E out c0 w0 (ps @ qs) fr \<and> iat_inv (fr_io fr)
          \<and> same_shape (fr_io (o4_framed s)) (fr_io fr)"
  using assms
proof (induction E Fr now buf k b s arbitrary: ps rule: write_chunks.induct)
  case (1 E Fr now buf k b s)
  let ?n = "if length buf - k > MAX_MESSAGE_PAYLOAD_LENGTH then MAX_MESSAGE_PAYLOAD_LENGTH else length buf - k"
  let ?p = "take ?n (drop k buf)"
  obtain q fr1 where snd: "sink_start_send Fr (pf_contents (payload_frame_new ?p)) (o4_framed s) = (q, fr1)" by force
  have p: "0 < length ?p" "length ?p \<le> MAX_MESSAGE_PAYLOAD_LENGTH" using "1.prems"(2) by (auto simp: const_simps)
  note w = start_send_wrote [OF "1.prems"(5,6,3,4) p snd, of inp]
  show ?case
  proof (cases "poll_ready_with_iat E Fr now fr1")
    case None
    with w show ?thesis by (auto simp: wrote_def)
  next
    case (Some y)
    obtain t fr2 where y: "y = (t, fr2)" by force
    with Some "1.prems"(1) have go: "length buf - k > MAX_MESSAGE_PAYLOAD_LENGTH" "q = Inr ()" "t = Ready (Inr ())"
        "write_chunks E Fr now buf (k + ?n) (b + FRAME_OVERHEAD + MESSAGE_OVERHEAD + length ?p) (s \<lparr> o4_framed := fr2 \<rparr>) = None"
      unfolding write_chunks_step [OF snd refl] by (auto split: sum.splits if_splits poll.splits)
    have rd: "poll_ready_with_iat E Fr now fr1 = Some (Ready (Inr ()), fr2)" using Some y go(3) by simp
    have "wrote E out inp c0 w0 ps (if q = Inr () then ?p else []) (o4_framed s) fr2"
      using poll_ready_wrote(1) [OF "1.prems"(5-7) rd w] by simp
    then obtain qs where qs: "sent E out c0 w0 (ps @ qs) fr2" "iat_inv (fr_io fr2)" "same_shape (fr_io (o4_framed s)) (fr_io fr2)"
      by (auto simp: wrote_def)
    have snd': "(Inr (), fr1) = sink_start_send Fr (pf_contents (payload_frame_new (take MAX_MESSAGE_PAYLOAD_LENGTH (drop k buf)))) (o4_framed s)"
      using snd go(1,2) by simp
    have "k + MAX_MESSAGE_PAYLOAD_LENGTH < length buf" using go(1) by linarith
    with "1.IH" [OF go(1) refl refl snd' refl refl rd refl refl refl, where ps = "ps @ qs"] go(1,4) qs "1.prems"(5-7)
    obtain fr rs where "poll_ready_with_iat E Fr now fr = None" "sent E out c0 w0 ((ps @ qs) @ rs) fr" "iat_inv (fr_io fr)"
        "same_shape (fr_io fr2) (fr_io fr)" by auto
    with same_shape_trans [OF qs(3)] show ?thesis by (intro exI [of _ fr] exI [of _ "qs @ rs"]) simp
  qed
qed

lemma o4_operations_answer:
  assumes "framed_ok E C Fr" "aead_ok (env_aead E)" "duplex_ok C out inp" "sent E out c0 w0 ps (o4_framed s)"
    and "iat_inv (fr_io (o4_framed s))" "pad_target (fr_io (o4_framed s)) = None"
  shows "answers E now (sink_poll_ready Fr now) s (o4_poll_write E Fr now buf s)"
    "answers E now (sink_poll_flush Fr now) s (o4_poll_flush E Fr now s)"
    "answers E now (sink_poll_close Fr now) s (o4_poll_shutdown E Fr now s)"
proof -
  have ok: "sink_ok E C now (sink_poll_ready Fr now)" "sink_ok E C now (sink_poll_flush Fr now)"
      "sink_ok E C now (sink_poll_close Fr now)" using assms(1) by (simp_all add: framed_ok_def)
  let ?fr = "o4_framed s"
  have stuck: "ic_mode (fr_io ?fr) = Paranoid \<and> misses_forever E (sink_poll_ready Fr now) fr"
    if "poll_ready_with_iat E Fr now fr = None" "sent E out c0 w0 (ps @ qs) fr" "iat_inv (fr_io fr)" "same_shape (fr_io ?fr) (fr_io fr)" for fr qs
  proof -
    have m: "ic_mode (fr_io fr) = ic_mode (fr_io ?fr)" "pad_target (fr_io fr) = None \<or> ic_mode (fr_io fr) = Paranoid"
      using that(4) assms(6) unfolding same_shape_def by metis+
    from poll_None_misses [OF assms(3) ok(1) assms(2) that(2,3) that(1) [unfolded poll_ready_with_iat_def] m(2)] m(1)
    show ?thesis by simp
  qed
  show "answers E now (sink_poll_ready Fr now) s (o4_poll_write E Fr now buf s)"
  proof (cases "o4_poll_write E Fr now buf s")
    case (Some y)
    obtain r s' where "y = (r, s')" by force
    with poll_write_outcome [OF assms(1-3) _ assms(4,5), of now buf r s'] Some show ?thesis
      by (auto simp: answers_def env_works_def)
  next
    case None
    have "\<exists>fr qs. poll_ready_with_iat E Fr now fr = None \<and> sent E out c0 w0 (ps @ qs) fr \<and> iat_inv (fr_io fr) \<and> same_shape (fr_io ?fr) (fr_io fr)"
    proof (cases "poll_ready_with_iat E Fr now ?fr")
      case None
      then show ?thesis using assms(4,5) by (intro exI [of _ ?fr] exI [of _ "[]"]) simp
    next
      case (Some y)
      obtain t fr where y: "y = (t, fr)" by force
      from None Some y have t: "t = Ready (Inr ())" "buf \<noteq> []" "write_chunks E Fr now buf 0 0 (s \<lparr> o4_framed := fr \<rparr>) = None"
        by (auto simp: o4_poll_write_def split: if_splits option.splits poll.splits sum.splits)
      have "wrote E out inp c0 w0 ps [] ?fr fr"
        using poll_ready_wrote(1) [OF assms(1-3) _ padded_wrote [OF padded_refl [OF assms(4,5)]]] Some y t(1) by simp
      then obtain qs where qs: "sent E out c0 w0 (ps @ qs) fr" "iat_inv (fr_io fr)" "same_shape (fr_io ?fr) (fr_io fr)"
        by (auto simp: wrote_def)
      from write_chunks_None [OF assms(1-3) t(3), of c0 w0 "ps @ qs"] t(2) qs obtain fr' rs where
        "poll_ready_with_iat E Fr now fr' = None" "sent E out c0 w0 ((ps @ qs) @ rs) fr'" "iat_inv (fr_io fr')"
        "same_shape (fr_io fr) (fr_io fr')" by auto
      with same_shape_trans [OF qs(3)] show ?thesis by (intro exI [of _ fr'] exI [of _ "qs @ rs"]) simp
    qed
    with stuck None show ?thesis by (auto simp: answers_def)
  qed
  show "answers E now (sink_poll_flush Fr now) s (o4_poll_flush E Fr now s)"
  proof (cases "o4_poll_flush E Fr now s")
    case (Some y)
    obtain r s' where "y = (r, s')" by force
    with flush_wrote [OF assms(3,2,1) _ assms(4,5), of now r s'] Some show ?thesis by (auto simp: answers_def env_works_def)
  next
    case None
    then have "poll_with_iat E (sink_poll_flush Fr now) ?fr = None"
      by (auto simp: o4_poll_flush_def poll_flush_with_iat_def split: if_splits option.splits)
    from poll_None_misses [OF assms(3) ok(2) assms(2,4,5) this] assms(6) None show ?thesis by (auto simp: answers_def)
  qed
  show "answers E now (sink_poll_close Fr now) s (o4_poll_shutdown E Fr now s)"
  proof (cases "o4_poll_shutdown E Fr now s")
    case (Some y)
    obtain r s' where "y = (r, s')" by force
    with shutdown_wrote [OF assms(3,2,1) _ assms(4,5), of now r s'] Some show ?thesis by (auto simp: answers_def env_works_def)
  next
    case None
    let ?fc = "?fr \<lparr> fr_io := clear_delay (fr_io ?fr) \<rparr>"
    from None have n: "poll_with_iat E (sink_poll_close Fr now) ?fc = None"
      by (auto simp: o4_poll_shutdown_def poll_close_with_iat_def Let_def split: if_splits option.splits)
    have "sent E out c0 w0 ps ?fc" "iat_inv (fr_io ?fc)" using assms(4,5) by (auto simp: sent_def wire_def clear_delay_def iat_inv_def)
    from poll_None_misses [OF assms(3) ok(3) assms(2) this n] assms(6) None show ?thesis by (auto simp: answers_def clear_delay_def)
  qed
qed

section \<open>A concrete environment\<close>

definition pipe_carrier :: "(bytes \<times> bytes \<times> bytes) carrier" where
  "pipe_carrier = \<lparr>
     c_poll_read = (\<lambda>cap (sent, got, next). if next = [] then (Pending, (sent, got, next))
                     else (Ready (Inr (take cap next)), (sent, got @ take cap next, drop cap next))),
     c_poll_write = (\<lambda>b (sent, got, next). (Ready (Inr (length b)), (sent @ b, got, next))),
     c_poll_flush = (\<lambda>c. (Ready (Inr ()), c)), c_poll_shutdown = (\<lambda>c. (Ready (Inr ()), c)) \<rparr>"

lemma pipe_carrier_ok: "duplex_ok pipe_carrier fst (\<lambda>c. fst (snd c))"
  by (auto simp: duplex_ok_def carrier_ok_def pipe_carrier_def split: if_splits)

definition toy_os :: os_errors where
  "toy_os = \<lparr> os_kind = (\<lambda>_. OtherKind), os_message = (\<lambda>_. []), kind_message = (\<lambda>_. []) \<rparr>"

definition toy_env :: "(bytes, rat) obfs4_env" where
  "toy_env = \<lparr> env_aead = toy_aead, env_sip = sum_hasher, env_f64 = rat_ops, env_rand = half_rand,
     env_sha256 = (\<lambda>_. replicate 32 7), env_os = toy_os, env_rnd = (\<lambda>_. Some (replicate 16 0)), env_clock_max = 10 ^ 18 \<rparr>"

lemma toy_env_ok: "env_ok toy_env"
  by (simp add: env_ok_def toy_env_def rand_ok_def half_rand_def)

text \<open>A framed transport that flushes with one write and reads once when it has no frame.\<close>

definition one_write ::
  "('s, 'f) obfs4_env \<Rightarrow> 'c carrier \<Rightarrow> nat \<Rightarrow> ('c, 'f, 's, 'p) framed \<Rightarrow> (frame_error + unit) poll \<times> ('c, 'f, 's, 'p) framed" where
  "one_write E C now fr =
     (case iat_poll_write (env_f64 E) C (env_rnd E) (env_clock_max E) now (fr_wbuf fr) (fr_io fr) of
        (r, io) \<Rightarrow>
          (case r of Pending \<Rightarrow> Pending | Panic \<Rightarrow> Panic
             | Ready (Inl e) \<Rightarrow> Ready (Inl (frame_of_io (env_os E) e)) | Ready (Inr _) \<Rightarrow> Ready (Inr ()),
           fr \<lparr> fr_io := io, fr_wbuf := drop (case r of Ready (Inr n) \<Rightarrow> n | _ \<Rightarrow> 0) (fr_wbuf fr) \<rparr>))"

definition one_read :: "('s, 'f) obfs4_env \<Rightarrow> 'c carrier \<Rightarrow> ('c, 'f, 's, 'p) framed \<Rightarrow> ('c, 'f, 's, 'p) framed" where
  "one_read E C fr =
     (case iat_poll_read C 8192 (fr_io fr) of
        (q, io) \<Rightarrow> fr \<lparr> fr_io := io, fr_rbuf := fr_rbuf fr @ (case q of Ready (Inr bs) \<Rightarrow> bs | _ \<Rightarrow> []) \<rparr>)"

definition decode_next ::
  "('s, 'f) obfs4_env \<Rightarrow> ('c, 'f, 's, 'p) framed \<Rightarrow> (frame_error + messages) option poll \<times> ('c, 'f, 's, 'p) framed" where
  "decode_next E fr =
     (case decode (env_aead E) (env_sip E) (fr_codec fr) (fr_rbuf fr) of
        (r, c, rest) \<Rightarrow>
          (case r of Inl e \<Rightarrow> Ready (Some (Inl e)) | Inr None \<Rightarrow> Pending | Inr (Some m) \<Rightarrow> Ready (Some (Inr m)),
           fr \<lparr> fr_codec := c, fr_rbuf := rest \<rparr>))"

definition simple_framed :: "('s, 'f) obfs4_env \<Rightarrow> 'c carrier \<Rightarrow> ('c, 'f, 's, unit) framed_ops" where
  "simple_framed E C = \<lparr> sink_poll_ready = (\<lambda>_ fr. (Ready (Inr ()), fr)), sink_poll_flush = one_write E C,
     sink_poll_close = one_write E C,
     sink_start_send = (\<lambda>p fr. case encode (env_aead E) (env_sip E) (fr_codec fr) p (fr_wbuf fr) of
        (r, c, w) \<Rightarrow> (r, fr \<lparr> fr_codec := c, fr_wbuf := w \<rparr>)),
     stream_poll_next = (\<lambda>_ fr. case decode_next E fr of (Pending, fr) \<Rightarrow> decode_next E (one_read E C fr) | y \<Rightarrow> y) \<rparr>"

lemma one_write_ok:
  assumes "carrier_ok C out" shows "sink_ok E C now (one_write E C now)"
proof -
  have "(r \<noteq> Panic \<longrightarrow> drains E C now fr fr') \<and> (iat_inv (fr_io fr) \<and> env_works E now \<longrightarrow> r \<noteq> Panic)"
    if run: "one_write E C now fr = (r, fr')" for fr r fr'
  proof -
    obtain q io where q: "iat_poll_write (env_f64 E) C (env_rnd E) (env_clock_max E) now (fr_wbuf fr) (fr_io fr) = (q, io)" by force
    have fr': "fr' = fr \<lparr> fr_io := io, fr_wbuf := drop (case q of Ready (Inr n) \<Rightarrow> n | _ \<Rightarrow> 0) (fr_wbuf fr) \<rparr>"
      and rq: "r = Panic \<longleftrightarrow> q = Panic"
      using run q by (auto simp: one_write_def split: poll.splits sum.splits)
    have "drains E C now fr fr'" if "r \<noteq> Panic" using drains_write [OF q _ drains_refl] that fr' rq by simp
    moreover have "r \<noteq> Panic" if "iat_inv (fr_io fr)" "env_works E now"
      using rq iat_poll_write_ok [OF assms that(1) q] that(2) by (auto simp: iat_unlucky_def env_works_def simp del: not_None_eq)
    ultimately show ?thesis by blast
  qed
  then show ?thesis unfolding sink_ok_def by blast
qed

lemma decode_next_pulls:
  assumes "decode_next E fr = (r, fr')"
  shows "r \<noteq> Panic \<and> (r \<noteq> Pending \<longrightarrow> pulls E C fr r fr') \<and> (r = Pending \<longrightarrow> (\<forall>q fr2. pulls E C fr' q fr2 \<longrightarrow> pulls E C fr q fr2))"
proof -
  obtain q c rest where d: "decode (env_aead E) (env_sip E) (fr_codec fr) (fr_rbuf fr) = (q, c, rest)" by (metis prod_cases3)
  then show ?thesis using assms pulls_message [of E fr _ c rest C] pulls_bad [of E fr _ c rest C] pulls_wait [of E fr c rest C]
    by (auto simp: decode_next_def split: sum.splits option.splits)
qed

lemma simple_framed_ok:
  fixes E :: "('s, 'f) obfs4_env" and C :: "'c carrier"
  assumes "carrier_ok C out" shows "framed_ok E C (simple_framed E C)"
proof -
  have "r \<noteq> Panic \<and> pulls E C fr r fr'" if run: "stream_poll_next (simple_framed E C) now fr = (r, fr')" for now fr r fr'
  proof -
    obtain q fr1 where d: "decode_next E fr = (q, fr1)" by force
    note p = decode_next_pulls [OF d, of C]
    show ?thesis
    proof (cases "q = Pending")
      case False
      with run d p show ?thesis by (auto simp: simple_framed_def split: poll.splits)
    next
      case True
      with run d have e: "decode_next E (one_read E C fr1) = (r, fr')" by (simp add: simple_framed_def)
      note p2 = decode_next_pulls [OF e, of C]
      have "pulls E C (one_read E C fr1) r fr'" using p2 pulls_pending [of E C fr'] by (cases "r = Pending") auto
      then have "pulls E C fr1 r fr'"
        using pulls_read [of C 8192 fr1 _ _ E r fr'] by (auto simp: one_read_def split: prod.splits)
      with p p2 True show ?thesis by blast
    qed
  qed
  moreover have "sink_ok E C now (\<lambda>fr :: ('c, 'f, 's, unit) framed. (Ready (Inr ()), fr))" for now
    by (auto simp: sink_ok_def intro: drains_refl)
  moreover have "sink_ok E C now (one_write E C now :: ('c, 'f, 's, unit) framed \<Rightarrow> _)" for now by (rule one_write_ok [OF assms])
  ultimately show ?thesis unfolding framed_ok_def by (simp add: simple_framed_def)
qed

definition toy_stream :: "iat \<Rightarrow> bytes codec \<Rightarrow> bytes \<Rightarrow> (bytes \<times> bytes \<times> bytes, rat, bytes, unit) o4_stream" where
  "toy_stream mode c next = \<lparr>
     o4_framed = \<lparr> fr_io = iat_carrier_new 0 ([], [], next) mode (flat_dist 100) (flat_dist 1448), fr_codec = c,
       fr_rbuf = [], fr_wbuf = [], fr_priv = () \<rparr>,
     o4_iat_mode = mode,
     o4_session = ServerSession \<lparr> ss_identity_keys = \<lparr> nsk_pk = \<lparr> nk_id = [], nk_pk = [] \<rparr>, nsk_sk = [] \<rparr>, ss_biased = False,
       ss_iat_mode = mode, ss_session_id = [], ss_len_seed = [], ss_iat_seed = [], ss_state = Established \<rparr>,
     read_residual = [], terminal_error = None, shutdown_complete = False \<rparr>"

lemma toy_stream_inv:
  "iat_inv (fr_io (o4_framed (toy_stream mode c next)))" "wire fst (o4_framed (toy_stream mode c next)) = []"
  "fst (snd (ic_inner (fr_io (o4_framed (toy_stream mode c next))))) = []" "fr_codec (o4_framed (toy_stream mode c next)) = c"
  "fr_rbuf (o4_framed (toy_stream mode c next)) = []" "read_residual (toy_stream mode c next) = []"
  by (simp_all add: toy_stream_def iat_carrier_new_def iat_inv_def dist_ready_def dist_ok_def flat_dist_def wire_def const_simps)

section \<open>Properties\<close>

lemma stream_inv_fresh:
  assumes "iat_inv (fr_io (o4_framed s))" "fr_rbuf (o4_framed s) = []"
  shows "stream_inv E out inp (fr_codec (o4_framed s)) (wire out (o4_framed s)) [] (decoder (fr_codec (o4_framed s)))
    (inp (ic_inner (fr_io (o4_framed s)))) [] s"
  using assms by (auto simp: stream_inv_def sent_def received_def split: prod.splits)

text \<open>
  C2. The stream is intact end to end. Two established streams, \<open>A\<close> and \<open>B\<close>, each with its
  own carrier, framing and shaping, whose cipher states match, perform any interleaving of
  writes, reads, flushes and shutdowns. If what \<open>B\<close>'s carrier delivered is a prefix of what
  \<open>A\<close>'s carrier took, then what \<open>B\<close> handed to its reader is a prefix of what \<open>A\<close> accepted
  from its writer: no byte is lost, repeated, reordered or invented, whatever the padding,
  the write sizes, the reader's buffers and the delays. When everything has arrived and \<open>B\<close>
  has no frame left to decode, what \<open>B\<close> has delivered, with the rest it keeps for the next
  read, is all that \<open>A\<close> accepted.
\<close>

theorem stream_integrity:
  assumes A: "framed_ok EA CA FrA" "env_ok EA" "duplex_ok CA outA inpA" "iat_inv (fr_io (o4_framed sA))"
    and B: "framed_ok EB CB FrB" "env_ok EB" "duplex_ok CB outB inpB" "iat_inv (fr_io (o4_framed sB))"
    and peers: "env_aead EB = env_aead EA" "env_sip EB = env_sip EA"
      "in_sync (encoder (fr_codec (o4_framed sA))) (decoder (fr_codec (o4_framed sB)))"
    and fresh: "fr_rbuf (o4_framed sB) = []" "read_residual sB = []" "fr_rbuf (o4_framed sA) = []" "fr_wbuf (o4_framed sA) = []"
    and runs: "run_ops EA FrA opsA sA = Some (accA, gotA, sA')" "run_ops EB FrB opsB sB = Some (accB, gotB, sB')"
    and net: "inpB (ic_inner (fr_io (o4_framed sB'))) = inpB (ic_inner (fr_io (o4_framed sB))) @ w"
      "outA (ic_inner (fr_io (o4_framed sA'))) = outA (ic_inner (fr_io (o4_framed sA))) @ w @ rest"
  shows "(\<exists>later. accA = gotB @ read_residual sB' @ later)
    \<and> (rest = [] \<and> fr_wbuf (o4_framed sA') = []
       \<and> fst (deliver (env_aead EB) (env_sip EB) (decoder (fr_codec (o4_framed sB'))) (fr_rbuf (o4_framed sB'))) = []
       \<longrightarrow> accA = gotB @ read_residual sB')"
proof -
  let ?c = "fr_codec (o4_framed sA)" and ?d = "decoder (fr_codec (o4_framed sB))"
  let ?D = "deliver (env_aead EA) (env_sip EA)"
  let ?o = "outA (ic_inner (fr_io (o4_framed sA)))" and ?i = "inpB (ic_inner (fr_io (o4_framed sB)))"
  from run_ops_inv [OF A(1-3) runs(1) stream_inv_fresh [OF A(4) fresh(3)]] obtain ps where
    ps: "sent EA outA ?c (wire outA (o4_framed sA)) ps (o4_framed sA')" "payloads (visible ps) = accA"
    by (auto simp: stream_inv_def)
  have w: "wire outA (o4_framed sA) = ?o" "wire outA (o4_framed sA') = ?o @ w @ rest @ fr_wbuf (o4_framed sA')"
    using fresh(4) net(2) by (simp_all add: wire_def)
  have "\<exists>d'. ?D ?d ((w @ rest @ fr_wbuf (o4_framed sA')) @ []) = (case ?D d' [] of (ms, r) \<Rightarrow> (visible ps @ ms, r))
      \<and> in_sync (encoder (fr_codec (o4_framed sA') \<lparr> decoder := decoder ?c \<rparr>)) d'"
    by (rule deliver_encoded [OF _ peers(3), of _ _ _ ?o])
      (use A(2) ps(1) w in \<open>auto simp: env_ok_def sent_def\<close>)
  then have da: "fst (?D ?d (w @ rest @ fr_wbuf (o4_framed sA'))) = visible ps" by (auto split: prod.splits)
  from run_ops_inv [OF B(1-3) runs(2) stream_inv_fresh [OF B(4) fresh(1)]] obtain ms where
    ms: "received EB inpB ?d ?i ms (o4_framed sB')" "payloads ms = gotB @ read_residual sB'"
    using fresh(2) by (auto simp: stream_inv_def)
  have db: "fst (?D ?d (w @ x)) = ms @ fst (?D (decoder (fr_codec (o4_framed sB'))) (fr_rbuf (o4_framed sB') @ x))" for x
    using ms(1) net(1) peers(1,2) by (auto simp: received_def split: prod.splits)
  have "accA = gotB @ read_residual sB' @ payloads (fst (?D (decoder (fr_codec (o4_framed sB')))
      (fr_rbuf (o4_framed sB') @ rest @ fr_wbuf (o4_framed sA'))))"
    using ps(2) da db [of "rest @ fr_wbuf (o4_framed sA')"] ms(2) by (metis append_assoc payloads_simps(5))
  then show ?thesis using peers(1,2) by auto
qed

lemma empty_read_pending:
  "run_ops toy_env (simple_framed toy_env pipe_carrier) [(0, Read 5)] (toy_stream Off wit_codec []) = Some ([], [], toy_stream Off wit_codec [])"
proof -
  let ?s = "toy_stream Off wit_codec []"
  have "decode_loop toy_aead sum_hasher wit_decoder [] = (Inr None, wit_decoder, [])"
    by (simp add: decode_loop.simps decode_turn_def decode_length_def wit_decoder_def const_simps)
  then have d: "decode_next toy_env (o4_framed ?s) = (Pending, o4_framed ?s)"
    by (simp add: decode_next_def decode_def toy_env_def toy_stream_def wit_codec_def)
  have r: "one_read toy_env pipe_carrier (o4_framed ?s) = o4_framed ?s"
    by (simp add: one_read_def toy_stream_def iat_poll_read_def iat_carrier_new_def pipe_carrier_def)
  have "read_loop toy_env (simple_framed toy_env pipe_carrier) 0 5 ?s = Some (Pending, ?s)"
    using d r by (subst read_loop.simps) (simp add: simple_framed_def)
  then show ?thesis by (simp add: step_op_def o4_poll_read_def toy_stream_inv)
qed

lemma toy_env_works: "env_works toy_env now \<longleftrightarrow> now + 10 ^ 7 \<le> 10 ^ 18"
  by (simp add: env_works_def toy_env_def)

lemma toy_run_exists:
  "\<exists>acc got s'. run_ops toy_env (simple_framed toy_env pipe_carrier) [(0, Write [1, 2, 3]), (0, Flush)] (toy_stream Off wit_codec [])
     = Some (acc, got, s')"
proof -
  let ?s = "toy_stream Off wit_codec []" and ?Fr = "simple_framed toy_env pipe_carrier"
  have C: "duplex_ok pipe_carrier fst (\<lambda>c. fst (snd c))" "carrier_ok pipe_carrier fst"
    using pipe_carrier_ok by (simp_all add: duplex_ok_def)
  note F = simple_framed_ok [OF C(2), of toy_env]
  have A: "aead_ok (env_aead toy_env)" using toy_env_ok by (simp add: env_ok_def)
  have w: "env_works toy_env 0" by (simp add: toy_env_works)
  have c: "ic_mode (fr_io (o4_framed ?s)) = Off" "pad_target (fr_io (o4_framed ?s)) = None"
    by (simp_all add: toy_stream_def iat_carrier_new_def)
  have s: "sent toy_env fst wit_codec [] [] (o4_framed ?s)" by (simp add: sent_def toy_stream_inv)
  from o4_operations_answer(1) [OF F A C(1) s toy_stream_inv(1) c(2), of 0 "[1, 2, 3]"] obtain r s1
    where r: "o4_poll_write toy_env ?Fr 0 [1, 2, 3] ?s = Some (r, s1)" by (auto simp: answers_def c split: option.splits)
  from poll_write_outcome [OF F A C(1) r s toy_stream_inv(1)] w obtain qs
    where np: "r \<noteq> Panic" and wr: "wrote toy_env fst (\<lambda>c. fst (snd c)) wit_codec [] [] qs (o4_framed ?s) (o4_framed s1)" by blast
  then obtain xs where s1: "sent toy_env fst wit_codec [] xs (o4_framed s1)" "iat_inv (fr_io (o4_framed s1))"
      "ic_mode (fr_io (o4_framed s1)) = Off" "pad_target (fr_io (o4_framed s1)) = None"
    using c by (auto simp: wrote_def same_shape_def)
  from o4_operations_answer(2) [OF F A C(1) s1(1,2,4), of 0] obtain r2 s2
    where r2: "o4_poll_flush toy_env ?Fr 0 s1 = Some (r2, s2)" by (auto simp: answers_def s1(3) split: option.splits)
  have "r2 \<noteq> Panic" using flush_wrote [OF C(1) A F r2 s1(1,2)] w by blast
  with r r2 np show ?thesis by (cases r) (auto simp: step_op_def split: sum.splits)
qed

theorem stream_integrity_witness:
  "\<exists>accA gotA sA' later. run_ops toy_env (simple_framed toy_env pipe_carrier) [(0, Write [1, 2, 3]), (0, Flush)] (toy_stream Off wit_codec [])
       = Some (accA, gotA, sA')
     \<and> run_ops toy_env (simple_framed toy_env pipe_carrier) [(0, Read 5)] (toy_stream Off wit_codec [])
       = Some ([], [], toy_stream Off wit_codec [])
     \<and> accA = [] @ read_residual (toy_stream Off wit_codec []) @ later"
proof -
  let ?s = "toy_stream Off wit_codec []" and ?Fr = "simple_framed toy_env pipe_carrier" and ?inp = "\<lambda>c. fst (snd c)"
  have C: "carrier_ok pipe_carrier fst" using pipe_carrier_ok by (simp add: duplex_ok_def)
  note F = simple_framed_ok [OF C, of toy_env]
  obtain acc got s' where run: "run_ops toy_env ?Fr [(0, Write [1, 2, 3]), (0, Flush)] ?s = Some (acc, got, s')"
    using toy_run_exists by blast
  have sync: "in_sync (encoder (fr_codec (o4_framed ?s))) (decoder (fr_codec (o4_framed ?s)))"
    by (simp add: in_sync_def toy_stream_inv wit_codec_def wit_decoder_def)
  have o: "fst (ic_inner (fr_io (o4_framed ?s))) = []" "fr_wbuf (o4_framed ?s) = []" using toy_stream_inv(2) by (simp_all add: wire_def)
  from stream_integrity [OF F toy_env_ok pipe_carrier_ok toy_stream_inv(1) F toy_env_ok pipe_carrier_ok toy_stream_inv(1)
      refl refl sync toy_stream_inv(5,6,5) o(2) run empty_read_pending, of "[]" "fst (ic_inner (fr_io (o4_framed s')))"]
  have "\<exists>later. acc = [] @ read_residual ?s @ later" by (simp add: o)
  with run empty_read_pending show ?thesis by blast
qed

text \<open>
  C16. Writing, flushing and shutting down answer, in every mode. Outside paranoid mode every
  poll of an intact stream over a framed transport that keeps its contract returns, however
  long the buffer, and its answer is no panic unless the system generator fails or the
  monotonic clock is within ten milliseconds of its end. In paranoid mode there is one other
  outcome: one of the polls is repeated for ever, and in each repetition the padding misses
  the target just drawn; a single padding that meets its target ends the loop.
\<close>

theorem stream_operations_return:
  assumes "framed_ok E C Fr" "env_ok E" "duplex_ok C out inp" "sent E out c0 w0 ps (o4_framed s)"
    and "iat_inv (fr_io (o4_framed s))" "pad_target (fr_io (o4_framed s)) = None"
  shows "(ic_mode (fr_io (o4_framed s)) \<noteq> Paranoid \<longrightarrow>
      (\<exists>r s'. o4_poll_write E Fr now buf s = Some (r, s')
         \<and> (r = Panic \<longrightarrow> (\<exists>n. env_rnd E n = None) \<or> env_clock_max E < now + 10 ^ 7))
      \<and> (\<exists>r s'. o4_poll_flush E Fr now s = Some (r, s')
         \<and> (r = Panic \<longrightarrow> (\<exists>n. env_rnd E n = None) \<or> env_clock_max E < now + 10 ^ 7))
      \<and> (\<exists>r s'. o4_poll_shutdown E Fr now s = Some (r, s')
         \<and> (r = Panic \<longrightarrow> (\<exists>n. env_rnd E n = None) \<or> env_clock_max E < now + 10 ^ 7)))
    \<and> answers E now (sink_poll_ready Fr now) s (o4_poll_write E Fr now buf s)
    \<and> answers E now (sink_poll_flush Fr now) s (o4_poll_flush E Fr now s)
    \<and> answers E now (sink_poll_close Fr now) s (o4_poll_shutdown E Fr now s)"
proof -
  have A: "aead_ok (env_aead E)" using assms(2) by (simp add: env_ok_def)
  note o = o4_operations_answer [OF assms(1) A assms(3-6), of now]
  have n: "\<exists>r s'. y = Some (r, s') \<and> (r = Panic \<longrightarrow> (\<exists>n. env_rnd E n = None) \<or> env_clock_max E < now + 10 ^ 7)"
    if "answers E now op s y" "ic_mode (fr_io (o4_framed s)) \<noteq> Paranoid" for op and y :: "('x poll \<times> 'y) option"
    using that by (cases y) (auto simp: answers_def)
  from o n [OF o(1)] n [OF o(2)] n [OF o(3)] show ?thesis by blast
qed

theorem stream_operations_return_witness:
  "\<exists>r s'. o4_poll_write toy_env (simple_framed toy_env pipe_carrier) 7 (replicate 5000 1) (toy_stream Enabled wit_codec []) = Some (r, s')
     \<and> r \<noteq> Panic"
proof -
  let ?s = "toy_stream Enabled wit_codec []"
  have C: "carrier_ok pipe_carrier fst" using pipe_carrier_ok by (simp add: duplex_ok_def)
  have m: "ic_mode (fr_io (o4_framed ?s)) = Enabled" "pad_target (fr_io (o4_framed ?s)) = None"
    by (simp_all add: toy_stream_def iat_carrier_new_def)
  have "sent toy_env fst wit_codec [] [] (o4_framed ?s)" by (simp add: sent_def toy_stream_inv)
  from stream_operations_return [OF simple_framed_ok [OF C] toy_env_ok pipe_carrier_ok this toy_stream_inv(1) m(2), of 7 "replicate 5000 1"]
  obtain r s' where r: "o4_poll_write toy_env (simple_framed toy_env pipe_carrier) 7 (replicate 5000 1) ?s = Some (r, s')"
      "r = Panic \<longrightarrow> (\<exists>n. env_rnd toy_env n = None) \<or> env_clock_max toy_env < 7 + 10 ^ 7" by (auto simp: m(1))
  moreover have "env_rnd toy_env n \<noteq> None" "\<not> env_clock_max toy_env < 7 + 10 ^ 7" for n by (simp_all add: toy_env_def)
  ultimately show ?thesis by blast
qed

text \<open>
  C35. Padding meets its target: padding a burst appends at most two frames, both invisible
  to the reader, after which the length of the burst, modulo a segment, is the target. The
  one exception is a gap of 1 to 21 bytes, too small for a frame of its own: then a full
  segment and one more frame are added, and the burst ends 21 bytes past the target.
\<close>

theorem pad_burst_target:
  assumes "aead_ok (env_aead E)" "target \<le> MAX_SEGMENT_LENGTH" "sent E out c0 w0 ps fr"
    and "pad_burst E burst target fr = (Inr (), fr')"
  shows "\<exists>qs. sent E out c0 w0 (ps @ qs) fr' \<and> visible qs = []
    \<and> length (fr_wbuf fr') \<le> length (fr_wbuf fr) + 2 * MAX_SEGMENT_LENGTH
    \<and> (burst + (length (fr_wbuf fr') - length (fr_wbuf fr))) mod MAX_SEGMENT_LENGTH =
        (let gap = (target + MAX_SEGMENT_LENGTH - burst mod MAX_SEGMENT_LENGTH) mod MAX_SEGMENT_LENGTH
         in (if 0 < gap \<and> gap \<le> HEADER_LENGTH then target + HEADER_LENGTH else target) mod MAX_SEGMENT_LENGTH)"
proof -
  let ?M = "1448 :: nat"
  define tl where "tl = burst mod ?M"
  define pad where "pad = (if target \<ge> tl then target - tl else ?M - tl + target)"
  define added where "added = (if pad = 0 then 0 else if pad > 21 then pad else ?M + pad + 21)"
  have b: "\<forall>n \<in> set (pad_lengths burst target). n \<le> MAX_MESSAGE_PAYLOAD_LENGTH" using pad_lengths_bounded [OF assms(2)] by blast
  from pad_frames_sent [OF assms(1) b assms(3)] assms(4) obtain qs where qs: "sent E out c0 w0 (ps @ qs) fr'" "visible qs = []"
      "length (fr_wbuf fr') = length (fr_wbuf fr) + sum_list (map (\<lambda>n. n + HEADER_LENGTH) (pad_lengths burst target))"
    unfolding pad_burst_def by blast
  have "sum_list (map (\<lambda>n. n + HEADER_LENGTH) (pad_lengths burst target)) = added"
    by (simp add: pad_lengths_def Let_def added_def pad_def tl_def const_simps)
      (intro impI, use mod_less_divisor [of ?M burst] in linarith)
  with qs(3) have len: "length (fr_wbuf fr') = length (fr_wbuf fr) + added" by simp
  have tl: "tl < ?M" by (simp add: tl_def)
  have t: "target \<le> ?M" using assms(2) by (simp add: const_simps)
  have gap: "(target + ?M - tl) mod ?M = pad mod ?M"
    using tl t by (auto simp: pad_def mod_if)
  have "(tl + added) mod ?M = (if 0 < pad mod ?M \<and> pad mod ?M \<le> 21 then target + 21 else target) mod ?M"
    using tl t by (auto simp: added_def pad_def mod_if)
  then have "(burst + added) mod ?M = (if 0 < pad mod ?M \<and> pad mod ?M \<le> 21 then target + 21 else target) mod ?M"
    unfolding tl_def by (simp only: mod_add_left_eq)
  moreover have "added \<le> 2 * ?M" using tl t by (auto simp: added_def pad_def)
  ultimately show ?thesis using qs(1,2) len gap
    by (intro exI [of _ qs]) (simp add: const_simps Let_def flip: tl_def)
qed

theorem pad_burst_target_witness:
  "\<exists>fr' qs. pad_burst toy_env 100 50 (o4_framed (toy_stream Off wit_codec [])) = (Inr (), fr')
     \<and> sent toy_env fst wit_codec [] qs fr' \<and> visible qs = [] \<and> (100 + length (fr_wbuf fr')) mod 1448 = 50"
proof -
  let ?fr = "o4_framed (toy_stream Off wit_codec [])"
  have A: "aead_ok (env_aead toy_env)" using toy_env_ok by (simp add: env_ok_def)
  have s: "sent toy_env fst wit_codec [] [] ?fr" by (simp add: sent_def toy_stream_inv)
  have pl: "pad_lengths 100 50 = [1377]" by (simp add: pad_lengths_def const_simps)
  have l: "length (pd_contents (padding_frame_new 1377)) \<le> MAX_FRAME_PAYLOAD_LENGTH"
    using padding_packet [of 1377] by (simp add: const_simps)
  have "counter (e_nonce (encoder wit_codec)) \<noteq> - 1" by (simp add: wit_codec_def)
  from encode_total [OF A l this, of "env_sip toy_env" "[]"] obtain x where
    "encode (env_aead toy_env) (env_sip toy_env) wit_codec (pd_contents (padding_frame_new 1377)) []
       = (Inr (), encoder_next (env_sip toy_env) wit_codec, [] @ x)" by blast
  then obtain fr' where pb: "pad_burst toy_env 100 50 ?fr = (Inr (), fr')" by (simp add: pad_burst_def pl toy_stream_inv)
  have "fr_wbuf ?fr = []" using toy_stream_inv(2) by (simp add: wire_def)
  with pad_burst_target [OF A _ s pb] pb show ?thesis by (auto simp: const_simps)
qed

lemma write_chunks_error:
  "write_chunks E Fr now buf k b s = Some (Ready (Inl e), s') \<Longrightarrow>
   terminal_error s' = Some (sio_from_error (env_os E) e) \<and> shutdown_complete s' = shutdown_complete s"
proof (induction E Fr now buf k b s rule: write_chunks.induct)
  case (1 E Fr now buf k b s)
  let ?n = "if length buf - k > MAX_MESSAGE_PAYLOAD_LENGTH then MAX_MESSAGE_PAYLOAD_LENGTH else length buf - k"
  obtain q fr1 where snd: "sink_start_send Fr (pf_contents (payload_frame_new (take ?n (drop k buf)))) (o4_framed s) = (q, fr1)"
    by force
  have fb: "fst (finish_burst E n c t) \<noteq> Ready (Inl e)" for n c and t :: "('a, 'b, 'c, 'd) o4_stream"
    by (cases "pad_if_shaped E c t"; cases "fst (pad_if_shaped E c t)") (auto simp: finish_burst_def)
  show ?case
  proof (cases "\<exists>u fr2. q = Inr u \<and> length buf - k > MAX_MESSAGE_PAYLOAD_LENGTH
      \<and> poll_ready_with_iat E Fr now fr1 = Some (Ready (Inr ()), fr2)")
    case True
    then obtain fr2 where c: "length buf - k > MAX_MESSAGE_PAYLOAD_LENGTH" "q = Inr ()"
        "poll_ready_with_iat E Fr now fr1 = Some (Ready (Inr ()), fr2)" by auto
    have "(Inr (), fr1) = sink_start_send Fr (pf_contents (payload_frame_new (take MAX_MESSAGE_PAYLOAD_LENGTH (drop k buf)))) (o4_framed s)"
      using snd c(1,2) by simp
    from "1.IH" [OF c(1) refl refl this refl refl c(3) refl refl refl] "1.prems" c
    show ?thesis unfolding write_chunks_step [OF snd refl] by simp
  next
    case False
    then show ?thesis using "1.prems" fb unfolding write_chunks_step [OF snd refl]
      by (cases q) (auto simp: send_failed_def set_terminal_def split: if_splits option.splits prod.splits poll.splits sum.splits
          dest: arg_cong [of _ _ fst])
  qed
qed

text \<open>
  C36. A failed write is final and says so again: when a write on an open stream reports an
  error, every later write of at least one byte, every flush and every shutdown reports an
  error of the same kind, operating-system code and message, and none of them touches the
  stream.
\<close>

theorem failed_write_is_final:
  assumes "o4_poll_write E Fr now buf s = Some (Ready (Inl e), s')" "\<not> shutdown_complete s"
  shows "\<exists>e'. io_kind (env_os E) e' = io_kind (env_os E) e \<and> io_raw_os_error e' = io_raw_os_error e
    \<and> io_display (env_os E) e' = io_display (env_os E) e
    \<and> (\<forall>now' buf'. buf' \<noteq> [] \<longrightarrow> o4_poll_write E Fr now' buf' s' = Some (Ready (Inl e'), s'))
    \<and> (\<forall>now'. o4_poll_flush E Fr now' s' = Some (Ready (Inl e'), s'))
    \<and> (\<forall>now'. o4_poll_shutdown E Fr now' s' = Some (Ready (Inl e'), s'))"
proof -
  have b: "buf \<noteq> []" using assms(1) by (auto simp: o4_poll_write_def)
  obtain t where t: "terminal_error s' = Some t" "\<not> shutdown_complete s'"
      "t = sio_from_error (env_os E) e \<or> e = sio_into_error t"
  proof (cases "terminal_error s")
    case (Some t)
    with assms b show thesis by (intro that [of t]) (auto simp: o4_poll_write_def)
  next
    case None
    with assms b have "terminal_error s' = Some (sio_from_error (env_os E) e) \<and> \<not> shutdown_complete s'"
      by (auto simp: o4_poll_write_def set_terminal_def dest!: write_chunks_error
          split: option.splits prod.splits poll.splits sum.splits if_splits)
    with that show thesis by blast
  qed
  have "io_kind (env_os E) (sio_into_error t) = io_kind (env_os E) e" "io_raw_os_error (sio_into_error t) = io_raw_os_error e"
      "io_display (env_os E) (sio_into_error t) = io_display (env_os E) e"
    using t(3) sio_roundtrip by auto
  with t(1,2) show ?thesis
    by (intro exI [of _ "sio_into_error t"]) (auto simp: o4_poll_write_def o4_poll_flush_def o4_poll_shutdown_def)
qed

definition broken_stream :: "(bytes \<times> bytes \<times> bytes, rat, bytes, unit) o4_stream" where
  "broken_stream = set_terminal toy_env (IoOs 32) (toy_stream Off wit_codec [])"

theorem failed_write_is_final_witness:
  "o4_poll_write toy_env (simple_framed toy_env pipe_carrier) 3 [1] broken_stream = Some (Ready (Inl (IoOs 32)), broken_stream)
   \<and> (\<exists>e'. io_raw_os_error e' = Some 32
      \<and> (\<forall>now'. o4_poll_flush toy_env (simple_framed toy_env pipe_carrier) now' broken_stream = Some (Ready (Inl e'), broken_stream)))"
proof -
  have "o4_poll_write toy_env (simple_framed toy_env pipe_carrier) 3 [1] broken_stream = Some (Ready (Inl (IoOs 32)), broken_stream)"
    by (simp add: o4_poll_write_def broken_stream_def set_terminal_def sio_from_error_def sio_into_error_def toy_stream_def)
  moreover from failed_write_is_final [OF this] have "\<exists>e'. io_raw_os_error e' = Some 32
      \<and> (\<forall>now'. o4_poll_flush toy_env (simple_framed toy_env pipe_carrier) now' broken_stream = Some (Ready (Inl e'), broken_stream))"
    by (auto simp: broken_stream_def set_terminal_def toy_stream_def)
  ultimately show ?thesis by blast
qed

end
