(* ===== verification/Establish.thy ===== *)
theory Establish
  imports Stream
begin

text \<open>
  Establishing a session: the asynchronous half of \<^verbatim>\<open>crates/obfs4/src/sessions.rs\<close>
  (\<^verbatim>\<open>ClientSession::handshake\<close>, \<^verbatim>\<open>ServerSession::handshake\<close> and the two \<^verbatim>\<open>complete_handshake\<close>
  loops) and \<^verbatim>\<open>common/skip.rs\<close>.

  A future is a function of the instants at which the executor polls it: it takes the list
  of these instants, the current one first, and the state of the carrier, and returns its
  answer with the instants that are left, or \<open>Pending\<close> when they run out. The time at any
  point of a run is the head of that list. \<^verbatim>\<open>tokio\<close>'s \<^verbatim>\<open>read\<close>, \<^verbatim>\<open>write_all\<close>, \<^verbatim>\<open>shutdown\<close> and
  \<^verbatim>\<open>copy\<close> into a sink are the record \<open>async_ops\<close>; \<open>async_ok\<close> is what they document.
  A deadline is documented to poll the future before it looks at the clock.
\<close>

section \<open>Futures over a carrier\<close>

type_synonym ('a, 'c) future = "nat list \<Rightarrow> 'c \<Rightarrow> 'a poll \<times> 'c \<times> nat list"

record 'c async_ops =
  a_read :: "nat \<Rightarrow> (io_error + bytes, 'c) future"
  a_write_all :: "bytes \<Rightarrow> (io_error + unit, 'c) future"
  a_shutdown :: "(io_error + unit, 'c) future"
  a_copy_sink :: "(io_error + unit, 'c) future"

text \<open>Awaiting a fallible operation with \<^verbatim>\<open>?\<close>.\<close>

fun await ::
  "(io_error + 'a) poll \<times> 'c \<times> nat list \<Rightarrow> ('a \<Rightarrow> (obfs4_error + 'b, 'c) future)
   \<Rightarrow> (obfs4_error + 'b) poll \<times> 'c \<times> nat list" where
  "await (Pending, c, ts) f = (Pending, c, ts)"
| "await (Panic, c, ts) f = (Panic, c, ts)"
| "await (Ready (Inl e), c, ts) f = (Ready (Inl (IOError e)), c, ts)"
| "await (Ready (Inr x), c, ts) f = f x ts c"

definition timeout_at :: "nat \<Rightarrow> ('a, 'c) future \<Rightarrow> ('a option, 'c) future" where
  "timeout_at dl fut ts c =
     (let early = takeWhile (\<lambda>t. t < dl) ts; late = dropWhile (\<lambda>t. t < dl) ts in
      case fut (early @ take 1 late) c of
        (Ready x, c, ts') \<Rightarrow> (Ready (Some x), c, ts' @ drop 1 late)
      | (Panic, c, ts') \<Rightarrow> (Panic, c, ts' @ drop 1 late)
      | (Pending, c, _) \<Rightarrow> if late = [] then (Pending, c, []) else (Ready None, c, late))"

section \<open>Discarding\<close>

definition discard :: "'c async_ops \<Rightarrow> nat \<Rightarrow> (obfs4_error + unit, 'c) future" where
  "discard A d ts c =
     (case timeout_at (hd ts + d) (a_copy_sink A) ts c of
        (Ready (Some r), c, ts) \<Rightarrow> (Ready (case r of Inl e \<Rightarrow> Inl (IOError e) | Inr _ \<Rightarrow> Inr ()), c, ts)
      | (Ready None, c, ts) \<Rightarrow> await (a_shutdown A ts c) (\<lambda>_ ts c. (Ready (Inr ()), c, ts))
      | (Panic, c, ts) \<Rightarrow> (Panic, c, ts)
      | (Pending, c, ts) \<Rightarrow> (Pending, c, ts))"

text \<open>Both loops give up on a peer in the same way: read on until the deadline, close, report.\<close>

definition reject :: "'c async_ops \<Rightarrow> nat option \<Rightarrow> obfs4_error \<Rightarrow> (obfs4_error + 'b, 'c) future" where
  "reject A dl e ts c =
     (let (r, c, ts) =
        (case dl of
           Some d \<Rightarrow> if d > hd ts then discard A (d - hd ts) ts c else (Ready (Inr ()), c, ts)
         | None \<Rightarrow> (Ready (Inr ()), c, ts))
      in case r of
           Ready (Inr _) \<Rightarrow> await (a_shutdown A ts c) (\<lambda>_ ts c. (Ready (Inl e), c, ts))
         | Ready (Inl e') \<Rightarrow> (Ready (Inl e'), c, ts)
         | Panic \<Rightarrow> (Panic, c, ts)
         | Pending \<Rightarrow> (Pending, c, ts))"

section \<open>The client\<close>

definition CLIENT_HANDSHAKE_TIMEOUT :: nat where "CLIENT_HANDSHAKE_TIMEOUT = 60 * 10 ^ 9"
definition SERVER_HANDSHAKE_TIMEOUT :: nat where "SERVER_HANDSHAKE_TIMEOUT = 60 * 10 ^ 9"

text \<open>What the handshake takes of the primitives, and the draws and clocks of one run.\<close>

record 's handshake_env =
  hs_kdfs :: kdfs
  hs_curve :: curve
  hs_aead :: aead
  hs_sip :: "'s siphasher"

record client_draws =
  cd_key :: "nat \<Rightarrow> bytes \<times> u8"
  cd_pad :: "nat \<Rightarrow> bytes option"
  cd_pad_len :: nat
  cd_unix :: int
  cd_reply_pad :: "nat \<Rightarrow> nat"

text \<open>
  \<open>buf\<close> is \<^verbatim>\<open>buf[..filled]\<close>. A read that returns more than it was asked for would be out of
  the buffer's bounds.
\<close>

function client_read_loop ::
  "'s handshake_env \<Rightarrow> client_draws \<Rightarrow> 'c async_ops \<Rightarrow> nat option \<Rightarrow> ntor_state \<Rightarrow> bytes
   \<Rightarrow> (obfs4_error + bytes \<times> 's keygen, 'c) future" where
  "client_read_loop H D A dl state buf ts c =
     await (a_read A (MAX_HANDSHAKE_LENGTH - length buf) ts c) (\<lambda>bs ts c.
       if bs = [] then (Ready (Inl (IOError (IoCustom UnexpectedEof ''read 0B in client handshake''))), c, ts)
       else if length bs > MAX_HANDSHAKE_LENGTH - length buf then (Panic, c, ts)
       else let buf = buf @ bs in
         case client_handshake2 (hs_kdfs H) (hs_curve H) (hs_sip H) (cd_reply_pad D (length buf)) buf state of
           None \<Rightarrow> (Panic, c, ts)
         | Some (Inr (kg, rest)) \<Rightarrow> (Ready (Inr (rest, kg)), c, ts)
         | Some (Inl e) \<Rightarrow>
             if e = HandshakeErr REAgain then
               (if length buf = MAX_HANDSHAKE_LENGTH
                then await (a_shutdown A ts c) (\<lambda>_ ts c. (Ready (Inl (HandshakeErr BadServerHandshake)), c, ts))
                else client_read_loop H D A dl state buf ts c)
             else reject A dl e ts c)"
  by pat_completeness auto
termination
  by (relation "measure (\<lambda>(_, _, _, _, _, buf, _). MAX_HANDSHAKE_LENGTH - length buf)")
    (auto simp: neq_Nil_conv)

declare client_read_loop.simps [simp del]

definition client_complete_handshake ::
  "'s handshake_env \<Rightarrow> client_draws \<Rightarrow> 'c async_ops \<Rightarrow> client_materials \<Rightarrow> nat option \<Rightarrow> ephemeral_secret option
   \<Rightarrow> (obfs4_error + bytes \<times> 's keygen, 'c) future" where
  "client_complete_handshake H D A materials dl pre_ephem ts c =
     (case (case pre_ephem of
              Some ephem \<Rightarrow> map_option Inr
                (client_handshake_no_keygen (hs_kdfs H) (hs_curve H) (cd_pad D) (cd_unix D) ephem materials)
            | None \<Rightarrow> client_handshake (hs_kdfs H) (hs_curve H) (cd_key D) (cd_pad D) (cd_unix D) materials) of
        None \<Rightarrow> (Panic, c, ts)
      | Some (Inl e) \<Rightarrow> (Ready (Inl e), c, ts)
      | Some (Inr (state, chs_message)) \<Rightarrow>
          await (a_write_all A chs_message ts c) (\<lambda>_ ts c. client_read_loop H D A dl state [] ts c))"

text \<open>
  The stream that is returned owns the carrier; it is returned beside it too. The failed
  session is dropped, as in the code. The default deadline is computed even when one is given,
  and panics when the clock cannot represent it.
\<close>

definition client_session_handshake ::
  "('s, 'f) obfs4_env \<Rightarrow> 's handshake_env \<Rightarrow> client_draws \<Rightarrow> 'c async_ops \<Rightarrow> (bytes \<Rightarrow> string) \<Rightarrow> 'p
   \<Rightarrow> initialized client_session \<Rightarrow> nat option \<Rightarrow> ephemeral_secret option
   \<Rightarrow> (obfs4_error + ('c, 'f, 's, 'p) o4_stream, 'c) future" where
  "client_session_handshake E H D A col priv s dl pre_ephem ts c =
     (let session = client_transition ClientHandshaking s;
          materials = client_materials_new (cd_pad_len D) (cs_node_pubkey session) (client_session_id col session);
          complete = client_complete_handshake H D A materials dl pre_ephem
      in case instant_checked_add (env_clock_max E) (hd ts) CLIENT_HANDSHAKE_TIMEOUT of
           None \<Rightarrow> (Panic, c, ts)
         | Some d_def \<Rightarrow>
         (case timeout_at (case dl of Some d \<Rightarrow> d | None \<Rightarrow> d_def) complete ts c of
           (Pending, c, ts) \<Rightarrow> (Pending, c, ts)
         | (Panic, c, ts) \<Rightarrow> (Panic, c, ts)
         | (Ready (Some (Inl e)), c, ts) \<Rightarrow>
             let _ = client_fault (HandshakeFailed
                   (client_session_id col session @ '' handshake failed '' @ obfs4_error_display (env_os E) e)) session
             in (Ready (Inl e), c, ts)
         | (Ready None, c, ts) \<Rightarrow>
             let _ = client_fault (HandshakeFailed (client_session_id col session @ '' timed out'')) session
             in (Ready (Inl HandshakeTimeout), c, ts)
         | (Ready (Some (Inr (remainder, keygen))), c, ts) \<Rightarrow>
             let session = client_set_session_id (kg_session_id keygen) session;
                 session_state = client_transition Established session;
                 codec = set_handshake_complete (kg_codec keygen)
             in case o4_new E (hd ts) priv c codec (ClientSession session_state) remainder of
                  None \<Rightarrow> (Panic, c, ts)
                | Some r \<Rightarrow> (Ready r, c, ts)))"

section \<open>The server\<close>

text \<open>The draws of the server, by the number of bytes it holds when it makes the attempt.\<close>

record server_draws =
  sd_key :: "nat \<Rightarrow> nat \<Rightarrow> bytes \<times> u8"
  sd_pad :: "nat \<Rightarrow> nat \<Rightarrow> bytes option"
  sd_pad_len :: "nat \<Rightarrow> nat"
  sd_unix :: "nat \<Rightarrow> int"

function server_read_loop ::
  "'s handshake_env \<Rightarrow> server_draws \<Rightarrow> 'c async_ops \<Rightarrow> nat option \<Rightarrow> server_materials \<Rightarrow> bytes
   \<Rightarrow> (obfs4_error + 's keygen, 'c \<times> inner_replay_filter) future" where
  "server_read_loop H D A dl materials buf ts cf =
     (let (c, f) = cf; with_f = (\<lambda>f (r, c, ts). (r, (c, f), ts)) in
      case a_read A (MAX_HANDSHAKE_LENGTH - length buf) ts c of
        (Pending, c, ts) \<Rightarrow> (Pending, (c, f), ts)
      | (Panic, c, ts) \<Rightarrow> (Panic, (c, f), ts)
      | (Ready (Inl e), c, ts) \<Rightarrow> (Ready (Inl (IOError e)), (c, f), ts)
      | (Ready (Inr bs), c, ts) \<Rightarrow>
          if bs = [] then
            with_f f (await (a_shutdown A ts c) (\<lambda>_ ts c. (Ready (Inl (IOError (IoSimple UnexpectedEof))), c, ts)))
          else if length bs > MAX_HANDSHAKE_LENGTH - length buf then (Panic, (c, f), ts)
          else let buf = buf @ bs; n = length buf in
            case server_entry (hs_kdfs H) (hs_curve H) (hs_aead H) (hs_sip H) (sd_key D n) (sd_pad D n) (sd_pad_len D n)
                   (sd_unix D n) (hd ts) (Some ()) [materials] buf f of
              None \<Rightarrow> (Panic, (c, f), ts)
            | Some (Inr (keygen, response), f) \<Rightarrow>
                with_f f (await (a_write_all A response ts c) (\<lambda>_ ts c. (Ready (Inr keygen), c, ts)))
            | Some (Inl e, f) \<Rightarrow>
                if e = REAgain then
                  (if n = MAX_HANDSHAKE_LENGTH
                   then with_f f (await (a_shutdown A ts c) (\<lambda>_ ts c. (Ready (Inl (HandshakeErr BadClientHandshake)), c, ts)))
                   else server_read_loop H D A dl materials buf ts (c, f))
                else with_f f (reject A dl (HandshakeErr e) ts c))"
  by pat_completeness auto
termination
  by (relation "measure (\<lambda>(_, _, _, _, _, buf, _). MAX_HANDSHAKE_LENGTH - length buf)")
    (auto simp: neq_Nil_conv)

declare server_read_loop.simps [simp del]

definition server_complete_handshake ::
  "'s handshake_env \<Rightarrow> server_draws \<Rightarrow> 'c async_ops \<Rightarrow> server_materials \<Rightarrow> nat option
   \<Rightarrow> (obfs4_error + 's keygen, 'c \<times> inner_replay_filter) future" where
  "server_complete_handshake H D A materials dl = server_read_loop H D A dl materials []"

definition server_session_handshake ::
  "('s, 'f) obfs4_env \<Rightarrow> 's handshake_env \<Rightarrow> server_draws \<Rightarrow> 'c async_ops \<Rightarrow> (bytes \<Rightarrow> string) \<Rightarrow> 'p
   \<Rightarrow> initialized server_session \<Rightarrow> nat option
   \<Rightarrow> (obfs4_error + ('c, 'f, 's, 'p) o4_stream, 'c \<times> inner_replay_filter) future" where
  "server_session_handshake E H D A col priv s dl ts cf =
     (let session = server_transition ServerHandshaking s;
          materials = server_materials_new (ss_identity_keys session) (server_session_id col session) (ss_len_seed session);
          complete = server_complete_handshake H D A materials dl
      in case instant_checked_add (env_clock_max E) (hd ts) SERVER_HANDSHAKE_TIMEOUT of
           None \<Rightarrow> (Panic, cf, ts)
         | Some d_def \<Rightarrow>
         (case timeout_at (case dl of Some d \<Rightarrow> d | None \<Rightarrow> d_def) complete ts cf of
           (Pending, cf, ts) \<Rightarrow> (Pending, cf, ts)
         | (Panic, cf, ts) \<Rightarrow> (Panic, cf, ts)
         | (Ready (Some (Inl e)), cf, ts) \<Rightarrow>
             let _ = server_fault (HandshakeFailed
                   (server_session_id col session @ '' handshake failed '' @ obfs4_error_display (env_os E) e)) session
             in (Ready (Inl e), cf, ts)
         | (Ready None, cf, ts) \<Rightarrow>
             let _ = server_fault (HandshakeFailed (server_session_id col session @ '' timed out'')) session
             in (Ready (Inl HandshakeTimeout), cf, ts)
         | (Ready (Some (Inr keygen)), cf, ts) \<Rightarrow>
             let session = server_set_session_id (kg_session_id keygen) session;
                 codec = set_handshake_complete (kg_codec keygen);
                 session_state = server_transition Established session
             in case o4_new E (hd ts) priv (fst cf) codec (ServerSession session_state) [] of
                  None \<Rightarrow> (Panic, cf, ts)
                | Some r \<Rightarrow> (Ready r, cf, ts)))"

section \<open>The contract of the asynchronous operations\<close>

text \<open>
  \<open>out\<close> and \<open>inp\<close> are what the carrier has taken and delivered so far, \<open>shut\<close> that this side
  has closed it, \<open>eof\<close> that the peer has. An operation that answers does so at one of the
  instants given, and one that does not has waited for all of them. \<^verbatim>\<open>copy\<close> ends with a
  success only at the end of the input.
\<close>

definition on_time :: "'a poll \<Rightarrow> nat list \<Rightarrow> nat list \<Rightarrow> bool" where
  "on_time r ts ts' \<longleftrightarrow> (if r = Pending then ts' = [] else ts' \<noteq> [] \<and> (\<exists>us. ts = us @ ts'))"

definition async_ok ::
  "'c async_ops \<Rightarrow> ('c \<Rightarrow> bytes) \<Rightarrow> ('c \<Rightarrow> bytes) \<Rightarrow> ('c \<Rightarrow> bool) \<Rightarrow> ('c \<Rightarrow> bool) \<Rightarrow> bool" where
  "async_ok A out inp shut eof \<longleftrightarrow>
     (\<forall>cap ts c r c' ts'. a_read A cap ts c = (r, c', ts') \<longrightarrow> r \<noteq> Panic \<and> on_time r ts ts' \<and> out c' = out c \<and> shut c' = shut c
        \<and> inp c' = inp c @ (case r of Ready (Inr bs) \<Rightarrow> bs | _ \<Rightarrow> [])
        \<and> (case r of Ready (Inr bs) \<Rightarrow> length bs \<le> cap \<and> (bs = [] \<and> 0 < cap \<longrightarrow> eof c') | _ \<Rightarrow> True))
   \<and> (\<forall>buf ts c r c' ts'. a_write_all A buf ts c = (r, c', ts') \<longrightarrow> r \<noteq> Panic \<and> on_time r ts ts' \<and> inp c' = inp c \<and> shut c' = shut c
        \<and> (\<exists>n. out c' = out c @ take n buf) \<and> (r = Ready (Inr ()) \<longrightarrow> out c' = out c @ buf))
   \<and> (\<forall>ts c r c' ts'. a_shutdown A ts c = (r, c', ts') \<longrightarrow> r \<noteq> Panic \<and> on_time r ts ts' \<and> out c' = out c \<and> inp c' = inp c
        \<and> (shut c \<longrightarrow> shut c') \<and> (eof c \<longrightarrow> eof c') \<and> (r = Ready (Inr ()) \<longrightarrow> shut c'))
   \<and> (\<forall>ts c r c' ts'. a_copy_sink A ts c = (r, c', ts') \<longrightarrow> r \<noteq> Panic \<and> on_time r ts ts' \<and> out c' = out c \<and> shut c' = shut c
        \<and> (\<exists>bs. inp c' = inp c @ bs) \<and> (r = Ready (Inr ()) \<longrightarrow> eof c'))"

lemma async_read:
  assumes "async_ok A out inp shut eof" "a_read A cap ts c = (r, c', ts')"
  shows "on_time r ts ts'" "out c' = out c" "shut c' = shut c"
    "inp c' = inp c @ (case r of Ready (Inr bs) \<Rightarrow> bs | _ \<Rightarrow> [])"
    "r = Ready (Inr bs) \<Longrightarrow> length bs \<le> cap" "r = Ready (Inr []) \<Longrightarrow> 0 < cap \<Longrightarrow> eof c'" "r \<noteq> Panic"
proof -
  have "r \<noteq> Panic \<and> on_time r ts ts' \<and> out c' = out c \<and> shut c' = shut c
        \<and> inp c' = inp c @ (case r of Ready (Inr bs) \<Rightarrow> bs | _ \<Rightarrow> [])
        \<and> (case r of Ready (Inr bs) \<Rightarrow> length bs \<le> cap \<and> (bs = [] \<and> 0 < cap \<longrightarrow> eof c') | _ \<Rightarrow> True)"
    using assms(1) [unfolded async_ok_def, THEN conjunct1, rule_format, OF assms(2)] .
  then show "on_time r ts ts'" "out c' = out c" "shut c' = shut c"
    "inp c' = inp c @ (case r of Ready (Inr bs) \<Rightarrow> bs | _ \<Rightarrow> [])"
    "r = Ready (Inr bs) \<Longrightarrow> length bs \<le> cap" "r = Ready (Inr []) \<Longrightarrow> 0 < cap \<Longrightarrow> eof c'" "r \<noteq> Panic" by auto
qed

lemma async_write:
  assumes "async_ok A out inp shut eof" "a_write_all A buf ts c = (r, c', ts')"
  shows "on_time r ts ts'" "inp c' = inp c" "shut c' = shut c" "\<exists>n. out c' = out c @ take n buf"
    "r = Ready (Inr ()) \<Longrightarrow> out c' = out c @ buf" "r \<noteq> Panic"
  using assms(1) [unfolded async_ok_def, THEN conjunct2, THEN conjunct1, rule_format, OF assms(2)] by auto

lemma async_shutdown:
  assumes "async_ok A out inp shut eof" "a_shutdown A ts c = (r, c', ts')"
  shows "on_time r ts ts'" "out c' = out c" "inp c' = inp c" "shut c \<Longrightarrow> shut c'" "eof c \<Longrightarrow> eof c'"
    "r = Ready (Inr ()) \<Longrightarrow> shut c'" "r \<noteq> Panic"
  using assms(1) [unfolded async_ok_def, THEN conjunct2, THEN conjunct2, THEN conjunct1, rule_format, OF assms(2)] by auto

lemma async_copy:
  assumes "async_ok A out inp shut eof" "a_copy_sink A ts c = (r, c', ts')"
  shows "on_time r ts ts'" "out c' = out c" "shut c' = shut c" "\<exists>bs. inp c' = inp c @ bs" "r = Ready (Inr ()) \<Longrightarrow> eof c'"
    "r \<noteq> Panic"
  using assms(1) [unfolded async_ok_def, THEN conjunct2, THEN conjunct2, THEN conjunct2, rule_format, OF assms(2)] by auto

text \<open>The carrier hands over exactly \<open>w\<close>, in non-empty pieces of any sizes.\<close>

inductive delivers :: "'c async_ops \<Rightarrow> bytes \<Rightarrow> nat list \<Rightarrow> 'c \<Rightarrow> bool" for A where
  delivers_done: "delivers A [] ts c"
| delivers_more: "(\<And>cap. 0 < cap \<Longrightarrow> \<exists>bs u c' ts'. a_read A cap ts c = (Ready (Inr bs), c', ts') \<and> bs \<noteq> []
      \<and> length bs \<le> cap \<and> w = bs @ u \<and> delivers A u ts' c') \<Longrightarrow> delivers A w ts c"

lemma delivers_read:
  assumes "delivers A w ts c" "w \<noteq> []" "0 < cap"
  obtains bs u c' ts' where "a_read A cap ts c = (Ready (Inr bs), c', ts')" "bs \<noteq> []" "length bs \<le> cap" "w = bs @ u"
    "delivers A u ts' c'"
  using assms(1)
proof cases
  case delivers_more
  from this [OF assms(3)] that show thesis by blast
qed (use assms(2) in simp)

section \<open>The client and the pieces it reads\<close>

lemma take_drop_append: "j + n \<le> length xs \<Longrightarrow> take n (drop j (xs @ ys)) = take n (drop j xs)"
  by simp

lemma server_hello_append:
  assumes "try_parse_server_hello K d msg st = r" "r \<noteq> Inl (HandshakeErr REAgain)" "length (msg @ x) \<le> MAX_HANDSHAKE_LENGTH"
  shows "try_parse_server_hello K d' (msg @ x) st =
    (case r of Inl e \<Rightarrow> Inl e | Inr (sh, n) \<Rightarrow> Inr (sh \<lparr> sh_pad_len := d' \<rparr>, n))"
    "r = Inr (sh, n) \<Longrightarrow> n \<le> length msg \<and> sh_pubkey sh = None"
proof -
  let ?mark = "take MARK_LENGTH (hmac K (mac_key (cm_node_pubkey (st_materials st))) (take REPRESENTATIVE_LENGTH msg))"
  let ?s = "REPRESENTATIVE_LENGTH + AUTHCODE_LENGTH + SERVER_MIN_PAD_LENGTH"
  have len: "\<not> length msg < 96" using assms(1,2) by (auto simp: try_parse_server_hello_def const_simps)
  obtain p where p: "find_mac_mark ?mark msg ?s MAX_HANDSHAKE_LENGTH False = Some p"
    using assms len by (cases "find_mac_mark ?mark msg ?s MAX_HANDSHAKE_LENGTH False")
      (simp_all add: try_parse_server_hello_def Let_def const_simps)
  then have p': "64 \<le> p" "p + 32 \<le> length msg" "p + 32 \<le> 8192" "take 16 (drop p msg) = ?mark"
    "\<forall>j. 64 \<le> j \<and> j < p \<longrightarrow> take 16 (drop j msg) \<noteq> ?mark"
    unfolding find_mac_mark_search by (simp_all add: const_simps)
  have q: "find_mac_mark ?mark (msg @ x) ?s MAX_HANDSHAKE_LENGTH False = Some p"
    unfolding find_mac_mark_search using p' by (simp add: const_simps)
  have t: "take REPRESENTATIVE_LENGTH (msg @ x) = take REPRESENTATIVE_LENGTH msg"
    "take AUTHCODE_LENGTH (drop REPRESENTATIVE_LENGTH (msg @ x)) = take AUTHCODE_LENGTH (drop REPRESENTATIVE_LENGTH msg)"
    "take (p + MARK_LENGTH) (msg @ x) = take (p + MARK_LENGTH) msg"
    "take MAC_LENGTH (drop (p + MARK_LENGTH) (msg @ x)) = take MAC_LENGTH (drop (p + MARK_LENGTH) msg)"
    using p' by (simp_all add: const_simps)
  have l: "\<not> length msg < SERVER_MIN_HANDSHAKE_LENGTH" "\<not> length (msg @ x) < SERVER_MIN_HANDSHAKE_LENGTH"
    using len by (simp_all add: const_simps)
  show "try_parse_server_hello K d' (msg @ x) st =
    (case r of Inl e \<Rightarrow> Inl e | Inr (sh, n) \<Rightarrow> Inr (sh \<lparr> sh_pad_len := d' \<rparr>, n))"
    unfolding assms(1) [symmetric] try_parse_server_hello_def Let_def t(1,2) if_not_P [OF l(1)] if_not_P [OF l(2)] p q option.case t(3,4)
    by (simp add: server_hello_new_def)
  show "r = Inr (sh, n) \<Longrightarrow> n \<le> length msg \<and> sh_pubkey sh = None"
    unfolding assms(1) [symmetric] try_parse_server_hello_def Let_def if_not_P [OF l(1)] p option.case
    using p' by (auto simp: const_simps server_hello_new_def split: if_splits)
qed

text \<open>
  An answer other than "more data" is final: more bytes do not change it, and a success
  leaves them in the remainder.
\<close>

lemma client_handshake2_append:
  assumes "client_handshake2 K V sip d msg st = r" "r \<noteq> Some (Inl (HandshakeErr REAgain))"
    "length (msg @ x) \<le> MAX_HANDSHAKE_LENGTH"
  shows "client_handshake2 K V sip d' (msg @ x) st =
    map_option (\<lambda>q. case q of Inl e \<Rightarrow> Inl e | Inr (kg, rest) \<Rightarrow> Inr (kg, rest @ x)) r"
proof -
  obtain q where q: "try_parse_server_hello K d msg st = q" by blast
  have n: "q \<noteq> Inl (HandshakeErr REAgain)" using assms(1,2) q by (auto simp: client_handshake2_def)
  note a = server_hello_append [OF q n assms(3)]
  show ?thesis
  proof (cases q)
    case (Inl e)
    with q a(1) [of d'] assms(1) show ?thesis by (auto simp: client_handshake2_def)
  next
    case (Inr y)
    obtain sh m where y: "y = (sh, m)" by force
    have pk: "server_pubkey V (sh \<lparr> sh_pad_len := d' \<rparr>) =
        (fst (server_pubkey V sh), snd (server_pubkey V sh) \<lparr> sh_pad_len := d' \<rparr>)"
      using a(2) Inr y by (simp add: server_pubkey_def Let_def)
    have m: "m \<le> length msg" using a(2) Inr y by blast
    show ?thesis unfolding assms(1) [symmetric] client_handshake2_def q a(1) Inr y sum.case prod.case pk
      using m by (auto simp: Let_def split: prod.splits option.splits)
  qed
qed

lemma client_handshake2_draw:
  assumes "client_handshake2 K V sip d msg st = Some (Inl (HandshakeErr REAgain))" "length msg \<le> MAX_HANDSHAKE_LENGTH"
  shows "client_handshake2 K V sip d' msg st = Some (Inl (HandshakeErr REAgain))"
proof (rule ccontr)
  assume ne: "\<not> ?thesis"
  from assms(2) have "length (msg @ []) \<le> MAX_HANDSHAKE_LENGTH" by simp
  from client_handshake2_append [OF refl ne this, of d] assms(1) ne show False
    by (cases "client_handshake2 K V sip d' msg st") (auto split: sum.splits)
qed

lemma client_handshake2_empty: "client_handshake2 K V sip d [] st = Some (Inl (HandshakeErr REAgain))"
  by (simp add: client_handshake2_def try_parse_server_hello_def const_simps)

text \<open>How the loop ends, as a function of the answer to the whole stream of bytes.\<close>

definition client_verdict ::
  "'c async_ops \<Rightarrow> ('c \<Rightarrow> bytes) \<Rightarrow> nat option \<Rightarrow> bytes \<Rightarrow> 'c \<Rightarrow> obfs4_error + 's keygen \<times> bytes
   \<Rightarrow> (obfs4_error + bytes \<times> 's keygen) poll \<times> 'c \<times> nat list \<Rightarrow> bool" where
  "client_verdict A inp dl w c r run \<longleftrightarrow>
     (\<exists>v u c' ts'. w = v @ u \<and> inp c' = inp c @ v \<and> delivers A u ts' c'
        \<and> (case r of Inr (kg, rest) \<Rightarrow> \<exists>rest'. rest = rest' @ u \<and> run = (Ready (Inr (rest', kg)), c', ts')
           | Inl e \<Rightarrow> run = reject A dl e ts' c'))"

lemma client_verdict_later:
  assumes "client_verdict A inp dl u c1 r run" "inp c1 = inp c @ bs"
  shows "client_verdict A inp dl (bs @ u) c r run"
proof -
  from assms(1) obtain v z c' ts' where "u = v @ z" "inp c' = inp c1 @ v" "delivers A z ts' c'"
    "case r of Inr (kg, rest) \<Rightarrow> \<exists>rest'. rest = rest' @ z \<and> run = (Ready (Inr (rest', kg)), c', ts') | Inl e \<Rightarrow> run = reject A dl e ts' c'"
    unfolding client_verdict_def by blast
  with assms(2) show ?thesis unfolding client_verdict_def
    by (intro exI [of _ "bs @ v"] exI [of _ z] exI [of _ c'] exI [of _ ts']) simp
qed

lemma client_loop_decides:
  assumes "delivers A w ts c" "client_handshake2 (hs_kdfs H) (hs_curve H) (hs_sip H) d (buf @ w) st = Some r"
    "r \<noteq> Inl (HandshakeErr REAgain)" "length (buf @ w) \<le> MAX_HANDSHAKE_LENGTH"
    "client_handshake2 (hs_kdfs H) (hs_curve H) (hs_sip H) d0 buf st = Some (Inl (HandshakeErr REAgain))"
    and A: "async_ok A out inp shut eof"
  shows "client_verdict A inp dl w c r (client_read_loop H D A dl st buf ts c)"
  using assms(1-5)
proof (induction arbitrary: buf d0)
  case (delivers_done ts c)
  then show ?case using client_handshake2_draw [OF delivers_done.prems(4), of d] by simp
next
  case (delivers_more ts c w)
  let ?c2 = "client_handshake2 (hs_kdfs H) (hs_curve H) (hs_sip H)"
  have "w \<noteq> []" using delivers_more.IH [of 1] by auto
  then have cap: "0 < MAX_HANDSHAKE_LENGTH - length buf" using delivers_more.prems(3) by (cases w) auto
  from delivers_more.IH [OF cap] obtain bs u c' ts' where
    rd: "a_read A (MAX_HANDSHAKE_LENGTH - length buf) ts c = (Ready (Inr bs), c', ts')"
    and bs: "bs \<noteq> []" "length bs \<le> MAX_HANDSHAKE_LENGTH - length buf" and w: "w = bs @ u" and u: "delivers A u ts' c'"
    and IH: "\<And>buf d0. ?c2 d (buf @ u) st = Some r \<Longrightarrow> r \<noteq> Inl (HandshakeErr REAgain)
        \<Longrightarrow> length (buf @ u) \<le> MAX_HANDSHAKE_LENGTH \<Longrightarrow> ?c2 d0 buf st = Some (Inl (HandshakeErr REAgain))
        \<Longrightarrow> client_verdict A inp dl u c' r (client_read_loop H D A dl st buf ts' c')" by blast
  have inp: "inp c' = inp c @ bs" using async_read(4) [OF A rd] by simp
  note len = delivers_more.prems(3) [unfolded w, folded append_assoc]
  note r = delivers_more.prems(1) [unfolded w, folded append_assoc]
  let ?d = "cd_reply_pad D (length (buf @ bs))"
  show ?case
  proof (cases "?c2 ?d (buf @ bs) st = Some (Inl (HandshakeErr REAgain))")
    case True
    have "u \<noteq> []" using client_handshake2_draw [OF True, of d] r delivers_more.prems(2) len by auto
    then have "length (buf @ bs) \<noteq> MAX_HANDSHAKE_LENGTH" using len by (cases u) auto
    then show ?thesis using client_verdict_later [where bs = bs, OF IH [OF r delivers_more.prems(2) len True] inp] True rd bs
      unfolding w by (subst client_read_loop.simps) (simp add: Let_def)
  next
    case False
    from client_handshake2_append [OF refl False len, of d] r
    obtain q where q: "?c2 ?d (buf @ bs) st = Some q" "r = (case q of Inl e \<Rightarrow> Inl e | Inr (kg, rest) \<Rightarrow> Inr (kg, rest @ u))"
      by auto
    with False have ne: "q \<noteq> Inl (HandshakeErr REAgain)" by simp
    have "client_read_loop H D A dl st buf ts c =
        (case q of Inl e \<Rightarrow> reject A dl e ts' c' | Inr (kg, rest) \<Rightarrow> (Ready (Inr (rest, kg)), c', ts'))"
      using rd bs q(1) ne by (subst client_read_loop.simps) (auto simp: Let_def split: sum.splits)
    with q(2) u inp show ?thesis unfolding client_verdict_def w
      by (intro exI [of _ bs] exI [of _ u] exI [of _ c'] exI [of _ ts']) (auto split: sum.splits)
  qed
qed

section \<open>The server and the pieces it reads\<close>

text \<open>Until the mark stands right before the last 16 bytes, the server waits and its filter is untouched.\<close>

definition mark_at_tail :: "kdfs \<Rightarrow> bytes \<Rightarrow> bytes \<Rightarrow> bool" where
  "mark_at_tail K key buf \<longleftrightarrow> 141 \<le> length buf
     \<and> take 16 (drop (length buf - 32) buf) = hello_mark K key (take 32 buf)"

text \<open>At every attempt the generator yields a key pair and the system clock is past 1970.\<close>

definition draws_keys :: "curve \<Rightarrow> server_draws \<Rightarrow> bool" where
  "draws_keys V D \<longleftrightarrow> (\<forall>n. (\<exists>sk. ephemeral_from_rng V (sd_key D n) = Inr sk) \<and> 0 \<le> sd_unix D n)"

lemma server_entry_keygen:
  assumes "ephemeral_from_rng V krng = Inr sk"
  shows "server_entry K V A sip krng rng pd secs now (Some ()) [m] buf f =
    server_handshake_no_keygen K V A sip rng pd secs now sk buf m f"
  using assms by (simp add: server_entry_def server_handshake_def)

lemma server_entry_waits:
  assumes "ephemeral_from_rng V krng = Inr sk" "length buf \<le> MAX_HANDSHAKE_LENGTH" "\<not> mark_at_tail K (get_hmac_key m) buf" "0 \<le> secs"
  shows "server_entry K V A sip krng rng pd secs now (Some ()) [m] buf f = Some (Inl REAgain, f)"
proof (cases "length buf < 64")
  case True
  then show ?thesis unfolding server_entry_keygen [OF assms(1)] by (simp add: server_handshake_no_keygen_def const_simps)
next
  case False
  have "find_mac_mark (take MARK_LENGTH (hmac K (get_hmac_key m) (take REPRESENTATIVE_LENGTH buf))) buf
      (REPRESENTATIVE_LENGTH + CLIENT_MIN_PAD_LENGTH) MAX_HANDSHAKE_LENGTH True = None" (is "?f = _")
  proof (rule ccontr)
    assume "?f \<noteq> None"
    then obtain p where "?f = Some p" by blast
    then have "109 \<le> p" "p = length buf - 32" "take 16 (drop p buf) = hello_mark K (get_hmac_key m) (take 32 buf)"
      using assms(2) unfolding find_mac_mark_tail hello_mark_def by (auto simp: const_simps)
    then show False using assms(3) by (auto simp: mark_at_tail_def)
  qed
  then have "try_parse_client_handshake K sip secs now buf m f = Some (Inl (HandshakeErr REAgain), f)"
    using False assms(2,4) by (simp add: try_parse_client_handshake_def try_parse_client_handshake_at_def get_epoch_hour_def Let_def const_simps)
  with False show ?thesis unfolding server_entry_keygen [OF assms(1)] by (simp add: server_handshake_no_keygen_def const_simps)
qed

text \<open>One turn of the server's loop, after a read of \<open>bs\<close>.\<close>

definition server_attempt where
  "server_attempt H D m n now buf f =
     server_entry (hs_kdfs H) (hs_curve H) (hs_aead H) (hs_sip H) (sd_key D n) (sd_pad D n) (sd_pad_len D n)
       (sd_unix D n) now (Some ()) [m] buf f"

lemma server_loop_waits:
  assumes "a_read A (MAX_HANDSHAKE_LENGTH - length buf) ts c = (Ready (Inr bs), c', ts')" "bs \<noteq> []"
    "length (buf @ bs) < MAX_HANDSHAKE_LENGTH" "draws_keys (hs_curve H) D" "\<not> mark_at_tail (hs_kdfs H) (get_hmac_key m) (buf @ bs)"
  shows "server_read_loop H D A dl m buf ts (c, f) = server_read_loop H D A dl m (buf @ bs) ts' (c', f)"
proof -
  from assms(4) obtain sk where k: "ephemeral_from_rng (hs_curve H) (sd_key D (length (buf @ bs))) = Inr sk"
    and u: "0 \<le> sd_unix D (length (buf @ bs))" unfolding draws_keys_def by blast
  from server_entry_waits [OF k _ assms(5) u] assms(3)
  have "server_attempt H D m (length (buf @ bs)) (hd ts') (buf @ bs) f = Some (Inl REAgain, f)"
    unfolding server_attempt_def by simp
  moreover have "\<not> MAX_HANDSHAKE_LENGTH - length buf < length bs" using assms(3) by simp
  ultimately show ?thesis using assms(1-3) unfolding server_attempt_def by (subst server_read_loop.simps) (simp add: Let_def)
qed

text \<open>The run reads exactly \<open>w\<close>, then answers the accepted hello \<open>full\<close> at one of the instants.\<close>

definition answers_hello where
  "answers_hello H D A out inp shut m full f ts c w run \<longleftrightarrow>
     (\<exists>c' ts' kg resp f'. ts' \<noteq> [] \<and> set ts' \<subseteq> set ts \<and> out c' = out c \<and> inp c' = inp c @ w \<and> shut c' = shut c
        \<and> server_attempt H D m (length full) (hd ts') full f = Some (Inr (kg, resp), f')
        \<and> run = (case await (a_write_all A resp ts' c') (\<lambda>_ ts c. (Ready (Inr kg), c, ts)) of (r, c, ts) \<Rightarrow> (r, (c, f'), ts)))"

lemma answers_hello_later:
  assumes "answers_hello H D A out inp shut m full f ts1 c1 u run" "set ts1 \<subseteq> set ts" "out c1 = out c" "inp c1 = inp c @ bs"
    "shut c1 = shut c"
  shows "answers_hello H D A out inp shut m full f ts c (bs @ u) run"
proof -
  from assms(1) obtain c' ts' kg resp f' where "ts' \<noteq> []" "set ts' \<subseteq> set ts1" "out c' = out c1" "inp c' = inp c1 @ u" "shut c' = shut c1"
    "server_attempt H D m (length full) (hd ts') full f = Some (Inr (kg, resp), f')"
    "run = (case await (a_write_all A resp ts' c') (\<lambda>_ ts c. (Ready (Inr kg), c, ts)) of (r, c, ts) \<Rightarrow> (r, (c, f'), ts))"
    unfolding answers_hello_def by blast
  with assms(2-5) show ?thesis unfolding answers_hello_def
    by (intro exI [of _ c'] exI [of _ ts'] exI [of _ kg] exI [of _ resp] exI [of _ f']) auto
qed

lemma server_loop_accepts:
  fixes shut :: "'c \<Rightarrow> bool" and H :: "'s handshake_env"
  assumes "delivers A w ts c" "w \<noteq> []" "async_ok A out inp shut eof" "draws_keys (hs_curve H) D"
    and "length (buf @ w) \<le> MAX_HANDSHAKE_LENGTH"
    and "\<forall>v u. w = v @ u \<and> u \<noteq> [] \<longrightarrow> \<not> mark_at_tail (hs_kdfs H) (get_hmac_key m) (buf @ v)"
    and "\<forall>now \<in> set ts. \<exists>kg resp f'. server_attempt H D m (length (buf @ w)) now (buf @ w) f = Some (Inr (kg, resp), f')"
  shows "answers_hello H D A out inp shut m (buf @ w) f ts c w (server_read_loop H D A dl m buf ts (c, f))"
  using assms(1,2,5-7)
proof (induction arbitrary: buf)
  case (delivers_done ts c)
  then show ?case by simp
next
  case (delivers_more ts c w)
  let ?go = "\<lambda>buf u ts. \<forall>now \<in> set ts. \<exists>kg resp f'. server_attempt H D m (length (buf @ u)) now (buf @ u) f = Some (Inr (kg, resp), f')"
  let ?no = "\<lambda>buf w. \<forall>v u. w = v @ u \<and> u \<noteq> [] \<longrightarrow> \<not> mark_at_tail (hs_kdfs H) (get_hmac_key m) (buf @ v)"
  from \<open>w \<noteq> []\<close> have cap: "0 < MAX_HANDSHAKE_LENGTH - length buf" using delivers_more.prems(2) by (cases w) auto
  from delivers_more.IH [OF cap] obtain bs u c1 ts1 where
    rd: "a_read A (MAX_HANDSHAKE_LENGTH - length buf) ts c = (Ready (Inr bs), c1, ts1)"
    and bs: "bs \<noteq> []" "length bs \<le> MAX_HANDSHAKE_LENGTH - length buf" and w: "w = bs @ u"
    and IH: "\<And>buf. u \<noteq> [] \<Longrightarrow> length (buf @ u) \<le> MAX_HANDSHAKE_LENGTH \<Longrightarrow> ?no buf u \<Longrightarrow> ?go buf u ts1 \<Longrightarrow>
        answers_hello H D A out inp shut m (buf @ u) f ts1 c1 u (server_read_loop H D A dl m buf ts1 (c1, f))" by blast
  have t1: "ts1 \<noteq> []" "set ts1 \<subseteq> set ts" "out c1 = out c" "inp c1 = inp c @ bs" "shut c1 = shut c"
    using async_read [OF assms(3) rd] by (auto simp: on_time_def)
  show ?case
  proof (cases "u = []")
    case True
    have "hd ts1 \<in> set ts" using t1(1,2) by (cases ts1) auto
    with delivers_more.prems(4) obtain kg resp f' where
      at: "server_attempt H D m (length (buf @ w)) (hd ts1) (buf @ w) f = Some (Inr (kg, resp), f')" by blast
    then have "server_read_loop H D A dl m buf ts (c, f) =
        (case await (a_write_all A resp ts1 c1) (\<lambda>_ ts c. (Ready (Inr kg), c, ts)) of (r, c, ts) \<Rightarrow> (r, (c, f'), ts))"
      using rd bs unfolding w True server_attempt_def by (subst server_read_loop.simps) (simp add: Let_def)
    with at t1 show ?thesis unfolding answers_hello_def w True
      by (intro exI [of _ c1] exI [of _ ts1] exI [of _ kg] exI [of _ resp] exI [of _ f']) simp
  next
    case False
    have "?no (buf @ bs) u" using delivers_more.prems(3) w by (metis append_assoc)
    moreover have "?go (buf @ bs) u ts1" using delivers_more.prems(4) t1(2) unfolding w by auto
    moreover have len: "length ((buf @ bs) @ u) \<le> MAX_HANDSHAKE_LENGTH" using delivers_more.prems(2) w by simp
    ultimately have "answers_hello H D A out inp shut m ((buf @ bs) @ u) f ts1 c1 u (server_read_loop H D A dl m (buf @ bs) ts1 (c1, f))"
      using IH False by blast
    moreover have "server_read_loop H D A dl m buf ts (c, f) = server_read_loop H D A dl m (buf @ bs) ts1 (c1, f)"
      by (rule server_loop_waits [OF rd bs(1) _ assms(4)]) (use len delivers_more.prems(3) w False in \<open>auto simp: neq_Nil_conv\<close>)
    ultimately show ?thesis using answers_hello_later [OF _ t1(2-5)] unfolding w append_assoc by simp
  qed
qed

section \<open>Deadlines and rejections\<close>

lemma timeout_at_run:
  assumes run: "timeout_at dl fut ts c = (r, c', ts')"
    and fut: "\<forall>ts0 r c' ts'. fut ts0 c = (r, c', ts') \<and> (\<exists>us. ts = ts0 @ us) \<longrightarrow> on_time r ts0 ts'"
  shows "on_time r ts ts'" "r = Ready None \<Longrightarrow> dl \<le> hd ts'" "r = Pending \<Longrightarrow> \<forall>t \<in> set ts. t < dl"
    "\<exists>ts0 q ts1. fut ts0 c = (q, c', ts1) \<and> (\<exists>us. ts = ts0 @ us)
       \<and> (case q of Ready x \<Rightarrow> r = Ready (Some x) | Panic \<Rightarrow> r = Panic | Pending \<Rightarrow> r = Pending \<or> r = Ready None)"
proof -
  define early late where "early = takeWhile (\<lambda>t. t < dl) ts" and "late = dropWhile (\<lambda>t. t < dl) ts"
  have ts: "ts = early @ late" by (simp add: early_def late_def)
  obtain q c1 ts1 where q: "fut (early @ take 1 late) c = (q, c1, ts1)" by (metis prod_cases3)
  have run': "(r, c', ts') = (case q of Ready x \<Rightarrow> (Ready (Some x), c1, ts1 @ drop 1 late) | Panic \<Rightarrow> (Panic, c1, ts1 @ drop 1 late)
      | Pending \<Rightarrow> if late = [] then (Pending, c1, []) else (Ready None, c1, late))"
    using run q by (auto simp: timeout_at_def simp flip: early_def late_def split: poll.splits)
  have hd: "late \<noteq> [] \<Longrightarrow> dl \<le> hd late" using hd_dropWhile [of "\<lambda>t. t < dl" ts] by (simp add: late_def)
  have early: "\<forall>t \<in> set early. t < dl" by (auto simp: early_def dest: set_takeWhileD)
  from hd show "r = Ready None \<Longrightarrow> dl \<le> hd ts'" using run' by (auto split: poll.splits if_splits)
  show "r = Pending \<Longrightarrow> \<forall>t \<in> set ts. t < dl"
    using run' early ts by (auto split: poll.splits if_splits)
  have part: "ts = (early @ take 1 late) @ drop 1 late" by (simp add: ts)
  have "c' = c1 \<and> (case q of Ready x \<Rightarrow> r = Ready (Some x) | Panic \<Rightarrow> r = Panic | Pending \<Rightarrow> r = Pending \<or> r = Ready None)"
    using run' by (auto split: poll.splits if_splits)
  with q part show "\<exists>ts0 q ts1. fut ts0 c = (q, c', ts1) \<and> (\<exists>us. ts = ts0 @ us)
       \<and> (case q of Ready x \<Rightarrow> r = Ready (Some x) | Panic \<Rightarrow> r = Panic | Pending \<Rightarrow> r = Pending \<or> r = Ready None)"
    by blast
  show "on_time r ts ts'"
  proof (cases "q = Pending")
    case True
    then show ?thesis using run' ts by (auto simp: on_time_def split: if_splits)
  next
    case False
    have "on_time q (early @ take 1 late) ts1" by (rule fut [rule_format], rule conjI, rule q, rule exI, rule part)
    with False obtain us where "ts1 \<noteq> []" "early @ take 1 late = us @ ts1" by (auto simp: on_time_def)
    then have "ts = us @ ts1 @ drop 1 late" using part by (metis append_assoc)
    with False \<open>ts1 \<noteq> []\<close> run' show ?thesis by (cases q) (auto simp: on_time_def)
  qed
qed

lemma on_time_trans: "on_time (Ready x) ts ts1 \<Longrightarrow> on_time r ts1 ts' \<Longrightarrow> on_time r ts ts'"
  by (auto simp: on_time_def)

lemma on_time_sorted: "on_time r ts ts' \<Longrightarrow> r \<noteq> Pending \<Longrightarrow> sorted ts \<Longrightarrow> sorted ts' \<and> hd ts \<le> hd ts'"
  by (cases ts') (auto simp: on_time_def sorted_append hd_append split: if_splits)

text \<open>A future that waits, and what it may do to the carrier while nothing is written.\<close>

definition quiet where
  "quiet out inp c c' \<longleftrightarrow> out c' = out c \<and> (\<exists>bs. inp c' = inp c @ bs)"

lemma quiet_refl [simp]: "quiet out inp c c"
  by (simp add: quiet_def)

lemma quiet_trans: "quiet out inp c c1 \<Longrightarrow> quiet out inp c1 c2 \<Longrightarrow> quiet out inp c c2"
  by (auto simp: quiet_def)

lemma shutdown_run:
  assumes "async_ok A out inp shut eof" "await (a_shutdown A ts c) (\<lambda>_ ts c. (Ready x, c, ts)) = (r, c', ts')"
  shows "r \<noteq> Panic \<and> on_time r ts ts' \<and> quiet out inp c c' \<and> (eof c \<longrightarrow> eof c')
    \<and> (r \<noteq> Pending \<longrightarrow> (\<exists>io. r = Ready (Inl (IOError io))) \<or> r = Ready x \<and> shut c')"
proof -
  obtain s c2 ts2 where s: "a_shutdown A ts c = (s, c2, ts2)" by (metis prod_cases3)
  note so = async_shutdown [OF assms(1) s]
  consider "s = Pending" | e where "s = Ready (Inl e)" | "s = Ready (Inr ())"
    using so(7) by (cases s) (auto split: sum.splits, metis old.sum.exhaust old.unit.exhaust)
  then show ?thesis using assms(2) s so by cases (auto simp: on_time_def quiet_def)
qed

lemma discard_run:
  assumes A: "async_ok A out inp shut eof" and run: "discard A d ts c = (r, c', ts')" and "sorted ts"
  shows "r \<noteq> Panic \<and> on_time r ts ts' \<and> quiet out inp c c'
    \<and> (r \<noteq> Pending \<longrightarrow> (\<exists>io. r = Ready (Inl (IOError io))) \<or> r = Ready (Inr ()) \<and> (hd ts + d \<le> hd ts' \<or> eof c'))"
proof -
  obtain q c1 ts1 where q: "timeout_at (hd ts + d) (a_copy_sink A) ts c = (q, c1, ts1)" by (metis prod_cases3)
  have on: "\<forall>ts0 r c' ts'. a_copy_sink A ts0 c = (r, c', ts') \<and> (\<exists>us. ts = ts0 @ us) \<longrightarrow> on_time r ts0 ts'"
    using async_copy(1) [OF A] by blast
  note t = timeout_at_run [OF q on]
  from t(4) obtain ts0 p ts2 where p: "a_copy_sink A ts0 c = (p, c1, ts2)"
    "case p of Ready x \<Rightarrow> q = Ready (Some x) | Panic \<Rightarrow> q = Panic | Pending \<Rightarrow> q = Pending \<or> q = Ready None" by blast
  note co = async_copy [OF A p(1)]
  have c1: "quiet out inp c c1" using co(2,4) by (simp add: quiet_def)
  consider (wait) "q = Pending" | (failed) e where "q = Ready (Some (Inl e))" | (ended) "q = Ready (Some (Inr ()))" "p = Ready (Inr ())"
    | (elapsed) "q = Ready None"
  proof (cases p)
    case (Ready x)
    then show thesis using p(2) failed ended by (cases x) auto
  qed (use p(2) co(6) wait elapsed in auto)
  then show ?thesis
  proof cases
    case elapsed
    have run': "await (a_shutdown A ts1 c1) (\<lambda>_ ts c. (Ready (Inr ()), c, ts)) = (r, c', ts')"
      using run q elapsed by (simp add: discard_def)
    note sr = shutdown_run [OF A run']
    then have s1: "on_time r ts1 ts'" by simp
    have "on_time r ts ts'" using t(1) unfolding elapsed by (rule on_time_trans [OF _ s1])
    moreover have "hd ts + d \<le> hd ts'" if "r = Ready (Inr ())"
      using t(2) [OF elapsed] on_time_sorted [OF t(1)] on_time_sorted [OF s1] that elapsed assms(3) by simp
    ultimately show ?thesis using sr quiet_trans [OF c1] by auto
  qed (use run q t(1) c1 co in \<open>auto simp: discard_def on_time_def\<close>)
qed

lemma reject_run:
  assumes A: "async_ok A out inp shut eof" and run: "reject A dl e ts c = (r, c', ts')" and ts: "sorted ts" "ts \<noteq> []"
  shows "r \<noteq> Panic \<and> on_time r ts ts' \<and> quiet out inp c c'
    \<and> (r \<noteq> Pending \<longrightarrow> (\<exists>io. r = Ready (Inl (IOError io)))
         \<or> r = Ready (Inl e) \<and> shut c' \<and> (\<forall>d. dl = Some d \<longrightarrow> d \<le> hd ts' \<or> eof c'))"
proof -
  define first where "first = (case dl of
      Some d \<Rightarrow> if d > hd ts then discard A (d - hd ts) ts c else (Ready (Inr ()), c, ts) | None \<Rightarrow> (Ready (Inr ()), c, ts))"
  obtain q c1 ts1 where q: "first = (q, c1, ts1)" by (metis prod_cases3)
  have on: "on_time (Ready (Inr ()) :: (obfs4_error + unit) poll) ts ts" using ts(2) by (auto simp: on_time_def)
  have f: "q \<noteq> Panic \<and> on_time q ts ts1 \<and> quiet out inp c c1
      \<and> (q \<noteq> Pending \<longrightarrow> (\<exists>io. q = Ready (Inl (IOError io))) \<or> q = Ready (Inr ()) \<and> (\<forall>d. dl = Some d \<longrightarrow> d \<le> hd ts1 \<or> eof c1))"
  proof (cases "\<exists>d. dl = Some d \<and> d > hd ts")
    case True
    then obtain d where d: "dl = Some d" "d > hd ts" by blast
    with q have "discard A (d - hd ts) ts c = (q, c1, ts1)" by (simp add: first_def)
    from discard_run [OF A this ts(1)] d show ?thesis by auto
  next
    case False
    with q on show ?thesis by (auto simp: first_def split: option.splits)
  qed
  then consider (wait) "q = Pending" | (failed) io where "q = Ready (Inl (IOError io))" | (go) "q = Ready (Inr ())" by blast
  then show ?thesis
  proof cases
    case go
    have run': "await (a_shutdown A ts1 c1) (\<lambda>_ ts c. (Ready (Inl e), c, ts)) = (r, c', ts')"
      using run q go by (simp add: reject_def flip: first_def)
    note sr = shutdown_run [OF A run']
    then have s1: "on_time r ts1 ts'" by simp
    have f1: "on_time (Ready (Inr ()) :: (obfs4_error + unit) poll) ts ts1" using f go by simp
    have "on_time r ts ts'" using f1 s1 by (rule on_time_trans)
    moreover have "\<forall>d. dl = Some d \<longrightarrow> d \<le> hd ts' \<or> eof c'" if "r \<noteq> Pending"
      using f go sr on_time_sorted [OF f1 _ ts(1)] on_time_sorted [OF s1 that] by fastforce
    moreover have "quiet out inp c c'" by (rule quiet_trans [of out inp c c1]) (simp_all add: f sr)
    ultimately show ?thesis using sr by simp
  qed (use run q f in \<open>auto simp: reject_def on_time_def simp flip: first_def\<close>)
qed

text \<open>How a run of the server's loop can end.\<close>

definition refused ::
  "('c \<Rightarrow> bool) \<Rightarrow> ('c \<Rightarrow> bool) \<Rightarrow> nat option \<Rightarrow> bytes \<Rightarrow> obfs4_error \<Rightarrow> 'c \<Rightarrow> nat list \<Rightarrow> bool" where
  "refused shut eof dl got e c' ts' \<longleftrightarrow> (\<exists>io. e = IOError io)
     \<or> shut c' \<and> (\<forall>d. dl = Some d \<longrightarrow> d \<le> hd ts' \<or> eof c' \<or> length got = MAX_HANDSHAKE_LENGTH)"

definition answered where
  "answered H D m full out c r c' f' \<longleftrightarrow>
     (\<exists>now kg resp f0. server_attempt H D m (length full) now full f0 = Some (Inr (kg, resp), f')
        \<and> (\<exists>n. out c' = out c @ take n resp)
        \<and> (r = Ready (Inr kg) \<and> out c' = out c @ resp \<or> r = Pending \<or> (\<exists>io. r = Ready (Inl (IOError io)))))"

definition server_outcome where
  "server_outcome H D A out inp shut eof m dl buf ts c r c' f' ts' \<longleftrightarrow> on_time r ts ts'
     \<and> (\<exists>bs more. inp c' = inp c @ bs @ more \<and> length (buf @ bs) \<le> MAX_HANDSHAKE_LENGTH
         \<and> (more = [] \<and> answered H D m (buf @ bs) out c r c' f'
            \<or> out c' = out c \<and> (\<forall>kg. r \<noteq> Ready (Inr kg)) \<and> (\<forall>e. r = Ready (Inl e) \<longrightarrow> refused shut eof dl (buf @ bs) e c' ts')))"

definition with_filter :: "inner_replay_filter \<Rightarrow> 'a poll \<times> 'c \<times> nat list \<Rightarrow> 'a poll \<times> ('c \<times> inner_replay_filter) \<times> nat list" where
  "with_filter f = (\<lambda>(r, c, ts). (r, (c, f), ts))"

lemma with_filter_eq: "with_filter f p = (r, (c, f'), ts) \<longleftrightarrow> p = (r, c, ts) \<and> f' = f"
  by (cases p) (auto simp: with_filter_def)

lemma server_loop_step:
  assumes "a_read A (MAX_HANDSHAKE_LENGTH - length buf) ts c = (Ready (Inr bs), c1, ts1)" "bs \<noteq> []"
    "length bs \<le> MAX_HANDSHAKE_LENGTH - length buf"
  shows "server_read_loop H D A dl m buf ts (c, f) =
    (case server_attempt H D m (length (buf @ bs)) (hd ts1) (buf @ bs) f of
       None \<Rightarrow> (Panic, (c1, f), ts1)
     | Some (Inr (kg, resp), f) \<Rightarrow> with_filter f (await (a_write_all A resp ts1 c1) (\<lambda>_ ts c. (Ready (Inr kg), c, ts)))
     | Some (Inl e, f) \<Rightarrow>
         if e = REAgain then
           if length (buf @ bs) = MAX_HANDSHAKE_LENGTH
           then with_filter f (await (a_shutdown A ts1 c1) (\<lambda>_ ts c. (Ready (Inl (HandshakeErr BadClientHandshake)), c, ts)))
           else server_read_loop H D A dl m (buf @ bs) ts1 (c1, f)
         else with_filter f (reject A dl (HandshakeErr e) ts1 c1))"
  using assms unfolding server_attempt_def with_filter_def
  by (subst server_read_loop.simps) (simp add: Let_def split: option.splits prod.splits sum.splits)

lemma server_outcome_later:
  assumes "on_time (Ready x) ts ts1" "inp c1 = inp c @ bs" "out c1 = out c"
    "server_outcome H D A out inp shut eof m dl (buf @ bs) ts1 c1 r c' f' ts'"
  shows "server_outcome H D A out inp shut eof m dl buf ts c r c' f' ts'"
proof -
  from assms(4) obtain v more where v: "on_time r ts1 ts'" "inp c' = inp c1 @ v @ more" "length ((buf @ bs) @ v) \<le> MAX_HANDSHAKE_LENGTH"
    and alt: "more = [] \<and> answered H D m ((buf @ bs) @ v) out c1 r c' f'
            \<or> out c' = out c1 \<and> (\<forall>kg. r \<noteq> Ready (Inr kg)) \<and> (\<forall>e. r = Ready (Inl e) \<longrightarrow> refused shut eof dl ((buf @ bs) @ v) e c' ts')"
    unfolding server_outcome_def by metis
  have "on_time r ts ts'" by (rule on_time_trans [OF assms(1) v(1)])
  with v alt show ?thesis unfolding server_outcome_def answered_def assms(2,3) append_assoc
    by (intro conjI exI [of _ "bs @ v"] exI [of _ more]) (simp_all only: append_assoc)
qed

lemma server_loop_run:
  fixes H :: "'s handshake_env" and shut :: "'c \<Rightarrow> bool"
  assumes A: "async_ok A out inp shut eof"
  shows "server_read_loop H D A dl m buf ts (c, f) = (r, (c', f'), ts') \<Longrightarrow> length buf < MAX_HANDSHAKE_LENGTH \<Longrightarrow> sorted ts
    \<Longrightarrow> server_outcome H D A out inp shut eof m dl buf ts c r c' f' ts'"
proof (induction "MAX_HANDSHAKE_LENGTH - length buf" arbitrary: buf ts c f rule: less_induct)
  case less
  let ?out = "server_outcome H D A out inp shut eof m dl"
  obtain q c1 ts1 where q: "a_read A (MAX_HANDSHAKE_LENGTH - length buf) ts c = (q, c1, ts1)" by (metis prod_cases3)
  note ro = async_read [OF A q]
  have cap: "0 < MAX_HANDSHAKE_LENGTH - length buf" using less.prems(2) by simp
  have fail: "?out buf ts c r c' f' ts'"
    if "on_time r ts1 ts'" "quiet out inp c1 c'" "on_time (Ready ()) ts ts1" "q = Ready (Inr bs)" "length bs \<le> MAX_HANDSHAKE_LENGTH - length buf"
      "\<forall>kg. r \<noteq> Ready (Inr kg)" "\<forall>e. r = Ready (Inl e) \<longrightarrow> refused shut eof dl (buf @ bs) e c' ts'" for bs
  proof (rule server_outcome_later [OF that(3)])
    from that(2) obtain more where "out c' = out c1" "inp c' = inp c1 @ more" by (auto simp: quiet_def)
    with that cap show "?out (buf @ bs) ts1 c1 r c' f' ts'" unfolding server_outcome_def
      by (intro conjI, simp, intro exI [of _ "[]"] exI [of _ more]) auto
  qed (use ro that in auto)
  consider (wait) "q = Pending" | (failed) e where "q = Ready (Inl e)" | (data) bs where "q = Ready (Inr bs)"
    using ro(7) by (cases q) (auto, metis old.sum.exhaust)
  then show ?case
  proof cases
    case (data bs)
    have on: "on_time (Ready ()) ts ts1" using ro(1) data by (simp add: on_time_def)
    have ts1: "ts1 \<noteq> []" "sorted ts1" using ro(1) data on_time_sorted [OF ro(1)] less.prems(3) by (auto simp: on_time_def)
    have len: "length bs \<le> MAX_HANDSHAKE_LENGTH - length buf" using ro(5) data by blast
    note fail' = fail [OF _ _ on data len]
    show ?thesis
    proof (cases "bs = []")
      case True
      have "with_filter f (await (a_shutdown A ts1 c1) (\<lambda>_ ts c. (Ready (Inl (IOError (IoSimple UnexpectedEof))), c, ts))) = (r, (c', f'), ts')"
        using less.prems(1) q data True unfolding with_filter_def by (subst (asm) server_read_loop.simps) simp
      then have "await (a_shutdown A ts1 c1) (\<lambda>_ ts c. (Ready (Inl (IOError (IoSimple UnexpectedEof))), c, ts)) = (r, c', ts')"
        by (simp add: with_filter_eq)
      from shutdown_run [OF A this] show ?thesis by (intro fail') (auto simp: refused_def)
    next
      case False
      note step = less.prems(1) [unfolded server_loop_step [OF q [unfolded data] False len]]
      have full: "length (buf @ bs) \<le> MAX_HANDSHAKE_LENGTH" using len cap by simp
      let ?at = "server_attempt H D m (length (buf @ bs)) (hd ts1) (buf @ bs) f"
      consider (panic) "?at = None" | (ok) kg resp f1 where "?at = Some (Inr (kg, resp), f1)"
        | (again) f1 where "?at = Some (Inl REAgain, f1)" | (bad) e f1 where "?at = Some (Inl e, f1)" "e \<noteq> REAgain"
        by (cases ?at) (auto, metis old.sum.exhaust prod.exhaust)
      then show ?thesis
      proof cases
        case panic
        with step ts1 show ?thesis by (intro fail') (auto simp: on_time_def)
      next
        case (bad e f1)
        with step have "reject A dl (HandshakeErr e) ts1 c1 = (r, c', ts')" by (simp add: with_filter_eq)
        from reject_run [OF A this ts1(2,1)] show ?thesis by (intro fail') (auto simp: refused_def)
      next
        case (again f1)
        show ?thesis
        proof (cases "length (buf @ bs) = MAX_HANDSHAKE_LENGTH")
          case True
          with step again have
            "await (a_shutdown A ts1 c1) (\<lambda>_ ts c. (Ready (Inl (HandshakeErr BadClientHandshake)), c, ts)) = (r, c', ts')"
            by (simp add: with_filter_eq)
          from shutdown_run [OF A this] True show ?thesis by (intro fail') (auto simp: refused_def)
        next
          case more: False
          have "?out (buf @ bs) ts1 c1 r c' f' ts'"
            by (rule less.hyps) (use step again more full cap False ts1 in \<open>auto simp: neq_Nil_conv\<close>)
          then show ?thesis by (rule server_outcome_later [where bs = bs and ?c1.0 = c1, rotated 3])
            (use on ro data in auto)
        qed
      next
        case (ok kg resp f1)
        obtain s c2 ts2 where s: "a_write_all A resp ts1 c1 = (s, c2, ts2)" by (metis prod_cases3)
        note wo = async_write [OF A s]
        obtain n where n: "out c2 = out c1 @ take n resp" using wo(4) by blast
        have st: "await (s, c2, ts2) (\<lambda>_ ts c. (Ready (Inr kg), c, ts)) = (r, c', ts')" "f' = f1"
          using step ok s by (auto simp: with_filter_eq)
        have "c' = c2 \<and> on_time r ts1 ts' \<and> (r = Ready (Inr kg) \<and> s = Ready (Inr ()) \<or> r = Pending \<or> (\<exists>io. r = Ready (Inl (IOError io))))"
        proof (cases s)
          case (Ready x)
          with st(1) wo(1) show ?thesis by (cases x) (auto simp: on_time_def)
        qed (use st(1) wo(1,6) in \<open>auto simp: on_time_def\<close>)
        then have res: "c' = c2" "on_time r ts1 ts'"
            "r = Ready (Inr kg) \<and> out c' = out c1 @ resp \<or> r = Pending \<or> (\<exists>io. r = Ready (Inl (IOError io)))" using wo(5) by auto
        have "answered H D m (buf @ bs) out c1 r c' f'" unfolding answered_def st(2) using ok n res
          by (intro exI [of _ "hd ts1"] exI [of _ kg] exI [of _ resp] exI [of _ f]) auto
        then have "?out (buf @ bs) ts1 c1 r c' f' ts'"
          using res(1,2) wo(2) full unfolding server_outcome_def
          by (intro conjI, simp, intro exI [of _ "[]"] exI [of _ "[]"]) simp
        then show ?thesis by (rule server_outcome_later [where bs = bs and ?c1.0 = c1, rotated 3])
          (use on ro data in auto)
      qed
    qed
  qed (use less.prems ro q in \<open>auto simp: server_read_loop.simps [of H D A dl m buf ts] server_outcome_def refused_def on_time_def\<close>)
qed

section \<open>How the client's loop can end\<close>

definition client_outcome where
  "client_outcome H D out inp shut eof st dl buf ts c r c' ts' \<longleftrightarrow> on_time r ts ts' \<and> out c' = out c
     \<and> (\<exists>bs more. inp c' = inp c @ bs @ more
         \<and> (\<forall>rest kg. r = Ready (Inr (rest, kg)) \<longrightarrow> more = []
              \<and> client_handshake2 (hs_kdfs H) (hs_curve H) (hs_sip H) (cd_reply_pad D (length (buf @ bs))) (buf @ bs) st = Some (Inr (kg, rest)))
         \<and> (\<forall>e. r = Ready (Inl e) \<longrightarrow> refused shut eof dl (buf @ bs) e c' ts'))"

lemma client_outcome_later:
  assumes "on_time (Ready x) ts ts1" "inp c1 = inp c @ bs" "out c1 = out c"
    "client_outcome H D out inp shut eof st dl (buf @ bs) ts1 c1 r c' ts'"
  shows "client_outcome H D out inp shut eof st dl buf ts c r c' ts'"
proof -
  have "on_time r ts1 ts'" using assms(4) by (simp add: client_outcome_def)
  then have "on_time r ts ts'" by (rule on_time_trans [OF assms(1)])
  with assms(2-4) show ?thesis unfolding client_outcome_def by (simp only: append_assoc) (metis append_assoc)
qed

lemma client_loop_step:
  assumes "a_read A (MAX_HANDSHAKE_LENGTH - length buf) ts c = (Ready (Inr bs), c1, ts1)" "bs \<noteq> []"
    "length bs \<le> MAX_HANDSHAKE_LENGTH - length buf"
  shows "client_read_loop H D A dl st buf ts c =
    (case client_handshake2 (hs_kdfs H) (hs_curve H) (hs_sip H) (cd_reply_pad D (length (buf @ bs))) (buf @ bs) st of
       None \<Rightarrow> (Panic, c1, ts1)
     | Some (Inr (kg, rest)) \<Rightarrow> (Ready (Inr (rest, kg)), c1, ts1)
     | Some (Inl e) \<Rightarrow>
         if e = HandshakeErr REAgain then
           if length (buf @ bs) = MAX_HANDSHAKE_LENGTH
           then await (a_shutdown A ts1 c1) (\<lambda>_ ts c. (Ready (Inl (HandshakeErr BadServerHandshake)), c, ts))
           else client_read_loop H D A dl st (buf @ bs) ts1 c1
         else reject A dl e ts1 c1)"
  using assms by (subst client_read_loop.simps) (simp add: Let_def)

lemma client_loop_run:
  fixes H :: "'s handshake_env" and shut :: "'c \<Rightarrow> bool"
  assumes A: "async_ok A out inp shut eof"
  shows "client_read_loop H D A dl st buf ts c = (r, c', ts') \<Longrightarrow> length buf < MAX_HANDSHAKE_LENGTH \<Longrightarrow> sorted ts
    \<Longrightarrow> client_outcome H D out inp shut eof st dl buf ts c r c' ts'"
proof (induction "MAX_HANDSHAKE_LENGTH - length buf" arbitrary: buf ts c rule: less_induct)
  case less
  let ?out = "client_outcome H D out inp shut eof st dl"
  obtain q c1 ts1 where q: "a_read A (MAX_HANDSHAKE_LENGTH - length buf) ts c = (q, c1, ts1)" by (metis prod_cases3)
  note ro = async_read [OF A q]
  have cap: "0 < MAX_HANDSHAKE_LENGTH - length buf" using less.prems(2) by simp
  consider (wait) "q = Pending" | (failed) e where "q = Ready (Inl e)" | (data) bs where "q = Ready (Inr bs)"
    using ro(7) by (cases q) (auto, metis old.sum.exhaust)
  then show ?case
  proof cases
    case (data bs)
    have on: "on_time (Ready ()) ts ts1" using ro(1) data by (simp add: on_time_def)
    have ts1: "ts1 \<noteq> []" "sorted ts1" using ro(1) data on_time_sorted [OF ro(1)] less.prems(3) by (auto simp: on_time_def)
    have len: "length bs \<le> MAX_HANDSHAKE_LENGTH - length buf" using ro(5) data by blast
    have later: "?out buf ts c r c' ts'" if "?out (buf @ bs) ts1 c1 r c' ts'"
      by (rule client_outcome_later [OF on _ _ that]) (use ro data in auto)
    have fail: "?out buf ts c r c' ts'" if "on_time r ts1 ts'" "quiet out inp c1 c'" "\<forall>x. r \<noteq> Ready (Inr x)"
      "\<forall>e. r = Ready (Inl e) \<longrightarrow> refused shut eof dl (buf @ bs) e c' ts'"
    proof (rule later)
      from that(2) obtain more where "out c' = out c1" "inp c' = inp c1 @ more" by (auto simp: quiet_def)
      with that show "?out (buf @ bs) ts1 c1 r c' ts'" unfolding client_outcome_def
        by (intro conjI, simp, simp, intro exI [of _ "[]"] exI [of _ more]) auto
    qed
    show ?thesis
    proof (cases "bs = []")
      case True
      then have "(Ready (Inl (IOError (IoCustom UnexpectedEof ''read 0B in client handshake''))), c1, ts1) = (r, c', ts')"
        using less.prems(1) q data by (simp add: client_read_loop.simps [of H D A dl st buf])
      with ts1 show ?thesis by (intro fail) (auto simp: refused_def on_time_def)
    next
      case False
      note step = less.prems(1) [unfolded client_loop_step [OF q [unfolded data] False len]]
      have full: "length (buf @ bs) \<le> MAX_HANDSHAKE_LENGTH" using len cap by simp
      let ?at = "client_handshake2 (hs_kdfs H) (hs_curve H) (hs_sip H) (cd_reply_pad D (length (buf @ bs))) (buf @ bs) st"
      consider (panic) "?at = None" | (ok) kg rest where "?at = Some (Inr (kg, rest))"
        | (again) "?at = Some (Inl (HandshakeErr REAgain))" | (bad) e where "?at = Some (Inl e)" "e \<noteq> HandshakeErr REAgain"
        by (cases ?at) (auto, metis old.sum.exhaust prod.exhaust)
      then show ?thesis
      proof cases
        case (bad e)
        with step have "reject A dl e ts1 c1 = (r, c', ts')" by simp
        from reject_run [OF A this ts1(2,1)] show ?thesis by (intro fail) (auto simp: refused_def)
      next
        case again
        show ?thesis
        proof (cases "length (buf @ bs) = MAX_HANDSHAKE_LENGTH")
          case True
          with step again have
            "await (a_shutdown A ts1 c1) (\<lambda>_ ts c. (Ready (Inl (HandshakeErr BadServerHandshake)), c, ts)) = (r, c', ts')" by simp
          from shutdown_run [OF A this] True show ?thesis by (intro fail) (auto simp: refused_def)
        next
          case more: False
          show ?thesis
            by (rule later, rule less.hyps) (use step again more full cap False ts1 in \<open>auto simp: neq_Nil_conv\<close>)
        qed
      next
        case ok
        then show ?thesis using step ts1(1)
          by (intro later) (auto simp: client_outcome_def on_time_def)
      next
        case panic
        with step ts1 show ?thesis by (intro fail) (auto simp: on_time_def)
      qed
    qed
  qed (use less.prems ro q in \<open>auto simp: client_read_loop.simps [of H D A dl st buf ts] client_outcome_def refused_def on_time_def\<close>)
qed

section \<open>What an answered hello looks like\<close>

lemma check_offsets_found:
  "check_offsets K sip key cov mac h now os found f = (Inr (Some eh), f') \<Longrightarrow> found = None
   \<Longrightarrow> \<exists>i \<in> set os. hour_mac K key cov (i + h) = mac"
proof (induction os arbitrary: found f)
  case (Cons i os)
  show ?case
  proof (cases "hour_mac K key cov (i + h) = mac")
    case False
    then have "check_offsets K sip key cov mac h now os found f = (Inr (Some eh), f')"
      using Cons.prems(1) by (simp add: Let_def hour_mac_def)
    from Cons.IH [OF this Cons.prems(2)] show ?thesis by auto
  qed auto
qed simp

lemma parsed_hello_mac:
  assumes "kdfs_ok K" "try_parse_client_handshake_at K sip now buf m h f = (Inr ch, f')"
  obtains r pad hour where "length r = 32" "77 \<le> length pad" "hour \<in> near (int h)"
    "buf = (r @ pad @ hello_mark K (get_hmac_key m) r) @ hour_mac K (get_hmac_key m) (r @ pad @ hello_mark K (get_hmac_key m) r) hour"
proof -
  let ?key = "get_hmac_key m"
  from accepted_client_hello [OF assms(2,1)] obtain r pad mac where
    buf: "buf = r @ pad @ hello_mark K ?key r @ mac" and len: "length r = 32" "77 \<le> length pad" "length pad \<le> 8128" "length mac = 16"
    by metis
  let ?p = "r @ pad @ hello_mark K ?key r"
  obtain eh f1 where "check_offsets K sip ?key ?p mac (int h) now [0, -1, 1] None f = (Inr (Some eh), f1)"
    using parse_client_hello [OF len hello_lengths(1) [OF assms(1)], of sip now m h f] assms(2) buf
    by (auto split: prod.splits sum.splits option.splits)
  from check_offsets_found [OF this refl] obtain i where i: "i \<in> set [0, -1, 1]" "hour_mac K ?key ?p (i + int h) = mac" by blast
  then have "i + int h \<in> near (int h)" by (auto simp: near_def)
  then show thesis using buf len(1,2) i(2) by (intro that [of r pad "i + int h"]) simp_all
qed

lemma attempt_accepted:
  assumes "server_attempt H D m n now buf f = Some (Inr (kg, resp), f')"
  obtains h ch f1 where "get_epoch_hour (sd_unix D n) = Some h"
    "try_parse_client_handshake_at (hs_kdfs H) (hs_sip H) now buf m h f = (Inr ch, f1)"
  using assms unfolding server_attempt_def server_entry_def server_handshake_def server_handshake_no_keygen_def
    try_parse_client_handshake_def
  by (auto split: sum.splits if_splits prod.splits option.splits obfs4_error.splits relay_handshake_error.splits)

section \<open>A peer that sends in pieces\<close>

text \<open>
  A concrete carrier for the instances below: it holds what the peer will send, hands it out
  in pieces of at most \<open>k + 1\<close> bytes, and then the end of the input; it accepts all writes.
\<close>

record piece_peer =
  pp_next :: bytes
  pp_out :: bytes
  pp_inp :: bytes
  pp_shut :: bool

fun at_once :: "('c \<Rightarrow> 'a \<times> 'c) \<Rightarrow> ('a, 'c) future" where
  "at_once f [] c = (Pending, c, [])"
| "at_once f (t # ts) c = (let (x, c') = f c in (Ready x, c', t # ts))"

definition piece_io :: "nat \<Rightarrow> piece_peer async_ops" where
  "piece_io k = \<lparr>
     a_read = (\<lambda>cap. at_once (\<lambda>c. let bs = take (min cap (Suc k)) (pp_next c) in
       (Inr bs, c \<lparr> pp_next := drop (min cap (Suc k)) (pp_next c), pp_inp := pp_inp c @ bs \<rparr>))),
     a_write_all = (\<lambda>buf. at_once (\<lambda>c. (Inr (), c \<lparr> pp_out := pp_out c @ buf \<rparr>))),
     a_shutdown = at_once (\<lambda>c. (Inr (), c \<lparr> pp_shut := True \<rparr>)),
     a_copy_sink = at_once (\<lambda>c. (Inr (), c \<lparr> pp_next := [], pp_inp := pp_inp c @ pp_next c \<rparr>)) \<rparr>"

lemma at_once_eq:
  "at_once f ts c = (r, c', ts') \<longleftrightarrow>
     ts = [] \<and> r = Pending \<and> c' = c \<and> ts' = [] \<or> ts \<noteq> [] \<and> ts' = ts \<and> r = Ready (fst (f c)) \<and> c' = snd (f c)"
  by (cases ts) (auto simp: case_prod_beta)

lemma piece_io_ok: "async_ok (piece_io k) pp_out pp_inp pp_shut (\<lambda>c. pp_next c = [])"
  by (auto simp: async_ok_def piece_io_def at_once_eq on_time_def Let_def) (metis order_refl take_all)

lemma piece_delivers: "ts \<noteq> [] \<Longrightarrow> delivers (piece_io k) (pp_next c) ts c"
proof (induction "length (pp_next c)" arbitrary: c rule: less_induct)
  case less
  show ?case
  proof (cases "pp_next c = []")
    case True
    then show ?thesis by (simp add: delivers_done)
  next
    case False
    show ?thesis
    proof (rule delivers_more)
      fix cap :: nat assume cap: "0 < cap"
      let ?n = "min cap (Suc k)"
      let ?c = "c \<lparr> pp_next := drop ?n (pp_next c), pp_inp := pp_inp c @ take ?n (pp_next c) \<rparr>"
      have "delivers (piece_io k) (pp_next ?c) ts ?c" by (rule less.hyps) (use False cap less.prems in auto)
      moreover have "a_read (piece_io k) cap ts c = (Ready (Inr (take ?n (pp_next c))), ?c, ts)"
        using less.prems by (cases ts) (simp_all add: piece_io_def Let_def)
      ultimately show "\<exists>bs u c' ts'. a_read (piece_io k) cap ts c = (Ready (Inr bs), c', ts') \<and> bs \<noteq> []
          \<and> length bs \<le> cap \<and> pp_next c = bs @ u \<and> delivers (piece_io k) u ts' c'"
        using False cap by (intro exI [of _ "take ?n (pp_next c)"] exI [of _ "drop ?n (pp_next c)"] exI [of _ ?c] exI [of _ ts])
          (simp add: min_def)
    qed
  qed
qed

definition toy_hs :: "bytes handshake_env" where
  "toy_hs = \<lparr> hs_kdfs = toy_kdfs, hs_curve = toy_curve, hs_aead = toy_aead, hs_sip = sum_hasher \<rparr>"

definition toy_client_draws :: client_draws where
  "toy_client_draws = \<lparr> cd_key = (\<lambda>_. ([3], 0)), cd_pad = (\<lambda>n. Some (replicate n 0)), cd_pad_len = 80, cd_unix = 18000,
     cd_reply_pad = (\<lambda>_. 0) \<rparr>"

definition toy_server_draws :: server_draws where
  "toy_server_draws = \<lparr> sd_key = (\<lambda>_ _. ([9], 0)), sd_pad = (\<lambda>_ n. Some (replicate n 0)), sd_pad_len = (\<lambda>_. 1), sd_unix = (\<lambda>_. 21000) \<rparr>"

definition piece_peer_new :: "bytes \<Rightarrow> piece_peer" where
  "piece_peer_new w = \<lparr> pp_next = w, pp_out = [], pp_inp = [], pp_shut = False \<rparr>"

section \<open>Properties\<close>

text \<open>
  C15. The client's handshake does not depend on how the network cuts the server's reply: for
  any bytes that the parser, given all of them at once, accepts with some key generator and
  remainder, the loop over any sequence of reads that delivers these bytes ends with the same
  key generator, and its remainder is the same up to the bytes it has not read yet; if the
  parser rejects them with an error, the loop ends in the rejection of the same error.
\<close>

theorem client_fragmentation_independent:
  assumes "delivers A w ts c" "client_handshake2 (hs_kdfs H) (hs_curve H) (hs_sip H) d w st = Some answer"
    and "answer \<noteq> Inl (HandshakeErr REAgain)" "length w \<le> MAX_HANDSHAKE_LENGTH" "async_ok A out inp shut eof"
  shows "\<exists>v u c' ts'. w = v @ u \<and> inp c' = inp c @ v \<and> delivers A u ts' c'
    \<and> (case answer of
         Inr (kg, rest) \<Rightarrow> \<exists>rest'. rest = rest' @ u \<and> client_read_loop H D A dl st [] ts c = (Ready (Inr (rest', kg)), c', ts')
       | Inl e \<Rightarrow> client_read_loop H D A dl st [] ts c = reject A dl e ts' c')"
  using client_loop_decides [where buf = "[]", simplified, OF assms(1-4) client_handshake2_empty assms(5), of dl D]
  by (simp add: client_verdict_def)

theorem client_fragmentation_independent_witness:
  "\<exists>st hello reply kg rest' c'.
     client_handshake_no_keygen toy_kdfs toy_curve (\<lambda>n. Some (replicate n 0)) 18000 \<lparr> eph_sk = [3], eph_tweak = 0 \<rparr> wit_client
       = Some (st, hello)
     \<and> client_read_loop toy_hs toy_client_draws (piece_io 31) None st [] [5] (piece_peer_new reply)
         = (Ready (Inr (rest', kg)), c', [5])"
proof -
  obtain st hello where c: "client_handshake_no_keygen toy_kdfs toy_curve (\<lambda>n. Some (replicate n 0)) 18000
      \<lparr> eph_sk = [3], eph_tweak = 0 \<rparr> wit_client = Some (st, hello)"
    using toy_client_hello by blast
  from c have "client_handshake_no_keygen toy_kdfs toy_curve (\<lambda>n. Some (replicate n 0)) 18000 \<lparr> eph_sk = [3], eph_tweak = 0 \<rparr>
      (wit_client \<lparr> cm_session_id := [] \<rparr>) = Some (st, hello)" by (simp add: wit_client_def)
  from toy_agrees [OF this] obtain ckg :: "bytes keygen" and sh w where
    len: "length (sh @ w) \<le> MAX_HANDSHAKE_LENGTH"
    and cl: "\<And>d extra. client_handshake2 toy_kdfs toy_curve sum_hasher d (sh @ w @ extra) st = Some (Inr (ckg, w @ extra))" by blast
  have "delivers (piece_io 31) (sh @ w) [5] (piece_peer_new (sh @ w))"
    using piece_delivers [of "[5]" 31 "piece_peer_new (sh @ w)"] by (simp add: piece_peer_new_def)
  moreover have "client_handshake2 (hs_kdfs toy_hs) (hs_curve toy_hs) (hs_sip toy_hs) 0 (sh @ w) st = Some (Inr (ckg, w))"
    using cl [of 0 "[]"] by (simp add: toy_hs_def)
  ultimately obtain rest' c' ts' where
    run: "client_read_loop toy_hs toy_client_draws (piece_io 31) None st [] [5] (piece_peer_new (sh @ w)) = (Ready (Inr (rest', ckg)), c', ts')"
    using client_fragmentation_independent [of "piece_io 31" "sh @ w" "[5]" "piece_peer_new (sh @ w)" toy_hs 0 st "Inr (ckg, w)" pp_out pp_inp pp_shut
      "\<lambda>c. pp_next c = []" toy_client_draws None] len piece_io_ok by auto
  then have "client_outcome toy_hs toy_client_draws pp_out pp_inp pp_shut (\<lambda>c. pp_next c = []) st None [] [5] (piece_peer_new (sh @ w))
      (Ready (Inr (rest', ckg))) c' ts'" by (intro client_loop_run [OF piece_io_ok]) (simp_all add: const_simps)
  then have "ts' = [5]" by (auto simp: client_outcome_def on_time_def append_eq_Cons_conv Cons_eq_append_conv)
  with run c show ?thesis by blast
qed

end
