(* ===== verification/Tunnel.thy ===== *)
theory Tunnel
  imports Establish
begin

text \<open>
  A connection from its first byte to its last: how the handshake hands over to the
  stream, and what the two together guarantee. The session-level futures of \<^verbatim>\<open>sessions.rs\<close>
  (theory \<open>Establish\<close>) meet the stream operations of \<^verbatim>\<open>proto.rs\<close> (theories \<open>Proto\<close> and
  \<open>Stream\<close>) and the key agreement (theory \<open>Handshake\<close>).
\<close>

section \<open>Building a stream from a handshake\<close>

lemma handle_frame:
  assumes "try_handle_non_payload_message E m s = (r, s')"
  shows "fr_codec (o4_framed s') = fr_codec (o4_framed s) \<and> fr_rbuf (o4_framed s') = fr_rbuf (o4_framed s)
    \<and> fr_wbuf (o4_framed s') = fr_wbuf (o4_framed s) \<and> ic_inner (fr_io (o4_framed s')) = ic_inner (fr_io (o4_framed s))
    \<and> draws (fr_io (o4_framed s')) = draws (fr_io (o4_framed s))"
  using assms by (auto simp: try_handle_non_payload_message_def Let_def split: messages.splits session.splits option.splits sum.splits)

text \<open>What draining the handshake's remainder \<open>b\<close> does to a stream.\<close>

definition drained where
  "drained E b s s' \<longleftrightarrow> iat_inv (fr_io (o4_framed s')) \<and> fr_wbuf (o4_framed s') = fr_wbuf (o4_framed s)
     \<and> ic_inner (fr_io (o4_framed s')) = ic_inner (fr_io (o4_framed s)) \<and> encoder (fr_codec (o4_framed s')) = encoder (fr_codec (o4_framed s))
     \<and> handshake_complete (fr_codec (o4_framed s')) = handshake_complete (fr_codec (o4_framed s))
     \<and> (\<exists>ns. read_residual s' = read_residual s @ payloads ns
         \<and> (\<forall>x. deliver (env_aead E) (env_sip E) (decoder (fr_codec (o4_framed s))) (b @ x) =
              (case deliver (env_aead E) (env_sip E) (decoder (fr_codec (o4_framed s'))) (fr_rbuf (o4_framed s') @ x) of
                 (ms, r) \<Rightarrow> (ns @ ms, r))))"

lemma drained_step:
  assumes "decode (env_aead E) (env_sip E) (fr_codec (o4_framed s)) b = (Inr (Some m), c, b')"
    and "drained E b' s1 s'" "fr_codec (o4_framed s1) = c" "fr_wbuf (o4_framed s1) = fr_wbuf (o4_framed s)"
    and "ic_inner (fr_io (o4_framed s1)) = ic_inner (fr_io (o4_framed s))" "read_residual s1 = read_residual s @ payloads [m]"
  shows "drained E b s s'"
proof -
  from assms(1) obtain d where d: "decode_loop (env_aead E) (env_sip E) (decoder (fr_codec (o4_framed s))) b = (Inr (Some m), d, b')"
      "c = fr_codec (o4_framed s) \<lparr> decoder := d \<rparr>" by (auto simp: decode_eq)
  from assms(2) obtain ns where ns: "read_residual s' = read_residual s1 @ payloads ns"
      "\<And>x. deliver (env_aead E) (env_sip E) (decoder (fr_codec (o4_framed s1))) (b' @ x) =
         (case deliver (env_aead E) (env_sip E) (decoder (fr_codec (o4_framed s'))) (fr_rbuf (o4_framed s') @ x) of (ms, r) \<Rightarrow> (ns @ ms, r))"
    unfolding drained_def by blast
  have "deliver (env_aead E) (env_sip E) (decoder (fr_codec (o4_framed s))) (b @ x) =
      (case deliver (env_aead E) (env_sip E) (decoder (fr_codec (o4_framed s'))) (fr_rbuf (o4_framed s') @ x) of (ms, r) \<Rightarrow> ((m # ns) @ ms, r))" for x
    using deliver_message [OF d(1), of x] ns(2) [of x] assms(3) d(2) by (auto split: prod.splits)
  moreover have "read_residual s' = read_residual s @ payloads (m # ns)"
    using ns(1) assms(6) payloads_simps(5) [of "[m]" ns] by simp
  ultimately show ?thesis using assms(2-5) d(2) unfolding drained_def by (intro conjI exI [of _ "m # ns"]) auto
qed

lemma drain_handshake_outcome:
  fixes E :: "('s, 'f) obfs4_env" and s :: "('c, 'f, 's, 'p) o4_stream"
  assumes "env_ok E" "iat_inv (fr_io (o4_framed s))"
  shows "\<exists>y. drain_handshake E s b = Some y \<and> (\<forall>s'. y = Inr s' \<longrightarrow> drained E b s s')"
  using assms(2)
proof (induction "length b" arbitrary: s b rule: less_induct)
  case less
  obtain q c b' where d: "decode (env_aead E) (env_sip E) (fr_codec (o4_framed s)) b = (q, c, b')" by (metis prod_cases3)
  consider (bad) e where "q = Inl e" | (wait) "q = Inr None" | (data) p where "q = Inr (Some (Payload p))"
    | (other) m where "q = Inr (Some m)" "\<forall>p. m \<noteq> Payload p" by (metis option.exhaust old.sum.exhaust)
  then show ?case
  proof cases
    case wait
    with d obtain dd where dd: "decode_loop (env_aead E) (env_sip E) (decoder (fr_codec (o4_framed s))) b = (Inr None, dd, b')"
        "c = fr_codec (o4_framed s) \<lparr> decoder := dd \<rparr>" by (auto simp: decode_eq)
    have "drained E b s (s \<lparr> o4_framed := o4_framed s \<lparr> fr_codec := c, fr_rbuf := b' \<rparr> \<rparr>)"
      using less.prems deliver_wait [OF dd(1)] unfolding drained_def dd(2)
      by (intro conjI exI [of _ "[]"]) (auto split: prod.splits)
    with d wait show ?thesis by (subst drain_handshake.simps) simp
  next
    case (data p)
    let ?s = "s \<lparr> o4_framed := o4_framed s \<lparr> fr_codec := c \<rparr>, read_residual := read_residual s @ p \<rparr>"
    have "length b' < length b" using d data decode_consumes by blast
    from less.hyps [OF this, of ?s] less.prems obtain y where
      y: "drain_handshake E ?s b' = Some y" "\<forall>s'. y = Inr s' \<longrightarrow> drained E b' ?s s'" by auto
    have "drain_handshake E s b = Some y" using d data y(1) by (subst drain_handshake.simps) (simp add: Let_def)
    moreover have "drained E b s s'" if "y = Inr s'" for s'
      by (rule drained_step [where ?s1.0 = ?s, OF d [unfolded data]]) (use y(2) that in auto)
    ultimately show ?thesis by blast
  next
    case (other m)
    let ?s = "s \<lparr> o4_framed := o4_framed s \<lparr> fr_codec := c \<rparr> \<rparr>"
    obtain r s1 where h: "try_handle_non_payload_message E m ?s = (r, s1)" by force
    have i: "iat_inv (fr_io (o4_framed ?s))" using less.prems by simp
    from handle_non_payload [OF assms(1) i other(2) h, where out = "\<lambda>_. []"] have
      r: "r = Ready (Inr ())" "read_residual s1 = read_residual s" "iat_inv (fr_io (o4_framed s1))"
      using i by (auto simp: reads_only_def)
    note hf = handle_frame [OF h]
    have "length b' < length b" using d other decode_consumes by blast
    from less.hyps [OF this r(3)] obtain y where
      y: "drain_handshake E s1 b' = Some y" "\<forall>s'. y = Inr s' \<longrightarrow> drained E b' s1 s'" by blast
    have "drain_handshake E s b = Some y"
      using d other y(1) h r(1) by (subst drain_handshake.simps) (cases m; simp add: Let_def)
    moreover have "payloads [m] = []" using other(2) by (cases m) auto
    then have "drained E b s s'" if "y = Inr s'" for s'
      by (intro drained_step [where ?s1.0 = s1, OF d [unfolded other(1)]]) (use y(2) that hf r(2) in auto)
    ultimately show ?thesis by blast
  qed (use d in \<open>auto simp: drain_handshake.simps [of E s b]\<close>)
qed

text \<open>A stream right after construction, before the remainder is drained.\<close>

definition fresh_stream where
  "fresh_stream io codec priv session =
     \<lparr> o4_framed = \<lparr> fr_io = io, fr_codec = codec, fr_rbuf = [], fr_wbuf = [], fr_priv = priv \<rparr>,
       o4_iat_mode = session_iat_mode session, o4_session = session, read_residual = [], terminal_error = None,
       shutdown_complete = False \<rparr>"

lemma dist_new_ready:
  assumes "rand_ok R" "0 \<le> mx" "mx < 2 ^ 31"
  shows "\<exists>d. dist_new F R sip seed 0 mx b = Some d \<and> dist_ready mx d"
  using reseed_ok [OF assms(1), of "\<lparr> min_value = 0, max_value = mx, biased = b, dvalues = [], weights = [], dalias = [], dprob = [] \<rparr>"
      F sip seed] assms(2,3)
  by (auto simp: dist_new_def dist_ready_def)

lemma o4_new_drains:
  fixes E :: "('s, 'f) obfs4_env" and priv :: 'p and c :: 'c
  assumes "env_ok E"
  obtains io where "iat_inv io" "ic_inner io = c" "ic_mode io = session_iat_mode session"
    "o4_new E now priv c codec session rest = drain_handshake E (fresh_stream io codec priv session) rest"
proof -
  have R: "rand_ok (env_rand E)" and sha: "length (env_sha256 E m) = 32" for m using assms by (simp_all add: env_ok_def)
  let ?seed = "take SEED_LENGTH (env_sha256 E (session_len_seed session))"
  have seed: "seed_try_from ?seed = Inr ?seed" using sha by (simp add: seed_try_from_def const_simps)
  obtain ld where ld: "dist_new (env_f64 E) (env_rand E) (env_sip E) (session_len_seed session) 0 (int MAX_SEGMENT_LENGTH) (session_biased session) = Some ld"
    "dist_ready (int MAX_SEGMENT_LENGTH) ld" using dist_new_ready [OF R, of "int MAX_SEGMENT_LENGTH"] by (fastforce simp: const_simps)
  obtain iat where iat: "dist_new (env_f64 E) (env_rand E) (env_sip E) ?seed 0 (int MAX_IAT_DELAY) (session_biased session) = Some iat"
    "dist_ready (int MAX_IAT_DELAY) iat" using dist_new_ready [OF R, of "int MAX_IAT_DELAY"] by (fastforce simp: const_simps)
  let ?io = "iat_carrier_new now c (session_iat_mode session) iat ld"
  have "iat_inv ?io" "ic_inner ?io = c" "ic_mode ?io = session_iat_mode session"
    using ld(2) iat(2) by (simp_all add: iat_inv_def iat_carrier_new_def)
  moreover have "o4_new E now priv c codec session rest = drain_handshake E (fresh_stream ?io codec priv session) rest"
    using seed ld(1) iat(1) by (simp add: o4_new_def fresh_stream_def Let_def)
  ultimately show thesis by (rule that)
qed

lemma o4_new_total:
  assumes "env_ok E" shows "o4_new E now priv c codec session rest \<noteq> None"
proof -
  from o4_new_drains [OF assms] obtain io where io: "iat_inv io"
    "o4_new E now priv c codec session rest = drain_handshake E (fresh_stream io codec priv session) rest" by metis
  from drain_handshake_outcome [OF assms, of "fresh_stream io codec priv session" rest] io show ?thesis
    by (auto simp: fresh_stream_def)
qed

text \<open>Draining a beginning of the seed frame cannot fail.\<close>

lemma decode_prefix:
  assumes "decode_loop A sip d (p @ u) = (Inr (Some m), d', [])"
  shows "decode_loop A sip d p = (Inr (Some m), d', []) \<and> u = [] \<or> (\<exists>d1 p1. decode_loop A sip d p = (Inr None, d1, p1))"
proof -
  obtain q d1 p1 where q: "decode_loop A sip d p = (q, d1, p1)" by (metis prod_cases3)
  show ?thesis
  proof (cases "q = Inr None")
    case False
    from decode_loop_append [OF q False, of u] assms show ?thesis using q by auto
  qed (use q in auto)
qed

lemma decode_nothing: "decode_loop A sip d [] = (Inr None, d, [])"
proof -
  have "0 < unat (next_length d) \<or> next_length d = 0" by (simp add: unat_gt_0)
  then have "decode_turn A sip d [] = (Return (Inr None), d, [])"
    by (auto simp: decode_turn_def decode_length_def decode_frame_def const_simps)
  then show ?thesis by (simp add: decode_loop.simps)
qed

lemma drain_seed_prefix:
  fixes E :: "('s, 'f) obfs4_env" and s :: "('c, 'f, 's, 'p) o4_stream"
  assumes "env_ok E" "iat_inv (fr_io (o4_framed s))" "decoder (fr_codec (o4_framed s)) = d"
    and "decode_loop (env_aead E) (env_sip E) d (p @ u) = (Inr (Some (PrngSeed seed)), d', [])"
  shows "\<exists>s'. drain_handshake E s p = Some (Inr s') \<and> (u = [] \<longrightarrow> (\<forall>cl. o4_session s = ClientSession cl \<longrightarrow> o4_session s' = ClientSession (set_len_seed seed cl)))
    \<and> (\<forall>cl. o4_session s = ClientSession cl \<longrightarrow> (\<exists>cl'. o4_session s' = ClientSession cl' \<and> cs_session_id cl' = cs_session_id cl))"
  using decode_prefix [OF assms(4)]
proof (elim disjE conjE exE)
  fix d1 p1 assume "decode_loop (env_aead E) (env_sip E) d p = (Inr None, d1, p1)"
  moreover have "u \<noteq> []" using calculation assms(4) by auto
  ultimately show ?thesis using assms(3) by (subst drain_handshake.simps) (simp add: decode_def)
next
  assume dl: "decode_loop (env_aead E) (env_sip E) d p = (Inr (Some (PrngSeed seed)), d', [])" and "u = []"
  let ?s = "s \<lparr> o4_framed := o4_framed s \<lparr> fr_codec := fr_codec (o4_framed s) \<lparr> decoder := d' \<rparr> \<rparr> \<rparr>"
  obtain r s1 where h: "try_handle_non_payload_message E (PrngSeed seed) ?s = (r, s1)" by force
  have r: "r = Ready (Inr ())"
    using handle_non_payload [OF assms(1) _ _ h, where out = "\<lambda>_. []"] assms(2) by simp
  have ses: "o4_session s1 = (case o4_session s of ClientSession cl \<Rightarrow> ClientSession (set_len_seed seed cl) | x \<Rightarrow> x)"
    using h r by (auto simp: try_handle_non_payload_message_def Let_def split: session.splits option.splits sum.splits)
  have "drain_handshake E s1 [] = Some (Inr (s1 \<lparr> o4_framed := o4_framed s1 \<lparr> fr_codec := fr_codec (o4_framed s1), fr_rbuf := [] \<rparr> \<rparr>))"
    by (subst drain_handshake.simps) (simp add: decode_def decode_nothing)
  then have "drain_handshake E s p = Some (Inr (s1 \<lparr> o4_framed := o4_framed s1 \<lparr> fr_codec := fr_codec (o4_framed s1), fr_rbuf := [] \<rparr> \<rparr>))"
    using dl assms(3) h r by (subst drain_handshake.simps) (simp add: decode_def Let_def)
  with ses show ?thesis by (auto simp: set_len_seed_def)
qed

section \<open>One direction of a connection\<close>

text \<open>
  \<open>pre\<close> is what the receiver still has to decode of the handshake when the sender's stream
  begins: the seed frame towards the client, nothing towards the server.
\<close>

lemma stream_direction:
  fixes EA :: "('s, 'f) obfs4_env" and EB :: "('s, 'g) obfs4_env"
  assumes A: "framed_ok EA CA FrA" "env_ok EA" "duplex_ok CA outA inpA" "stream_inv EA outA inpA cA wA [] dA iA mA sA"
    and B: "framed_ok EB CB FrB" "env_ok EB" "duplex_ok CB outB inpB" "stream_inv EB outB inpB cB wB pB d0 i0 ms0 sB"
    and peers: "env_aead EB = env_aead EA" "env_sip EB = env_sip EA" "payloads ms0 = read_residual sB" "in_sync (encoder cA) d1"
      "\<And>x. deliver (env_aead EA) (env_sip EA) d0 (pre @ x) = (case deliver (env_aead EA) (env_sip EA) d1 x of (ms, r) \<Rightarrow> (ms1 @ ms, r))"
      "payloads ms1 = []"
    and runs: "run_ops EA FrA opsA sA = Some (accA, gotA, sA')" "run_ops EB FrB opsB sB = Some (accB, gotB, sB')"
    and net: "inpB (ic_inner (fr_io (o4_framed sB'))) = i0 @ Y" "wire outA (o4_framed sA') = wA @ X" "pre @ X = Y @ rest"
  shows "\<exists>later. accA = gotB @ read_residual sB' @ later"
proof -
  let ?D = "deliver (env_aead EA) (env_sip EA)"
  from run_ops_inv [OF A(1-3) runs(1) A(4)] obtain qs where
    qs: "sent EA outA cA wA qs (o4_framed sA')" "payloads (visible qs) = accA" by (auto simp: stream_inv_def)
  have "\<exists>d'. ?D d1 (X @ []) = (case ?D d' [] of (ms, r) \<Rightarrow> (visible qs @ ms, r))
      \<and> in_sync (encoder (fr_codec (o4_framed sA') \<lparr> decoder := decoder cA \<rparr>)) d'"
    by (rule deliver_encoded [OF _ peers(4), of _ _ _ wA]) (use A(2) qs(1) net(2) in \<open>auto simp: env_ok_def sent_def\<close>)
  then have "fst (?D d1 X) = visible qs" by (auto split: prod.splits)
  then have da: "fst (?D d0 (Y @ rest)) = ms1 @ visible qs" using peers(5) [of X] net(3) by (auto split: prod.splits)
  from run_ops_inv [OF B(1-3) runs(2) B(4)] obtain ns where
    ns: "received EB inpB d0 i0 (ms0 @ ns) (o4_framed sB')" "read_residual sB @ payloads ns = gotB @ read_residual sB'"
    by (auto simp: stream_inv_def)
  from ns(1) net(1) peers(1,2) have "fst (?D d0 (Y @ rest)) =
      (ms0 @ ns) @ fst (?D (decoder (fr_codec (o4_framed sB'))) (fr_rbuf (o4_framed sB') @ rest))"
    by (auto simp: received_def split: prod.splits)
  with da have "payloads (ms1 @ visible qs) = payloads ((ms0 @ ns) @ fst (?D (decoder (fr_codec (o4_framed sB'))) (fr_rbuf (o4_framed sB') @ rest)))"
    by simp
  then have "accA = (read_residual sB @ payloads ns) @ payloads (fst (?D (decoder (fr_codec (o4_framed sB'))) (fr_rbuf (o4_framed sB') @ rest)))"
    using qs(2) peers(3,6) by simp
  then show ?thesis unfolding ns(2) by auto
qed

section \<open>Establishing both ends\<close>

lemma server_transition_sel [simp]:
  "ss_identity_keys (server_transition t s) = ss_identity_keys s" "ss_session_id (server_transition t s) = ss_session_id s"
  "ss_len_seed (server_transition t s) = ss_len_seed s" "ss_iat_mode (server_transition t s) = ss_iat_mode s"
  by (simp_all add: server_transition_def)

lemma client_transition_sel [simp]:
  "cs_node_pubkey (client_transition t s) = cs_node_pubkey s" "cs_session_id (client_transition t s) = cs_session_id s"
  "cs_len_seed (client_transition t s) = cs_len_seed s" "cs_iat_mode (client_transition t s) = cs_iat_mode s"
  by (simp_all add: client_transition_def)

lemma timeout_at_early:
  assumes "\<forall>t \<in> set ts. t < dl"
  shows "timeout_at dl fut ts c =
    (case fut ts c of (Ready x, c, ts') \<Rightarrow> (Ready (Some x), c, ts') | (Panic, c, ts') \<Rightarrow> (Panic, c, ts') | (Pending, c, _) \<Rightarrow> (Pending, c, []))"
proof -
  have eqs: "takeWhile (\<lambda>t. t < dl) ts = ts" "dropWhile (\<lambda>t. t < dl) ts = []"
    using assms by (auto simp: takeWhile_eq_all_conv dropWhile_eq_Nil_conv)
  show ?thesis unfolding timeout_at_def Let_def eqs by (simp split: prod.splits poll.splits)
qed

definition client_limit :: "nat option \<Rightarrow> nat list \<Rightarrow> nat" where
  "client_limit dl ts = (case dl of Some d \<Rightarrow> d | None \<Rightarrow> hd ts + CLIENT_HANDSHAKE_TIMEOUT)"

definition server_limit :: "nat option \<Rightarrow> nat list \<Rightarrow> nat" where
  "server_limit dl ts = (case dl of Some d \<Rightarrow> d | None \<Rightarrow> hd ts + SERVER_HANDSHAKE_TIMEOUT)"

definition session_server_materials where
  "session_server_materials col s =
     server_materials_new (ss_identity_keys s) (server_session_id col (server_transition ServerHandshaking s)) (ss_len_seed s)"

definition session_client_materials where
  "session_client_materials col D s =
     client_materials_new (cd_pad_len D) (cs_node_pubkey s) (client_session_id col (client_transition ClientHandshaking s))"

text \<open>The server's stream when its loop has succeeded: nothing is left to decode.\<close>

lemma server_established:
  fixes E :: "('s, 'f) obfs4_env" and priv :: 'p
  assumes "env_ok E" "\<forall>t \<in> set ts. t < server_limit dl ts" "hd ts + SERVER_HANDSHAKE_TIMEOUT \<le> env_clock_max E"
    and "server_read_loop H D A dl (session_server_materials col s) [] ts (c, f) = (Ready (Inr kg), (c', f'), ts')"
  obtains sS where "server_session_handshake E H D A col priv s dl ts (c, f) = (Ready (Inr sS), (c', f'), ts')"
    "stream_inv E out inp (set_handshake_complete (kg_codec kg)) (out c') [] (decoder (kg_codec kg)) (inp c') [] sS" "read_residual sS = []"
    "\<exists>ss. o4_session sS = ServerSession ss \<and> ss_session_id ss = kg_session_id kg \<and> ss_len_seed ss = ss_len_seed s"
proof -
  define ses where "ses = server_transition Established (server_set_session_id (kg_session_id kg) (server_transition ServerHandshaking s))"
  let ?codec = "set_handshake_complete (kg_codec kg)"
  obtain io where io: "iat_inv io" "ic_inner io = c'"
    "o4_new E (hd ts') priv c' ?codec (ServerSession ses) [] = drain_handshake E (fresh_stream io ?codec priv (ServerSession ses)) []"
    by (rule o4_new_drains [OF assms(1)]) blast
  let ?s = "fresh_stream io ?codec priv (ServerSession ses)"
  have new: "o4_new E (hd ts') priv c' ?codec (ServerSession ses) [] = Some (Inr ?s)"
    unfolding io(3) by (subst drain_handshake.simps) (simp add: decode_def decode_nothing fresh_stream_def)
  have "server_session_handshake E H D A col priv s dl ts (c, f) = (Ready (Inr ?s), (c', f'), ts')"
    using timeout_at_early [OF assms(2), of "server_complete_handshake H D A (session_server_materials col s) dl" "(c, f)"] assms(3,4) new
    by (simp add: server_session_handshake_def server_complete_handshake_def session_server_materials_def server_limit_def
        instant_checked_add_def Let_def ses_def)
  moreover have "stream_inv E out inp ?codec (out c') [] (decoder (kg_codec kg)) (inp c') [] ?s"
    using io(1,2) stream_inv_fresh [of ?s E out inp] by (simp add: fresh_stream_def wire_def set_handshake_complete_def)
  moreover have "read_residual ?s = []" "o4_session ?s = ServerSession ses" by (simp_all add: fresh_stream_def)
  moreover have "ss_session_id ses = kg_session_id kg" "ss_len_seed ses = ss_len_seed s"
    by (simp_all add: ses_def server_set_session_id_def)
  ultimately show thesis using that by blast
qed

text \<open>The client's stream: it has drained what it read of the seed frame \<open>w\<close>.\<close>

lemma client_established:
  fixes E :: "('s, 'f) obfs4_env" and priv :: 'p
  assumes "env_ok E" "\<forall>t \<in> set ts. t < client_limit dl ts" "hd ts + CLIENT_HANDSHAKE_TIMEOUT \<le> env_clock_max E"
    and "client_complete_handshake H D A (session_client_materials col D s) dl pe ts c = (Ready (Inr (p, kg)), c', ts')"
    and "decode_loop (env_aead E) (env_sip E) (decoder (kg_codec kg)) (p @ u) = (Inr (Some (PrngSeed seed)), d', [])"
    and "inp c' = i0 @ p"
  obtains sC ms where "client_session_handshake E H D A col priv s dl pe ts c = (Ready (Inr sC), c', ts')"
    "stream_inv E out inp (set_handshake_complete (kg_codec kg)) (out c') [] (decoder (kg_codec kg)) i0 ms sC" "payloads ms = read_residual sC"
    "\<exists>cl. o4_session sC = ClientSession cl \<and> cs_session_id cl = kg_session_id kg \<and> (u = [] \<longrightarrow> cs_len_seed cl = seed)"
proof -
  define ses where "ses = client_transition Established (client_set_session_id (kg_session_id kg) (client_transition ClientHandshaking s))"
  let ?codec = "set_handshake_complete (kg_codec kg)"
  obtain io where io: "iat_inv io" "ic_inner io = c'"
    "o4_new E (hd ts') priv c' ?codec (ClientSession ses) p = drain_handshake E (fresh_stream io ?codec priv (ClientSession ses)) p"
    by (rule o4_new_drains [OF assms(1)]) blast
  let ?s = "fresh_stream io ?codec priv (ClientSession ses)"
  have i: "iat_inv (fr_io (o4_framed ?s))" and d: "decoder (fr_codec (o4_framed ?s)) = decoder (kg_codec kg)"
    using io(1) by (simp_all add: fresh_stream_def set_handshake_complete_def)
  have os: "o4_session ?s = ClientSession ses" by (simp add: fresh_stream_def)
  from drain_seed_prefix [OF assms(1) i d assms(5)] os obtain sC cl where
    sC: "drain_handshake E ?s p = Some (Inr sC)" "o4_session sC = ClientSession cl" "cs_session_id cl = cs_session_id ses"
      "u = [] \<Longrightarrow> cl = set_len_seed seed ses" by auto
  from drain_handshake_outcome [OF assms(1) i, of p] sC(1) have dr: "drained E p ?s sC" by auto
  then obtain ms where ms: "read_residual sC = payloads ms"
      "\<And>x. deliver (env_aead E) (env_sip E) (decoder (kg_codec kg)) (p @ x) =
         (case deliver (env_aead E) (env_sip E) (decoder (fr_codec (o4_framed sC))) (fr_rbuf (o4_framed sC) @ x) of (ms', r) \<Rightarrow> (ms @ ms', r))"
    unfolding drained_def d by (auto simp: fresh_stream_def)
  have "client_session_handshake E H D A col priv s dl pe ts c = (Ready (Inr sC), c', ts')"
    using timeout_at_early [OF assms(2), of "client_complete_handshake H D A (session_client_materials col D s) dl pe" c]
      assms(3,4) io(3) sC(1)
    by (simp add: client_session_handshake_def session_client_materials_def client_limit_def instant_checked_add_def Let_def ses_def)
  moreover have "received E inp (decoder (kg_codec kg)) i0 ms (o4_framed sC)"
    using dr io(2) assms(6) ms(2) unfolding received_def drained_def by (auto simp: fresh_stream_def)
  moreover have "sent E out ?codec (out c') [] (o4_framed sC)"
    using dr io(2) unfolding sent_def drained_def wire_def
    by (cases "fr_codec (o4_framed sC)") (auto simp: fresh_stream_def set_handshake_complete_def)
  moreover have "iat_inv (fr_io (o4_framed sC))" using dr by (simp add: drained_def)
  moreover have "cs_session_id cl = kg_session_id kg" "u = [] \<longrightarrow> cs_len_seed cl = seed"
    using sC(3,4) by (auto simp: ses_def client_set_session_id_def set_len_seed_def)
  ultimately show thesis using that [of sC ms] ms(1) sC(2) by (simp add: stream_inv_def)
qed

section \<open>An honest client and its server\<close>

text \<open>
  The circumstances under which a handshake is meant to succeed: the client holds the
  certificate of the server, the clocks are past 1970 and at most an hour apart, the replay
  filter has not seen the hello, the generators deliver keys and padding of the lengths asked for,
  the secrets are contributory, MACs of different hours differ, and the random padding
  does not happen to contain the mark of its own message.
\<close>

definition pad_clear :: "kdfs \<Rightarrow> bytes \<Rightarrow> bytes \<Rightarrow> bytes \<Rightarrow> bool" where
  "pad_clear K key pad r \<longleftrightarrow> (\<forall>j < length pad. take 16 (drop j (pad @ hello_mark K key r)) \<noteq> hello_mark K key r)"

definition honest_run ::
  "'s handshake_env \<Rightarrow> client_draws \<Rightarrow> server_draws \<Rightarrow> initialized client_session \<Rightarrow> initialized server_session
   \<Rightarrow> (bytes \<Rightarrow> string) \<Rightarrow> (bytes \<Rightarrow> string) \<Rightarrow> ephemeral_secret \<Rightarrow> ephemeral_secret \<Rightarrow> bytes \<Rightarrow> bytes \<Rightarrow> bytes
   \<Rightarrow> inner_replay_filter \<Rightarrow> nat set \<Rightarrow> ntor_state \<Rightarrow> bytes \<Rightarrow> bool" where
  "honest_run H DC DS cs ss colC colS ceph seph sr sk ident f nows st hello \<longleftrightarrow>
     kdfs_ok (hs_kdfs H) \<and> curve_ok (hs_curve H)
     \<and> client_handshake_no_keygen (hs_kdfs H) (hs_curve H) (cd_pad DC) (cd_unix DC) ceph (session_client_materials colC DC cs) = Some (st, hello)
     \<and> (\<forall>n pad. cd_pad DC n = Some pad \<longrightarrow> length pad = n)
     \<and> CLIENT_MIN_PAD_LENGTH \<le> cd_pad_len DC \<and> cd_pad_len DC < CLIENT_MAX_PAD_LENGTH
     \<and> sd_pad_len DS (length hello) < SERVER_MAX_PAD_LENGTH
     \<and> ss_identity_keys ss = ntor_secret_key_new (hs_curve H) sk ident \<and> cs_node_pubkey cs = nsk_pk (ss_identity_keys ss)
     \<and> length (ss_len_seed ss) = SEED_LENGTH
     \<and> draws_keys (hs_curve H) DS \<and> ephemeral_from_rng (hs_curve H) (sd_key DS (length hello)) = Inr seph
     \<and> public_representative (hs_curve H) seph = Some sr
     \<and> (\<exists>chour shour. get_epoch_hour (cd_unix DC) = Some chour \<and> get_epoch_hour (sd_unix DS (length hello)) = Some shour
          \<and> int chour \<in> near (int shour)
          \<and> no_collision (hs_kdfs H) (get_hmac_key (session_server_materials colS ss)) (take (length hello - 16) hello) (near (int shour)))
     \<and> (\<forall>now \<in> nows. \<not> fst (test_and_set (hs_sip H) f now (drop (length hello - 16) hello)))
     \<and> was_contributory (hs_curve H) (eph_diffie_hellman (hs_curve H) ceph (eph_public (hs_curve H) seph))
     \<and> was_contributory (hs_curve H) (eph_diffie_hellman (hs_curve H) ceph (static_public (hs_curve H) sk))
     \<and> (\<exists>pad. sd_pad DS (length hello) (sd_pad_len DS (length hello)) = Some pad \<and> length pad = sd_pad_len DS (length hello)
          \<and> pad_clear (hs_kdfs H) (get_hmac_key (session_server_materials colS ss)) pad sr)
     \<and> (\<forall>v u. hello = v @ u \<and> u \<noteq> [] \<longrightarrow> \<not> mark_at_tail (hs_kdfs H) (get_hmac_key (session_server_materials colS ss)) v)"

lemma session_materials_sel [simp]:
  "sm_identity_keys (session_server_materials col s) = ss_identity_keys s" "sm_len_seed (session_server_materials col s) = ss_len_seed s"
  "cm_node_pubkey (session_client_materials col' D c) = cs_node_pubkey c" "cm_pad_len (session_client_materials col' D c) = cd_pad_len D"
  by (simp_all add: session_server_materials_def server_materials_new_def session_client_materials_def client_materials_new_def)

lemma honest_run_agrees:
  fixes H :: "'s handshake_env"
  assumes run: "honest_run H DC DS cs ss colC colS ceph seph sr sk ident f nows st hello" and "aead_ok (hs_aead H)" "now \<in> nows"
  obtains skg ckg :: "'s keygen" and sh w f' d' where
    "server_attempt H DS (session_server_materials colS ss) (length hello) now hello f = Some (Inr (skg, sh @ w), f')"
    "length (sh @ w) \<le> MAX_HANDSHAKE_LENGTH" "kg_session_id ckg = kg_session_id skg"
    "\<And>d. client_handshake2 (hs_kdfs H) (hs_curve H) (hs_sip H) d (sh @ w) st = Some (Inr (ckg, w))"
    "decode_loop (hs_aead H) (hs_sip H) (decoder (kg_codec ckg)) w = (Inr (Some (PrngSeed (ss_len_seed ss))), d', [])"
    "in_sync (encoder (kg_codec skg)) d'" "in_sync (encoder (kg_codec ckg)) (decoder (kg_codec skg))"
proof -
  let ?K = "hs_kdfs H" and ?V = "hs_curve H" and ?m = "session_server_materials colS ss" and ?n = "length hello"
  from run obtain pad chour shour where
    pad: "sd_pad DS ?n (sd_pad_len DS ?n) = Some pad" "length pad = sd_pad_len DS ?n" "pad_clear ?K (get_hmac_key ?m) pad sr"
    and hour: "get_epoch_hour (cd_unix DC) = Some chour" "get_epoch_hour (sd_unix DS ?n) = Some shour" "int chour \<in> near (int shour)"
      "no_collision ?K (get_hmac_key ?m) (take (?n - 16) hello) (near (int shour))"
    unfolding honest_run_def by blast
  from run have h: "kdfs_ok ?K" "curve_ok ?V"
    "client_handshake_no_keygen ?K ?V (cd_pad DC) (cd_unix DC) ceph (session_client_materials colC DC cs) = Some (st, hello)"
    "\<forall>n pad. cd_pad DC n = Some pad \<longrightarrow> length pad = n" "CLIENT_MIN_PAD_LENGTH \<le> cd_pad_len DC"
    "cd_pad_len DC < CLIENT_MAX_PAD_LENGTH" "sd_pad_len DS ?n < SERVER_MAX_PAD_LENGTH"
    "ss_identity_keys ss = ntor_secret_key_new ?V sk ident" "cs_node_pubkey cs = nsk_pk (ss_identity_keys ss)"
    "public_representative ?V seph = Some sr"
    "\<not> fst (test_and_set (hs_sip H) f now (drop (?n - 16) hello))"
    "was_contributory ?V (eph_diffie_hellman ?V ceph (eph_public ?V seph))"
    "was_contributory ?V (eph_diffie_hellman ?V ceph (static_public ?V sk))" "length (ss_len_seed ss) = SEED_LENGTH"
    "ephemeral_from_rng ?V (sd_key DS ?n) = Inr seph"
    using assms(3) unfolding honest_run_def by simp_all
  have clear: "\<forall>j < sd_pad_len DS ?n. take 16 (drop j (pad @ hello_mark ?K (get_hmac_key ?m) sr)) \<noteq> hello_mark ?K (get_hmac_key ?m) sr"
    using pad(2,3) unfolding pad_clear_def by presburger
  have "\<exists>skg ckg sh w f'. server_handshake_no_keygen ?K ?V (hs_aead H) (hs_sip H) (sd_pad DS ?n) (sd_pad_len DS ?n) (sd_unix DS ?n) now seph hello ?m f
        = Some (Inr (skg, sh @ w), f')
    \<and> length (sh @ w) \<le> MAX_HANDSHAKE_LENGTH \<and> kg_session_id ckg = kg_session_id skg \<and> kg_seed ckg = kg_seed skg
    \<and> (\<forall>d extra. client_handshake2 ?K ?V (hs_sip H) d (sh @ w @ extra) st = Some (Inr (ckg, w @ extra)))
    \<and> (\<forall>extra. \<exists>c'. decode (hs_aead H) (hs_sip H) (kg_codec ckg) (w @ extra) = (Inr (Some (PrngSeed (sm_len_seed ?m))), c', extra)
         \<and> in_sync (encoder (kg_codec skg)) (decoder c') \<and> in_sync (encoder c') (decoder (kg_codec skg)))"
    by (rule handshake_agrees [where srng = "sd_pad DS ?n" and spad = "sd_pad_len DS ?n",
          OF h(1,2) assms(2) h(3,4) pad(1,2) _ _ h(7) _ _ h(10) hour h(11-13) _ clear]) (use h in simp_all)
  then obtain skg ckg :: "'s keygen" and sh w f' where
    a: "server_handshake_no_keygen ?K ?V (hs_aead H) (hs_sip H) (sd_pad DS ?n) (sd_pad_len DS ?n) (sd_unix DS ?n) now seph hello ?m f
        = Some (Inr (skg, sh @ w), f')" "length (sh @ w) \<le> MAX_HANDSHAKE_LENGTH" "kg_session_id ckg = kg_session_id skg"
    and cl: "\<And>d extra. client_handshake2 ?K ?V (hs_sip H) d (sh @ w @ extra) st = Some (Inr (ckg, w @ extra))"
    and dec: "\<exists>c'. decode (hs_aead H) (hs_sip H) (kg_codec ckg) (w @ []) = (Inr (Some (PrngSeed (sm_len_seed ?m))), c', [])
         \<and> in_sync (encoder (kg_codec skg)) (decoder c') \<and> in_sync (encoder c') (decoder (kg_codec skg))" by blast
  from dec obtain c' where "decode (hs_aead H) (hs_sip H) (kg_codec ckg) w = (Inr (Some (PrngSeed (ss_len_seed ss))), c', [])"
    "in_sync (encoder (kg_codec skg)) (decoder c')" "in_sync (encoder c') (decoder (kg_codec skg))" by auto
  then obtain d' where "decode_loop (hs_aead H) (hs_sip H) (decoder (kg_codec ckg)) w = (Inr (Some (PrngSeed (ss_len_seed ss))), d', [])"
    "in_sync (encoder (kg_codec skg)) d'" "in_sync (encoder (kg_codec ckg)) (decoder (kg_codec skg))" by (auto simp: decode_eq)
  moreover have "server_attempt H DS ?m ?n now hello f = Some (Inr (skg, sh @ w), f')"
    using a(1) h(15) by (simp add: server_attempt_def server_entry_keygen)
  ultimately show thesis using that a(2,3) cl [of _ "[]"] by simp
qed

lemma honest_hello_length:
  assumes "honest_run H DC DS cs ss colC colS ceph seph sr sk ident f nows st hello"
  shows "hello \<noteq> []" "length hello \<le> MAX_HANDSHAKE_LENGTH"
proof -
  from assms have h: "kdfs_ok (hs_kdfs H)" "curve_ok (hs_curve H)" "\<forall>n pad. cd_pad DC n = Some pad \<longrightarrow> length pad = n" "cd_pad_len DC < CLIENT_MAX_PAD_LENGTH"
    "client_handshake_no_keygen (hs_kdfs H) (hs_curve H) (cd_pad DC) (cd_unix DC) ceph (session_client_materials colC DC cs) = Some (st, hello)"
    unfolding honest_run_def by blast+
  from client_handshake_layout [OF h(5)] obtain r pad hr m1 m2 where r: "public_representative (hs_curve H) ceph = Some r"
    "cd_pad DC (cd_pad_len DC) = Some pad" "hello = r @ pad @ hello_mark (hs_kdfs H) m1 r @ hour_mac (hs_kdfs H) m1 m2 (int hr)"
    by (metis session_materials_sel(3,4))
  then have "length hello = length r + (cd_pad_len DC + 32)" using h(3) hello_lengths [OF h(1)] by simp
  then show "hello \<noteq> []" "length hello \<le> MAX_HANDSHAKE_LENGTH"
    using representative_roundtrip(2) [OF h(2) r(1)] h(4) by (auto simp: const_simps)
qed

text \<open>The carrier takes all that is written to it.\<close>

definition takes_all :: "'c async_ops \<Rightarrow> bool" where
  "takes_all A \<longleftrightarrow> (\<forall>buf ts c. ts \<noteq> [] \<longrightarrow> (\<exists>c' ts'. a_write_all A buf ts c = (Ready (Inr ()), c', ts')))"

lemma tunnel_server:
  fixes E :: "('s, 'f) obfs4_env" and H :: "'s handshake_env" and priv :: 'p
  assumes run: "honest_run H DC DS cs ss colC colS ceph seph sr sk ident f (set ts) st hello" and "aead_ok (hs_aead H)" "env_ok E"
    and A: "async_ok A out inp shut eof" "takes_all A" "delivers A hello ts c" "\<forall>t \<in> set ts. t < server_limit dl ts"
      "hd ts + SERVER_HANDSHAKE_TIMEOUT \<le> env_clock_max E"
  obtains skg ckg :: "'s keygen" and sh w d' sS c' f' ts' where
    "server_session_handshake E H DS A colS priv ss dl ts (c, f) = (Ready (Inr sS), (c', f'), ts')"
    "out c' = out c @ sh @ w" "inp c' = inp c @ hello" "read_residual sS = []"
    "stream_inv E out inp (set_handshake_complete (kg_codec skg)) (out c') [] (decoder (kg_codec skg)) (inp c') [] sS"
    "\<exists>s. o4_session sS = ServerSession s \<and> ss_session_id s = kg_session_id ckg \<and> ss_len_seed s = ss_len_seed ss"
    "length (sh @ w) \<le> MAX_HANDSHAKE_LENGTH"
    "\<And>d. client_handshake2 (hs_kdfs H) (hs_curve H) (hs_sip H) d (sh @ w) st = Some (Inr (ckg, w))"
    "decode_loop (hs_aead H) (hs_sip H) (decoder (kg_codec ckg)) w = (Inr (Some (PrngSeed (ss_len_seed ss))), d', [])"
    "in_sync (encoder (kg_codec skg)) d'" "in_sync (encoder (kg_codec ckg)) (decoder (kg_codec skg))"
proof -
  let ?m = "session_server_materials colS ss"
  note hl = honest_hello_length [OF run]
  have dk: "draws_keys (hs_curve H) DS" and nm: "\<forall>v u. hello = v @ u \<and> u \<noteq> [] \<longrightarrow> \<not> mark_at_tail (hs_kdfs H) (get_hmac_key ?m) ([] @ v)"
    using run unfolding honest_run_def by simp_all
  have "\<forall>now \<in> set ts. \<exists>kg resp f'. server_attempt H DS ?m (length ([] @ hello)) now ([] @ hello) f = Some (Inr (kg, resp), f')"
    using honest_run_agrees [OF run assms(2)] by (metis append_Nil)
  from server_loop_accepts [OF A(3) hl(1) A(1) dk _ nm this, of dl] hl(2) obtain c1 ts1 kg resp f1 where
    a: "ts1 \<noteq> []" "set ts1 \<subseteq> set ts" "out c1 = out c" "inp c1 = inp c @ hello"
      "server_attempt H DS ?m (length hello) (hd ts1) hello f = Some (Inr (kg, resp), f1)"
      "server_read_loop H DS A dl ?m [] ts (c, f) =
        (case await (a_write_all A resp ts1 c1) (\<lambda>_ ts c. (Ready (Inr kg), c, ts)) of (r, c, ts) \<Rightarrow> (r, (c, f1), ts))"
    unfolding answers_hello_def by auto
  from a(1,2) have now: "hd ts1 \<in> set ts" by (cases ts1) auto
  obtain skg ckg :: "'s keygen" and sh w f' d' where
    g: "server_attempt H DS ?m (length hello) (hd ts1) hello f = Some (Inr (skg, sh @ w), f')"
      "length (sh @ w) \<le> MAX_HANDSHAKE_LENGTH" "kg_session_id ckg = kg_session_id skg"
      "\<And>d. client_handshake2 (hs_kdfs H) (hs_curve H) (hs_sip H) d (sh @ w) st = Some (Inr (ckg, w))"
      "decode_loop (hs_aead H) (hs_sip H) (decoder (kg_codec ckg)) w = (Inr (Some (PrngSeed (ss_len_seed ss))), d', [])"
      "in_sync (encoder (kg_codec skg)) d'" "in_sync (encoder (kg_codec ckg)) (decoder (kg_codec skg))"
    by (rule honest_run_agrees [OF run assms(2) now]) blast
  from a(5) g(1) have eq: "kg = skg" "resp = sh @ w" "f1 = f'" by simp_all
  from A(2) a(1) obtain c2 ts2 where w: "a_write_all A (sh @ w) ts1 c1 = (Ready (Inr ()), c2, ts2)" unfolding takes_all_def by blast
  note wo = async_write [OF A(1) w]
  have loop: "server_read_loop H DS A dl ?m [] ts (c, f) = (Ready (Inr skg), (c2, f'), ts2)" using a(6) w by (simp add: eq)
  from server_established [OF assms(3) A(4,5) loop, of priv out inp] obtain sS where
    sS: "server_session_handshake E H DS A colS priv ss dl ts (c, f) = (Ready (Inr sS), (c2, f'), ts2)"
      "stream_inv E out inp (set_handshake_complete (kg_codec skg)) (out c2) [] (decoder (kg_codec skg)) (inp c2) [] sS" "read_residual sS = []"
      "\<exists>s. o4_session sS = ServerSession s \<and> ss_session_id s = kg_session_id skg \<and> ss_len_seed s = ss_len_seed ss" by metis
  show thesis by (rule that [OF sS(1) _ _ sS(3,2) _ g(2) g(4-7)]) (use wo a(3,4) sS(4) g(3) in auto)
qed

lemma tunnel_client:
  fixes E :: "('s, 'f) obfs4_env" and H :: "'s handshake_env" and ckg :: "'s keygen" and priv :: 'p
  assumes "client_handshake_no_keygen (hs_kdfs H) (hs_curve H) (cd_pad D) (cd_unix D) ceph (session_client_materials col D s) = Some (st, hello)"
    and "env_ok E" "env_aead E = hs_aead H" "env_sip E = hs_sip H"
    and A: "async_ok A out inp shut eof" "\<forall>t \<in> set ts. t < client_limit dl ts" "sorted ts"
      "a_write_all A hello ts c = (Ready (Inr ()), c1, ts1)" "delivers A (sh @ w) ts1 c1" "length (sh @ w) \<le> MAX_HANDSHAKE_LENGTH"
      "hd ts + CLIENT_HANDSHAKE_TIMEOUT \<le> env_clock_max E"
    and hs: "\<And>d. client_handshake2 (hs_kdfs H) (hs_curve H) (hs_sip H) d (sh @ w) st = Some (Inr (ckg, w))"
      "decode_loop (hs_aead H) (hs_sip H) (decoder (kg_codec ckg)) w = (Inr (Some (PrngSeed seed)), d', [])"
  obtains sC c' ts' ms where
    "client_session_handshake E H D A col priv s dl (Some ceph) ts c = (Ready (Inr sC), c', ts')" "out c' = out c @ hello"
    "stream_inv E out inp (set_handshake_complete (kg_codec ckg)) (out c') [] (decoder (kg_codec ckg)) (inp c @ sh) ms sC"
    "payloads ms = read_residual sC" "\<exists>cl. o4_session sC = ClientSession cl \<and> cs_session_id cl = kg_session_id ckg"
proof -
  note wo = async_write [OF A(1,4)]
  have "client_verdict A inp dl (sh @ w) c1 (Inr (ckg, w)) (client_read_loop H D A dl st [] ts1 c1)"
    by (rule client_loop_decides [where d = 0 and buf = "[]", OF A(5) _ _ _ client_handshake2_empty A(1)]) (use hs(1) A(6) in auto)
  then obtain v u p c2 ts2 where v: "sh @ w = v @ u" "inp c2 = inp c1 @ v" "w = p @ u"
      "client_read_loop H D A dl st [] ts1 c1 = (Ready (Inr (p, ckg)), c2, ts2)"
    unfolding client_verdict_def by auto
  have v': "v = sh @ p" using v(1,3) by simp
  have "sorted ts1" using on_time_sorted [OF wo(1)] A(3) by simp
  from client_loop_run [OF A(1) v(4) _ this] have o2: "out c2 = out c1" by (auto simp: client_outcome_def const_simps)
  have run: "client_complete_handshake H D A (session_client_materials col D s) dl (Some ceph) ts c = (Ready (Inr (p, ckg)), c2, ts2)"
    using assms(1) A(4) v(4) by (simp add: client_complete_handshake_def)
  have d: "decode_loop (env_aead E) (env_sip E) (decoder (kg_codec ckg)) (p @ u) = (Inr (Some (PrngSeed seed)), d', [])"
    using hs(2) assms(3,4) v(3) by simp
  have i: "inp c2 = (inp c @ sh) @ p" using v(2) v' wo(2) by simp
  from client_established [where inp = inp, OF assms(2) A(2,7) run d i, of priv out] obtain sC ms where
    "client_session_handshake E H D A col priv s dl (Some ceph) ts c = (Ready (Inr sC), c2, ts2)"
    "stream_inv E out inp (set_handshake_complete (kg_codec ckg)) (out c2) [] (decoder (kg_codec ckg)) (inp c @ sh) ms sC"
    "payloads ms = read_residual sC" "\<exists>cl. o4_session sC = ClientSession cl \<and> cs_session_id cl = kg_session_id ckg" by metis
  with that o2 wo(5) show thesis by simp
qed

lemma run_ops_grows:
  fixes E :: "('s, 'f) obfs4_env"
  assumes "framed_ok E C Fr" "env_ok E" "duplex_ok C out inp" "stream_inv E out inp c0 w0 ps d0 i0 ms s"
    and "run_ops E Fr ops s = Some (acc, got, s')"
  obtains X Y where "wire out (o4_framed s') = w0 @ X" "inp (ic_inner (fr_io (o4_framed s'))) = i0 @ Y"
proof -
  from run_ops_inv [OF assms(1-3,5,4)] obtain qs ns where "stream_inv E out inp c0 w0 (ps @ qs) d0 i0 (ms @ ns) s'" by blast
  with that show thesis by (auto simp: stream_inv_def sent_def received_def dest!: encode_all_extends)
qed

text \<open>
  One direction of a connection is intact: after any operations on both ends, if what the
  receiver's carrier has delivered is a prefix of what the sender's carrier has taken, what
  the receiver has handed out is a prefix of what the sender has accepted. \<open>oA\<close> and \<open>iB\<close> are
  what the two carriers had transported before the connection.
\<close>

definition intact_link where
  "intact_link EA FrA outA oA sA EB FrB inpB iB sB \<longleftrightarrow>
     (\<forall>opsA accA gotA sA' opsB accB gotB sB' w rest.
        run_ops EA FrA opsA sA = Some (accA, gotA, sA') \<and> run_ops EB FrB opsB sB = Some (accB, gotB, sB')
        \<and> inpB (ic_inner (fr_io (o4_framed sB'))) = iB @ w \<and> outA (ic_inner (fr_io (o4_framed sA'))) = oA @ w @ rest
        \<longrightarrow> (\<exists>later. accA = gotB @ read_residual sB' @ later))"

lemma intact_link_streams:
  fixes EA :: "('s, 'f) obfs4_env" and EB :: "('s, 'g) obfs4_env"
  assumes A: "framed_ok EA CA FrA" "env_ok EA" "duplex_ok CA outA inpA" "stream_inv EA outA inpA cA wA [] dA iA mA sA"
    and B: "framed_ok EB CB FrB" "env_ok EB" "duplex_ok CB outB inpB" "stream_inv EB outB inpB cB wB pB d0 i0 ms0 sB"
    and peers: "env_aead EB = env_aead EA" "env_sip EB = env_sip EA" "payloads ms0 = read_residual sB" "in_sync (encoder cA) d1"
      "\<And>x. deliver (env_aead EA) (env_sip EA) d0 (pre @ x) = (case deliver (env_aead EA) (env_sip EA) d1 x of (ms, r) \<Rightarrow> (ms1 @ ms, r))"
      "payloads ms1 = []"
    and hello: "wA = oA @ h @ pre" "i0 = iB @ h"
  shows "intact_link EA FrA outA oA sA EB FrB inpB iB sB"
  unfolding intact_link_def
proof (intro allI impI, elim conjE)
  fix opsA accA gotA sA' opsB accB gotB sB' w rest
  assume rA: "run_ops EA FrA opsA sA = Some (accA, gotA, sA')" and rB: "run_ops EB FrB opsB sB = Some (accB, gotB, sB')"
    and n: "inpB (ic_inner (fr_io (o4_framed sB'))) = iB @ w" "outA (ic_inner (fr_io (o4_framed sA'))) = oA @ w @ rest"
  from run_ops_grows [OF A rA] obtain X where X: "wire outA (o4_framed sA') = wA @ X" by metis
  from run_ops_grows [OF B rB] obtain Y where Y: "inpB (ic_inner (fr_io (o4_framed sB'))) = i0 @ Y" by metis
  have "pre @ X = Y @ rest @ fr_wbuf (o4_framed sA')" using X Y n hello by (auto simp: wire_def)
  from stream_direction [OF A B peers rA rB Y X this] show "\<exists>later. accA = gotB @ read_residual sB' @ later" .
qed

section \<open>Properties\<close>

text \<open>
  C1. A connection is intact from its first byte to its last. An honest client and its server
  complete the handshake over any carriers that deliver the two hellos, cut into pieces in
  any way; both get the same session id; and from then on, whatever interleaving of writes,
  reads, flushes and shutdowns the two sides perform, what either side reads is a prefix of
  what the other side's writer was told was accepted, in both directions, provided only that
  the network delivers a prefix of the bytes each side gave it. The seed frame that follows
  the server's hello, read together with it or in pieces later, disturbs nothing.
\<close>

theorem tunnel_integrity:
  fixes ES :: "('s, 'f) obfs4_env" and EC :: "('s, 'g) obfs4_env"
  assumes run: "honest_run H DC DS cs ss colC colS ceph seph sr sk ident f (set tsS) st hello" and "aead_ok (hs_aead H)"
    and S: "env_ok ES" "env_aead ES = hs_aead H" "env_sip ES = hs_sip H" "async_ok AS outS inpS shutS eofS" "takes_all AS"
      "delivers AS hello tsS cS" "\<forall>t \<in> set tsS. t < server_limit dlS tsS" "framed_ok ES CS FrS" "duplex_ok CS outS inpS"
      "hd tsS + SERVER_HANDSHAKE_TIMEOUT \<le> env_clock_max ES"
    and C: "env_ok EC" "env_aead EC = hs_aead H" "env_sip EC = hs_sip H" "async_ok AC outC inpC shutC eofC"
      "a_write_all AC hello tsC cC = (Ready (Inr ()), c1, ts1)" "sorted tsC" "\<forall>t \<in> set tsC. t < client_limit dlC tsC"
      "framed_ok EC CC FrC" "duplex_ok CC outC inpC" "hd tsC + CLIENT_HANDSHAKE_TIMEOUT \<le> env_clock_max EC"
  shows "\<exists>sS cS' fS tsS' reply. server_session_handshake ES H DS AS colS pS ss dlS tsS (cS, f) = (Ready (Inr sS), (cS', fS), tsS')
    \<and> outS cS' = outS cS @ reply
    \<and> (delivers AC reply ts1 c1 \<longrightarrow>
        (\<exists>sC cC' tsC' s cl. client_session_handshake EC H DC AC colC pC cs dlC (Some ceph) tsC cC = (Ready (Inr sC), cC', tsC')
         \<and> o4_session sS = ServerSession s \<and> o4_session sC = ClientSession cl \<and> cs_session_id cl = ss_session_id s
         \<and> intact_link EC FrC outC (outC cC) sC ES FrS inpS (inpS cS) sS
         \<and> intact_link ES FrS outS (outS cS) sS EC FrC inpC (inpC cC) sC))"
proof -
  obtain skg ckg :: "'s keygen" and sh w d' sS cS' fS tsS' where
    s: "server_session_handshake ES H DS AS colS pS ss dlS tsS (cS, f) = (Ready (Inr sS), (cS', fS), tsS')"
      "outS cS' = outS cS @ sh @ w" "inpS cS' = inpS cS @ hello" "read_residual sS = []"
    and iS: "stream_inv ES outS inpS (set_handshake_complete (kg_codec skg)) (outS cS') [] (decoder (kg_codec skg)) (inpS cS') [] sS"
    and ids: "\<exists>s. o4_session sS = ServerSession s \<and> ss_session_id s = kg_session_id ckg \<and> ss_len_seed s = ss_len_seed ss"
    and hs: "length (sh @ w) \<le> MAX_HANDSHAKE_LENGTH"
      "\<And>d. client_handshake2 (hs_kdfs H) (hs_curve H) (hs_sip H) d (sh @ w) st = Some (Inr (ckg, w))"
      "decode_loop (hs_aead H) (hs_sip H) (decoder (kg_codec ckg)) w = (Inr (Some (PrngSeed (ss_len_seed ss))), d', [])"
      "in_sync (encoder (kg_codec skg)) d'" "in_sync (encoder (kg_codec ckg)) (decoder (kg_codec skg))"
    by (rule tunnel_server [OF run assms(2) S(1,4,5,6,7,10), of pS]) blast
  have ch: "client_handshake_no_keygen (hs_kdfs H) (hs_curve H) (cd_pad DC) (cd_unix DC) ceph (session_client_materials colC DC cs) = Some (st, hello)"
    using run by (simp add: honest_run_def)
  have "\<exists>sC cC' tsC' s cl. client_session_handshake EC H DC AC colC pC cs dlC (Some ceph) tsC cC = (Ready (Inr sC), cC', tsC')
      \<and> o4_session sS = ServerSession s \<and> o4_session sC = ClientSession cl \<and> cs_session_id cl = ss_session_id s
      \<and> intact_link EC FrC outC (outC cC) sC ES FrS inpS (inpS cS) sS
      \<and> intact_link ES FrS outS (outS cS) sS EC FrC inpC (inpC cC) sC" if del: "delivers AC (sh @ w) ts1 c1"
  proof -
    obtain sC cC' tsC' ms where
      c: "client_session_handshake EC H DC AC colC pC cs dlC (Some ceph) tsC cC = (Ready (Inr sC), cC', tsC')" "outC cC' = outC cC @ hello"
      and iC: "stream_inv EC outC inpC (set_handshake_complete (kg_codec ckg)) (outC cC') [] (decoder (kg_codec ckg)) (inpC cC @ sh) ms sC"
      and ms: "payloads ms = read_residual sC" "\<exists>cl. o4_session sC = ClientSession cl \<and> cs_session_id cl = kg_session_id ckg"
      by (rule tunnel_client [OF ch C(1-4,7,6,5) del hs(1) C(10) hs(2,3), of pC]) blast
    have "intact_link EC FrC outC (outC cC) sC ES FrS inpS (inpS cS) sS"
      by (rule intact_link_streams [where ?ms1.0 = "[]" and pre = "[]" and h = hello, OF C(8,1,9) iC S(8,1,9) iS])
        (use S(2,3) C(2,3) s(3,4) c(2) hs(5) in \<open>auto simp: set_handshake_complete_def split: prod.splits\<close>)
    moreover have "intact_link ES FrS outS (outS cS) sS EC FrC inpC (inpC cC) sC"
      by (rule intact_link_streams [where ?ms1.0 = "[PrngSeed (ss_len_seed ss)]" and pre = w and h = sh, OF S(8,1,9) iS C(8,1,9) iC])
        (use S(2,3) C(2,3) s(2) ms(1) hs(4) deliver_message [OF hs(3)] in \<open>auto simp: set_handshake_complete_def split: prod.splits\<close>)
    ultimately show ?thesis using c(1) ids ms(2) by fastforce
  qed
  then show ?thesis using s(1,2) by (intro exI [of _ sS] exI [of _ cS'] exI [of _ fS] exI [of _ tsS'] exI [of _ "sh @ w"]) simp
qed

text \<open>An instance: a client and a server over carriers that deliver a byte or 32 bytes at a time.\<close>

definition piece_carrier :: "piece_peer carrier" where
  "piece_carrier = \<lparr>
     c_poll_read = (\<lambda>cap c. if pp_next c = [] then (Pending, c)
       else (Ready (Inr (take cap (pp_next c))), c \<lparr> pp_next := drop cap (pp_next c), pp_inp := pp_inp c @ take cap (pp_next c) \<rparr>)),
     c_poll_write = (\<lambda>b c. (Ready (Inr (length b)), c \<lparr> pp_out := pp_out c @ b \<rparr>)),
     c_poll_flush = (\<lambda>c. (Ready (Inr ()), c)), c_poll_shutdown = (\<lambda>c. (Ready (Inr ()), c \<lparr> pp_shut := True \<rparr>)) \<rparr>"

lemma piece_carrier_ok: "duplex_ok piece_carrier pp_out pp_inp"
  by (auto simp: duplex_ok_def carrier_ok_def piece_carrier_def split: if_splits)

definition toy_client_session :: "initialized client_session" where
  "toy_client_session = \<lparr> cs_node_pubkey = nsk_pk (sm_identity_keys wit_server), cs_session_id = replicate SESSION_ID_LEN 1,
     cs_iat_mode = Off, cs_epoch_hour = '''', cs_biased = False, cs_len_seed = replicate 24 0, cs_state = Initialized \<rparr>"

lemma toy_client_session_new:
  "new_client_session_with_rng (nsk_pk (sm_identity_keys wit_server)) Off (\<lambda>n. replicate n 1) (Inr (replicate 24 0)) = Some toy_client_session"
  by (simp add: new_client_session_with_rng_def seed_new_def toy_client_session_def)

definition toy_server_session :: "initialized server_session" where
  "toy_server_session = \<lparr> ss_identity_keys = sm_identity_keys wit_server, ss_biased = False, ss_iat_mode = Off, ss_session_id = replicate 8 2,
     ss_len_seed = replicate 24 3, ss_iat_seed = replicate 24 4, ss_state = Initialized \<rparr>"

lemma toy_ephemeral: "ephemeral_from_rng toy_curve (\<lambda>_. ([9], 0)) = Inr \<lparr> eph_sk = [9], eph_tweak = 0 \<rparr>"
proof -
  have lim: "RETRY_LIMIT = Suc 127" by (simp add: RETRY_LIMIT_def)
  show ?thesis unfolding ephemeral_from_rng_def lim ephemeral_attempts.simps by (simp add: toy_curve_def)
qed

lemma toy_no_early_mark:
  assumes "hello = replicate 32 (3 :: u8) @ replicate 80 0 @ replicate 16 3 @ mac" "length mac = 16" "hello = v @ u" "u \<noteq> []"
    and "hello_mark toy_kdfs key (replicate 32 3) = replicate 16 3"
  shows "\<not> mark_at_tail toy_kdfs key v"
proof
  assume m: "mark_at_tail toy_kdfs key v"
  have len: "length v + length u = 144" "141 \<le> length v" using assms(1-3) m by (auto simp: mark_at_tail_def dest: arg_cong [of _ _ length])
  have "take 32 v = take 32 hello" using len assms(3) by simp
  then have r: "take 32 v = replicate 32 3" using assms(1) by simp
  have n: "v ! i = hello ! i" if "i < length v" for i using that assms(3) by (simp add: nth_append)
  have "take 16 (drop (length v - 32) v) ! 0 = (3 :: u8)" using m r assms(5) by (simp add: mark_at_tail_def)
  then have "hello ! (length v - 32) = 3" using len n [of "length v - 32"] by simp
  moreover have "length v - 64 < 80" "32 \<le> length v - 32" using len assms(4) by (cases u; simp)+
  ultimately show False unfolding assms(1) by (simp add: nth_append)
qed

lemma toy_sel:
  "hs_kdfs toy_hs = toy_kdfs" "hs_curve toy_hs = toy_curve" "hs_aead toy_hs = toy_aead" "hs_sip toy_hs = sum_hasher"
  "cd_pad toy_client_draws = (\<lambda>n. Some (replicate n 0))" "cd_pad_len toy_client_draws = 80" "cd_unix toy_client_draws = 18000"
  "sd_key toy_server_draws n = (\<lambda>_. ([9], 0))" "sd_pad toy_server_draws n = (\<lambda>n. Some (replicate n 0))" "sd_pad_len toy_server_draws n = 1"
  "sd_unix toy_server_draws n = 21000" "ss_identity_keys toy_server_session = ntor_secret_key_new toy_curve [2] [1]"
  "ss_len_seed toy_server_session = replicate 24 3" "cs_node_pubkey toy_client_session = nsk_pk (ntor_secret_key_new toy_curve [2] [1])"
  by (simp_all add: toy_hs_def toy_client_draws_def toy_server_draws_def toy_server_session_def toy_client_session_def
      wit_server_def)

lemma toy_honest_run:
  obtains st hello where
    "honest_run toy_hs toy_client_draws toy_server_draws toy_client_session toy_server_session (\<lambda>_. []) (\<lambda>_. [])
       \<lparr> eph_sk = [3], eph_tweak = 0 \<rparr> \<lparr> eph_sk = [9], eph_tweak = 0 \<rparr> (replicate 32 9) [2] [1] (replay_filter_new [] REPLAY_TTL) nows st hello"
proof -
  let ?cm = "session_client_materials (\<lambda>_. []) toy_client_draws toy_client_session"
  let ?sm = "session_server_materials (\<lambda>_. []) toy_server_session"
  let ?key = "get_hmac_key ?sm"
  obtain st hello where c: "client_handshake_no_keygen toy_kdfs toy_curve (\<lambda>n. Some (replicate n 0)) 18000 \<lparr> eph_sk = [3], eph_tweak = 0 \<rparr> ?cm = Some (st, hello)"
    using toy_client_hello by blast
  have k: "?key = mac_key (cm_node_pubkey ?cm)"
    by (simp add: get_hmac_key_def toy_client_session_def toy_server_session_def)
  have mark: "hello_mark toy_kdfs ?key (replicate 32 3) = replicate 16 3"
    by (simp add: hello_mark_def toy_kdfs_def const_simps)
  from client_handshake_layout [OF c] mark obtain m where
    hello: "hello = replicate 32 3 @ replicate 80 0 @ replicate 16 3 @ hour_mac toy_kdfs ?key m 5"
    unfolding k by (auto simp: public_representative_def toy_curve_def toy_client_draws_def get_epoch_hour_def)
  have early: "\<not> mark_at_tail toy_kdfs ?key v" if "hello = v @ u" "u \<noteq> []" for v u
    by (rule toy_no_early_mark [OF hello _ that mark]) (simp add: hello_lengths(2) [OF toy_kdfs_ok])
  have clear: "pad_clear toy_kdfs ?key [0] (replicate 32 9)"
    using toy_hello_facts(3) by (simp add: pad_clear_def toy_hello_facts(1))
  have "honest_run toy_hs toy_client_draws toy_server_draws toy_client_session toy_server_session (\<lambda>_. []) (\<lambda>_. [])
       \<lparr> eph_sk = [3], eph_tweak = 0 \<rparr> \<lparr> eph_sk = [9], eph_tweak = 0 \<rparr> (replicate 32 9) [2] [1] (replay_filter_new [] REPLAY_TTL) nows st hello"
    unfolding honest_run_def toy_sel
  proof (intro conjI allI ballI impI)
    show "client_handshake_no_keygen toy_kdfs toy_curve (\<lambda>n. Some (replicate n 0)) 18000 \<lparr> eph_sk = [3], eph_tweak = 0 \<rparr> ?cm = Some (st, hello)" by (rule c)
    show "\<not> mark_at_tail toy_kdfs ?key v" if "hello = v @ u \<and> u \<noteq> []" for v u using early that by blast
    show "\<exists>pad. Some (replicate 1 0) = Some pad \<and> length pad = 1 \<and> pad_clear toy_kdfs ?key pad (replicate 32 9)" using clear by simp
    show "\<exists>chour shour. get_epoch_hour 18000 = Some chour \<and> get_epoch_hour 21000 = Some shour \<and> int chour \<in> near (int shour)
        \<and> no_collision toy_kdfs ?key (take (length hello - 16) hello) (near (int shour))"
      by (simp add: toy_handshake_simps)
    show "draws_keys toy_curve toy_server_draws" by (simp add: draws_keys_def toy_sel toy_ephemeral)
    show "ephemeral_from_rng toy_curve (\<lambda>_. ([9], 0)) = Inr \<lparr> eph_sk = [9], eph_tweak = 0 \<rparr>" by (rule toy_ephemeral)
    show "kdfs_ok toy_kdfs" by simp
    show "curve_ok toy_curve" by (rule toy_curve_ok)
  qed (simp_all add: toy_handshake_simps)
  then show thesis by (rule that)
qed

lemma piece_takes_all: "takes_all (piece_io k)"
  by (auto simp: takes_all_def piece_io_def at_once_eq)

theorem tunnel_integrity_witness:
  "\<exists>hello sS cS' fS tsS' sC cC' tsC' s cl.
     server_session_handshake toy_env toy_hs toy_server_draws (piece_io 0) (\<lambda>_. []) () toy_server_session (Some 9) [5]
       (piece_peer_new hello, replay_filter_new [] REPLAY_TTL) = (Ready (Inr sS), (cS', fS), tsS')
     \<and> client_session_handshake toy_env toy_hs toy_client_draws (piece_io 31) (\<lambda>_. []) () toy_client_session (Some 9)
         (Some \<lparr> eph_sk = [3], eph_tweak = 0 \<rparr>) [5] (piece_peer_new (pp_out cS')) = (Ready (Inr sC), cC', tsC')
     \<and> o4_session sS = ServerSession s \<and> o4_session sC = ClientSession cl \<and> cs_session_id cl = ss_session_id s"
proof -
  let ?Fr = "simple_framed toy_env piece_carrier"
  have env: "env_aead toy_env = hs_aead toy_hs" "env_sip toy_env = hs_sip toy_hs" "aead_ok (hs_aead toy_hs)"
    using toy_env_ok by (simp_all add: toy_env_def toy_hs_def env_ok_def)
  have F: "framed_ok toy_env piece_carrier ?Fr" by (rule simple_framed_ok) (use piece_carrier_ok in \<open>auto simp: duplex_ok_def\<close>)
  obtain st hello where run: "honest_run toy_hs toy_client_draws toy_server_draws toy_client_session toy_server_session (\<lambda>_. []) (\<lambda>_. [])
      \<lparr> eph_sk = [3], eph_tweak = 0 \<rparr> \<lparr> eph_sk = [9], eph_tweak = 0 \<rparr> (replicate 32 9) [2] [1] (replay_filter_new [] REPLAY_TTL)
      (set [5]) st hello" by (rule toy_honest_run)
  have del: "delivers (piece_io 0) hello [5] (piece_peer_new hello)"
    using piece_delivers [of "[5]" 0 "piece_peer_new hello"] by (simp add: piece_peer_new_def)
  have lim: "\<forall>t \<in> set [5]. t < server_limit (Some 9) [5]" "\<forall>t \<in> set [5]. t < client_limit (Some 9) [5]"
    by (simp_all add: server_limit_def client_limit_def)
  have cm: "hd [5] + SERVER_HANDSHAKE_TIMEOUT \<le> env_clock_max toy_env" "hd [5] + CLIENT_HANDSHAKE_TIMEOUT \<le> env_clock_max toy_env"
    by (simp_all add: toy_env_def SERVER_HANDSHAKE_TIMEOUT_def CLIENT_HANDSHAKE_TIMEOUT_def)
  have w: "a_write_all (piece_io 31) hello [5] c = (Ready (Inr ()), c \<lparr> pp_out := pp_out c @ hello \<rparr>, [5])" for c
    by (simp add: piece_io_def)
  note T = tunnel_integrity [where pS = "()" and pC = "()", OF run env(3) toy_env_ok env(1,2) piece_io_ok piece_takes_all del lim(1) F piece_carrier_ok cm(1)
      toy_env_ok env(1,2) piece_io_ok w _ lim(2) F piece_carrier_ok cm(2)]
  from T [of "piece_peer_new []"] obtain sS cS' fS tsS' where
    s: "server_session_handshake toy_env toy_hs toy_server_draws (piece_io 0) (\<lambda>_. []) () toy_server_session (Some 9) [5]
       (piece_peer_new hello, replay_filter_new [] REPLAY_TTL) = (Ready (Inr sS), (cS', fS), tsS')" by auto
  let ?c = "piece_peer_new (pp_out cS') \<lparr> pp_out := pp_out (piece_peer_new (pp_out cS')) @ hello \<rparr>"
  have "delivers (piece_io 31) (pp_out cS') [5] ?c"
    using piece_delivers [of "[5]" 31 ?c] by (simp add: piece_peer_new_def)
  moreover have "pp_out (piece_peer_new hello) = []" by (simp add: piece_peer_new_def)
  ultimately obtain sC cC' tsC' s cl where
    "client_session_handshake toy_env toy_hs toy_client_draws (piece_io 31) (\<lambda>_. []) () toy_client_session (Some 9)
         (Some \<lparr> eph_sk = [3], eph_tweak = 0 \<rparr>) [5] (piece_peer_new (pp_out cS')) = (Ready (Inr sC), cC', tsC')"
    "o4_session sS = ServerSession s" "o4_session sC = ClientSession cl" "cs_session_id cl = ss_session_id s"
    using T [of "piece_peer_new (pp_out cS')"] s by auto
  with s show ?thesis by blast
qed

lemma server_complete_on_time:
  assumes "async_ok A out inp shut eof" "sorted ts"
  shows "\<forall>ts0 r cf ts'. server_complete_handshake H D A m dl ts0 (c, f) = (r, cf, ts') \<and> (\<exists>us. ts = ts0 @ us) \<longrightarrow> on_time r ts0 ts'"
proof (intro allI impI)
  fix ts0 r cf ts'
  assume a: "server_complete_handshake H D A m dl ts0 (c, f) = (r, cf, ts') \<and> (\<exists>us. ts = ts0 @ us)"
  then have "sorted ts0" using assms(2) by (auto simp: sorted_append)
  obtain c' f' where "cf = (c', f')" by force
  with a server_loop_run [OF assms(1), of H D dl m "[]" ts0 c f r c' f' ts'] \<open>sorted ts0\<close>
  show "on_time r ts0 ts'" by (simp add: server_complete_handshake_def server_outcome_def const_simps)
qed

text \<open>
  C4. The server is silent to whoever does not know its node key: whatever a peer sends, in
  whatever pieces, and however the handshake ends, the server has written a byte only if what
  it had read by then is exactly one hello that carries the mark under the node's key and
  the MAC of the current, the previous or the next hour. A probe gets no answer at all.
\<close>

theorem server_silent_to_probes:
  assumes "async_ok A out inp shut eof" "kdfs_ok (hs_kdfs H)" "sorted ts"
    and "server_session_handshake E H D A col priv s dl ts (c, f) = (r, (c', f'), ts')" "out c' \<noteq> out c"
    and "key = mac_key (nsk_pk (ss_identity_keys s))"
  shows "\<exists>hello repr pad hour. inp c' = inp c @ hello \<and> length hello \<le> MAX_HANDSHAKE_LENGTH
    \<and> length repr = REPRESENTATIVE_LENGTH \<and> CLIENT_MIN_PAD_LENGTH \<le> length pad
    \<and> (\<exists>h. get_epoch_hour (sd_unix D (length hello)) = Some h \<and> hour \<in> near (int h))
    \<and> hello = (repr @ pad @ hello_mark (hs_kdfs H) key repr)
        @ hour_mac (hs_kdfs H) key (repr @ pad @ hello_mark (hs_kdfs H) key repr) hour"
proof -
  define m where "m = server_materials_new (ss_identity_keys s) (server_session_id col (server_transition ServerHandshaking s)) (ss_len_seed s)"
  have sel: "ss_identity_keys (server_transition ServerHandshaking s) = ss_identity_keys s"
      "ss_len_seed (server_transition ServerHandshaking s) = ss_len_seed s" by (simp_all add: server_transition_def)
  from assms(6) have key: "key = get_hmac_key m" by (simp add: m_def get_hmac_key_def server_materials_new_def)
  obtain q cf ts1 where q: "timeout_at (case dl of Some d \<Rightarrow> d | None \<Rightarrow> hd ts + SERVER_HANDSHAKE_TIMEOUT)
      (server_complete_handshake H D A m dl) ts (c, f) = (q, cf, ts1)" by (metis prod_cases3)
  have "hd ts + SERVER_HANDSHAKE_TIMEOUT \<le> env_clock_max E"
    using assms(4,5) by (auto simp: server_session_handshake_def instant_checked_add_def Let_def split: if_splits)
  then have cf: "cf = (c', f')"
    using assms(4) q unfolding server_session_handshake_def Let_def sel m_def [symmetric]
    by (auto simp: instant_checked_add_def split: poll.splits option.splits sum.splits)
  note on = server_complete_on_time [OF assms(1,3), of H D m dl c f]
  from timeout_at_run(4) [OF q on] obtain ts0 p ts2 where p: "server_read_loop H D A dl m [] ts0 (c, f) = (p, (c', f'), ts2)"
      "\<exists>us. ts = ts0 @ us" unfolding server_complete_handshake_def cf by blast
  then have "sorted ts0" using assms(3) by (auto simp: sorted_append)
  with server_loop_run [OF assms(1) p(1)] obtain bs where bs: "inp c' = inp c @ bs" "answered H D m bs out c p c' f'"
      "length bs \<le> MAX_HANDSHAKE_LENGTH"
    using assms(5) unfolding server_outcome_def by (auto simp: const_simps)
  then obtain now kg resp f0 where "server_attempt H D m (length bs) now bs f0 = Some (Inr (kg, resp), f')"
    unfolding answered_def by blast
  then obtain h ch f1 where h: "get_epoch_hour (sd_unix D (length bs)) = Some h"
      "try_parse_client_handshake_at (hs_kdfs H) (hs_sip H) now bs m h f0 = (Inr ch, f1)"
    by (rule attempt_accepted)
  from parsed_hello_mac [OF assms(2) h(2)] obtain repr pad hour where "length repr = 32" "77 \<le> length pad"
      "hour \<in> near (int h)"
      "bs = (repr @ pad @ hello_mark (hs_kdfs H) key repr) @ hour_mac (hs_kdfs H) key (repr @ pad @ hello_mark (hs_kdfs H) key repr) hour"
    unfolding key .
  with bs(1,3) h(1) show ?thesis by (intro exI [of _ bs] exI [of _ repr] exI [of _ pad] exI [of _ hour] conjI) (simp_all add: const_simps)
qed

theorem server_silent_to_probes_witness:
  "\<exists>w r c' f' ts' hello repr pad hour.
     server_session_handshake toy_env toy_hs toy_server_draws (piece_io 0) (\<lambda>_. []) () toy_server_session (Some 9) [5]
       (piece_peer_new w, replay_filter_new [] REPLAY_TTL) = (r, (c', f'), ts')
     \<and> pp_out c' \<noteq> [] \<and> pp_inp c' = hello \<and> length repr = 32 \<and> get_epoch_hour 21000 = Some 5 \<and> hour \<in> near (int 5)
     \<and> hello = (repr @ pad @ hello_mark toy_kdfs (mac_key (nsk_pk (ss_identity_keys toy_server_session))) repr)
         @ hour_mac toy_kdfs (mac_key (nsk_pk (ss_identity_keys toy_server_session)))
             (repr @ pad @ hello_mark toy_kdfs (mac_key (nsk_pk (ss_identity_keys toy_server_session))) repr) hour"
proof -
  let ?c = "\<lambda>w. piece_peer_new w" and ?key = "mac_key (nsk_pk (ss_identity_keys toy_server_session))"
  obtain st hello where run: "honest_run toy_hs toy_client_draws toy_server_draws toy_client_session toy_server_session (\<lambda>_. []) (\<lambda>_. [])
      \<lparr> eph_sk = [3], eph_tweak = 0 \<rparr> \<lparr> eph_sk = [9], eph_tweak = 0 \<rparr> (replicate 32 9) [2] [1] (replay_filter_new [] REPLAY_TTL)
      (set [5]) st hello" by (rule toy_honest_run)
  have del: "delivers (piece_io 0) hello [5] (?c hello)"
    using piece_delivers [of "[5]" 0 "?c hello"] by (simp add: piece_peer_new_def)
  have a: "aead_ok (hs_aead toy_hs)" by (simp add: toy_hs_def)
  have lim: "\<forall>t \<in> set [5]. t < server_limit (Some 9) [5]" "hd [5] + SERVER_HANDSHAKE_TIMEOUT \<le> env_clock_max toy_env"
    by (simp_all add: server_limit_def toy_env_def SERVER_HANDSHAKE_TIMEOUT_def)
  obtain d :: "bytes decoder" and sh w d' sS c' f' ts' where
    s: "server_session_handshake toy_env toy_hs toy_server_draws (piece_io 0) (\<lambda>_. []) () toy_server_session (Some 9) [5]
       (?c hello, replay_filter_new [] REPLAY_TTL) = (Ready (Inr sS), (c', f'), ts')"
      "pp_out c' = pp_out (?c hello) @ sh @ w"
      "decode_loop (hs_aead toy_hs) (hs_sip toy_hs) d w = (Inr (Some (PrngSeed (ss_len_seed toy_server_session))), d', [])"
    by (rule tunnel_server [OF run a toy_env_ok piece_io_ok piece_takes_all del lim, of "()"]) blast
  have "w \<noteq> []" using s(3) by (auto simp: decode_nothing)
  then have o: "pp_out c' \<noteq> pp_out (?c hello)" using s(2) by simp
  have k: "kdfs_ok (hs_kdfs toy_hs)" by (simp add: toy_hs_def)
  from server_silent_to_probes [OF piece_io_ok k _ s(1) o refl] s(1) o show ?thesis
    by (fastforce simp: toy_sel piece_peer_new_def const_simps get_epoch_hour_def)
qed

end
