(* ===== verification/StateFile.thy ===== *)
theory StateFile
  imports Args Sessions
begin

text \<open>
  State on disk: \<^verbatim>\<open>atomic_write_json\<close>, \<^verbatim>\<open>parent_directory_of\<close>, \<^verbatim>\<open>sync_parent_directory\<close>,
  \<^verbatim>\<open>AtomicWriteError\<close> and the module \<^verbatim>\<open>iat_mode_json\<close> of \<^verbatim>\<open>crates/obfs4/src/lib.rs\<close>, and the two
  JSON records \<^verbatim>\<open>JsonServerState\<close> (\<^verbatim>\<open>server.rs\<close>) and \<^verbatim>\<open>JsonClientState\<close> (\<^verbatim>\<open>client.rs\<close>).

  The file system is a map from what paths name to files and directories. \<open>fs_resolve\<close> is the
  operating system's reading of a path, so two spellings may name one file; it stays the same
  while the builders run. Every system call may fail: \<open>fs_faults\<close> lists the outcomes of the
  calls to come, and a call whose entry is \<^term>\<open>None\<close>, or that finds the list empty, does what
  it is asked. A temporary file has a fresh name and is removed when its handle is dropped,
  so it shows only through the rename that publishes it. \<^verbatim>\<open>serde_json\<close> with the code that
  \<^verbatim>\<open>serde\<close> derives is the parameter \<open>serde\<close>, given the two functions of \<^verbatim>\<open>iat_mode_json\<close>.
\<close>

section \<open>Strings and bytes\<close>

text \<open>The string whose UTF-8 encoding the bytes are.\<close>

definition bytes_str :: "bytes \<Rightarrow> string" where
  "bytes_str b = map (\<lambda>w. char_of (unat w)) b"

lemma str_bytes_str [simp]: "str_bytes (bytes_str b) = b"
proof -
  have "unat w < 2 ^ LENGTH(8)" for w :: u8 by (rule unsigned_less)
  then have "unat w mod 256 = unat w" for w :: u8 by simp
  then have "of_nat (of_char (char_of (unat w)) :: nat) = w" for w :: u8 by (simp del: of_nat_of_char)
  then show ?thesis by (simp add: bytes_str_def str_bytes_def comp_def del: of_nat_of_char)
qed

section \<open>Fallible operations on the file system\<close>

datatype fnode = FileNode bytes | DirNode

record 'k fs =
  fs_resolve :: "string \<Rightarrow> 'k"
  fs_nodes :: "'k \<Rightarrow> fnode option"
  fs_faults :: "io_error option list"

text \<open>A fallible operation on a state, and one on the file system.\<close>

type_synonym ('e, 'a, 's) op = "'s \<Rightarrow> ('e + 'a) \<times> 's"
type_synonym ('e, 'a, 'k) fsop = "('e, 'a, 'k fs) op"

definition io_bind :: "('e, 'a, 's) op \<Rightarrow> ('a \<Rightarrow> ('e, 'b, 's) op) \<Rightarrow> ('e, 'b, 's) op" where
  "io_bind m f F = (case m F of (Inl e, F) \<Rightarrow> (Inl e, F) | (Inr x, F) \<Rightarrow> f x F)"

definition io_lift :: "'e + 'a \<Rightarrow> ('e, 'a, 's) op" where
  "io_lift r F = (r, F)"

definition io_map_err :: "('e \<Rightarrow> 'd) \<Rightarrow> ('e, 'a, 's) op \<Rightarrow> ('d, 'a, 's) op" where
  "io_map_err g m F = (case m F of (r, F) \<Rightarrow> (map_err g r, F))"

definition io_catch :: "('e, 'a, 's) op \<Rightarrow> ('e \<Rightarrow> ('d, 'a, 's) op) \<Rightarrow> ('d, 'a, 's) op" where
  "io_catch m h F = (case m F of (Inl e, F) \<Rightarrow> h e F | (Inr x, F) \<Rightarrow> (Inr x, F))"

definition io_test :: "('s \<Rightarrow> 'b \<times> 's) \<Rightarrow> ('b \<Rightarrow> ('e, 'a, 's) op) \<Rightarrow> ('e, 'a, 's) op" where
  "io_test t f F = (case t F of (b, F) \<Rightarrow> f b F)"

definition fs_node :: "'k fs \<Rightarrow> string \<Rightarrow> fnode option" where
  "fs_node F p = fs_nodes F (fs_resolve F p)"

definition fs_put :: "string \<Rightarrow> fnode \<Rightarrow> 'k fs \<Rightarrow> 'k fs" where
  "fs_put p n F = F \<lparr> fs_nodes := (fs_nodes F)(fs_resolve F p \<mapsto> n) \<rparr>"

definition syscall :: "(io_error, unit, 'k) fsop" where
  "syscall F = (case fs_faults F of
     [] \<Rightarrow> (Inr (), F)
   | None # fl \<Rightarrow> (Inr (), F \<lparr> fs_faults := fl \<rparr>)
   | Some e # fl \<Rightarrow> (Inl e, F \<lparr> fs_faults := fl \<rparr>))"

text \<open>\<^verbatim>\<open>Path::is_file\<close>, \<^verbatim>\<open>is_dir\<close> and \<^verbatim>\<open>exists\<close>: a failing \<^verbatim>\<open>stat\<close> is \<^verbatim>\<open>false\<close>.\<close>

definition path_test :: "(fnode option \<Rightarrow> bool) \<Rightarrow> string \<Rightarrow> 'k fs \<Rightarrow> bool \<times> 'k fs" where
  "path_test P p F = (case syscall F of (Inl _, F) \<Rightarrow> (False, F) | (Inr _, F) \<Rightarrow> (P (fs_node F p), F))"

definition is_file :: "string \<Rightarrow> 'k fs \<Rightarrow> bool \<times> 'k fs" where
  "is_file = path_test (\<lambda>n. case n of Some (FileNode _) \<Rightarrow> True | _ \<Rightarrow> False)"

definition is_dir :: "string \<Rightarrow> 'k fs \<Rightarrow> bool \<times> 'k fs" where
  "is_dir = path_test (\<lambda>n. n = Some DirNode)"

definition path_exists :: "string \<Rightarrow> 'k fs \<Rightarrow> bool \<times> 'k fs" where
  "path_exists = path_test (\<lambda>n. n \<noteq> None)"

definition fs_read :: "string \<Rightarrow> (io_error, bytes, 'k) fsop" where
  "fs_read p = io_bind syscall (\<lambda>_ F.
     (case fs_node F p of
        None \<Rightarrow> Inl (IoSimple NotFound)
      | Some DirNode \<Rightarrow> Inl (IoSimple IsADirectory)
      | Some (FileNode b) \<Rightarrow> Inr b, F))"

section \<open>Paths\<close>

definition SLASH :: char where "SLASH = CHR ''/''"
definition DOT :: char where "DOT = CHR ''.''"

definition path_join :: "string \<Rightarrow> string \<Rightarrow> string" where
  "path_join d p =
     (if p \<noteq> [] \<and> hd p = SLASH then p
      else if d = [] \<or> last d = SLASH then d @ p else d @ SLASH # p)"

text \<open>
  \<^verbatim>\<open>Path::parent\<close> works on components: separators at the end, and \<^verbatim>\<open>/.\<close>, do not count. The
  argument of \<open>trim_tail\<close> is the path read from its end.
\<close>

fun trim_tail :: "string \<Rightarrow> string" where
  "trim_tail [] = []"
| "trim_tail [c] = (if c = SLASH then [] else [c])"
| "trim_tail (c # d # r) =
     (if c = SLASH then trim_tail (d # r) else if c = DOT \<and> d = SLASH then trim_tail r else c # d # r)"

definition parent :: "string \<Rightarrow> string option" where
  "parent p =
     (let r = trim_tail (rev p); s = dropWhile (\<lambda>c. c \<noteq> SLASH) r; q = trim_tail s in
      if r = [] then None
      else if s = [] then Some []
      else if q = [] then Some [SLASH] else Some (rev q))"

definition parent_directory_of :: "string \<Rightarrow> string" where
  "parent_directory_of p =
     (case parent p of None \<Rightarrow> [DOT] | Some d \<Rightarrow> if d = [] then [DOT] else d)"

lemma trim_tail_length: "length (trim_tail r) \<le> length r"
  by (induction r rule: trim_tail.induct) auto

lemma trim_tail_root: "trim_tail (rev p) \<noteq> [] \<Longrightarrow> dropWhile (\<lambda>c. c \<noteq> SLASH) (trim_tail (rev p)) \<noteq> []
    \<Longrightarrow> length (dropWhile (\<lambda>c. c \<noteq> SLASH) (trim_tail (rev p))) < length (trim_tail (rev p))"
proof -
  assume a: "trim_tail (rev p) \<noteq> []" "dropWhile (\<lambda>c. c \<noteq> SLASH) (trim_tail (rev p)) \<noteq> []"
  have "hd (trim_tail r) \<noteq> SLASH" if "trim_tail r \<noteq> []" for r using that
    by (induction r rule: trim_tail.induct) (auto split: if_splits)
  with a obtain c cs where "trim_tail (rev p) = c # cs" "c \<noteq> SLASH" by (metis list.exhaust list.sel(1))
  then show ?thesis by (simp add: le_imp_less_Suc length_dropWhile_le)
qed

lemma parent_shorter:
  assumes "parent p = Some d" shows "length d < length p"
proof -
  define r where "r = trim_tail (rev p)"
  define s where "s = dropWhile (\<lambda>c. c \<noteq> SLASH) r"
  have d: "r \<noteq> []" "d = (if s = [] then [] else if trim_tail s = [] then [SLASH] else rev (trim_tail s))"
    using assms unfolding parent_def Let_def r_def [symmetric] s_def [symmetric] by (auto split: if_splits)
  have "length r \<le> length p" "length (trim_tail s) \<le> length s"
    using trim_tail_length [of "rev p"] trim_tail_length [of s] by (simp_all add: r_def)
  moreover have "length s < length r" if "s \<noteq> []"
    using trim_tail_root [of p] d(1) that by (simp add: r_def s_def)
  ultimately show ?thesis using d by (cases s) (auto split: if_splits)
qed

section \<open>Directories and atomic writes\<close>

definition mkdir :: "string \<Rightarrow> (io_error, unit, 'k) fsop" where
  "mkdir p = io_bind syscall (\<lambda>_ F.
     if fs_node F p \<noteq> None then (Inl (IoSimple AlreadyExists), F)
     else case fs_node F (parent_directory_of p) of
       None \<Rightarrow> (Inl (IoSimple NotFound), F)
     | Some (FileNode _) \<Rightarrow> (Inl (IoSimple NotADirectory), F)
     | Some DirNode \<Rightarrow> (Inr (), fs_put p DirNode F))"

text \<open>\<^verbatim>\<open>std::fs::create_dir_all\<close>.\<close>

definition or_dir :: "string \<Rightarrow> io_error \<Rightarrow> (io_error, unit, 'k) fsop" where
  "or_dir p e = io_test (is_dir p) (\<lambda>d. io_lift (if d then Inr () else Inl e))"

function create_dir_all :: "os_errors \<Rightarrow> string \<Rightarrow> (io_error, unit, 'k) fsop" where
  "create_dir_all os p =
     (if p = [] then io_lift (Inr ())
      else io_catch (mkdir p) (\<lambda>e.
        if io_kind os e = NotFound then
          (case parent p of
             None \<Rightarrow> io_lift (Inl (IoCustom OtherKind ''failed to create whole tree''))
           | Some d \<Rightarrow> io_bind (create_dir_all os d) (\<lambda>_. io_catch (mkdir p) (or_dir p)))
        else or_dir p e))"
  by pat_completeness auto
termination
  by (relation "measure (\<lambda>(_, p). length p)") (auto dest: parent_shorter)

declare create_dir_all.simps [simp del]

datatype atomic_write_error =
    NotPublished obfs4_error
  | PublishedButNotDurable obfs4_error bytes

fun obfs4_of_atomic :: "atomic_write_error \<Rightarrow> obfs4_error" where
  "obfs4_of_atomic (NotPublished e) = e"
| "obfs4_of_atomic (PublishedButNotDurable e _) = e"

definition sync_parent_directory :: "string \<Rightarrow> (obfs4_error, unit, 'k) fsop" where
  "sync_parent_directory d = io_map_err IOError (io_bind syscall (\<lambda>_. syscall))"

text \<open>\<^verbatim>\<open>NamedTempFile::new_in\<close> and \<^verbatim>\<open>persist\<close>, the rename over the target.\<close>

definition temp_new_in :: "string \<Rightarrow> (io_error, unit, 'k) fsop" where
  "temp_new_in d = io_bind syscall (\<lambda>_ F.
     (case fs_node F d of
        Some DirNode \<Rightarrow> Inr () | Some (FileNode _) \<Rightarrow> Inl (IoSimple NotADirectory) | None \<Rightarrow> Inl (IoSimple NotFound), F))"

definition temp_persist :: "bytes \<Rightarrow> string \<Rightarrow> (io_error, unit, 'k) fsop" where
  "temp_persist b p = io_bind syscall (\<lambda>_ F.
     if fs_node F p = Some DirNode then (Inl (IoSimple IsADirectory), F) else (Inr (), fs_put p (FileNode b) F))"

definition atomic_write_json :: "string \<Rightarrow> string + bytes \<Rightarrow> (atomic_write_error, unit, 'k) fsop" where
  "atomic_write_json path serialized =
     io_bind (io_lift (map_err (\<lambda>e. NotPublished (EOther e)) serialized)) (\<lambda>bytes.
     let parent = parent_directory_of path; io = io_map_err (\<lambda>e. NotPublished (IOError e)) in
     io_bind (io (temp_new_in parent)) (\<lambda>_.
     io_bind (io syscall) (\<lambda>_. \<comment> \<open>write_all\<close>
     io_bind (io syscall) (\<lambda>_. \<comment> \<open>sync_all\<close>
     io_bind (io syscall) (\<lambda>_. \<comment> \<open>set_permissions\<close>
     io_bind (io (temp_persist bytes path)) (\<lambda>_.
     io_map_err (\<lambda>e. PublishedButNotDurable e bytes) (sync_parent_directory parent)))))))"

section \<open>The JSON records\<close>

datatype json_token =
    JNone | JUnit | JStr string | JU64 u64 | JU128 "128 word" | JI64 "64 word" | JI128 "128 word" | JF64 | JOther

text \<open>
  \<^verbatim>\<open>iat_mode_json::serialize\<close> writes nothing or a byte; \<^verbatim>\<open>deserialize\<close> accepts whatever a visitor
  can be shown. A token the visitor has no method for is a type error of \<^verbatim>\<open>serde\<close>.
\<close>

fun iat_serialize :: "iat option \<Rightarrow> u8 option" where
  "iat_serialize None = None"
| "iat_serialize (Some Off) = Some 0"
| "iat_serialize (Some Enabled) = Some 1"
| "iat_serialize (Some Paranoid) = Some 2"

definition visit_u64 :: "u64 \<Rightarrow> string + iat option" where
  "visit_u64 v =
     (if v = 0 then Inr (Some Off) else if v = 1 then Inr (Some Enabled) else if v = 2 then Inr (Some Paranoid)
      else Inl ''iat-mode must be one of 0, 1, or 2'')"

definition visit_u128 :: "128 word \<Rightarrow> string + iat option" where
  "visit_u128 v = (if v \<le> 2 then visit_u64 (ucast v) else Inl ''iat-mode must be one of 0, 1, or 2'')"

definition visit_i64 :: "64 word \<Rightarrow> string + iat option" where
  "visit_i64 v = (if v <s 0 then Inl ''iat-mode cannot be negative'' else visit_u64 v)"

definition visit_i128 :: "128 word \<Rightarrow> string + iat option" where
  "visit_i128 v = (if v <s 0 then Inl ''iat-mode cannot be negative'' else visit_u128 v)"

definition visit_str :: "os_errors \<Rightarrow> string \<Rightarrow> string + iat option" where
  "visit_str os s = (case iat_from_str s of Inl e \<Rightarrow> Inl (obfs4_error_display os e) | Inr m \<Rightarrow> Inr (Some m))"

fun iat_deserialize :: "os_errors \<Rightarrow> json_token \<Rightarrow> string + iat option" where
  "iat_deserialize os JNone = Inr None"
| "iat_deserialize os JUnit = Inr None"
| "iat_deserialize os (JStr s) = visit_str os s"
| "iat_deserialize os (JU64 v) = visit_u64 v"
| "iat_deserialize os (JU128 v) = visit_u128 v"
| "iat_deserialize os (JI64 v) = visit_i64 v"
| "iat_deserialize os (JI128 v) = visit_i128 v"
| "iat_deserialize os JF64 = Inl ''iat-mode must be an integer 0, 1, or 2''"
| "iat_deserialize os JOther = Inl ''iat-mode as an integer 0, 1, or 2, or a legacy string''"

record json_server_state =
  js_node_id :: "string option"
  js_private_key :: "string option"
  js_public_key :: "string option"
  js_drbg_seed :: "string option"
  js_iat_mode :: "iat option"

record json_client_state =
  jc_cert :: "string option"
  jc_private_key :: "string option"
  jc_node_id :: "string option"
  jc_public_key :: "string option"
  jc_iat_mode :: "iat option"

text \<open>
  Both readers get the field's deserializer, both writers its serializer. A written record
  is read back; and a client reads the fields it shares with a server's record from it, since
  fields with other names are ignored.
\<close>

record serde =
  server_to_vec :: "(iat option \<Rightarrow> u8 option) \<Rightarrow> json_server_state \<Rightarrow> string + bytes"
  server_from_slice :: "(json_token \<Rightarrow> string + iat option) \<Rightarrow> bytes \<Rightarrow> string + json_server_state"
  client_to_vec :: "(iat option \<Rightarrow> u8 option) \<Rightarrow> json_client_state \<Rightarrow> string + bytes"
  client_from_slice :: "(json_token \<Rightarrow> string + iat option) \<Rightarrow> bytes \<Rightarrow> string + json_client_state"

definition json_of_u8 :: "u8 option \<Rightarrow> json_token" where
  "json_of_u8 v = (case v of None \<Rightarrow> JUnit | Some b \<Rightarrow> JU64 (ucast b))"

definition client_view :: "json_server_state \<Rightarrow> json_client_state" where
  "client_view s = \<lparr> jc_cert = None, jc_private_key = js_private_key s, jc_node_id = js_node_id s,
     jc_public_key = js_public_key s, jc_iat_mode = js_iat_mode s \<rparr>"

definition serde_ok :: "serde \<Rightarrow> bool" where
  "serde_ok J \<longleftrightarrow> (\<forall>ser de. (\<forall>m. de (json_of_u8 (ser m)) = Inr m) \<longrightarrow>
     (\<forall>st. \<exists>b. server_to_vec J ser st = Inr b \<and> server_from_slice J de b = Inr st
             \<and> client_from_slice J de b = Inr (client_view st))
   \<and> (\<forall>st. \<exists>b. client_to_vec J ser st = Inr b \<and> client_from_slice J de b = Inr st))"

section \<open>What the operations leave of the file system\<close>

text \<open>Nothing but the list of outcomes to come has changed; no file has changed.\<close>

definition same_nodes :: "'k fs \<Rightarrow> 'k fs \<Rightarrow> bool" where
  "same_nodes F F' \<longleftrightarrow> fs_resolve F' = fs_resolve F \<and> fs_nodes F' = fs_nodes F \<and> (\<exists>fl. fs_faults F = fl @ fs_faults F')"

definition same_files :: "'k fs \<Rightarrow> 'k fs \<Rightarrow> bool" where
  "same_files F F' \<longleftrightarrow> fs_resolve F' = fs_resolve F \<and> (\<exists>fl. fs_faults F = fl @ fs_faults F')
     \<and> (\<forall>k b. fs_nodes F' k = Some (FileNode b) \<longleftrightarrow> fs_nodes F k = Some (FileNode b))
     \<and> (\<forall>k. fs_nodes F k = Some DirNode \<longrightarrow> fs_nodes F' k = Some DirNode)"

lemma same_nodes_refl [simp]: "same_nodes F F"
  by (simp add: same_nodes_def)

lemma same_nodes_trans: "same_nodes F G \<Longrightarrow> same_nodes G H \<Longrightarrow> same_nodes F H"
  by (auto simp: same_nodes_def)

lemma same_files_trans: "same_files F G \<Longrightarrow> same_files G H \<Longrightarrow> same_files F H"
  by (auto simp: same_files_def)

lemma same_nodes_files: "same_nodes F F' \<Longrightarrow> same_files F F'"
  by (simp add: same_nodes_def same_files_def)

lemma same_nodes_node: "same_nodes F F' \<Longrightarrow> fs_node F' p = fs_node F p"
  by (simp add: same_nodes_def fs_node_def)

lemma same_files_read:
  "same_files F F' \<Longrightarrow> fs_node F' p = Some (FileNode b) \<longleftrightarrow> fs_node F p = Some (FileNode b)"
  by (simp add: same_files_def fs_node_def)

text \<open>An operation keeps a relation between the file system before it and after it.\<close>

definition keeps :: "('s \<Rightarrow> 's \<Rightarrow> bool) \<Rightarrow> ('s \<Rightarrow> 'r \<times> 's) \<Rightarrow> bool" where
  "keeps R m \<longleftrightarrow> (\<forall>F. R F (snd (m F)))"

lemma keepsD: "keeps R m \<Longrightarrow> m F = (r, F') \<Longrightarrow> R F F'"
  by (metis keeps_def snd_conv)

lemma syscall_same: "keeps same_nodes syscall"
  by (auto simp: keeps_def syscall_def same_nodes_def split: list.splits option.splits)

text \<open>
  What the combinators keep: any relation that is reflexive and transitive and holds when only
  outcomes were consumed.
\<close>

locale fs_frame =
  fixes R :: "'k fs \<Rightarrow> 'k fs \<Rightarrow> bool"
  assumes quiet_step: "same_nodes F F' \<Longrightarrow> R F F'"
    and chain: "R F G \<Longrightarrow> R G H \<Longrightarrow> R F H"
begin

lemma keeps_quiet: "keeps same_nodes m \<Longrightarrow> keeps R m"
  by (simp add: keeps_def quiet_step)

lemma keeps_bind: "keeps R m \<Longrightarrow> (\<And>x. keeps R (f x)) \<Longrightarrow> keeps R (io_bind m f)"
  unfolding keeps_def io_bind_def by (auto split: prod.splits sum.splits) (metis chain snd_conv)+

lemma keeps_catch: "keeps R m \<Longrightarrow> (\<And>e. keeps R (h e)) \<Longrightarrow> keeps R (io_catch m h)"
  unfolding keeps_def io_catch_def by (auto split: prod.splits sum.splits) (metis chain snd_conv)+

lemma keeps_test: "keeps R t \<Longrightarrow> (\<And>x. keeps R (f x)) \<Longrightarrow> keeps R (io_test t f)"
  unfolding keeps_def io_test_def by (auto split: prod.splits) (metis chain snd_conv)

lemma keeps_lift: "keeps R (io_lift r)"
  by (simp add: keeps_def io_lift_def quiet_step)

lemma keeps_map_err: "keeps R m \<Longrightarrow> keeps R (io_map_err g m)"
  by (auto simp: keeps_def io_map_err_def split: prod.splits) (metis snd_conv)

lemmas keeps_rules = keeps_bind keeps_catch keeps_test keeps_lift keeps_map_err

end

interpretation nodes: fs_frame same_nodes
  by unfold_locales (auto intro: same_nodes_trans)

interpretation files: fs_frame same_files
  by unfold_locales (auto intro: same_nodes_files same_files_trans)

lemma keeps_pure: "(\<And>F. snd (f F) = F) \<Longrightarrow> keeps same_nodes f"
  by (simp add: keeps_def)

lemma path_test_keeps: "keeps same_nodes (path_test P p)"
  using keepsD [OF syscall_same] by (fastforce simp: keeps_def path_test_def split: prod.splits sum.splits)

lemma path_test_True: "path_test P p F = (True, F') \<Longrightarrow> P (fs_node F p)"
  using keepsD [OF syscall_same] same_nodes_node by (fastforce simp: path_test_def split: prod.splits sum.splits)

lemma is_dir_True: "is_dir p F = (True, F') \<Longrightarrow> fs_node F p = Some DirNode"
  unfolding is_dir_def by (rule path_test_True)

lemma is_file_True: "is_file p F = (True, F') \<Longrightarrow> \<exists>b. fs_node F p = Some (FileNode b)"
  unfolding is_file_def by (drule path_test_True) (auto split: option.splits fnode.splits)

lemma path_keeps: "keeps same_nodes (is_file p)" "keeps same_nodes (is_dir p)" "keeps same_nodes (path_exists p)"
  by (simp_all add: is_file_def is_dir_def path_exists_def path_test_keeps)

lemma fs_read_keeps: "keeps same_nodes (fs_read p)"
  unfolding fs_read_def by (intro nodes.keeps_bind syscall_same keeps_pure) simp

lemma fs_read_Inr:
  assumes "fs_read p F = (Inr b, F')" shows "fs_node F p = Some (FileNode b)"
  using assms keepsD [OF syscall_same] same_nodes_node
  by (fastforce simp: fs_read_def io_bind_def split: prod.splits sum.splits option.splits fnode.splits)

lemma mkdir_keeps: "keeps same_files (mkdir p)"
  unfolding mkdir_def
  by (intro files.keeps_bind files.keeps_quiet [OF syscall_same])
    (auto simp: keeps_def same_files_def fs_put_def fs_node_def split: option.splits fnode.splits)

lemma create_dir_all_keeps: "keeps same_files (create_dir_all os p)"
proof (induction os p rule: create_dir_all.induct)
  case (1 os p)
  have "keeps same_files (or_dir p e)" for e
    unfolding or_dir_def by (intro files.keeps_rules files.keeps_quiet path_keeps)
  with 1 mkdir_keeps [of p] show ?case
    by (subst create_dir_all.simps) (auto intro!: files.keeps_rules split: option.splits)
qed

section \<open>Atomic writes\<close>

text \<open>
  The three outcomes of an atomic write. The target is replaced by exactly the serialised
  bytes or not at all, and the error says which.
\<close>

definition published :: "string \<Rightarrow> bytes \<Rightarrow> 'k fs \<Rightarrow> 'k fs \<Rightarrow> bool" where
  "published p b F F' \<longleftrightarrow> fs_resolve F' = fs_resolve F \<and> fs_nodes F' = (fs_nodes F)(fs_resolve F p \<mapsto> FileNode b)
     \<and> fs_node F p \<noteq> Some DirNode \<and> (\<exists>fl. fs_faults F = fl @ fs_faults F')"

definition atomic_outcome :: "string \<Rightarrow> string + bytes \<Rightarrow> 'k fs \<Rightarrow> atomic_write_error + 'a \<Rightarrow> 'k fs \<Rightarrow> bool" where
  "atomic_outcome p sz F r F' \<longleftrightarrow>
     (case r of
        Inr _ \<Rightarrow> (\<exists>b. sz = Inr b \<and> published p b F F')
      | Inl (NotPublished _) \<Rightarrow> same_nodes F F'
      | Inl (PublishedButNotDurable _ b) \<Rightarrow> sz = Inr b \<and> published p b F F')"

definition writes :: "string \<Rightarrow> string + bytes \<Rightarrow> (atomic_write_error, 'a, 'k) fsop \<Rightarrow> bool" where
  "writes p sz m \<longleftrightarrow> (\<forall>F. atomic_outcome p sz F (fst (m F)) (snd (m F)))"

lemma published_mono: "same_nodes F G \<Longrightarrow> published p b G H \<Longrightarrow> published p b F H"
  by (auto simp: published_def same_nodes_def fs_node_def)

lemma published_then: "published p b F G \<Longrightarrow> same_nodes G H \<Longrightarrow> published p b F H"
  by (auto simp: published_def same_nodes_def)

lemma atomic_outcome_mono: "same_nodes F G \<Longrightarrow> atomic_outcome p sz G r H \<Longrightarrow> atomic_outcome p sz F r H"
  by (auto simp: atomic_outcome_def split: sum.splits atomic_write_error.splits intro: same_nodes_trans published_mono)

lemma writes_before:
  assumes "keeps same_nodes m" "\<And>x. writes p sz (f x)"
  shows "writes p sz (io_bind (io_map_err (\<lambda>e. NotPublished (g e)) m) f)"
  unfolding writes_def
proof
  fix F
  obtain q G where m: "m F = (q, G)" by force
  have same: "same_nodes F G" using keepsD [OF assms(1) m] .
  have "atomic_outcome p sz G (fst (f x G)) (snd (f x G))" for x using assms(2) by (simp add: writes_def)
  with m same show "atomic_outcome p sz F (fst (io_bind (io_map_err (\<lambda>e. NotPublished (g e)) m) f F))
      (snd (io_bind (io_map_err (\<lambda>e. NotPublished (g e)) m) f F))"
    by (cases q) (auto simp: io_bind_def io_map_err_def atomic_outcome_def [of _ _ _ "Inl _"] intro: atomic_outcome_mono)
qed

lemma temp_persist_outcome:
  assumes "temp_persist b p F = (r, F')"
  shows "case r of Inl e \<Rightarrow> same_nodes F F' | Inr _ \<Rightarrow> published p b F F'"
  using assms keepsD [OF syscall_same, of F]
  by (auto simp: temp_persist_def io_bind_def published_def same_nodes_def fs_put_def fs_node_def split: prod.splits sum.splits if_splits)

lemma sync_parent_keeps: "keeps same_nodes (sync_parent_directory d)"
  unfolding sync_parent_directory_def by (intro nodes.keeps_rules syscall_same)

lemma persist_writes:
  "writes p (Inr b) (io_bind (io_map_err (\<lambda>e. NotPublished (IOError e)) (temp_persist b p)) (\<lambda>_.
     io_map_err (\<lambda>e. PublishedButNotDurable e b) (sync_parent_directory d)))"
  unfolding writes_def
proof
  fix F
  obtain q G where m: "temp_persist b p F = (q, G)" by force
  obtain q2 H where s: "sync_parent_directory d G = (q2, H)" by force
  from temp_persist_outcome [OF m] keepsD [OF sync_parent_keeps s] m s
  show "atomic_outcome p (Inr b) F (fst (io_bind (io_map_err (\<lambda>e. NotPublished (IOError e)) (temp_persist b p)) (\<lambda>_.
      io_map_err (\<lambda>e. PublishedButNotDurable e b) (sync_parent_directory d)) F)) (snd (io_bind (io_map_err (\<lambda>e. NotPublished (IOError e))
      (temp_persist b p)) (\<lambda>_. io_map_err (\<lambda>e. PublishedButNotDurable e b) (sync_parent_directory d)) F))"
    by (cases q; cases q2) (auto simp: io_bind_def io_map_err_def atomic_outcome_def intro: published_then)
qed

lemma atomic_write_writes: "writes p sz (atomic_write_json p sz)"
proof (cases sz)
  case (Inl e)
  then show ?thesis by (simp add: writes_def atomic_write_json_def io_bind_def io_lift_def atomic_outcome_def)
next
  case (Inr b)
  have "keeps same_nodes (temp_new_in d)" for d
    unfolding temp_new_in_def by (intro nodes.keeps_bind syscall_same keeps_pure) simp
  then have "writes p sz (\<lambda>F. atomic_write_json p sz F)"
    unfolding atomic_write_json_def Let_def Inr
    by (simp add: io_bind_def [of "io_lift _"] io_lift_def) (intro writes_before syscall_same persist_writes)
  then show ?thesis by simp
qed

lemma atomic_write_ends: "atomic_write_json p sz F = (r, F') \<Longrightarrow> atomic_outcome p sz F r F'"
  using atomic_write_writes [of p sz] by (metis fst_conv snd_conv writes_def)

text \<open>The field that \<^verbatim>\<open>iat_mode_json\<close> writes is read back as it was.\<close>

lemma iat_json_roundtrip: "iat_deserialize os (json_of_u8 (iat_serialize m)) = Inr m"
proof (cases m)
  case (Some i)
  then show ?thesis by (cases i) (simp_all add: json_of_u8_def visit_u64_def)
qed (simp add: json_of_u8_def)

end
