(* ===== verification/ServerConfig.thy ===== *)
theory ServerConfig
  imports StateFile Tunnel
begin

text \<open>
  \<^verbatim>\<open>crates/obfs4/src/server.rs\<close> and the server half of \<^verbatim>\<open>pt.rs\<close>: the builder with its cached
  effective configuration, the state file it reads and publishes, and the server it builds.

  The builder's \<^verbatim>\<open>Mutex\<close> around the cache is never poisoned, since nothing that holds it
  panics, so its \<^verbatim>\<open>lock\<close> always succeeds. An operation that takes \<^verbatim>\<open>&self\<close> still changes the cache,
  so it is a function of the builder and the file system. What the operating system's random
  source gives to \<^verbatim>\<open>Seed::new\<close> (\<open>rnd\<close>) and to the replay filter's key (\<open>fkey\<close>) are arguments. The
  \<^verbatim>\<open>hex\<close> and \<^verbatim>\<open>base64\<close> crates are in the record \<open>config_env\<close>.
\<close>

section \<open>Encodings\<close>

record config_env =
  cf_os :: os_errors
  cf_curve :: curve
  cf_from_hex :: "nat \<Rightarrow> string \<Rightarrow> string + bytes"
  cf_hex :: "bytes \<Rightarrow> string"
  cf_b64_decode :: "string \<Rightarrow> string + bytes"
  cf_b64_encode :: "bytes \<Rightarrow> string"
  cf_serde :: serde

text \<open>
  A fixed-size array is decoded from twice as many digits and from nothing else, and an
  encoding is decoded to what was encoded; the same for the 52 bytes of a certificate, whose
  base64 form has two padding characters. Keys have 32 bytes.
\<close>

definition config_ok :: "config_env \<Rightarrow> bool" where
  "config_ok C \<longleftrightarrow> serde_ok (cf_serde C)
   \<and> (\<forall>b. cf_from_hex C (length b) (cf_hex C b) = Inr b)
   \<and> (\<forall>n s b. cf_from_hex C n s = Inr b \<longrightarrow> length b = n)
   \<and> (\<forall>b. length b = NODE_ID_LENGTH + NODE_PUBKEY_LENGTH \<longrightarrow> cf_b64_decode C (cf_b64_encode C b @ ''=='') = Inr b)
   \<and> (\<forall>sk. length (static_public (cf_curve C) sk) = 32)"

definition NODE_ID_ARG :: string where "NODE_ID_ARG = ''node-id''"
definition PUBLIC_KEY_ARG :: string where "PUBLIC_KEY_ARG = ''public-key''"
definition PRIVATE_KEY_ARG :: string where "PRIVATE_KEY_ARG = ''private-key''"
definition SEED_ARG :: string where "SEED_ARG = ''drbg-seed''"
definition IAT_ARG :: string where "IAT_ARG = ''iat-mode''"
definition CERT_ARG :: string where "CERT_ARG = ''cert''"

lemmas arg_names = NODE_ID_ARG_def PUBLIC_KEY_ARG_def PRIVATE_KEY_ARG_def SEED_ARG_def IAT_ARG_def CERT_ARG_def

definition STATE_FILENAME :: string where "STATE_FILENAME = ''obfs4_state.json''"

definition missing_argument :: "string \<Rightarrow> obfs4_error" where
  "missing_argument a = EOther (''missing argument '' @ [CHR 0x27] @ a @ [CHR 0x27])"

definition mismatched_keys :: obfs4_error where
  "mismatched_keys = EOther ''node private/public keys do not correspond''"

section \<open>Required server state\<close>

definition add_if :: "string \<Rightarrow> string option \<Rightarrow> args \<Rightarrow> args" where
  "add_if key v a = (case v of Some x \<Rightarrow> args_add a key x | None \<Rightarrow> a)"

definition extend_args :: "json_server_state \<Rightarrow> args \<Rightarrow> args" where
  "extend_args st a =
     add_if IAT_ARG (map_option iat_to_string (js_iat_mode st))
       (add_if SEED_ARG (js_drbg_seed st)
         (add_if PUBLIC_KEY_ARG (js_public_key st)
           (add_if PRIVATE_KEY_ARG (js_private_key st)
             (add_if NODE_ID_ARG (js_node_id st) a))))"

record required_server_state =
  rs_private_key :: ntor_secret_key
  rs_drbg_seed :: seed
  rs_iat_mode :: iat

definition required_state_try_from :: "config_env \<Rightarrow> args \<Rightarrow> obfs4_error + required_server_state" where
  "required_state_try_from C value =
     bindr (ok_or (missing_argument PRIVATE_KEY_ARG) (retrieve value PRIVATE_KEY_ARG)) (\<lambda>privkey_str.
     bindr (map_err EncodeError (cf_from_hex C KEY_LENGTH privkey_str)) (\<lambda>sk.
     bindr (ok_or (missing_argument SEED_ARG) (retrieve value SEED_ARG)) (\<lambda>seed_str.
     bindr (seed_from_hex (cf_from_hex C SEED_LENGTH) seed_str) (\<lambda>drbg_seed_value.
     bindr (ok_or (missing_argument NODE_ID_ARG) (retrieve value NODE_ID_ARG)) (\<lambda>node_id_str.
     bindr (map_err EncodeError (cf_from_hex C NODE_ID_LENGTH node_id_str)) (\<lambda>node_id.
     bindr (case retrieve value IAT_ARG of Some s \<Rightarrow> iat_from_str s | None \<Rightarrow> Inr Off) (\<lambda>iat_mode.
     bindr (case retrieve value PUBLIC_KEY_ARG of
              None \<Rightarrow> Inr ()
            | Some s \<Rightarrow> bindr (map_err EncodeError (cf_from_hex C KEY_LENGTH s)) (\<lambda>public_key.
                if static_public (cf_curve C) sk \<noteq> public_key then Inl mismatched_keys else Inr ())) (\<lambda>_.
     Inr \<lparr> rs_private_key = ntor_secret_key_new (cf_curve C) sk node_id, rs_drbg_seed = drbg_seed_value,
           rs_iat_mode = iat_mode \<rparr>))))))))"

definition validate_args :: "config_env \<Rightarrow> args \<Rightarrow> obfs4_error + unit" where
  "validate_args C a = bindr (required_state_try_from C a) (\<lambda>_. Inr ())"

definition read_state_path :: "config_env \<Rightarrow> string \<Rightarrow> (obfs4_error, json_server_state, 'k) fsop" where
  "read_state_path C path =
     io_test (is_dir path) (\<lambda>d.
     io_bind (io_map_err IOError (fs_read (if d then path_join path STATE_FILENAME else path))) (\<lambda>state_str.
     io_lift (map_err EOther (server_from_slice (cf_serde C) (iat_deserialize (cf_os C)) state_str))))"

definition server_state_from_json :: "config_env \<Rightarrow> bytes \<Rightarrow> args \<Rightarrow> obfs4_error + args" where
  "server_state_from_json C b a =
     bindr (map_err EOther (server_from_slice (cf_serde C) (iat_deserialize (cf_os C)) b)) (\<lambda>st. Inr (extend_args st a))"

definition server_state_from_file :: "config_env \<Rightarrow> string \<Rightarrow> args \<Rightarrow> (obfs4_error, args, 'k) fsop" where
  "server_state_from_file C statedir a = io_bind (read_state_path C statedir) (\<lambda>st. io_lift (Inr (extend_args st a)))"

definition parse_state :: "config_env \<Rightarrow> string option \<Rightarrow> args \<Rightarrow> (obfs4_error, required_server_state, 'k) fsop" where
  "parse_state C statedir a =
     (case statedir of
        None \<Rightarrow> io_lift (required_state_try_from C a)
      | Some dir \<Rightarrow>
          (case required_state_try_from C a of
             Inr st \<Rightarrow> io_lift (Inr st)
           | Inl _ \<Rightarrow> io_bind (server_state_from_file C dir a) (\<lambda>b. io_lift (required_state_try_from C b))))"

section \<open>The builder\<close>

record statefile_observation =
  ob_path :: string
  ob_contents :: "bytes option"

record effective_configuration =
  ef_identity_keys :: ntor_secret_key
  ef_iat_mode :: iat
  ef_drbg_seed :: seed
  ef_persist_statefile :: bool
  ef_observation :: "statefile_observation option"

record server_builder =
  sb_iat_mode :: iat
  sb_statefile_path :: "string option"
  sb_identity_keys :: ntor_secret_key
  sb_handshake_timeout :: maybe_timeout
  sb_drbg_seed :: "seed option"
  sb_config_error :: "string option"
  sb_identity_override :: bool
  sb_node_id_override :: bool
  sb_iat_override :: bool
  sb_seed_override :: bool
  sb_statefile_is_file :: bool
  sb_persist_statefile :: bool
  sb_effective :: "effective_configuration option"

definition server_builder_default :: "ntor_secret_key \<Rightarrow> server_builder" where
  "server_builder_default identity_keys =
     \<lparr> sb_iat_mode = Off, sb_statefile_path = None, sb_identity_keys = identity_keys, sb_handshake_timeout = TDefault,
       sb_drbg_seed = None, sb_config_error = None, sb_identity_override = False, sb_node_id_override = False,
       sb_iat_override = False, sb_seed_override = False, sb_statefile_is_file = False, sb_persist_statefile = True,
       sb_effective = None \<rparr>"

definition invalidate :: "server_builder \<Rightarrow> server_builder" where
  "invalidate sb = sb \<lparr> sb_effective := None \<rparr>"

definition remember :: "effective_configuration \<Rightarrow> server_builder \<Rightarrow> server_builder" where
  "remember e sb = sb \<lparr> sb_effective := Some e \<rparr>"

definition set_node_pk :: "bytes \<Rightarrow> bytes \<Rightarrow> ntor_secret_key \<Rightarrow> ntor_secret_key" where
  "set_node_pk sk pk k = k \<lparr> nsk_sk := sk, nsk_pk := nsk_pk k \<lparr> nk_pk := pk \<rparr> \<rparr>"

definition set_node_id :: "bytes \<Rightarrow> ntor_secret_key \<Rightarrow> ntor_secret_key" where
  "set_node_id ident k = k \<lparr> nsk_pk := nsk_pk k \<lparr> nk_id := ident \<rparr> \<rparr>"

definition try_node_keys :: "config_env \<Rightarrow> bytes \<Rightarrow> server_builder \<Rightarrow> (obfs4_error + unit) \<times> server_builder" where
  "try_node_keys C keys sb =
     (let sk = take KEY_LENGTH keys; pk = drop KEY_LENGTH keys in
      if static_public (cf_curve C) sk \<noteq> pk then (Inl mismatched_keys, sb)
      else (Inr (), (invalidate (sb \<lparr> sb_identity_keys := set_node_pk sk pk (sb_identity_keys sb), sb_config_error := None \<rparr>))
                      \<lparr> sb_identity_override := True \<rparr>))"

definition node_keys :: "config_env \<Rightarrow> bytes \<Rightarrow> server_builder \<Rightarrow> server_builder" where
  "node_keys C keys sb =
     (case try_node_keys C keys sb of
        (Inl e, sb) \<Rightarrow> invalidate (sb \<lparr> sb_config_error := Some (obfs4_error_display (cf_os C) e) \<rparr>)
      | (Inr _, sb) \<Rightarrow> sb)"

definition statefile_path :: "string \<Rightarrow> server_builder \<Rightarrow> server_builder" where
  "statefile_path path sb =
     invalidate (sb \<lparr> sb_statefile_path := Some path, sb_statefile_is_file := False, sb_persist_statefile := True \<rparr>)"

text \<open>Operations that take the builder by reference and use the file system.\<close>

definition on_fs :: "('e, 'a, 'k) fsop \<Rightarrow> ('e, 'a, 'b \<times> 'k fs) op" where
  "on_fs m s = (case m (snd s) of (r, F) \<Rightarrow> (r, (fst s, F)))"

definition try_statefile_path :: "config_env \<Rightarrow> string \<Rightarrow> (obfs4_error, unit, server_builder \<times> 'k fs) op" where
  "try_statefile_path C path s =
     (let sb = invalidate (fst s) in
      io_bind (on_fs (read_state_path C path)) (\<lambda>st.
      io_bind (io_lift (required_state_try_from C (extend_args st args_new))) (\<lambda>parsed (sb, F).
        case is_file path F of (f, F) \<Rightarrow>
        let sb = sb \<lparr> sb_identity_keys := rs_private_key parsed, sb_iat_mode := rs_iat_mode parsed,
              sb_drbg_seed := Some (rs_drbg_seed parsed), sb_statefile_path := Some path, sb_config_error := None,
              sb_statefile_is_file := f, sb_persist_statefile := \<not> f \<rparr>
        in (Inr (), (remember \<lparr> ef_identity_keys = sb_identity_keys sb, ef_iat_mode = sb_iat_mode sb,
              ef_drbg_seed = rs_drbg_seed parsed, ef_persist_statefile = False, ef_observation = None \<rparr> sb, F)))) (sb, snd s))"

definition node_id :: "bytes \<Rightarrow> server_builder \<Rightarrow> server_builder" where
  "node_id ident sb =
     invalidate (sb \<lparr> sb_identity_keys := set_node_id ident (sb_identity_keys sb), sb_node_id_override := True \<rparr>)"

definition builder_iat_mode :: "iat \<Rightarrow> server_builder \<Rightarrow> server_builder" where
  "builder_iat_mode m sb = invalidate (sb \<lparr> sb_iat_mode := m, sb_iat_override := True \<rparr>)"

definition with_handshake_timeout :: "nat \<Rightarrow> server_builder \<Rightarrow> server_builder" where
  "with_handshake_timeout d sb = sb \<lparr> sb_handshake_timeout := TLength d \<rparr>"

definition with_handshake_deadline :: "nat \<Rightarrow> server_builder \<Rightarrow> server_builder" where
  "with_handshake_deadline t sb = sb \<lparr> sb_handshake_timeout := TFixed t \<rparr>"

definition fail_fast :: "server_builder \<Rightarrow> server_builder" where
  "fail_fast sb = sb \<lparr> sb_handshake_timeout := TUnset \<rparr>"

definition statefile_target :: "server_builder \<Rightarrow> string option" where
  "statefile_target sb =
     map_option (\<lambda>path. if sb_statefile_is_file sb then path else path_join path STATE_FILENAME) (sb_statefile_path sb)"

section \<open>Resolving the effective configuration\<close>

text \<open>Values set by hand stand; the rest comes from the state file, when there is one.\<close>

definition merge_state ::
  "config_env \<Rightarrow> server_builder \<Rightarrow> bytes option \<Rightarrow> obfs4_error + ntor_secret_key \<times> iat \<times> seed option" where
  "merge_state C sb contents =
     bindr (ok_or (EOther ''missing state-file contents'') contents) (\<lambda>b.
     bindr (map_err EOther (server_from_slice (cf_serde C) (iat_deserialize (cf_os C)) b)) (\<lambda>st.
     bindr (required_state_try_from C (extend_args st args_new)) (\<lambda>parsed.
       let state_identity = rs_private_key parsed; keys = sb_identity_keys sb in
       Inr (if sb_identity_override sb
            then (if \<not> sb_node_id_override sb then set_node_id (nk_id (nsk_pk state_identity)) keys else keys)
            else (if sb_node_id_override sb then set_node_id (nk_id (nsk_pk keys)) state_identity else state_identity),
            if \<not> sb_iat_override sb then rs_iat_mode parsed else sb_iat_mode sb,
            if \<not> sb_seed_override sb then Some (rs_drbg_seed parsed) else sb_drbg_seed sb))))"

definition resolve_effective_configuration ::
  "config_env \<Rightarrow> string + bytes \<Rightarrow> server_builder \<Rightarrow> (obfs4_error, effective_configuration, 'k) fsop" where
  "resolve_effective_configuration C rnd sb =
     (let target = statefile_target sb in
      io_test (case target of Some t \<Rightarrow> is_file t | None \<Rightarrow> (\<lambda>F. (False, F))) (\<lambda>state_exists.
      io_bind (case target of
          Some t \<Rightarrow> if state_exists then io_bind (io_map_err IOError (fs_read t)) (\<lambda>b. io_lift (Inr (Some b))) else io_lift (Inr None)
        | None \<Rightarrow> io_lift (Inr None)) (\<lambda>contents.
      io_lift (
        let needs_state = (\<not> sb_identity_override sb \<or> \<not> sb_node_id_override sb \<or> \<not> sb_iat_override sb \<or> \<not> sb_seed_override sb);
            has_overrides = (sb_identity_override sb \<or> sb_node_id_override sb \<or> sb_iat_override sb \<or> sb_seed_override sb);
            persist = (sb_persist_statefile sb \<and> target \<noteq> None \<and> (\<not> state_exists \<or> has_overrides))
        in bindr (if sb_statefile_path sb \<noteq> None \<and> needs_state \<and> state_exists then merge_state C sb contents
                  else Inr (sb_identity_keys sb, sb_iat_mode sb, sb_drbg_seed sb)) (\<lambda>(keys, mode, drbg_seed).
           bindr (case drbg_seed of Some s \<Rightarrow> Inr s | None \<Rightarrow> seed_new rnd) (\<lambda>seed.
           Inr \<lparr> ef_identity_keys = keys, ef_iat_mode = mode, ef_drbg_seed = seed, ef_persist_statefile = persist,
                 ef_observation = (case target of
                    Some t \<Rightarrow> if persist then Some \<lparr> ob_path = t, ob_contents = contents \<rparr> else None
                  | None \<Rightarrow> None) \<rparr>))))))"

definition effective_configuration ::
  "config_env \<Rightarrow> string + bytes \<Rightarrow> (obfs4_error, effective_configuration, server_builder \<times> 'k fs) op" where
  "effective_configuration C rnd s =
     (case sb_effective (fst s) of
        Some e \<Rightarrow> (Inr e, s)
      | None \<Rightarrow> io_bind (on_fs (resolve_effective_configuration C rnd (fst s))) (\<lambda>e (sb, F). (Inr e, (remember e sb, F))) s)"

definition try_client_params :: "config_env \<Rightarrow> string + bytes \<Rightarrow> (obfs4_error, string, server_builder \<times> 'k fs) op" where
  "try_client_params C rnd s =
     (case sb_config_error (fst s) of
        Some e \<Rightarrow> (Inl (EOther e), s)
      | None \<Rightarrow> io_bind (effective_configuration C rnd) (\<lambda>effective.
          io_lift (Inr (encode_smethod_args
            (args_add (args_add args_new CERT_ARG (ntor_pk_to_string (cf_b64_encode C) (nsk_pk (ef_identity_keys effective))))
              IAT_ARG (iat_to_string (ef_iat_mode effective)))))) s)"

definition server_client_params_text :: "config_env \<Rightarrow> string + bytes \<Rightarrow> server_builder \<times> 'k fs \<Rightarrow> string \<times> server_builder \<times> 'k fs" where
  "server_client_params_text C rnd s = (case try_client_params C rnd s of (Inl _, s) \<Rightarrow> ([], s) | (Inr t, s) \<Rightarrow> (t, s))"

section \<open>The server and its state file\<close>

record server =
  sv_handshake_timeout :: maybe_timeout
  sv_iat_mode :: iat
  sv_biased :: bool
  sv_identity_keys :: ntor_secret_key
  sv_drbg_seed :: "seed option"
  sv_configuration_error :: "string option"
  sv_replay_filter :: inner_replay_filter

definition ensure_statefile_unchanged :: "config_env \<Rightarrow> statefile_observation \<Rightarrow> (obfs4_error, unit, 'k) fsop" where
  "ensure_statefile_unchanged C ob =
     io_bind (io_catch (io_bind (fs_read (ob_path ob)) (\<lambda>b. io_lift (Inr (Some b))))
       (\<lambda>e. io_lift (if io_kind (cf_os C) e = NotFound then Inr None else Inl (IOError e)))) (\<lambda>current.
     io_lift (if current \<noteq> ob_contents ob
              then Inl (EOther ''state file changed after effective configuration was resolved'') else Inr ()))"

definition server_state :: "config_env \<Rightarrow> server \<Rightarrow> seed \<Rightarrow> json_server_state" where
  "server_state C sv seed =
     \<lparr> js_node_id = Some (cf_hex C (nk_id (nsk_pk (sv_identity_keys sv)))),
       js_private_key = Some (cf_hex C (nsk_sk (sv_identity_keys sv))),
       js_public_key = Some (cf_hex C (nk_pk (nsk_pk (sv_identity_keys sv)))),
       js_drbg_seed = Some (seed_display (cf_hex C) seed), js_iat_mode = Some (sv_iat_mode sv) \<rparr>"

definition try_write_statefile_to :: "config_env \<Rightarrow> server \<Rightarrow> string \<Rightarrow> (atomic_write_error, unit, 'k) fsop" where
  "try_write_statefile_to C sv path =
     io_test (is_dir path) (\<lambda>d.
     let target = (if d then path_join path STATE_FILENAME else path) in
     io_bind (io_map_err (\<lambda>e. NotPublished (IOError e)) (create_dir_all (cf_os C) (parent_directory_of target))) (\<lambda>_.
     case sv_drbg_seed sv of
       None \<Rightarrow> io_lift (Inl (NotPublished (EOther ''server DRBG seed is unavailable'')))
     | Some seed \<Rightarrow> atomic_write_json target (server_to_vec (cf_serde C) iat_serialize (server_state C sv seed))))"

definition write_statefile_to :: "config_env \<Rightarrow> server \<Rightarrow> string \<Rightarrow> (obfs4_error, unit, 'k) fsop" where
  "write_statefile_to C sv path = io_map_err obfs4_of_atomic (try_write_statefile_to C sv path)"

definition persist_server ::
  "config_env \<Rightarrow> effective_configuration \<Rightarrow> server \<Rightarrow> (obfs4_error, server, server_builder \<times> 'k fs) op" where
  "persist_server C effective sv =
     io_bind (io_lift (ok_or (EOther ''missing state-file persistence target'') (ef_observation effective))) (\<lambda>ob.
     io_bind (on_fs (ensure_statefile_unchanged C ob)) (\<lambda>_ (sb, F).
       case try_write_statefile_to C sv (ob_path ob) F of
         (Inr _, F) \<Rightarrow> (Inr sv, (remember (effective \<lparr> ef_persist_statefile := False, ef_observation := None \<rparr>) sb, F))
       | (Inl (NotPublished e), F) \<Rightarrow> (Inl e, (sb, F))
       | (Inl (PublishedButNotDurable e published_contents), F) \<Rightarrow>
           (Inl e, (remember (effective \<lparr> ef_observation :=
              Some \<lparr> ob_path = ob_path ob, ob_contents = Some published_contents \<rparr> \<rparr>) sb, F))))"

definition server_of :: "bytes \<Rightarrow> maybe_timeout \<Rightarrow> effective_configuration \<Rightarrow> server" where
  "server_of fkey timeout effective =
     \<lparr> sv_handshake_timeout = timeout, sv_iat_mode = ef_iat_mode effective, sv_biased = False,
       sv_identity_keys = ef_identity_keys effective, sv_drbg_seed = Some (ef_drbg_seed effective),
       sv_configuration_error = None, sv_replay_filter = replay_filter_new fkey REPLAY_TTL \<rparr>"

definition try_build :: "config_env \<Rightarrow> string + bytes \<Rightarrow> bytes \<Rightarrow> (obfs4_error, server, server_builder \<times> 'k fs) op" where
  "try_build C rnd fkey s =
     (case sb_config_error (fst s) of
        Some e \<Rightarrow> (Inl (EOther e), s)
      | None \<Rightarrow> io_bind (effective_configuration C rnd) (\<lambda>effective (sb, F).
          let sv = server_of fkey (sb_handshake_timeout sb) effective in
          if ef_persist_statefile effective then persist_server C effective sv (sb, F) else (Inr sv, (sb, F))) s)"

definition build :: "config_env \<Rightarrow> string + bytes \<Rightarrow> bytes \<Rightarrow> server_builder \<times> 'k fs \<Rightarrow> server \<times> server_builder \<times> 'k fs" where
  "build C rnd fkey s =
     (case try_build C rnd fkey s of
        (Inr sv, s) \<Rightarrow> (sv, s)
      | (Inl e, (sb, F)) \<Rightarrow>
          (\<lparr> sv_handshake_timeout = sb_handshake_timeout sb, sv_iat_mode = sb_iat_mode sb, sv_biased = False,
             sv_identity_keys = sb_identity_keys sb, sv_drbg_seed = None,
             sv_configuration_error = Some (obfs4_error_display (cf_os C) e),
             sv_replay_filter = replay_filter_new fkey REPLAY_TTL \<rparr>, (sb, F)))"

section \<open>Constructors and accessors of the server\<close>

definition new_from_key :: "config_env \<Rightarrow> string + bytes \<Rightarrow> bytes \<Rightarrow> ntor_secret_key \<Rightarrow> server" where
  "new_from_key C rnd fkey keys =
     (let (seed, err) = (case seed_new rnd of
            Inr s \<Rightarrow> (Some s, None) | Inl e \<Rightarrow> (None, Some (obfs4_error_display (cf_os C) e)))
      in \<lparr> sv_handshake_timeout = TDefault, sv_iat_mode = Off, sv_biased = False, sv_identity_keys = keys,
           sv_drbg_seed = seed, sv_configuration_error = err, sv_replay_filter = replay_filter_new fkey REPLAY_TTL \<rparr>)"

definition server_new :: "config_env \<Rightarrow> string + bytes \<Rightarrow> bytes \<Rightarrow> bytes \<Rightarrow> bytes \<Rightarrow> server" where
  "server_new C rnd fkey sec ident =
     new_from_key C rnd fkey \<lparr> nsk_pk = \<lparr> nk_id = ident, nk_pk = static_public (cf_curve C) sec \<rparr>, nsk_sk = sec \<rparr>"

text \<open>The generator fills the identity first and draws the secret next.\<close>

definition new_from_random :: "config_env \<Rightarrow> string + bytes \<Rightarrow> bytes \<Rightarrow> (nat \<Rightarrow> nat \<Rightarrow> bytes) \<Rightarrow> server" where
  "new_from_random C rnd fkey rng = server_new C rnd fkey (rng 1 KEY_LENGTH) (rng 0 20)"

definition server_getrandom :: "config_env \<Rightarrow> string + bytes \<Rightarrow> bytes \<Rightarrow> bytes \<Rightarrow> bytes \<Rightarrow> server" where
  "server_getrandom C rnd fkey sk ident = new_from_key C rnd fkey (ntor_secret_key_new (cf_curve C) sk ident)"

text \<open>
  \<open>a\<close> is the argument's bag when the \<^verbatim>\<open>Any\<close> is one, \<open>shared\<close> that another clone of the \<^verbatim>\<open>Arc\<close>
  exists.
\<close>

definition set_args :: "config_env \<Rightarrow> args option \<Rightarrow> bool \<Rightarrow> server \<Rightarrow> (obfs4_error + unit) \<times> server" where
  "set_args C a shared sv =
     (case bindr (ok_or NotSupported a) (\<lambda>a. bindr (required_state_try_from C a) (\<lambda>parsed.
        if shared then Inl NotSupported else Inr parsed)) of
        Inl e \<Rightarrow> (Inl e, sv)
      | Inr parsed \<Rightarrow> (Inr (), sv \<lparr> sv_identity_keys := rs_private_key parsed, sv_iat_mode := rs_iat_mode parsed,
          sv_drbg_seed := Some (rs_drbg_seed parsed), sv_configuration_error := None \<rparr>))"

definition new_from_statefile :: "obfs4_error + server" where
  "new_from_statefile = Inl NotSupported"

definition write_statefile :: "obfs4_error + unit" where
  "write_statefile = Inl NotSupported"

definition new_from_statefile_at ::
  "config_env \<Rightarrow> string + bytes \<Rightarrow> bytes \<Rightarrow> ntor_secret_key \<Rightarrow> string \<Rightarrow> (obfs4_error, server, 'k) fsop" where
  "new_from_statefile_at C rnd fkey fresh path F =
     (case io_bind (try_statefile_path C path) (\<lambda>_. try_build C rnd fkey) (server_builder_default fresh, F) of
        (r, (_, F)) \<Rightarrow> (r, F))"

definition new_server_session :: "(bytes \<Rightarrow> bytes) \<Rightarrow> bytes \<Rightarrow> server \<Rightarrow> obfs4_error + initialized server_session" where
  "new_server_session sha256 sid sv =
     bindr (ok_or (EOther ''server DRBG seed is unavailable'') (sv_drbg_seed sv)) (\<lambda>len_seed.
     bindr (seed_try_from (take SEED_LENGTH (sha256 len_seed))) (\<lambda>iat_seed.
     Inr \<lparr> ss_identity_keys = sv_identity_keys sv, ss_biased = sv_biased sv, ss_iat_mode = sv_iat_mode sv,
           ss_session_id = sid, ss_len_seed = len_seed, ss_iat_seed = iat_seed, ss_state = Initialized \<rparr>))"

text \<open>The filter is shared by all connections: it is beside the carrier, not in the record.\<close>

definition server_wrap ::
  "('s, 'f) obfs4_env \<Rightarrow> 's handshake_env \<Rightarrow> server_draws \<Rightarrow> 'c async_ops \<Rightarrow> (bytes \<Rightarrow> string) \<Rightarrow> 'p \<Rightarrow> bytes \<Rightarrow> server
   \<Rightarrow> (obfs4_error + ('c, 'f, 's, 'p) o4_stream, 'c \<times> inner_replay_filter) future" where
  "server_wrap E H D A col priv sid sv ts cf =
     (case sv_configuration_error sv of
        Some e \<Rightarrow> (Ready (Inl (EOther e)), cf, ts)
      | None \<Rightarrow>
          (case deadline (env_clock_max E) (hd ts) (sv_handshake_timeout sv) SERVER_HANDSHAKE_TIMEOUT of
             Inl e \<Rightarrow> (Ready (Inl (IOError e)), cf, ts)
           | Inr dl \<Rightarrow>
               if (case dl of Some d \<Rightarrow> d \<le> hd ts | None \<Rightarrow> False) then (Ready (Inl HandshakeTimeout), cf, ts)
               else (case new_server_session (env_sha256 E) sid sv of
                       Inl e \<Rightarrow> (Ready (Inl e), cf, ts)
                     | Inr session \<Rightarrow> server_session_handshake E H D A col priv session dl ts cf)))"

section \<open>The transport's view of the builder\<close>

definition OBFS4_NAME :: string where "OBFS4_NAME = ''obfs4''"

definition server_options :: "config_env \<Rightarrow> args \<Rightarrow> (obfs4_error, unit, server_builder \<times> 'k fs) op" where
  "server_options C opts s =
     io_bind (on_fs (parse_state C (sb_statefile_path (fst s)) opts)) (\<lambda>state (sb, F).
       (Inr (), (invalidate ((builder_iat_mode (rs_iat_mode state) (sb \<lparr> sb_identity_keys := rs_private_key state,
           sb_identity_override := True, sb_node_id_override := (retrieve opts NODE_ID_ARG \<noteq> None) \<rparr>))
         \<lparr> sb_drbg_seed := Some (rs_drbg_seed state), sb_seed_override := True, sb_config_error := None \<rparr>), F))) s"

definition server_statefile_location :: "string \<Rightarrow> server_builder \<Rightarrow> server_builder" where
  "server_statefile_location path sb = statefile_path path sb"

definition server_timeout :: "nat option \<Rightarrow> server_builder \<Rightarrow> server_builder" where
  "server_timeout t sb = sb \<lparr> sb_handshake_timeout := (case t of None \<Rightarrow> TDefault | Some d \<Rightarrow> TLength d) \<rparr>"

definition server_v4_bind_addr :: "server_builder \<Rightarrow> (obfs4_error + unit) \<times> server_builder" where
  "server_v4_bind_addr sb = (Inl NotSupported, sb)"

definition server_v6_bind_addr :: "server_builder \<Rightarrow> (obfs4_error + unit) \<times> server_builder" where
  "server_v6_bind_addr sb = (Inl NotSupported, sb)"

section \<open>What the operations do to the builder and the files\<close>

lemma io_bind_cases:
  assumes "io_bind m f s = (r, s')"
  obtains (fail) e where "m s = (Inl e, s')" "r = Inl e" | (go) x s1 where "m s = (Inr x, s1)" "f x s1 = (r, s')"
  using assms by (auto simp: io_bind_def split: prod.splits sum.splits)

lemma on_fs_eq: "on_fs m (b, F) = (r, (b', F')) \<longleftrightarrow> m F = (r, F') \<and> b' = b"
  by (auto simp: on_fs_def split: prod.splits)

lemma read_state_keeps: "keeps same_nodes (read_state_path C p)"
  unfolding read_state_path_def by (intro nodes.keeps_rules path_keeps fs_read_keeps)

lemma parse_state_keeps: "keeps same_nodes (parse_state C d a)"
  unfolding parse_state_def server_state_from_file_def
  by (cases d) (auto intro!: nodes.keeps_rules read_state_keeps split: sum.splits)

lemma resolve_keeps: "keeps same_nodes (resolve_effective_configuration C rnd sb)"
  unfolding resolve_effective_configuration_def Let_def
  by (auto intro!: nodes.keeps_rules path_keeps fs_read_keeps simp: keeps_pure split: option.splits)

lemma ensure_keeps: "keeps same_nodes (ensure_statefile_unchanged C ob)"
  unfolding ensure_statefile_unchanged_def by (intro nodes.keeps_rules fs_read_keeps)

lemma effective_outcome:
  assumes "effective_configuration C rnd (sb, F) = (r, (sb', F'))"
  shows "same_nodes F F'" "r = Inr e \<Longrightarrow> sb' = remember e sb" "r = Inl x \<Longrightarrow> sb' = sb"
    "sb_effective sb = Some e0 \<Longrightarrow> r = Inr e0"
    "sb_effective sb = None \<Longrightarrow> resolve_effective_configuration C rnd sb F = (r, F')"
proof -
  have res: "same_nodes F F' \<and> (\<forall>e. r = Inr e \<longrightarrow> sb' = remember e sb) \<and> (\<forall>x. r = Inl x \<longrightarrow> sb' = sb)
      \<and> resolve_effective_configuration C rnd sb F = (r, F')" if "sb_effective sb = None"
    using assms that keepsD [OF resolve_keeps, of C rnd sb F]
    by (auto simp: effective_configuration_def io_bind_def on_fs_def split: prod.splits sum.splits)
  have "sb' = sb" "F' = F" "r = Inr e0" if "sb_effective sb = Some e0" for e0
    using assms that by (simp_all add: effective_configuration_def)
  with res show "same_nodes F F'" "r = Inr e \<Longrightarrow> sb' = remember e sb" "r = Inl x \<Longrightarrow> sb' = sb"
      "sb_effective sb = Some e0 \<Longrightarrow> r = Inr e0"
      "sb_effective sb = None \<Longrightarrow> resolve_effective_configuration C rnd sb F = (r, F')"
    by (cases "sb_effective sb"; auto simp: remember_def)+
qed

text \<open>What of a configuration the outside can see.\<close>

definition core :: "effective_configuration \<Rightarrow> ntor_secret_key \<times> iat \<times> seed" where
  "core e = (ef_identity_keys e, ef_iat_mode e, ef_drbg_seed e)"

lemma persist_outcome:
  assumes "persist_server C e sv (sb, F) = (r, (sb', F'))"
  shows "r = Inr x \<Longrightarrow> x = sv" "sb' = sb \<or> (\<exists>e'. sb' = remember e' sb \<and> core e' = core e)"
  using assms
  by (auto simp: persist_server_def io_bind_def io_lift_def on_fs_def core_def
      split: prod.splits sum.splits option.splits atomic_write_error.splits)

lemma try_build_outcome:
  assumes "try_build C rnd fkey (sb, F) = (r, (sb', F'))" "sb_config_error sb = None"
  obtains (unresolved) x where "r = Inl x" "sb' = sb" "effective_configuration C rnd (sb, F) = (Inl x, (sb, F'))"
  | (resolved) e F1 where "effective_configuration C rnd (sb, F) = (Inr e, (remember e sb, F1))"
      "if ef_persist_statefile e
       then persist_server C e (server_of fkey (sb_handshake_timeout sb) e) (remember e sb, F1) = (r, (sb', F'))
       else r = Inr (server_of fkey (sb_handshake_timeout sb) e) \<and> sb' = remember e sb \<and> F' = F1"
proof -
  obtain q sb1 F1 where q: "effective_configuration C rnd (sb, F) = (q, (sb1, F1))" by (metis prod_cases3)
  note eo = effective_outcome(2,3) [OF q]
  show thesis
  proof (cases q)
    case (Inl x)
    with assms q eo(2) show thesis by (intro unresolved) (auto simp: try_build_def io_bind_def)
  next
    case (Inr e)
    with eo(1) have sb1: "sb1 = remember e sb" by simp
    show thesis by (rule resolved [of e F1]) (use assms q Inr sb1 in \<open>auto simp: try_build_def io_bind_def Let_def remember_def\<close>)
  qed
qed

section \<open>Everything one builder says agrees\<close>

datatype 'k builder_use = AskParams "string + bytes" "'k fs" | AskServer "string + bytes" bytes "'k fs"

datatype builder_answer = Params string | Built server | Refused

definition use_step :: "config_env \<Rightarrow> 'k builder_use \<Rightarrow> server_builder \<Rightarrow> builder_answer \<times> server_builder" where
  "use_step C u sb =
     (case u of
        AskParams rnd F \<Rightarrow>
          (case try_client_params C rnd (sb, F) of (Inr t, (sb, _)) \<Rightarrow> (Params t, sb) | (Inl _, (sb, _)) \<Rightarrow> (Refused, sb))
      | AskServer rnd fkey F \<Rightarrow>
          (case try_build C rnd fkey (sb, F) of (Inr sv, (sb, _)) \<Rightarrow> (Built sv, sb) | (Inl _, (sb, _)) \<Rightarrow> (Refused, sb)))"

fun use_builder :: "config_env \<Rightarrow> 'k builder_use list \<Rightarrow> server_builder \<Rightarrow> builder_answer list" where
  "use_builder C [] sb = []"
| "use_builder C (u # us) sb = (case use_step C u sb of (a, sb) \<Rightarrow> a # use_builder C us sb)"

definition says :: "config_env \<Rightarrow> ntor_secret_key \<times> iat \<times> seed \<Rightarrow> builder_answer \<Rightarrow> bool" where
  "says C c a \<longleftrightarrow>
     (case c of (keys, mode, seed) \<Rightarrow>
        (case a of
           Params t \<Rightarrow> t = encode_smethod_args
             (args_add (args_add args_new CERT_ARG (ntor_pk_to_string (cf_b64_encode C) (nsk_pk keys))) IAT_ARG (iat_to_string mode))
         | Built sv \<Rightarrow> sv_identity_keys sv = keys \<and> sv_iat_mode sv = mode \<and> sv_drbg_seed sv = Some seed
         | Refused \<Rightarrow> True))"

lemma says_refused [simp]: "says C c Refused"
  by (simp add: says_def split: prod.splits)

lemma use_step_says:
  assumes "use_step C u sb = (a, sb')"
  shows "sb_effective sb = Some e \<Longrightarrow> says C (core e) a \<and> (\<exists>e'. sb_effective sb' = Some e' \<and> core e' = core e)"
    "sb_effective sb = None \<Longrightarrow> a = Refused \<and> sb_effective sb' = None \<or> (\<exists>e. sb_effective sb' = Some e \<and> says C (core e) a)"
proof -
  have "a = Refused \<and> sb' = sb \<or> (\<exists>e. (\<forall>e0. sb_effective sb = Some e0 \<longrightarrow> e = e0) \<and> says C (core e) a
      \<and> (\<exists>e'. sb_effective sb' = Some e' \<and> core e' = core e))"
  proof (cases "sb_config_error sb")
    case (Some err)
    with assms show ?thesis
      by (auto simp: use_step_def try_client_params_def try_build_def split: builder_use.splits)
  next
    case None
    show ?thesis
    proof (cases u)
      case (AskParams rnd F)
      obtain r sb1 F1 where q: "effective_configuration C rnd (sb, F) = (r, (sb1, F1))" by (metis prod_cases3)
      show ?thesis
      proof (cases r)
        case (Inl x)
        then have "a = Refused" "sb' = sb" using effective_outcome(3) [OF q] q assms AskParams None
          by (auto simp: use_step_def try_client_params_def io_bind_def)
        then show ?thesis by simp
      next
        case (Inr e)
        then have "says C (core e) a" "sb' = remember e sb" using effective_outcome(2) [OF q] q assms AskParams None
          by (auto simp: use_step_def try_client_params_def io_bind_def io_lift_def says_def core_def)
        then have "says C (core e) a \<and> (\<exists>e'. sb_effective sb' = Some e' \<and> core e' = core e)" by (simp add: remember_def)
        with effective_outcome(4) [OF q] Inr show ?thesis by blast
      qed
    next
      case (AskServer rnd fkey F)
      obtain q s F' where b: "try_build C rnd fkey (sb, F) = (q, (s, F'))" by (metis prod_cases3)
      have a: "sb' = s" "a = (case q of Inr sv \<Rightarrow> Built sv | Inl _ \<Rightarrow> Refused)"
        using assms AskServer b by (auto simp: use_step_def split: sum.splits)
      from b None show ?thesis
      proof (cases rule: try_build_outcome)
        case (unresolved x)
        with a show ?thesis by auto
      next
        case (resolved e F1)
        have "says C (core e) a \<and> (\<exists>e'. sb_effective sb' = Some e' \<and> core e' = core e)"
        proof (cases "ef_persist_statefile e")
          case True
          with resolved(2) have p: "persist_server C e (server_of fkey (sb_handshake_timeout sb) e) (remember e sb, F1) = (q, (s, F'))" by simp
          from persist_outcome(1) [OF p] persist_outcome(2) [OF p] a show ?thesis
            by (auto simp: says_def core_def server_of_def remember_def split: sum.splits)
        qed (use resolved(2) a in \<open>auto simp: says_def core_def server_of_def remember_def\<close>)
        with effective_outcome(4) [OF resolved(1)] show ?thesis by blast
      qed
    qed
  qed
  then show "sb_effective sb = Some e \<Longrightarrow> says C (core e) a \<and> (\<exists>e'. sb_effective sb' = Some e' \<and> core e' = core e)"
      "sb_effective sb = None \<Longrightarrow> a = Refused \<and> sb_effective sb' = None \<or> (\<exists>e. sb_effective sb' = Some e \<and> says C (core e) a)"
    by auto
qed

lemma use_builder_says:
  "sb_effective sb = Some e \<Longrightarrow> list_all (says C (core e)) (use_builder C us sb)"
proof (induction us arbitrary: sb e)
  case (Cons u us)
  obtain a sb' where u: "use_step C u sb = (a, sb')" by force
  from use_step_says(1) [OF u Cons.prems] obtain e' where "says C (core e) a" "sb_effective sb' = Some e'" "core e' = core e" by blast
  with Cons.IH [of sb' e'] u show ?case by simp
qed simp

text \<open>
  C10. Everything one builder says agrees. Between two changes of its settings, whatever mixture
  of requests for client parameters and for servers is made, over whatever the file system
  holds at each of them and whichever system calls fail, all parameter strings returned and
  all servers built carry one identity, one mode and one seed. In particular a failed
  publication or a retried build cannot invalidate parameters that were already given out.
\<close>

theorem builder_answers_agree: "\<exists>c. list_all (says C c) (use_builder C us sb)"
proof (induction us arbitrary: sb)
  case (Cons u us)
  obtain a sb' where u: "use_step C u sb = (a, sb')" by force
  show ?case
  proof (cases "sb_effective sb")
    case (Some e)
    from use_builder_says [OF this] show ?thesis by blast
  next
    case None
    from use_step_says(2) [OF u None] show ?thesis
    proof (elim disjE conjE exE)
      assume "a = Refused"
      moreover obtain c where "list_all (says C c) (use_builder C us sb')" using Cons.IH by blast
      ultimately show ?thesis using u by (intro exI [of _ c]) simp
    next
      fix e assume "sb_effective sb' = Some e" "says C (core e) a"
      with use_builder_says [of sb' e C us] u show ?thesis by (intro exI [of _ "core e"]) simp
    qed
  qed
qed (simp add: exI)

section \<open>What is overwritten\<close>

text \<open>No failing system call reports a file as missing that is there.\<close>

definition benign :: "config_env \<Rightarrow> 'k fs \<Rightarrow> bool" where
  "benign C F \<longleftrightarrow> (\<forall>e. Some e \<in> set (fs_faults F) \<longrightarrow> io_kind (cf_os C) e \<noteq> NotFound)"

lemma benign_same: "benign C F \<Longrightarrow> same_nodes F F' \<Longrightarrow> benign C F'"
  by (auto simp: benign_def same_nodes_def)

lemma syscall_benign: "syscall F = (Inl e, F') \<Longrightarrow> benign C F \<Longrightarrow> io_kind (cf_os C) e \<noteq> NotFound"
  by (auto simp: syscall_def benign_def split: list.splits option.splits)

lemma ensure_observed:
  assumes "ensure_statefile_unchanged C ob F = (Inr u, F')" "benign C F"
  shows "fs_node F (ob_path ob) = map_option FileNode (ob_contents ob)"
proof -
  obtain q F1 where s: "syscall F = (q, F1)" by force
  have "fs_node F1 (ob_path ob) = fs_node F (ob_path ob)" using same_nodes_node keepsD [OF syscall_same s] .
  with assms s syscall_benign [OF _ assms(2)] show ?thesis
    by (auto simp: ensure_statefile_unchanged_def io_bind_def io_catch_def io_lift_def fs_read_def
        split: prod.splits sum.splits if_splits option.splits fnode.splits) (metis option.simps(9))+
qed

lemma write_to_outcome:
  assumes "try_write_statefile_to C sv p F = (r, F')" "fs_node F p \<noteq> Some DirNode"
  obtains (before) x where "same_files F F'" "r = Inl (NotPublished x)"
  | (after) G seed b where "same_files F G" "published p b G F'" "sv_drbg_seed sv = Some seed"
      "server_to_vec (cf_serde C) iat_serialize (server_state C sv seed) = Inr b"
      "r = Inr () \<or> (\<exists>x. r = Inl (PublishedButNotDurable x b))"
proof -
  obtain d F1 where d: "is_dir p F = (d, F1)" by force
  have F1: "same_nodes F F1" using keepsD [OF path_keeps(2) d] .
  have "\<not> d" using assms(2) d is_dir_True by (cases d) auto
  obtain q G where c: "create_dir_all (cf_os C) (parent_directory_of p) F1 = (q, G)" by force
  have G: "same_files F G" by (rule same_files_trans [OF same_nodes_files [OF F1] keepsD [OF create_dir_all_keeps c]])
  show thesis
  proof (cases "\<exists>u seed. q = Inr u \<and> sv_drbg_seed sv = Some seed")
    case False
    with assms(1) d \<open>\<not> d\<close> c have "\<exists>x. r = Inl (NotPublished x)" "F' = G"
      by (cases q; cases "sv_drbg_seed sv"; auto simp: try_write_statefile_to_def io_test_def io_bind_def io_map_err_def io_lift_def Let_def)+
    with G show thesis by (auto intro: before)
  next
    case True
    then obtain u seed where u: "q = Inr u" "sv_drbg_seed sv = Some seed" by blast
    with assms(1) d \<open>\<not> d\<close> c have "atomic_write_json p (server_to_vec (cf_serde C) iat_serialize (server_state C sv seed)) G = (r, F')"
      by (auto simp: try_write_statefile_to_def io_test_def io_bind_def io_map_err_def Let_def split: sum.splits)
    from atomic_write_ends [OF this] G u(2) show thesis
      by (auto simp: atomic_outcome_def split: sum.splits atomic_write_error.splits
          intro: before [OF same_files_trans [OF G same_nodes_files]] after)
  qed
qed

lemma persist_files:
  assumes "persist_server C e sv (sb, F) = (r, (sb', F'))" "benign C F"
  obtains (kept) x where "same_files F F'" "r = Inl x"
  | (replaced) ob G seed b where "ef_observation e = Some ob" "fs_node F (ob_path ob) = map_option FileNode (ob_contents ob)"
      "same_files F G" "published (ob_path ob) b G F'" "sv_drbg_seed sv = Some seed"
      "server_to_vec (cf_serde C) iat_serialize (server_state C sv seed) = Inr b"
proof (cases "ef_observation e")
  case None
  with assms show thesis by (intro kept) (auto simp: persist_server_def io_bind_def io_lift_def same_files_def)
next
  case (Some ob)
  obtain q F1 where n: "ensure_statefile_unchanged C ob F = (q, F1)" by force
  have F1: "same_nodes F F1" using keepsD [OF ensure_keeps n] .
  show thesis
  proof (cases q)
    case (Inl x)
    with assms n Some F1 show thesis
      by (intro kept) (auto simp: persist_server_def io_bind_def io_lift_def on_fs_def intro: same_nodes_files)
  next
    case (Inr u)
    note ob = ensure_observed [OF n [unfolded Inr] assms(2)]
    obtain w F2 where w: "try_write_statefile_to C sv (ob_path ob) F1 = (w, F2)" by force
    from assms(1) n Some Inr w have r: "F' = F2" "\<And>x. w = Inl (NotPublished x) \<Longrightarrow> r = Inl x"
      by (auto simp: persist_server_def io_bind_def io_lift_def on_fs_def split: sum.splits atomic_write_error.splits)
    have nd: "fs_node F1 (ob_path ob) \<noteq> Some DirNode" using ob same_nodes_node [OF F1] by (cases "ob_contents ob") auto
    from w nd show thesis
    proof (cases rule: write_to_outcome)
      case (before x)
      have "same_files F F2" by (rule same_files_trans [OF same_nodes_files [OF F1] before(1)])
      with r before(2) show thesis by (intro kept) simp_all
    next
      case (after G seed b)
      have "same_files F G" by (rule same_files_trans [OF same_nodes_files [OF F1] after(1)])
      with after r(1) Some ob show thesis by (auto intro: replaced)
    qed
  qed
qed

definition has_overrides :: "server_builder \<Rightarrow> bool" where
  "has_overrides sb \<longleftrightarrow> sb_identity_override sb \<or> sb_node_id_override sb \<or> sb_iat_override sb \<or> sb_seed_override sb"

definition needs_state :: "server_builder \<Rightarrow> bool" where
  "needs_state sb \<longleftrightarrow> \<not> (sb_identity_override sb \<and> sb_node_id_override sb \<and> sb_iat_override sb \<and> sb_seed_override sb)"

lemma resolve_cases:
  assumes "resolve_effective_configuration C rnd sb F = (Inr e, F')"
  obtains ex contents ds where
    "if ex then \<exists>t b. statefile_target sb = Some t \<and> fs_node F t = Some (FileNode b) \<and> contents = Some b else contents = None"
    "(if sb_statefile_path sb \<noteq> None \<and> needs_state sb \<and> ex then merge_state C sb contents
      else Inr (sb_identity_keys sb, sb_iat_mode sb, sb_drbg_seed sb)) = Inr (ef_identity_keys e, ef_iat_mode e, ds)"
    "(case ds of Some s \<Rightarrow> Inr s | None \<Rightarrow> seed_new rnd) = Inr (ef_drbg_seed e)"
    "ef_persist_statefile e = (sb_persist_statefile sb \<and> statefile_target sb \<noteq> None \<and> (\<not> ex \<or> has_overrides sb))"
    "ef_observation e = (case statefile_target sb of
        Some t \<Rightarrow> if ef_persist_statefile e then Some \<lparr> ob_path = t, ob_contents = contents \<rparr> else None | None \<Rightarrow> None)"
proof -
  define test where "test = (case statefile_target sb of Some t \<Rightarrow> is_file t | None \<Rightarrow> (\<lambda>F :: 'a fs. (False, F)))"
  define load :: "bool \<Rightarrow> (obfs4_error, bytes option, 'a) fsop" where "load ex = (case statefile_target sb of
      Some t \<Rightarrow> if ex then io_bind (io_map_err IOError (fs_read t)) (\<lambda>b. io_lift (Inr (Some b))) else io_lift (Inr None)
    | None \<Rightarrow> io_lift (Inr None))" for ex
  obtain ex F1 where t: "test F = (ex, F1)" by force
  obtain q F2 where l: "load ex F1 = (q, F2)" by force
  note def = assms [unfolded resolve_effective_configuration_def Let_def test_def [symmetric] load_def [symmetric]]
  from def t l obtain contents where c: "q = Inr contents" by (cases q) (auto simp: io_test_def io_bind_def)
  have F1: "same_nodes F F1" using t by (auto simp: test_def split: option.splits dest: keepsD [OF path_keeps(1)])
  have ex: "if ex then \<exists>t b. statefile_target sb = Some t \<and> fs_node F t = Some (FileNode b) \<and> contents = Some b else contents = None"
  proof (cases "statefile_target sb")
    case (Some p)
    then show ?thesis using l c fs_read_Inr [of p F1] same_nodes_node [OF F1, of p]
      by (auto simp: load_def io_bind_def io_map_err_def io_lift_def map_err_def split: prod.splits sum.splits)
  qed (use t l c in \<open>auto simp: test_def load_def io_lift_def\<close>)
  define merged where "merged = (if sb_statefile_path sb \<noteq> None \<and> needs_state sb \<and> ex then merge_state C sb contents
      else Inr (sb_identity_keys sb, sb_iat_mode sb, sb_drbg_seed sb))"
  have need: "(\<not> sb_identity_override sb \<or> \<not> sb_node_id_override sb \<or> \<not> sb_iat_override sb \<or> \<not> sb_seed_override sb) = needs_state sb"
    by (auto simp: needs_state_def)
  obtain keys mode ds seed where m: "merged = Inr (keys, mode, ds)" "(case ds of Some s \<Rightarrow> Inr s | None \<Rightarrow> seed_new rnd) = Inr seed"
    and e: "e = \<lparr> ef_identity_keys = keys, ef_iat_mode = mode, ef_drbg_seed = seed,
      ef_persist_statefile = (sb_persist_statefile sb \<and> statefile_target sb \<noteq> None \<and> (\<not> ex \<or> has_overrides sb)),
      ef_observation = (case statefile_target sb of
        Some t \<Rightarrow> if sb_persist_statefile sb \<and> statefile_target sb \<noteq> None \<and> (\<not> ex \<or> has_overrides sb)
                  then Some \<lparr> ob_path = t, ob_contents = contents \<rparr> else None | None \<Rightarrow> None) \<rparr>"
    using def unfolding need merged_def [symmetric] has_overrides_def [symmetric] io_test_def t io_bind_def l c io_lift_def prod.case sum.case
      merged_def [symmetric] by auto
  show thesis by (rule that [OF ex, of ds]) (use m [unfolded merged_def] e in \<open>simp_all split: option.split\<close>)
qed

lemma resolve_observation:
  assumes "resolve_effective_configuration C rnd sb F = (Inr e, F')" "ef_observation e = Some ob"
  shows "statefile_target sb = Some (ob_path ob) \<and> sb_persist_statefile sb \<and> (ob_contents ob = None \<or> has_overrides sb)"
  using assms(1) by (cases rule: resolve_cases) (use assms(2) in \<open>auto split: option.splits if_splits\<close>)

text \<open>
  C8. A build overwrites no file but the builder's own state file, and that one only when its
  bytes are those the builder observed when it resolved its configuration: a file that
  another process has changed since is left alone, whichever system calls fail. A builder
  that has not resolved its configuration yet overwrites an existing state file only when
  settings made by hand have to be stored.
\<close>

theorem state_file_not_clobbered:
  assumes "try_build C rnd fkey (sb, F) = (r, (sb', F'))" "benign C F"
    and "fs_nodes F k = Some (FileNode b)" "fs_nodes F' k \<noteq> Some (FileNode b)"
  shows "\<exists>p. k = fs_resolve F p \<and>
    (case sb_effective sb of
       Some e \<Rightarrow> ef_observation e = Some \<lparr> ob_path = p, ob_contents = Some b \<rparr>
     | None \<Rightarrow> statefile_target sb = Some p \<and> sb_persist_statefile sb \<and> has_overrides sb)"
proof -
  have change: "\<not> same_files F F'" using assms(3,4) by (auto simp: same_files_def)
  have "sb_config_error sb = None" using assms(1) change by (cases "sb_config_error sb") (auto simp: try_build_def same_files_def)
  from assms(1) this show ?thesis
  proof (cases rule: try_build_outcome)
    case (unresolved x)
    with change show ?thesis using effective_outcome(1) same_nodes_files by blast
  next
    case (resolved e F1)
    note F1 = effective_outcome(1) [OF resolved(1)]
    have "ef_persist_statefile e" using resolved(2) change same_nodes_files [OF F1] by (auto split: if_splits)
    with resolved(2) have p: "persist_server C e (server_of fkey (sb_handshake_timeout sb) e) (remember e sb, F1) = (r, (sb', F'))" by simp
    from p benign_same [OF assms(2) F1] show ?thesis
    proof (cases rule: persist_files)
      case (kept x)
      with change same_files_trans [OF same_nodes_files [OF F1]] show ?thesis by blast
    next
      case (replaced ob G seed c)
      have k: "k = fs_resolve F (ob_path ob)" "ob_contents ob = Some b"
        using assms(3,4) replaced(2-4) F1 by (auto simp: published_def same_files_def same_nodes_def fs_node_def split: if_splits)
      show ?thesis
      proof (cases "sb_effective sb")
        case None
        from resolve_observation [OF effective_outcome(5) [OF resolved(1) None] replaced(1)] k None show ?thesis by auto
      next
        case (Some e0)
        then have "e0 = e" using effective_outcome(4) [OF resolved(1) Some] by simp
        with Some replaced(1) k show ?thesis by (intro exI [of _ "ob_path ob"]) simp
      qed
    qed
  qed
qed

section \<open>What a restart finds\<close>

text \<open>A node key whose halves correspond and have the lengths of their types.\<close>

definition key_wf :: "config_env \<Rightarrow> ntor_secret_key \<Rightarrow> bool" where
  "key_wf C k \<longleftrightarrow> nk_pk (nsk_pk k) = static_public (cf_curve C) (nsk_sk k) \<and> length (nsk_sk k) = KEY_LENGTH
     \<and> length (nk_id (nsk_pk k)) = NODE_ID_LENGTH"

lemma key_wf_new: "key_wf C k \<Longrightarrow> ntor_secret_key_new (cf_curve C) (nsk_sk k) (nk_id (nsk_pk k)) = k"
  by (cases k) (auto simp: key_wf_def ntor_secret_key_new_def)

lemma required_state_wf:
  assumes "config_ok C" "required_state_try_from C a = Inr p"
  shows "key_wf C (rs_private_key p)" "length (rs_drbg_seed p) = SEED_LENGTH"
proof -
  have hex: "\<And>n s b. cf_from_hex C n s = Inr b \<Longrightarrow> length b = n" using assms(1) by (simp add: config_ok_def)
  from assms(2) show "key_wf C (rs_private_key p)" "length (rs_drbg_seed p) = SEED_LENGTH"
    by (auto simp: required_state_try_from_def key_wf_def ntor_secret_key_new_def seed_from_hex_def dest!: hex)
qed

lemma merge_wf:
  assumes "config_ok C" "key_wf C (sb_identity_keys sb)" "\<forall>s. sb_drbg_seed sb = Some s \<longrightarrow> length s = SEED_LENGTH"
    and "merge_state C sb contents = Inr (keys, mode, ds)"
  shows "key_wf C keys" "\<forall>s. ds = Some s \<longrightarrow> length s = SEED_LENGTH"
  using assms(2-4) required_state_wf [OF assms(1)]
  by (auto simp: merge_state_def Let_def key_wf_def set_node_id_def split: if_splits)

text \<open>The record that a server writes is the state that a server reads.\<close>

lemma server_state_parsed:
  assumes "config_ok C" "key_wf C (sv_identity_keys sv)" "length seed = SEED_LENGTH"
  shows "required_state_try_from C (extend_args (server_state C sv seed) args_new) =
    Inr \<lparr> rs_private_key = sv_identity_keys sv, rs_drbg_seed = seed, rs_iat_mode = sv_iat_mode sv \<rparr>"
proof -
  have hex: "cf_from_hex C n (cf_hex C b) = Inr b" if "length b = n" for n b using assms(1) that by (auto simp: config_ok_def)
  have len: "length (static_public (cf_curve C) sk) = 32" for sk using assms(1) by (simp add: config_ok_def)
  let ?a = "extend_args (server_state C sv seed) args_new"
  have a: "retrieve ?a PRIVATE_KEY_ARG = Some (cf_hex C (nsk_sk (sv_identity_keys sv)))" "retrieve ?a SEED_ARG = Some (cf_hex C seed)"
    "retrieve ?a NODE_ID_ARG = Some (cf_hex C (nk_id (nsk_pk (sv_identity_keys sv))))"
    "retrieve ?a PUBLIC_KEY_ARG = Some (cf_hex C (nk_pk (nsk_pk (sv_identity_keys sv))))"
    "retrieve ?a IAT_ARG = Some (iat_to_string (sv_iat_mode sv))"
    by (simp_all add: extend_args_def add_if_def server_state_def args_add_def args_new_def retrieve_def arg_names seed_display_def)
  have iat: "iat_from_str (iat_to_string m) = Inr m" for m by (cases m) (simp_all add: iat_from_str_def)
  have k: "nk_pk (nsk_pk (sv_identity_keys sv)) = static_public (cf_curve C) (nsk_sk (sv_identity_keys sv))"
    "length (nsk_sk (sv_identity_keys sv)) = KEY_LENGTH" "length (nk_id (nsk_pk (sv_identity_keys sv))) = NODE_ID_LENGTH"
    using assms(2) by (simp_all add: key_wf_def)
  show ?thesis
    unfolding required_state_try_from_def a
    by (simp add: seed_from_hex_def iat hex k assms(3) len key_wf_new [OF assms(2)] const_simps)
qed

text \<open>Loading a directory in which a readable state file lies.\<close>

lemma no_faults: "fs_faults F = [] \<Longrightarrow> path_test P p F = (P (fs_node F p), F)"
    "fs_faults F = [] \<Longrightarrow> fs_node F p = Some (FileNode b) \<Longrightarrow> fs_read p F = (Inr b, F)"
  by (simp_all add: path_test_def fs_read_def io_bind_def syscall_def)

lemma restart_loads:
  assumes "fs_faults F = []" "fs_node F dir = Some DirNode" "fs_node F (path_join dir STATE_FILENAME) = Some (FileNode b)"
    and "server_from_slice (cf_serde C) (iat_deserialize (cf_os C)) b = Inr st"
    and "required_state_try_from C (extend_args st args_new) = Inr p"
  shows "new_from_statefile_at C rnd fkey fresh dir F =
    (Inr (server_of fkey TDefault \<lparr> ef_identity_keys = rs_private_key p, ef_iat_mode = rs_iat_mode p, ef_drbg_seed = rs_drbg_seed p,
       ef_persist_statefile = False, ef_observation = None \<rparr>), F)"
  by (simp add: assms no_faults new_from_statefile_at_def try_statefile_path_def read_state_path_def io_test_def io_bind_def io_map_err_def
      io_lift_def on_fs_def is_dir_def is_file_def Let_def try_build_def effective_configuration_def remember_def invalidate_def
      server_builder_default_def)

lemma persisted_reads_back:
  assumes "config_ok C" "server_to_vec (cf_serde C) iat_serialize st = Inr b"
  shows "server_from_slice (cf_serde C) (iat_deserialize (cf_os C)) b = Inr st"
proof -
  have "\<exists>b. server_to_vec (cf_serde C) iat_serialize st = Inr b \<and> server_from_slice (cf_serde C) (iat_deserialize (cf_os C)) b = Inr st"
    using assms(1) iat_json_roundtrip [of "cf_os C"] unfolding config_ok_def serde_ok_def by blast
  with assms(2) show ?thesis by auto
qed

lemma stored_server_reloads:
  assumes C: "config_ok C" and wf: "key_wf C (ef_identity_keys e)" "length (ef_drbg_seed e) = SEED_LENGTH"
    and t: "statefile_target sb = Some (path_join dir STATE_FILENAME)" "sb_effective sb = None"
    and e: "effective_configuration C rnd (sb, F) = (Inr e, (remember e sb, F1))" "benign C F"
    and p: "persist_server C e (server_of fkey tm e) (remember e sb, F1) = (Inr sv, (sb', F'))"
    and later: "fs_node F' dir = Some DirNode" "fs_faults F' = []"
  shows "\<exists>sv'. new_from_statefile_at C rnd' fkey' fresh dir F' = (Inr sv', F') \<and> sv_identity_keys sv' = sv_identity_keys sv
    \<and> sv_drbg_seed sv' = sv_drbg_seed sv \<and> sv_iat_mode sv' = sv_iat_mode sv"
proof -
  let ?sv = "server_of fkey tm e"
  have sv: "sv = ?sv" using persist_outcome(1) [OF p] by simp
  from p benign_same [OF e(2) effective_outcome(1) [OF e(1)]] obtain ob G b where
    ob: "ef_observation e = Some ob" "published (ob_path ob) b G F'"
      "server_to_vec (cf_serde C) iat_serialize (server_state C ?sv (ef_drbg_seed e)) = Inr b"
    by (cases rule: persist_files) (auto simp: server_of_def)
  have "ob_path ob = path_join dir STATE_FILENAME"
    using resolve_observation [OF effective_outcome(5) [OF e(1) t(2)] ob(1)] t(1) by simp
  then have n: "fs_node F' (path_join dir STATE_FILENAME) = Some (FileNode b)" using ob(2) by (simp add: published_def fs_node_def)
  have "key_wf C (sv_identity_keys ?sv)" using wf(1) by (simp add: server_of_def)
  from restart_loads [OF later(2,1) n persisted_reads_back [OF C ob(3)] server_state_parsed [OF C this wf(2)]] sv
  show ?thesis by (simp add: server_of_def)
qed

text \<open>
  C11. State survives a restart. When a builder with a state directory has built a server, a
  later process that loads the directory gets a server with the same identity, the same seed
  and the same mode, whether the first one found a state file there, found one and stored
  changed settings, or created it; and loading changes no file.
\<close>

theorem state_survives_restart:
  assumes C: "config_ok C"
    and sb: "sb_effective sb = None" "sb_statefile_path sb = Some dir" "\<not> sb_statefile_is_file sb" "sb_persist_statefile sb"
      "key_wf C (sb_identity_keys sb)" "\<forall>s. sb_drbg_seed sb = Some s \<longrightarrow> length s = SEED_LENGTH" "\<forall>s. rnd = Inr s \<longrightarrow> length s = SEED_LENGTH"
    and run: "try_build C rnd fkey (sb, F) = (Inr sv, (sb', F'))" "benign C F"
    and later: "fs_node F' dir = Some DirNode" "fs_faults F' = []"
  shows "\<exists>sv'. new_from_statefile_at C rnd' fkey' fresh dir F' = (Inr sv', F') \<and> sv_identity_keys sv' = sv_identity_keys sv
    \<and> sv_drbg_seed sv' = sv_drbg_seed sv \<and> sv_iat_mode sv' = sv_iat_mode sv"
proof -
  have t: "statefile_target sb = Some (path_join dir STATE_FILENAME)" using sb(2,3) by (simp add: statefile_target_def)
  have "sb_config_error sb = None" using run(1) by (cases "sb_config_error sb") (auto simp: try_build_def)
  from run(1) this obtain e F1 where e: "effective_configuration C rnd (sb, F) = (Inr e, (remember e sb, F1))"
      "if ef_persist_statefile e then persist_server C e (server_of fkey (sb_handshake_timeout sb) e) (remember e sb, F1) = (Inr sv, (sb', F'))
       else sv = server_of fkey (sb_handshake_timeout sb) e \<and> F' = F1" by (cases rule: try_build_outcome) (auto split: if_splits)
  note F1 = effective_outcome(1) [OF e(1)]
  from effective_outcome(5) [OF e(1) sb(1)] obtain ex contents ds where r:
    "if ex then \<exists>t b. statefile_target sb = Some t \<and> fs_node F t = Some (FileNode b) \<and> contents = Some b else contents = None"
    "(if sb_statefile_path sb \<noteq> None \<and> needs_state sb \<and> ex then merge_state C sb contents
      else Inr (sb_identity_keys sb, sb_iat_mode sb, sb_drbg_seed sb)) = Inr (ef_identity_keys e, ef_iat_mode e, ds)"
    "(case ds of Some s \<Rightarrow> Inr s | None \<Rightarrow> seed_new rnd) = Inr (ef_drbg_seed e)"
    "ef_persist_statefile e = (sb_persist_statefile sb \<and> statefile_target sb \<noteq> None \<and> (\<not> ex \<or> has_overrides sb))"
    by (rule resolve_cases)
  have "key_wf C (ef_identity_keys e) \<and> (\<forall>s. ds = Some s \<longrightarrow> length s = SEED_LENGTH)"
    using r(2) sb(5,6) merge_wf [OF C sb(5,6)] by (auto split: if_splits)
  then have wf: "key_wf C (ef_identity_keys e)" "length (ef_drbg_seed e) = SEED_LENGTH"
    using r(3) sb(7) by (auto simp: seed_new_def split: option.splits)
  show ?thesis
  proof (cases "ef_persist_statefile e")
    case True
    with e(2) have "persist_server C e (server_of fkey (sb_handshake_timeout sb) e) (remember e sb, F1) = (Inr sv, (sb', F'))" by simp
    from stored_server_reloads [OF C wf t sb(1) e(1) run(2) this later] show ?thesis .
  next
    case False
    then have ex: ex "\<not> has_overrides sb" using r(4) sb(4) t by auto
    then obtain b where b: "fs_node F (path_join dir STATE_FILENAME) = Some (FileNode b)" "contents = Some b" using r(1) t by auto
    have "needs_state sb" using ex(2) by (auto simp: needs_state_def has_overrides_def)
    with r(2) ex sb(2) b(2) obtain st p where p: "server_from_slice (cf_serde C) (iat_deserialize (cf_os C)) b = Inr st"
        "required_state_try_from C (extend_args st args_new) = Inr p"
        "ef_identity_keys e = rs_private_key p" "ef_iat_mode e = rs_iat_mode p" "ds = Some (rs_drbg_seed p)"
      by (auto simp: merge_state_def Let_def has_overrides_def)
    have F': "F' = F1" "sv = server_of fkey (sb_handshake_timeout sb) e" using e(2) False by simp_all
    have n: "fs_node F' (path_join dir STATE_FILENAME) = Some (FileNode b)" using b(1) F'(1) same_nodes_node [OF F1] by simp
    from restart_loads [OF later(2,1) n p(1,2)] F'(2) p(3-5) r(3) show ?thesis by (simp add: server_of_def)
  qed
qed

section \<open>A state file that is imported is not written\<close>

text \<open>
  Whatever happens to a builder after an explicit state file has been imported into it, short
  of giving it another state path. \<open>R\<close> is how paths are resolved throughout.
\<close>

inductive imported :: "config_env \<Rightarrow> (string \<Rightarrow> 'k) \<Rightarrow> server_builder \<Rightarrow> bool" for C R where
  import: "try_statefile_path C path (sb0, F) = (Inr u, (sb, F')) \<Longrightarrow> fs_resolve F = R \<Longrightarrow> sb_statefile_is_file sb \<Longrightarrow> imported C R sb"
| keys: "imported C R sb \<Longrightarrow> imported C R (node_keys C k sb)"
| try_keys: "imported C R sb \<Longrightarrow> imported C R (snd (try_node_keys C k sb))"
| identity: "imported C R sb \<Longrightarrow> imported C R (node_id i sb)"
| mode: "imported C R sb \<Longrightarrow> imported C R (builder_iat_mode m sb)"
| time_limit: "imported C R sb \<Longrightarrow> imported C R (sb \<lparr> sb_handshake_timeout := t \<rparr>)"
| options: "imported C R sb \<Longrightarrow> server_options C a (sb, F) = (r, (sb', F')) \<Longrightarrow> fs_resolve F = R \<Longrightarrow> imported C R sb'"
| params: "imported C R sb \<Longrightarrow> try_client_params C rnd (sb, F) = (q, (sb', F')) \<Longrightarrow> fs_resolve F = R \<Longrightarrow> imported C R sb'"
| servers: "imported C R sb \<Longrightarrow> try_build C rnd fkey (sb, F) = (b, (sb', F')) \<Longrightarrow> fs_resolve F = R \<Longrightarrow> imported C R sb'"

definition read_only :: "server_builder \<Rightarrow> bool" where
  "read_only sb \<longleftrightarrow> \<not> sb_persist_statefile sb \<and> (\<forall>e. sb_effective sb = Some e \<longrightarrow> \<not> ef_persist_statefile e)"

lemma read_only_effective:
  assumes "read_only sb" "effective_configuration C rnd (sb, F) = (Inr e, (sb', F'))" shows "\<not> ef_persist_statefile e"
proof (cases "sb_effective sb")
  case None
  from effective_outcome(5) [OF assms(2) this] show ?thesis
    by (cases rule: resolve_cases) (use assms(1) in \<open>simp add: read_only_def\<close>)
next
  case (Some e0)
  with effective_outcome(4) [OF assms(2) Some] assms(1) show ?thesis by (simp add: read_only_def)
qed

lemma read_only_build:
  assumes "read_only sb" "try_build C rnd fkey (sb, F) = (r, (sb', F'))"
  shows "read_only sb' \<and> same_nodes F F'"
proof (cases "sb_config_error sb")
  case None
  from assms(2) None show ?thesis
  proof (cases rule: try_build_outcome)
    case (unresolved x)
    with assms(1) effective_outcome(1) show ?thesis by blast
  next
    case (resolved e F1)
    with read_only_effective [OF assms(1) resolved(1)] effective_outcome(1) [OF resolved(1)] assms(1) show ?thesis
      by (simp add: read_only_def remember_def)
  qed
qed (use assms in \<open>simp add: try_build_def\<close>)

lemma imported_read_only: "imported C R sb \<Longrightarrow> read_only sb"
proof (induction rule: imported.induct)
  case (import path sb0 F u sb F')
  then show ?case
    by (auto simp: try_statefile_path_def io_bind_def io_lift_def on_fs_def remember_def read_only_def Let_def split: prod.splits sum.splits)
next
  case (options sb a F r sb' F')
  then show ?case
    by (auto simp: server_options_def io_bind_def on_fs_def read_only_def invalidate_def builder_iat_mode_def split: prod.splits sum.splits)
next
  case (params sb rnd F q sb' F')
  obtain x s F1 where e: "effective_configuration C rnd (sb, F) = (x, (s, F1))" by (metis prod_cases3)
  have "sb' = sb \<or> (\<exists>e. x = Inr e \<and> sb' = remember e sb)"
    using params(2) e effective_outcome(2,3) [OF e]
    by (cases x; cases "sb_config_error sb") (auto simp: try_client_params_def io_bind_def io_lift_def)
  moreover have "\<not> ef_persist_statefile e0" if "x = Inr e0" for e0 using read_only_effective [OF params(4) e [unfolded that]] .
  ultimately show ?case using params(4) by (auto simp: read_only_def remember_def)
next
  case (servers sb rnd fkey F b sb' F')
  then show ?case using read_only_build by blast
qed (auto simp: node_keys_def try_node_keys_def node_id_def builder_iat_mode_def read_only_def invalidate_def Let_def
      split: prod.splits sum.splits if_splits)

text \<open>
  An explicit state file is imported read-only: after the import, whatever settings are
  changed by hand or through transport options and however often parameters and servers are
  requested, no build writes to any file.
\<close>

theorem import_is_read_only:
  assumes "imported C (fs_resolve F) sb" "try_build C rnd fkey (sb, F) = (r, (sb', F'))"
  shows "fs_nodes F' = fs_nodes F"
  using read_only_build [OF imported_read_only [OF assms(1)] assms(2)] by (simp add: same_nodes_def)

section \<open>An instance\<close>

text \<open>Encodings that are easy to compute with, and a file system whose paths name themselves.\<close>

definition enc_str :: "string option \<Rightarrow> bytes" where
  "enc_str v = (case v of None \<Rightarrow> [2] | Some s \<Rightarrow> concat (map (\<lambda>b. [1, b]) (str_bytes s)) @ [0])"

fun dec_chars :: "bytes \<Rightarrow> string \<times> bytes" where
  "dec_chars (x # y # r) = (if x = 1 then (case dec_chars r of (s, t) \<Rightarrow> (bytes_str [y] @ s, t)) else ([], y # r))"
| "dec_chars r = ([], [])"

definition dec_str :: "bytes \<Rightarrow> string option \<times> bytes" where
  "dec_str r = (if r \<noteq> [] \<and> hd r = 2 then (None, tl r) else case dec_chars r of (s, t) \<Rightarrow> (Some s, t))"

definition toy_server_bytes :: "(iat option \<Rightarrow> u8 option) \<Rightarrow> json_server_state \<Rightarrow> string + bytes" where
  "toy_server_bytes ser st = Inr (1 # enc_str (js_node_id st) @ enc_str (js_private_key st) @ enc_str (js_public_key st)
     @ enc_str (js_drbg_seed st) @ (case ser (js_iat_mode st) of None \<Rightarrow> [0] | Some v \<Rightarrow> [1, v]))"

definition toy_client_bytes :: "(iat option \<Rightarrow> u8 option) \<Rightarrow> json_client_state \<Rightarrow> string + bytes" where
  "toy_client_bytes ser st = Inr (2 # enc_str (jc_node_id st) @ enc_str (jc_private_key st) @ enc_str (jc_public_key st)
     @ enc_str (jc_cert st) @ (case ser (jc_iat_mode st) of None \<Rightarrow> [0] | Some v \<Rightarrow> [1, v]))"

definition toy_fields :: "bytes \<Rightarrow> string option \<times> string option \<times> string option \<times> string option \<times> u8 option" where
  "toy_fields r = (let (a, r) = dec_str r; (b, r) = dec_str r; (c, r) = dec_str r; (d, r) = dec_str r in
     (a, b, c, d, if length r = 2 then Some (r ! 1) else None))"

definition toy_server_read :: "(json_token \<Rightarrow> string + iat option) \<Rightarrow> bytes \<Rightarrow> string + json_server_state" where
  "toy_server_read de b = (if b = [] \<or> hd b \<noteq> 1 then Inl ''syntax'' else
     (let (n, k, p, s, v) = toy_fields (tl b) in
      bindr (de (json_of_u8 v)) (\<lambda>m. Inr \<lparr> js_node_id = n, js_private_key = k, js_public_key = p, js_drbg_seed = s, js_iat_mode = m \<rparr>)))"

definition toy_client_read :: "(json_token \<Rightarrow> string + iat option) \<Rightarrow> bytes \<Rightarrow> string + json_client_state" where
  "toy_client_read de b = (if b = [] then Inl ''syntax'' else
     (let (n, k, p, s, v) = toy_fields (tl b) in
      bindr (de (json_of_u8 v)) (\<lambda>m. Inr \<lparr> jc_cert = (if hd b = 1 then None else s), jc_private_key = k, jc_node_id = n,
        jc_public_key = p, jc_iat_mode = m \<rparr>)))"

definition toy_serde :: serde where
  "toy_serde = \<lparr> server_to_vec = toy_server_bytes, server_from_slice = toy_server_read,
     client_to_vec = toy_client_bytes, client_from_slice = toy_client_read \<rparr>"

definition toy_os :: os_errors where
  "toy_os = \<lparr> os_kind = (\<lambda>_. OtherKind), os_message = (\<lambda>_. ''os error''), kind_message = (\<lambda>_. ''error'') \<rparr>"

definition toy_config :: config_env where
  "toy_config = \<lparr> cf_os = toy_os, cf_curve = toy_curve,
     cf_from_hex = (\<lambda>n s. if length s = n then Inr (str_bytes s) else Inl ''length''), cf_hex = bytes_str,
     cf_b64_decode = (\<lambda>s. Inr (str_bytes (take (length s - 2) s))), cf_b64_encode = bytes_str, cf_serde = toy_serde \<rparr>"

lemma dec_chars_enc: "dec_chars (concat (map (\<lambda>b. [1, b]) (str_bytes s)) @ 0 # r) = (s, r)" if "r \<noteq> []"
  using that
proof (induction s)
  case Nil
  then show ?case by (cases r) (simp_all add: str_bytes_def)
next
  case (Cons c s)
  have "bytes_str [of_nat (of_char c)] = [c]"
    using str_bytes_str [of "[of_nat (of_char c)]"] str_bytes_inject [of "bytes_str [of_nat (of_char c)]" "[c]"] by (simp add: str_bytes_def)
  with Cons show ?case by (simp add: str_bytes_def)
qed

lemma dec_str_enc: "r \<noteq> [] \<Longrightarrow> dec_str (enc_str v @ r) = (v, r)"
proof (cases v)
  case (Some s)
  assume r: "r \<noteq> []"
  have "hd (concat (map (\<lambda>b. [1, b]) (str_bytes s)) @ 0 # r) \<noteq> (2 :: u8)" by (cases s) (simp_all add: str_bytes_def)
  then show ?thesis using Some dec_chars_enc [OF r, of s] by (simp add: dec_str_def enc_str_def)
qed (simp add: dec_str_def enc_str_def)

lemma toy_fields_enc:
  "toy_fields (enc_str a @ enc_str b @ enc_str c @ enc_str d @ (case v of None \<Rightarrow> [0] | Some v \<Rightarrow> [1, v])) = (a, b, c, d, v)"
proof -
  have ne: "enc_str x @ y \<noteq> []" for x y by (simp add: enc_str_def split: option.splits)
  show ?thesis by (cases v) (simp_all add: toy_fields_def dec_str_enc ne)
qed

lemma toy_serde_ok: "serde_ok toy_serde"
  by (auto simp: serde_ok_def toy_serde_def toy_server_bytes_def toy_client_bytes_def toy_server_read_def toy_client_read_def
      toy_fields_enc client_view_def)

lemma toy_config_ok: "config_ok toy_config"
proof -
  have "length (static_public toy_curve sk) = 32" for sk by (simp add: toy_curve_def)
  moreover have "length (bytes_str b) = length b" for b by (simp add: bytes_str_def)
  moreover have "length (str_bytes s) = length s" for s by (simp add: str_bytes_def)
  ultimately show ?thesis by (simp add: config_ok_def toy_config_def toy_serde_ok)
qed

text \<open>Publishing when no system call fails and the directory is there.\<close>

lemma calm_syscall: "fs_faults F = [] \<Longrightarrow> syscall F = (Inr (), F)"
  by (simp add: syscall_def)

lemma write_without_faults:
  assumes "fs_faults F = []" "fs_node F (parent_directory_of p) = Some DirNode" "fs_node F p \<noteq> Some DirNode"
    and "sv_drbg_seed sv = Some seed" "server_to_vec (cf_serde C) iat_serialize (server_state C sv seed) = Inr b"
  shows "try_write_statefile_to C sv p F = (Inr (), fs_put p (FileNode b) F)"
proof -
  have "create_dir_all (cf_os C) (parent_directory_of p) F = (Inr (), F)"
    using assms(1,2)
    by (subst create_dir_all.simps)
      (simp add: io_catch_def mkdir_def io_bind_def calm_syscall or_dir_def io_test_def is_dir_def no_faults io_lift_def)
  moreover have "fs_faults (fs_put p (FileNode b) F) = []" using assms(1) by (simp add: fs_put_def)
  ultimately show ?thesis
    using assms
    by (simp add: try_write_statefile_to_def io_test_def is_dir_def no_faults io_bind_def io_map_err_def io_lift_def Let_def
        atomic_write_json_def temp_new_in_def temp_persist_def sync_parent_directory_def calm_syscall)
qed

lemma ensure_without_faults:
  assumes "fs_faults F = []" "fs_node F (ob_path ob) = map_option FileNode (ob_contents ob)"
  shows "ensure_statefile_unchanged C ob F = (Inr (), F)"
  using assms
  by (cases "ob_contents ob")
    (simp_all add: ensure_statefile_unchanged_def io_bind_def io_catch_def io_lift_def fs_read_def calm_syscall)

lemma persist_without_faults:
  assumes "ef_observation e = Some ob" "fs_faults F = []" "fs_node F (ob_path ob) = map_option FileNode (ob_contents ob)"
    and "fs_node F (parent_directory_of (ob_path ob)) = Some DirNode" "sv_drbg_seed sv = Some seed"
    and "server_to_vec (cf_serde C) iat_serialize (server_state C sv seed) = Inr b"
  shows "\<exists>sb'. persist_server C e sv (sb, F) = (Inr sv, (sb', fs_put (ob_path ob) (FileNode b) F))"
proof -
  have "fs_node F (ob_path ob) \<noteq> Some DirNode" using assms(3) by (cases "ob_contents ob") auto
  from write_without_faults [OF assms(2,4) this assms(5,6)] ensure_without_faults [OF assms(2,3)] assms(1) show ?thesis
    by (simp add: persist_server_def io_bind_def io_lift_def on_fs_def)
qed

definition toy_path :: string where "toy_path = ''s/obfs4_state.json''"

definition toy_fs :: "(string \<rightharpoonup> fnode) \<Rightarrow> string fs" where
  "toy_fs m = \<lparr> fs_resolve = (\<lambda>p. p), fs_nodes = m, fs_faults = [] \<rparr>"

definition toy_key :: ntor_secret_key where
  "toy_key = ntor_secret_key_new toy_curve (replicate 32 5) (replicate 20 6)"

definition toy_seed :: seed where "toy_seed = replicate 24 7"

definition toy_effective :: effective_configuration where
  "toy_effective = \<lparr> ef_identity_keys = toy_key, ef_iat_mode = Enabled, ef_drbg_seed = toy_seed, ef_persist_statefile = True,
     ef_observation = Some \<lparr> ob_path = toy_path, ob_contents = Some [9] \<rparr> \<rparr>"

lemma toy_paths: "parent_directory_of toy_path = ''s''" "path_join ''s'' STATE_FILENAME = toy_path" "toy_path \<noteq> ''s''"
  by code_simp+

lemma toy_key_wf: "key_wf toy_config toy_key"
  by (simp add: key_wf_def toy_key_def ntor_secret_key_new_def toy_config_def const_simps)

lemma toy_written:
  obtains b where "server_to_vec (cf_serde toy_config) iat_serialize st = Inr (1 # b)"
  by (simp add: toy_config_def toy_serde_def toy_server_bytes_def)

theorem state_file_not_clobbered_witness:
  "\<exists>sv sb' F' p. try_build toy_config (Inl ''none'') []
       (remember toy_effective (server_builder_default toy_key), toy_fs [toy_path \<mapsto> FileNode [9], ''s'' \<mapsto> DirNode]) = (Inr sv, (sb', F'))
     \<and> fs_nodes F' toy_path \<noteq> Some (FileNode [9]) \<and> toy_path = fs_resolve (toy_fs Map.empty) p
     \<and> ef_observation toy_effective = Some \<lparr> ob_path = p, ob_contents = Some [9] \<rparr>"
proof -
  let ?F = "toy_fs [toy_path \<mapsto> FileNode [9], ''s'' \<mapsto> DirNode]" and ?sb = "remember toy_effective (server_builder_default toy_key)"
  let ?sv = "server_of [] TDefault toy_effective"
  obtain b where b: "server_to_vec (cf_serde toy_config) iat_serialize (server_state toy_config ?sv toy_seed) = Inr (1 # b)" by (rule toy_written)
  have n: "fs_node ?F toy_path = Some (FileNode [9])" "fs_node ?F ''s'' = Some DirNode" "fs_faults ?F = []"
    using toy_paths(3) by (simp_all add: fs_node_def toy_fs_def)
  from persist_without_faults [of toy_effective "\<lparr> ob_path = toy_path, ob_contents = Some [9] \<rparr>" ?F ?sv toy_seed toy_config "1 # b" ?sb] b n
  obtain sb' where "persist_server toy_config toy_effective ?sv (?sb, ?F) = (Inr ?sv, (sb', fs_put toy_path (FileNode (1 # b)) ?F))"
    by (auto simp: toy_paths toy_effective_def server_of_def)
  then have run: "try_build toy_config (Inl ''none'') [] (?sb, ?F) = (Inr ?sv, (sb', fs_put toy_path (FileNode (1 # b)) ?F))"
    by (simp add: try_build_def effective_configuration_def io_bind_def remember_def server_builder_default_def toy_effective_def Let_def)
  have k: "fs_nodes ?F toy_path = Some (FileNode [9])" "fs_nodes (fs_put toy_path (FileNode (1 # b)) ?F) toy_path \<noteq> Some (FileNode [9])"
    using n(1) by (simp_all add: fs_put_def toy_fs_def fs_node_def)
  have "benign toy_config ?F" by (simp add: benign_def n(3))
  from state_file_not_clobbered [OF run this k] run k(2) show ?thesis by (auto simp: remember_def toy_fs_def)
qed

theorem state_survives_restart_witness:
  "\<exists>sv sb' F' sv'. try_build toy_config (Inr toy_seed) [] (statefile_path ''s'' (server_builder_default toy_key), toy_fs [''s'' \<mapsto> DirNode])
       = (Inr sv, (sb', F'))
     \<and> new_from_statefile_at toy_config (Inl ''none'') [] (ntor_secret_key_new toy_curve [] []) ''s'' F' = (Inr sv', F')
     \<and> sv_identity_keys sv' = toy_key \<and> sv_drbg_seed sv' = Some toy_seed"
proof -
  let ?F = "toy_fs [''s'' \<mapsto> DirNode]" and ?sb = "statefile_path ''s'' (server_builder_default toy_key)"
  let ?e = "\<lparr> ef_identity_keys = toy_key, ef_iat_mode = Off, ef_drbg_seed = toy_seed, ef_persist_statefile = True,
     ef_observation = Some \<lparr> ob_path = toy_path, ob_contents = None \<rparr> \<rparr>"
  let ?sv = "server_of [] TDefault ?e"
  have n: "fs_node ?F toy_path = None" "fs_node ?F ''s'' = Some DirNode" "fs_faults ?F = []"
    using toy_paths(3) by (simp_all add: fs_node_def toy_fs_def)
  have "resolve_effective_configuration toy_config (Inr toy_seed) ?sb ?F = (Inr ?e, ?F)"
    by (simp add: resolve_effective_configuration_def statefile_target_def statefile_path_def invalidate_def server_builder_default_def
        toy_paths io_test_def is_file_def no_faults n io_bind_def io_lift_def seed_new_def)
  then have e: "effective_configuration toy_config (Inr toy_seed) (?sb, ?F) = (Inr ?e, (remember ?e ?sb, ?F))"
    by (simp add: effective_configuration_def io_bind_def on_fs_def statefile_path_def invalidate_def)
  obtain b where b: "server_to_vec (cf_serde toy_config) iat_serialize (server_state toy_config ?sv toy_seed) = Inr (1 # b)" by (rule toy_written)
  from persist_without_faults [of ?e "\<lparr> ob_path = toy_path, ob_contents = None \<rparr>" ?F ?sv toy_seed toy_config "1 # b" "remember ?e ?sb"] b n
  obtain sb' where "persist_server toy_config ?e ?sv (remember ?e ?sb, ?F) = (Inr ?sv, (sb', fs_put toy_path (FileNode (1 # b)) ?F))"
    by (auto simp: toy_paths server_of_def)
  with e have run: "try_build toy_config (Inr toy_seed) [] (?sb, ?F) = (Inr ?sv, (sb', fs_put toy_path (FileNode (1 # b)) ?F))"
    by (simp add: try_build_def io_bind_def Let_def statefile_path_def invalidate_def remember_def server_builder_default_def)
  have "\<exists>sv'. new_from_statefile_at toy_config (Inl ''none'') [] (ntor_secret_key_new toy_curve [] []) ''s'' (fs_put toy_path (FileNode (1 # b)) ?F)
      = (Inr sv', fs_put toy_path (FileNode (1 # b)) ?F) \<and> sv_identity_keys sv' = sv_identity_keys ?sv
      \<and> sv_drbg_seed sv' = sv_drbg_seed ?sv \<and> sv_iat_mode sv' = sv_iat_mode ?sv"
    by (rule state_survives_restart [OF toy_config_ok _ _ _ _ _ _ _ run])
      (use toy_paths(3) in \<open>simp_all add: statefile_path_def invalidate_def server_builder_default_def toy_key_wf toy_seed_def const_simps
        benign_def toy_fs_def fs_node_def fs_put_def\<close>)
  with run show ?thesis by (auto simp: server_of_def)
qed

theorem import_is_read_only_witness:
  "\<exists>b u sb F' r sb' F''. try_statefile_path toy_config toy_path (server_builder_default toy_key, toy_fs [toy_path \<mapsto> FileNode b]) = (Inr u, (sb, F'))
     \<and> try_build toy_config (Inl ''none'') [] (node_id (replicate 20 8) sb, F') = (r, (sb', F'')) \<and> fs_nodes F'' = fs_nodes F'"
proof -
  let ?sv = "server_of [] TDefault toy_effective"
  obtain b where b: "server_to_vec (cf_serde toy_config) iat_serialize (server_state toy_config ?sv toy_seed) = Inr b"
    by (metis toy_written)
  let ?F = "toy_fs [toy_path \<mapsto> FileNode b]"
  have n: "fs_node ?F toy_path = Some (FileNode b)" "fs_faults ?F = []" by (simp_all add: fs_node_def toy_fs_def)
  have "key_wf toy_config (sv_identity_keys ?sv)" using toy_key_wf by (simp add: server_of_def toy_effective_def)
  note p = server_state_parsed [OF toy_config_ok this, of toy_seed] persisted_reads_back [OF toy_config_ok b]
  obtain u sb where i: "try_statefile_path toy_config toy_path (server_builder_default toy_key, ?F) = (Inr u, (sb, ?F))" "sb_statefile_is_file sb"
    using p n by (simp add: try_statefile_path_def read_state_path_def io_test_def io_bind_def io_map_err_def io_lift_def on_fs_def is_dir_def
        is_file_def no_faults Let_def remember_def toy_seed_def const_simps)
  have "imported toy_config (fs_resolve ?F) (node_id (replicate 20 8) sb)" by (intro imported.identity imported.import [OF i(1) refl i(2)])
  moreover obtain r sb' F'' where "try_build toy_config (Inl ''none'') [] (node_id (replicate 20 8) sb, ?F) = (r, (sb', F''))" by (metis prod_cases3)
  ultimately show ?thesis using import_is_read_only i(1) by blast
qed

end
