(* ===== verification/StdText.thy ===== *)
theory StdText
  imports Prelude
begin

text \<open>
  The operations on \<^verbatim>\<open>str\<close> and the ordered map of the Rust standard library that the text
  formats of bridge lines, of the managed transport environment and of the WebTunnel
  configuration use.
\<close>

section \<open>Bytes of ASCII\<close>

definition is_ascii_digit :: "char \<Rightarrow> bool" where
  "is_ascii_digit c = (let n = of_char c :: nat in 48 \<le> n \<and> n \<le> 57)"

definition is_ascii_upper :: "char \<Rightarrow> bool" where
  "is_ascii_upper c = (let n = of_char c :: nat in 65 \<le> n \<and> n \<le> 90)"

definition is_ascii_lower :: "char \<Rightarrow> bool" where
  "is_ascii_lower c = (let n = of_char c :: nat in 97 \<le> n \<and> n \<le> 122)"

definition is_ascii_hexdigit :: "char \<Rightarrow> bool" where
  "is_ascii_hexdigit c = (let n = of_char c :: nat in 48 \<le> n \<and> n \<le> 57 \<or> 65 \<le> n \<and> n \<le> 70 \<or> 97 \<le> n \<and> n \<le> 102)"

definition is_ascii_whitespace :: "char \<Rightarrow> bool" where
  "is_ascii_whitespace c = ((of_char c :: nat) \<in> {9, 10, 12, 13, 32})"

definition ascii_lower :: "char \<Rightarrow> char" where
  "ascii_lower c = (if is_ascii_upper c then char_of ((of_char c :: nat) + 32) else c)"

definition ascii_upper :: "char \<Rightarrow> char" where
  "ascii_upper c = (if is_ascii_lower c then char_of ((of_char c :: nat) - 32) else c)"

definition to_ascii_lowercase :: "string \<Rightarrow> string" where
  "to_ascii_lowercase s = map ascii_lower s"

definition to_ascii_uppercase :: "string \<Rightarrow> string" where
  "to_ascii_uppercase s = map ascii_upper s"

definition eq_ignore_ascii_case :: "string \<Rightarrow> string \<Rightarrow> bool" where
  "eq_ignore_ascii_case s t = (to_ascii_lowercase s = to_ascii_lowercase t)"

section \<open>UTF-8\<close>

text \<open>The well-formed sequences of bytes, which alone a \<^verbatim>\<open>str\<close> may hold.\<close>

definition utf8_cont :: "u8 \<Rightarrow> u8 \<Rightarrow> u8 \<Rightarrow> bool" where
  "utf8_cont lo hi b \<longleftrightarrow> lo \<le> b \<and> b \<le> hi"

fun utf8_valid :: "bytes \<Rightarrow> bool" where
  "utf8_valid [] = True"
| "utf8_valid (a # r) =
     (if a < 0x80 then utf8_valid r
      else case r of
        b # r2 \<Rightarrow>
          if 0xC2 \<le> a \<and> a \<le> 0xDF \<and> utf8_cont 0x80 0xBF b then utf8_valid r2
          else (case r2 of
            c # r3 \<Rightarrow>
              if 0xE0 \<le> a \<and> a \<le> 0xEF \<and> utf8_cont (if a = 0xE0 then 0xA0 else 0x80) (if a = 0xED then 0x9F else 0xBF) b
                 \<and> utf8_cont 0x80 0xBF c then utf8_valid r3
              else (case r3 of
                d # r4 \<Rightarrow>
                  0xF0 \<le> a \<and> a \<le> 0xF4 \<and> utf8_cont (if a = 0xF0 then 0x90 else 0x80) (if a = 0xF4 then 0x8F else 0xBF) b
                  \<and> utf8_cont 0x80 0xBF c \<and> utf8_cont 0x80 0xBF d \<and> utf8_valid r4
              | [] \<Rightarrow> False)
          | [] \<Rightarrow> False)
      | [] \<Rightarrow> False)"

lemma utf8_ascii: "list_all (\<lambda>b. b < 0x80) bs \<Longrightarrow> utf8_valid bs"
  by (induction bs) simp_all

section \<open>Whitespace\<close>

text \<open>The length in bytes of the character at the head if it is \<^verbatim>\<open>char::is_whitespace\<close>, else 0.\<close>

definition white_len :: "string \<Rightarrow> nat" where
  "white_len s =
     (case str_bytes s of
        [] \<Rightarrow> 0
      | b # r \<Rightarrow>
          if 9 \<le> b \<and> b \<le> 13 \<or> b = 32 then 1
          else if b = 0xC2 \<and> take 1 r \<in> {[0x85], [0xA0]} then 2
          else if b = 0xE1 \<and> take 2 r = [0x9A, 0x80]
            \<or> b = 0xE2 \<and> take 1 r = [0x80] \<and> (case drop 1 r of c # _ \<Rightarrow> 0x80 \<le> c \<and> c \<le> 0x8A \<or> c \<in> {0xA8, 0xA9, 0xAF} | [] \<Rightarrow> False)
            \<or> b = 0xE2 \<and> take 2 r = [0x81, 0x9F] \<or> b = 0xE3 \<and> take 2 r = [0x80, 0x80] then 3
          else 0)"

function trim_start :: "string \<Rightarrow> string" where
  "trim_start s = (if s = [] \<or> white_len s = 0 then s else trim_start (drop (white_len s) s))"
  by pat_completeness auto
termination by (relation "measure length") auto

declare trim_start.simps [simp del]

fun trim_end :: "string \<Rightarrow> string" where
  "trim_end [] = []"
| "trim_end (c # s) = (if trim_start (c # s) = [] then [] else c # trim_end s)"

definition trim :: "string \<Rightarrow> string" where
  "trim s = trim_end (trim_start s)"

section \<open>Unsigned numbers\<close>

text \<open>\<^verbatim>\<open>str::parse::<u16>\<close>; the error is the text of its \<^verbatim>\<open>ParseIntError\<close>.\<close>

fun parse_u16_loop :: "nat \<Rightarrow> string \<Rightarrow> string + u16" where
  "parse_u16_loop acc [] = Inr (of_nat acc)"
| "parse_u16_loop acc (c # s) =
     (case digit_val c of
        None \<Rightarrow> Inl ''invalid digit found in string''
      | Some d \<Rightarrow>
          if acc * 10 + d < 2 ^ 16 then parse_u16_loop (acc * 10 + d) s
          else Inl ''number too large to fit in target type'')"

definition parse_u16 :: "string \<Rightarrow> string + u16" where
  "parse_u16 s =
     (case s of
        [] \<Rightarrow> Inl ''cannot parse integer from empty string''
      | c # r \<Rightarrow> if r \<noteq> [] \<and> c = CHR ''+'' then parse_u16_loop 0 r else parse_u16_loop 0 s)"

section \<open>Splitting\<close>

fun split_on :: "(char \<Rightarrow> bool) \<Rightarrow> string \<Rightarrow> string list" where
  "split_on P [] = [[]]"
| "split_on P (c # s) = (if P c then [] # split_on P s else (c # hd (split_on P s)) # tl (split_on P s))"

definition split_ascii_whitespace :: "string \<Rightarrow> string list" where
  "split_ascii_whitespace s = filter (\<lambda>t. t \<noteq> []) (split_on is_ascii_whitespace s)"

fun split_once :: "char \<Rightarrow> string \<Rightarrow> (string \<times> string) option" where
  "split_once d [] = None"
| "split_once d (c # s) = (if c = d then Some ([], s) else map_option (\<lambda>(a, b). (c # a, b)) (split_once d s))"

fun rsplit_once :: "char \<Rightarrow> string \<Rightarrow> (string \<times> string) option" where
  "rsplit_once d [] = None"
| "rsplit_once d (c # s) =
     (case rsplit_once d s of
        Some (a, b) \<Rightarrow> Some (c # a, b)
      | None \<Rightarrow> if c = d then Some ([], s) else None)"

lemma split_on_not_Nil [simp]: "split_on P s \<noteq> []"
  by (cases s) auto

lemma split_on_plain: "(\<forall>c \<in> set t. \<not> P c) \<Longrightarrow> split_on P (t @ s) = (t @ hd (split_on P s)) # tl (split_on P s)"
  by (induction t) auto

lemma split_on_pieces: "t \<in> set (split_on P s) \<Longrightarrow> c \<in> set t \<Longrightarrow> \<not> P c \<and> c \<in> set s"
proof (induction s arbitrary: t)
  case (Cons d s)
  obtain u us where "split_on P s = u # us" by (cases "split_on P s") auto
  with Cons.IH [of u] Cons.IH [of t] Cons.prems show ?case by (auto split: if_splits)
qed simp

lemma split_once_append: "d \<notin> set k \<Longrightarrow> split_once d (k @ d # v) = Some (k, v)"
  by (induction k) auto

lemma split_once_SomeD: "split_once d s = Some (k, v) \<Longrightarrow> s = k @ d # v \<and> d \<notin> set k"
  by (induction s arbitrary: k) (auto split: if_splits)

lemma split_once_None: "split_once d s = None \<longleftrightarrow> d \<notin> set s"
  by (induction s) auto

definition split_char :: "char \<Rightarrow> string \<Rightarrow> string list" where
  "split_char d = split_on (\<lambda>c. c = d)"

fun join_with :: "char \<Rightarrow> string list \<Rightarrow> string" where
  "join_with d [] = []"
| "join_with d [t] = t"
| "join_with d (t # ts) = t @ d # join_with d ts"

lemma split_join: "ts \<noteq> [] \<Longrightarrow> \<forall>t \<in> set ts. d \<notin> set t \<Longrightarrow> split_char d (join_with d ts) = ts"
proof (induction d ts rule: join_with.induct)
  case (2 d t)
  then show ?case using split_on_plain [of t "\<lambda>c. c = d" "[]"] by (auto simp: split_char_def)
next
  case (3 d t u us)
  then show ?case using split_on_plain [of t "\<lambda>c. c = d" "d # join_with d (u # us)"] by (auto simp: split_char_def)
qed simp

text \<open>Words set apart by single spaces are the words of the text.\<close>

definition plain :: "string \<Rightarrow> bool" where
  "plain t = (t \<noteq> [] \<and> (\<forall>c \<in> set t. \<not> is_ascii_whitespace c))"

definition spaced :: "string list \<Rightarrow> string" where
  "spaced ts = concat (map (\<lambda>t. CHR '' '' # t) ts)"

lemma split_words: "plain t \<Longrightarrow> list_all plain ts \<Longrightarrow> split_ascii_whitespace (t @ spaced ts) = t # ts"
proof (induction ts arbitrary: t)
  case Nil
  then show ?case using split_on_plain [of t is_ascii_whitespace "[]"]
    by (simp add: split_ascii_whitespace_def spaced_def plain_def)
next
  case (Cons u ts)
  have "is_ascii_whitespace CHR '' ''" by (simp add: is_ascii_whitespace_def)
  then have "split_on is_ascii_whitespace (t @ spaced (u # ts)) = t # split_on is_ascii_whitespace (u @ spaced ts)"
    using split_on_plain [of t is_ascii_whitespace "spaced (u # ts)"] Cons.prems by (simp add: spaced_def plain_def)
  with Cons show ?case by (simp add: split_ascii_whitespace_def plain_def)
qed

lemma split_words_plain: "t \<in> set (split_ascii_whitespace s) \<Longrightarrow> plain t"
  using split_on_pieces [of t is_ascii_whitespace s] by (auto simp: split_ascii_whitespace_def plain_def)

section \<open>Ordered maps\<close>

text \<open>A \<^verbatim>\<open>BTreeMap\<close> is the list of its entries in the order of their keys.\<close>

fun btree_insert :: "'k::linorder \<Rightarrow> 'v \<Rightarrow> ('k \<times> 'v) list \<Rightarrow> ('k \<times> 'v) list" where
  "btree_insert k v [] = [(k, v)]"
| "btree_insert k v ((k', v') # m) =
     (if k < k' then (k, v) # (k', v') # m
      else if k = k' then (k, v) # m
      else (k', v') # btree_insert k v m)"

definition btree_inv :: "('k::linorder \<times> 'v) list \<Rightarrow> bool" where
  "btree_inv m = sorted_wrt (<) (map fst m)"

lemma btree_insert_keys: "fst ` set (btree_insert k v m) = insert k (fst ` set m)"
  by (induction k v m rule: btree_insert.induct) auto

lemma btree_insert_inv: "btree_inv m \<Longrightarrow> btree_inv (btree_insert k v m)"
proof (induction k v m rule: btree_insert.induct)
  case (2 k v k' v' m)
  have "set (map fst (btree_insert k v m)) = insert k (fst ` set m)" by (simp add: btree_insert_keys)
  with 2 show ?case by (auto simp: btree_inv_def simp del: list.set_map)
qed (simp add: btree_inv_def)

lemma btree_insert_lookup: "btree_inv m \<Longrightarrow> map_of (btree_insert k v m) = (map_of m)(k \<mapsto> v)"
  by (induction k v m rule: btree_insert.induct) (auto simp: btree_inv_def)

lemma btree_insert_last: "\<forall>k' \<in> fst ` set m. k' < k \<Longrightarrow> btree_insert k v m = m @ [(k, v)]"
  by (induction m) auto

lemma btree_rebuild:
  "btree_inv (m @ m') \<Longrightarrow> fold (\<lambda>(k, v). btree_insert k v) m' m = m @ m'"
proof (induction m' arbitrary: m)
  case (Cons e m')
  obtain k v where e: "e = (k, v)" by (cases e)
  have "btree_insert k v m = m @ [(k, v)]"
    using Cons.prems e by (intro btree_insert_last) (auto simp: btree_inv_def sorted_wrt_append)
  with Cons.IH [of "m @ [e]"] Cons.prems e show ?case by simp
qed simp

end
