(* ===== verification/ClientConfig.thy ===== *)
theory ClientConfig
  imports ServerConfig StdText
begin

text \<open>
  \<^verbatim>\<open>crates/obfs4/src/client.rs\<close> and the client half of \<^verbatim>\<open>pt.rs\<close>: the builder, its parameters and
  state file, and the client with its two ways to a connection. The file system and the
  encodings are those of \<open>StateFile\<close> and \<open>ServerConfig\<close>; the futures those of \<open>Establish\<close>. The future
  that dials is an argument: the state it works on becomes the stream once it is ready.
\<close>

definition CLIENT_STATE_FILENAME :: string where "CLIENT_STATE_FILENAME = ''obfs4_client_state.json''"

section \<open>The builder\<close>

record client_builder =
  cb_iat_mode :: iat
  cb_station_pubkey :: bytes
  cb_station_id :: bytes
  cb_statefile_path :: "string option"
  cb_handshake_timeout :: maybe_timeout
  cb_node_pubkey_override :: bool
  cb_node_id_override :: bool
  cb_iat_override :: bool
  cb_statefile_required :: bool
  cb_statefile_read_only :: bool
  cb_persist_statefile :: bool

definition client_builder_default :: client_builder where
  "client_builder_default =
     \<lparr> cb_iat_mode = Off, cb_station_pubkey = replicate KEY_LENGTH 0, cb_station_id = replicate NODE_ID_LENGTH 0,
       cb_statefile_path = None, cb_handshake_timeout = TDefault, cb_node_pubkey_override = False, cb_node_id_override = False,
       cb_iat_override = False, cb_statefile_required = False, cb_statefile_read_only = False, cb_persist_statefile = False \<rparr>"

definition with_node_pubkey :: "bytes \<Rightarrow> client_builder \<Rightarrow> client_builder" where
  "with_node_pubkey pk cb = cb \<lparr> cb_station_pubkey := pk, cb_node_pubkey_override := True \<rparr>"

definition with_statefile_path :: "string \<Rightarrow> client_builder \<Rightarrow> client_builder" where
  "with_statefile_path path cb = cb \<lparr> cb_statefile_path := Some path, cb_statefile_required := True,
     cb_statefile_read_only := False, cb_persist_statefile := True \<rparr>"

definition with_statefile_directory :: "string \<Rightarrow> client_builder \<Rightarrow> client_builder" where
  "with_statefile_directory path cb = cb \<lparr> cb_statefile_path := Some path, cb_statefile_required := False,
     cb_statefile_read_only := False, cb_persist_statefile := True \<rparr>"

definition with_node_id :: "bytes \<Rightarrow> client_builder \<Rightarrow> client_builder" where
  "with_node_id ident cb = cb \<lparr> cb_station_id := ident, cb_node_id_override := True \<rparr>"

definition with_iat_mode :: "iat \<Rightarrow> client_builder \<Rightarrow> client_builder" where
  "with_iat_mode m cb = cb \<lparr> cb_iat_mode := m, cb_iat_override := True \<rparr>"

definition client_with_timeout :: "nat \<Rightarrow> client_builder \<Rightarrow> client_builder" where
  "client_with_timeout d cb = cb \<lparr> cb_handshake_timeout := TLength d \<rparr>"

definition client_with_deadline :: "nat \<Rightarrow> client_builder \<Rightarrow> client_builder" where
  "client_with_deadline t cb = cb \<lparr> cb_handshake_timeout := TFixed t \<rparr>"

definition client_fail_fast :: "client_builder \<Rightarrow> client_builder" where
  "client_fail_fast cb = cb \<lparr> cb_handshake_timeout := TUnset \<rparr>"

definition apply_args :: "config_env \<Rightarrow> args \<Rightarrow> client_builder \<Rightarrow> obfs4_error + client_builder" where
  "apply_args C a cb =
     bindr (case retrieve a CERT_ARG of
              Some cert \<Rightarrow> bindr (ntor_pk_from_str (cf_b64_decode C) cert) (\<lambda>key. Inr (nk_pk key, nk_id key))
            | None \<Rightarrow>
                bindr (ok_or (missing_argument NODE_ID_ARG) (retrieve a NODE_ID_ARG)) (\<lambda>ident.
                bindr (ok_or (missing_argument PUBLIC_KEY_ARG) (retrieve a PUBLIC_KEY_ARG)) (\<lambda>pk.
                bindr (map_err EncodeError (cf_from_hex C KEY_LENGTH pk)) (\<lambda>pk.
                bindr (map_err EncodeError (cf_from_hex C NODE_ID_LENGTH ident)) (\<lambda>ident. Inr (pk, ident)))))) (\<lambda>(pk, ident).
     bindr (ok_or (missing_argument IAT_ARG) (retrieve a IAT_ARG)) (\<lambda>mode_str.
     bindr (iat_from_str mode_str) (\<lambda>mode.
     Inr (cb \<lparr> cb_station_pubkey := pk, cb_station_id := ident, cb_iat_mode := mode, cb_node_pubkey_override := True,
          cb_node_id_override := True, cb_iat_override := True \<rparr>))))"

text \<open>\<^verbatim>\<open>std::str::from_utf8\<close>; the text of its error is an argument.\<close>

definition from_utf8 :: "(bytes \<Rightarrow> string) \<Rightarrow> bytes \<Rightarrow> string + string" where
  "from_utf8 utf8_error b = (if utf8_valid b then Inr (bytes_str b) else Inl (utf8_error b))"

fun merge_params :: "(bytes \<Rightarrow> string) \<Rightarrow> bytes list \<Rightarrow> args \<Rightarrow> obfs4_error + args" where
  "merge_params u [] a = Inr a"
| "merge_params u (raw # rest) a =
     bindr (map_err EOther (from_utf8 u raw)) (\<lambda>value.
     bindr (map_err (\<lambda>e. EOther (core_error_display e)) (parse_client_parameters value)) (\<lambda>parsed.
     merge_params u rest (fold (\<lambda>(key, values) a. fold (\<lambda>v a. args_add a key v) values a) parsed a)))"

definition from_params :: "config_env \<Rightarrow> (bytes \<Rightarrow> string) \<Rightarrow> bytes list \<Rightarrow> obfs4_error + client_builder" where
  "from_params C u param_strs =
     bindr (merge_params u param_strs args_new) (\<lambda>a. apply_args C a client_builder_default)"

definition as_opts :: "config_env \<Rightarrow> client_builder \<Rightarrow> string" where
  "as_opts C cb =
     encode_client_parameters
       (args_add (args_add args_new CERT_ARG
           (ntor_pk_to_string (cf_b64_encode C) \<lparr> nk_id = cb_station_id cb, nk_pk = cb_station_pubkey cb \<rparr>))
         IAT_ARG (iat_to_string (cb_iat_mode cb)))"

section \<open>The state file\<close>

definition read_client_state :: "config_env \<Rightarrow> string \<Rightarrow> (obfs4_error, json_client_state, 'k) fsop" where
  "read_client_state C p =
     io_bind (io_map_err IOError (fs_read p)) (\<lambda>b.
     io_lift (map_err EOther (client_from_slice (cf_serde C) (iat_deserialize (cf_os C)) b)))"

definition client_state_args :: "json_client_state \<Rightarrow> args" where
  "client_state_args st =
     add_if IAT_ARG (map_option iat_to_string (jc_iat_mode st))
       (add_if PUBLIC_KEY_ARG (jc_public_key st)
         (add_if NODE_ID_ARG (jc_node_id st)
           (add_if CERT_ARG (jc_cert st) args_new)))"

definition load_statefile :: "config_env \<Rightarrow> string \<Rightarrow> client_builder \<Rightarrow> (obfs4_error, client_builder, 'k) fsop" where
  "load_statefile C path cb =
     io_test (is_dir path) (\<lambda>d.
     io_bind (read_client_state C (if d then path_join path CLIENT_STATE_FILENAME else path)) (\<lambda>st.
     io_bind (io_lift (apply_args C (client_state_args st) client_builder_default)) (\<lambda>loaded.
     io_lift (Inr (cb \<lparr>
       cb_station_pubkey := (if \<not> cb_node_pubkey_override cb then cb_station_pubkey loaded else cb_station_pubkey cb),
       cb_station_id := (if \<not> cb_node_id_override cb then cb_station_id loaded else cb_station_id cb),
       cb_iat_mode := (if \<not> cb_iat_override cb then cb_iat_mode loaded else cb_iat_mode cb),
       cb_statefile_read_only := (jc_private_key st \<noteq> None) \<rparr>)))))"

definition from_statefile :: "config_env \<Rightarrow> string \<Rightarrow> (obfs4_error, client_builder, 'k) fsop" where
  "from_statefile C location =
     load_statefile C location (client_builder_default \<lparr> cb_statefile_path := Some location, cb_statefile_required := True,
       cb_statefile_read_only := True \<rparr>)"

definition client_state :: "config_env \<Rightarrow> client_builder \<Rightarrow> json_client_state" where
  "client_state C cb =
     \<lparr> jc_cert = Some (ntor_pk_to_string (cf_b64_encode C) \<lparr> nk_id = cb_station_id cb, nk_pk = cb_station_pubkey cb \<rparr>),
       jc_private_key = None, jc_node_id = None, jc_public_key = None, jc_iat_mode = Some (cb_iat_mode cb) \<rparr>"

definition write_statefile_target :: "config_env \<Rightarrow> client_builder \<Rightarrow> string \<Rightarrow> (obfs4_error, unit, 'k) fsop" where
  "write_statefile_target C cb target =
     io_bind (io_map_err IOError (create_dir_all (cf_os C) (parent_directory_of target))) (\<lambda>_.
     io_map_err obfs4_of_atomic
       (atomic_write_json target (client_to_vec (cf_serde C) iat_serialize (client_state C cb))))"

definition client_write_statefile :: "config_env \<Rightarrow> client_builder \<Rightarrow> string \<Rightarrow> (obfs4_error, unit, 'k) fsop" where
  "client_write_statefile C cb path =
     io_test (is_dir path) (\<lambda>d. write_statefile_target C cb (if d then path_join path CLIENT_STATE_FILENAME else path))"

section \<open>Building a client\<close>

record client =
  cl_iat_mode :: iat
  cl_station_pubkey :: ntor_public_key
  cl_handshake_timeout :: maybe_timeout
  cl_configuration_error :: "string option"

definition client_target :: "client_builder \<Rightarrow> string option" where
  "client_target cb =
     map_option (\<lambda>p. if cb_statefile_required cb then p else path_join p CLIENT_STATE_FILENAME) (cb_statefile_path cb)"

text \<open>The copy of the builder after the state file has been taken into account.\<close>

definition client_resolve :: "config_env \<Rightarrow> client_builder \<Rightarrow> (obfs4_error, client_builder, 'k) fsop" where
  "client_resolve C cb =
     (case client_target cb of
        None \<Rightarrow> io_lift (Inr cb)
      | Some path \<Rightarrow>
          if \<not> (cb_node_pubkey_override cb \<and> cb_node_id_override cb \<and> cb_iat_override cb) then
            io_test (path_exists path) (\<lambda>ex.
              if ex then load_statefile C path cb
              else if \<not> (cb_node_pubkey_override cb \<and> cb_node_id_override cb) then
                io_lift (Inl (IOError (IoCustom NotFound ''obfs4 state file is missing and the client identity is incomplete'')))
              else io_lift (Inr cb))
          else
            io_test (is_file path) (\<lambda>f.
              if f then io_bind (read_client_state C path) (\<lambda>st.
                io_lift (Inr (cb \<lparr> cb_statefile_read_only := (jc_private_key st \<noteq> None) \<rparr>)))
              else io_lift (Inr cb)))"

definition client_try_build :: "config_env \<Rightarrow> client_builder \<Rightarrow> (obfs4_error, client, 'k) fsop" where
  "client_try_build C cb0 =
     io_bind (client_resolve C cb0) (\<lambda>cb.
     let cl = \<lparr> cl_iat_mode = cb_iat_mode cb, cl_station_pubkey = \<lparr> nk_id = cb_station_id cb, nk_pk = cb_station_pubkey cb \<rparr>,
           cl_handshake_timeout = cb_handshake_timeout cb, cl_configuration_error = None \<rparr>
     in case (if cb_persist_statefile cb \<and> \<not> cb_statefile_read_only cb then client_target cb else None) of
          None \<Rightarrow> io_lift (Inr cl)
        | Some target \<Rightarrow> io_bind (write_statefile_target C cb target) (\<lambda>_. io_lift (Inr cl)))"

definition client_build :: "config_env \<Rightarrow> client_builder \<Rightarrow> 'k fs \<Rightarrow> client \<times> 'k fs" where
  "client_build C cb F =
     (case client_try_build C cb F of
        (Inr cl, F) \<Rightarrow> (cl, F)
      | (Inl e, F) \<Rightarrow>
          (\<lparr> cl_iat_mode = cb_iat_mode cb, cl_station_pubkey = \<lparr> nk_id = cb_station_id cb, nk_pk = cb_station_pubkey cb \<rparr>,
             cl_handshake_timeout = cb_handshake_timeout cb, cl_configuration_error = Some (obfs4_error_display (cf_os C) e) \<rparr>, F))"

text \<open>\<^verbatim>\<open>Server::client_params\<close>: the builder of a client of this server.\<close>

definition server_client_params :: "server \<Rightarrow> client_builder" where
  "server_client_params sv =
     \<lparr> cb_iat_mode = sv_iat_mode sv, cb_station_pubkey = nk_pk (nsk_pk (sv_identity_keys sv)),
       cb_station_id = nk_id (nsk_pk (sv_identity_keys sv)), cb_statefile_path = None, cb_handshake_timeout = TDefault,
       cb_node_pubkey_override = True, cb_node_id_override = True, cb_iat_override = True, cb_statefile_required = False,
       cb_statefile_read_only = False, cb_persist_statefile = False \<rparr>"

definition try_get_args :: "config_env \<Rightarrow> args option \<Rightarrow> client \<Rightarrow> (obfs4_error + unit) \<times> client" where
  "try_get_args C a cl =
     (case bindr (ok_or NotSupported a) (\<lambda>a. apply_args C a
        (client_builder_default \<lparr> cb_iat_mode := cl_iat_mode cl, cb_station_pubkey := nk_pk (cl_station_pubkey cl),
           cb_station_id := nk_id (cl_station_pubkey cl), cb_handshake_timeout := cl_handshake_timeout cl,
           cb_node_pubkey_override := True, cb_node_id_override := True, cb_iat_override := True \<rparr>)) of
        Inl e \<Rightarrow> (Inl e, cl)
      | Inr b \<Rightarrow> (Inr (), cl \<lparr> cl_iat_mode := cb_iat_mode b,
          cl_station_pubkey := \<lparr> nk_id = cb_station_id b, nk_pk = cb_station_pubkey b \<rparr>, cl_configuration_error := None \<rparr>))"

definition get_args :: "config_env \<Rightarrow> args option \<Rightarrow> client \<Rightarrow> client" where
  "get_args C a cl =
     (case try_get_args C a cl of
        (Inl e, cl) \<Rightarrow> cl \<lparr> cl_configuration_error := Some (obfs4_error_display (cf_os C) e) \<rparr>
      | (Inr _, cl) \<Rightarrow> cl)"

section \<open>Connecting\<close>

text \<open>
  \<open>fill\<close> and \<open>os_random\<close> are the draws of the new session: the thread's generator, which has no
  error to report, and the system's, whose failure is an \<^verbatim>\<open>unwrap\<close> of \<^verbatim>\<open>new_client_session\<close> and so a
  panic of the future that makes the session.
\<close>

definition client_wrap ::
  "('s, 'f) obfs4_env \<Rightarrow> 's handshake_env \<Rightarrow> client_draws \<Rightarrow> 'c async_ops \<Rightarrow> (bytes \<Rightarrow> string) \<Rightarrow> 'p
   \<Rightarrow> (nat \<Rightarrow> bytes) \<Rightarrow> string + bytes \<Rightarrow> client \<Rightarrow> (obfs4_error + ('c, 'f, 's, 'p) o4_stream, 'c) future" where
  "client_wrap E H D A col priv fill os_random cl ts c =
     (case cl_configuration_error cl of
        Some e \<Rightarrow> (Ready (Inl (EOther e)), c, ts)
      | None \<Rightarrow>
          (case deadline (env_clock_max E) (hd ts) (cl_handshake_timeout cl) CLIENT_HANDSHAKE_TIMEOUT of
             Inl e \<Rightarrow> (Ready (Inl (IOError e)), c, ts)
           | Inr dl \<Rightarrow>
               if (case dl of Some d \<Rightarrow> d \<le> hd ts | None \<Rightarrow> False) then (Ready (Inl HandshakeTimeout), c, ts)
               else (case new_client_session_with_rng (cl_station_pubkey cl) (cl_iat_mode cl) fill os_random of
                       None \<Rightarrow> (Panic, c, ts)
                     | Some session \<Rightarrow> client_session_handshake E H D A col priv session dl None ts c)))"

text \<open>The block under \<^verbatim>\<open>timeout_at\<close>: dial, make the session, shake hands.\<close>

definition dial_and_shake ::
  "('s, 'f) obfs4_env \<Rightarrow> 's handshake_env \<Rightarrow> client_draws \<Rightarrow> 'c async_ops \<Rightarrow> (bytes \<Rightarrow> string) \<Rightarrow> 'p
   \<Rightarrow> (nat \<Rightarrow> bytes) \<Rightarrow> string + bytes \<Rightarrow> client \<Rightarrow> nat option \<Rightarrow> ephemeral_secret \<Rightarrow> (string + unit, 'c) future
   \<Rightarrow> (obfs4_error + ('c, 'f, 's, 'p) o4_stream, 'c) future" where
  "dial_and_shake E H D A col priv fill os_random cl dl ephem dial ts c =
     (case dial ts c of
        (Pending, c, ts) \<Rightarrow> (Pending, c, ts)
      | (Panic, c, ts) \<Rightarrow> (Panic, c, ts)
      | (Ready (Inl e), c, ts) \<Rightarrow> (Ready (Inl (EOther e)), c, ts)
      | (Ready (Inr _), c, ts) \<Rightarrow>
          (case new_client_session_with_rng (cl_station_pubkey cl) (cl_iat_mode cl) fill os_random of
             None \<Rightarrow> (Panic, c, ts)
           | Some session \<Rightarrow> client_session_handshake E H D A col priv session dl (Some ephem) ts c))"

definition establish_with_keygen ::
  "('s, 'f) obfs4_env \<Rightarrow> 's handshake_env \<Rightarrow> client_draws \<Rightarrow> 'c async_ops \<Rightarrow> (bytes \<Rightarrow> string) \<Rightarrow> 'p
   \<Rightarrow> (nat \<Rightarrow> bytes) \<Rightarrow> string + bytes \<Rightarrow> client \<Rightarrow> obfs4_error + ephemeral_secret \<Rightarrow> (string + unit, 'c) future
   \<Rightarrow> (obfs4_error + ('c, 'f, 's, 'p) o4_stream, 'c) future" where
  "establish_with_keygen E H D A col priv fill os_random cl keygen dial ts c =
     (case cl_configuration_error cl of
        Some e \<Rightarrow> (Ready (Inl (EOther e)), c, ts)
      | None \<Rightarrow>
          (case deadline (env_clock_max E) (hd ts) (cl_handshake_timeout cl) CLIENT_HANDSHAKE_TIMEOUT of
             Inl e \<Rightarrow> (Ready (Inl (IOError e)), c, ts)
           | Inr dl \<Rightarrow>
               (case (case dl of Some d \<Rightarrow> Some d
                      | None \<Rightarrow> instant_checked_add (env_clock_max E) (hd ts) CLIENT_HANDSHAKE_TIMEOUT) of
                  None \<Rightarrow> (Panic, c, ts)
                | Some budget \<Rightarrow>
                    if budget \<le> hd ts then (Ready (Inl HandshakeTimeout), c, ts)
                    else (case keygen of
                        Inl e \<Rightarrow> (Ready (Inl e), c, ts)
                      | Inr ephem \<Rightarrow>
                          (case timeout_at budget (dial_and_shake E H D A col priv fill os_random cl dl ephem dial) ts c of
                             (Pending, c, ts) \<Rightarrow> (Pending, c, ts)
                           | (Panic, c, ts) \<Rightarrow> (Panic, c, ts)
                           | (Ready None, c, ts) \<Rightarrow> (Ready (Inl HandshakeTimeout), c, ts)
                           | (Ready (Some r), c, ts) \<Rightarrow> (Ready r, c, ts))))))"

definition establish ::
  "('s, 'f) obfs4_env \<Rightarrow> 's handshake_env \<Rightarrow> client_draws \<Rightarrow> 'c async_ops \<Rightarrow> (bytes \<Rightarrow> string) \<Rightarrow> 'p
   \<Rightarrow> (nat \<Rightarrow> bytes) \<Rightarrow> string + bytes \<Rightarrow> client \<Rightarrow> (string + unit, 'c) future
   \<Rightarrow> (obfs4_error + ('c, 'f, 's, 'p) o4_stream, 'c) future" where
  "establish E H D A col priv fill os_random cl =
     establish_with_keygen E H D A col priv fill os_random cl (ephemeral_from_rng (hs_curve H) (cd_key D))"

section \<open>The transport's view of the builder\<close>

definition client_options :: "config_env \<Rightarrow> args \<Rightarrow> client_builder \<Rightarrow> (obfs4_error, client_builder, 'k) fsop" where
  "client_options C opts cb =
     (case (if args_is_empty opts then cb_statefile_path cb else None) of
        Some path \<Rightarrow> load_statefile C path cb
      | None \<Rightarrow> io_lift (apply_args C opts cb))"

definition client_statefile_location :: "string \<Rightarrow> client_builder \<Rightarrow> client_builder" where
  "client_statefile_location path cb = with_statefile_directory path cb"

definition client_timeout :: "nat option \<Rightarrow> client_builder \<Rightarrow> client_builder" where
  "client_timeout t cb = cb \<lparr> cb_handshake_timeout := (case t of None \<Rightarrow> TDefault | Some d \<Rightarrow> TLength d) \<rparr>"

definition client_v4_bind_addr :: "client_builder \<Rightarrow> (obfs4_error + unit) \<times> client_builder" where
  "client_v4_bind_addr cb = (Inl NotSupported, cb)"

definition client_v6_bind_addr :: "client_builder \<Rightarrow> (obfs4_error + unit) \<times> client_builder" where
  "client_v6_bind_addr cb = (Inl NotSupported, cb)"

section \<open>Parameters survive their text form\<close>

lemma esc_chars: "set (esc cs s) \<subseteq> insert BSLASH (set s)"
  by (induction s) (auto simp: esc_def)

lemma ascii_bytes: "\<forall>ch \<in> set s. of_char ch < (128 :: nat) \<Longrightarrow> list_all (\<lambda>b. b < 0x80) (str_bytes s)"
proof (induction s)
  case (Cons ch s)
  have "unat (of_nat (of_char ch) :: u8) < 128" using Cons.prems by (simp add: unat_of_nat take_bit_eq_mod del: of_nat_of_char)
  then have "(of_nat (of_char ch) :: u8) < 0x80" by (simp add: word_less_nat_alt del: of_nat_of_char)
  with Cons show ?case by (simp add: str_bytes_def del: of_nat_of_char)
qed (simp add: str_bytes_def)

lemma bytes_str_bytes [simp]: "bytes_str (str_bytes s) = s"
  using str_bytes_inject [of "bytes_str (str_bytes s)" s] by simp

lemma arg_order: "CERT_ARG \<le> IAT_ARG" "CERT_ARG \<noteq> IAT_ARG"
  by code_simp+

lemma params_text:
  assumes "\<forall>ch \<in> set cert. of_char ch < (128 :: nat)"
  shows "utf8_valid (str_bytes (encode_client_parameters [(CERT_ARG, [cert]), (IAT_ARG, [iat_to_string m])]))"
proof -
  let ?t = "encode_client_parameters [(CERT_ARG, [cert]), (IAT_ARG, [iat_to_string m])]"
  let ?e = "esc [CHR ''='', CHR '';'']"
  have t: "?t = ?e CERT_ARG @ ''='' @ ?e cert @ '';'' @ ?e IAT_ARG @ ''='' @ ?e (iat_to_string m)"
    using arg_order by (simp add: encode_client_parameters_def encode_delimited_def args_is_empty_def Let_def)
  have "set (iat_to_string m) \<subseteq> {CHR ''0'', CHR ''1'', CHR ''2''}" by (cases m) auto
  then have "set ?t \<subseteq> set cert \<union> (set CERT_ARG \<union> set IAT_ARG \<union> {BSLASH, CHR ''='', CHR '';'', CHR ''0'', CHR ''1'', CHR ''2''})"
    unfolding t set_append using esc_chars by fastforce
  moreover have "\<forall>ch \<in> set CERT_ARG \<union> set IAT_ARG \<union> {BSLASH, CHR ''='', CHR '';'', CHR ''0'', CHR ''1'', CHR ''2''}. of_char ch < (128 :: nat)"
    by (simp add: arg_names of_char_def)
  ultimately have "\<forall>ch \<in> set ?t. of_char ch < (128 :: nat)" using assms by blast
  then show ?thesis by (intro utf8_ascii ascii_bytes)
qed

text \<open>
  C39. A client configured from a server's parameters talks to that server: the options string
  of a builder is accepted by \<^verbatim>\<open>from_params\<close>, and the builder it gives has the same public key,
  the same node identity and the same mode, all of them fixed against a state file.
\<close>

theorem client_options_roundtrip:
  assumes "config_ok C" "length (cb_station_pubkey cb) = KEY_LENGTH" "length (cb_station_id cb) = NODE_ID_LENGTH"
    and "\<forall>ch \<in> set (cf_b64_encode C (cb_station_id cb @ cb_station_pubkey cb)). of_char ch < (128 :: nat)"
  shows "from_params C u [str_bytes (as_opts C cb)] = Inr (client_builder_default \<lparr> cb_station_pubkey := cb_station_pubkey cb,
    cb_station_id := cb_station_id cb, cb_iat_mode := cb_iat_mode cb, cb_node_pubkey_override := True, cb_node_id_override := True,
    cb_iat_override := True \<rparr>)"
proof -
  let ?cert = "cf_b64_encode C (cb_station_id cb @ cb_station_pubkey cb)"
  let ?a = "[(CERT_ARG, [?cert]), (IAT_ARG, [iat_to_string (cb_iat_mode cb)])]"
  have t: "as_opts C cb = encode_client_parameters ?a"
    using arg_order by (simp add: as_opts_def args_add_def args_new_def ntor_pk_to_string_def)
  have "args_wf ?a" using arg_order by (simp add: args_wf_def args_inv_def arg_names)
  from client_form.parse_encode [OF this] have p: "parse_client_parameters (encode_client_parameters ?a) = Inr ?a"
    using arg_order by (simp add: parse_client_parameters_def encode_client_parameters_def)
  have m: "merge_params u [str_bytes (as_opts C cb)] args_new = Inr ?a"
    using params_text [OF assms(4), of "cb_iat_mode cb"] p arg_order by (simp add: t from_utf8_def args_add_def args_new_def)
  have "cf_b64_decode C (?cert @ ''=='') = Inr (cb_station_id cb @ cb_station_pubkey cb)"
    using assms(1-3) by (simp add: config_ok_def const_simps)
  moreover have "iat_from_str (iat_to_string m) = Inr m" for m by (cases m) (simp_all add: iat_from_str_def)
  ultimately show ?thesis using assms(2,3) arg_order unfolding from_params_def m
    by (simp add: apply_args_def retrieve_def ntor_pk_from_str_def ntor_public_key_new_def const_simps)
qed

theorem client_options_roundtrip_witness:
  "\<exists>cb. from_params toy_config (\<lambda>_. []) [str_bytes (as_opts toy_config (server_client_params (server_of [] TDefault toy_effective)))] = Inr cb
     \<and> cb_station_pubkey cb = nk_pk (nsk_pk toy_key) \<and> cb_station_id cb = replicate 20 6 \<and> cb_iat_mode cb = Enabled"
  using client_options_roundtrip [OF toy_config_ok, of "server_client_params (server_of [] TDefault toy_effective)" "\<lambda>_. []"]
  by (simp add: server_client_params_def server_of_def toy_effective_def toy_key_def ntor_secret_key_new_def toy_curve_def toy_config_def
      bytes_str_def const_simps)

section \<open>A server's state file in a client's hands\<close>

lemma read_client_without_faults:
  assumes "fs_faults F = []" "fs_node F p = Some (FileNode b)"
  shows "read_client_state C p F = (map_err EOther (client_from_slice (cf_serde C) (iat_deserialize (cf_os C)) b), F)"
  using assms by (simp add: read_client_state_def io_bind_def io_map_err_def io_lift_def no_faults)

lemma server_written_client_reads:
  assumes "config_ok C" "server_to_vec (cf_serde C) iat_serialize st = Inr b"
  shows "client_from_slice (cf_serde C) (iat_deserialize (cf_os C)) b = Inr (client_view st)"
proof -
  have "\<exists>b. server_to_vec (cf_serde C) iat_serialize st = Inr b
      \<and> client_from_slice (cf_serde C) (iat_deserialize (cf_os C)) b = Inr (client_view st)"
    using assms(1) iat_json_roundtrip [of "cf_os C"] unfolding config_ok_def serde_ok_def by blast
  with assms(2) show ?thesis by auto
qed

lemma server_state_applied:
  assumes "config_ok C" "key_wf C (sv_identity_keys sv)"
  shows "apply_args C (client_state_args (client_view (server_state C sv seed))) cb =
    Inr (cb \<lparr> cb_station_pubkey := nk_pk (nsk_pk (sv_identity_keys sv)), cb_station_id := nk_id (nsk_pk (sv_identity_keys sv)),
      cb_iat_mode := sv_iat_mode sv, cb_node_pubkey_override := True, cb_node_id_override := True, cb_iat_override := True \<rparr>)"
proof -
  let ?k = "nsk_pk (sv_identity_keys sv)"
  have hex: "cf_from_hex C n (cf_hex C b) = Inr b" if "length b = n" for n b using assms(1) that by (auto simp: config_ok_def)
  have len: "length (nk_pk ?k) = 32" "length (nk_id ?k) = NODE_ID_LENGTH"
    using assms by (simp_all add: config_ok_def key_wf_def)
  let ?a = "client_state_args (client_view (server_state C sv seed))"
  have "retrieve ?a CERT_ARG = None" "retrieve ?a NODE_ID_ARG = Some (cf_hex C (nk_id ?k))"
    "retrieve ?a PUBLIC_KEY_ARG = Some (cf_hex C (nk_pk ?k))" "retrieve ?a IAT_ARG = Some (iat_to_string (sv_iat_mode sv))"
    by (simp_all add: client_state_args_def client_view_def server_state_def add_if_def args_add_def args_new_def retrieve_def arg_names)
  moreover have "iat_from_str (iat_to_string m) = Inr m" for m by (cases m) (simp_all add: iat_from_str_def)
  ultimately show ?thesis using len by (simp add: apply_args_def hex const_simps)
qed

text \<open>
  C40. A client can be configured from a server's own state file: after the server has written
  it, a client that loads the path gets the server's public key, its identity and its mode,
  and building the client writes nothing, although the file also holds the private key.
\<close>

theorem client_imports_server_state:
  assumes C: "config_ok C" and sv: "key_wf C (sv_identity_keys sv)"
    and run: "try_write_statefile_to C sv path F = (Inr u, F')" "fs_node F path \<noteq> Some DirNode" "fs_faults F' = []"
  shows "\<exists>cl. io_bind (from_statefile C path) (client_try_build C) F' = (Inr cl, F')
    \<and> cl_station_pubkey cl = nsk_pk (sv_identity_keys sv) \<and> cl_iat_mode cl = sv_iat_mode sv \<and> cl_configuration_error cl = None"
proof -
  from run(1,2) obtain G seed b where w: "published path b G F'"
      "server_to_vec (cf_serde C) iat_serialize (server_state C sv seed) = Inr b" by (cases rule: write_to_outcome) auto
  then have n: "fs_node F' path = Some (FileNode b)" by (simp add: published_def fs_node_def)
  note rd = server_written_client_reads [OF C w(2)] server_state_applied [OF C sv, of seed client_builder_default]
  have priv: "jc_private_key (client_view (server_state C sv seed)) \<noteq> None" by (simp add: client_view_def server_state_def)
  obtain cb where cb: "from_statefile C path F' = (Inr cb, F')" "cb_station_pubkey cb = nk_pk (nsk_pk (sv_identity_keys sv))"
      "cb_station_id cb = nk_id (nsk_pk (sv_identity_keys sv))" "cb_iat_mode cb = sv_iat_mode sv" "cb_statefile_path cb = Some path"
      "cb_statefile_required cb" "\<not> cb_persist_statefile cb" "\<not> cb_node_pubkey_override cb" "\<not> cb_node_id_override cb" "\<not> cb_iat_override cb"
    using run(3) n rd priv
    by (simp add: from_statefile_def load_statefile_def io_test_def io_bind_def io_lift_def is_dir_def no_faults read_client_without_faults
        client_builder_default_def)
  have "client_target cb = Some path" using cb by (simp add: client_target_def)
  then have "\<exists>cl. client_try_build C cb F' = (Inr cl, F') \<and> cl_station_pubkey cl = nsk_pk (sv_identity_keys sv)
      \<and> cl_iat_mode cl = sv_iat_mode sv \<and> cl_configuration_error cl = None"
    using run(3) n rd priv cb
    by (simp add: client_try_build_def client_resolve_def load_statefile_def io_test_def io_bind_def io_lift_def is_dir_def path_exists_def
        no_faults read_client_without_faults Let_def)
  with cb(1) show ?thesis by (simp add: io_bind_def)
qed

theorem client_imports_server_state_witness:
  "\<exists>F' cl. try_write_statefile_to toy_config (server_of [] TDefault toy_effective) toy_path (toy_fs [''s'' \<mapsto> DirNode]) = (Inr (), F')
     \<and> io_bind (from_statefile toy_config toy_path) (client_try_build toy_config) F' = (Inr cl, F') \<and> cl_station_pubkey cl = nsk_pk toy_key"
proof -
  let ?sv = "server_of [] TDefault toy_effective" and ?F = "toy_fs [''s'' \<mapsto> DirNode]"
  obtain b where b: "server_to_vec (cf_serde toy_config) iat_serialize (server_state toy_config ?sv toy_seed) = Inr (1 # b)" by (rule toy_written)
  have n: "fs_node ?F toy_path = None" "fs_node ?F ''s'' = Some DirNode" "fs_faults ?F = []"
    using toy_paths(3) by (simp_all add: fs_node_def toy_fs_def)
  have w: "try_write_statefile_to toy_config ?sv toy_path ?F = (Inr (), fs_put toy_path (FileNode (1 # b)) ?F)"
    by (rule write_without_faults) (use n b in \<open>simp_all add: toy_paths server_of_def toy_effective_def\<close>)
  have "key_wf toy_config (sv_identity_keys ?sv)" using toy_key_wf by (simp add: server_of_def toy_effective_def)
  from client_imports_server_state [OF toy_config_ok this w] n w show ?thesis
    by (auto simp: fs_put_def toy_fs_def server_of_def toy_effective_def)
qed

text \<open>
  Building a client never overwrites a server's state file, whatever was set by hand: when
  the file at the client's state path holds a private key, no file changes.
\<close>

theorem client_spares_server_state:
  assumes "client_try_build C cb F = (r, F')" "fs_faults F = []" "client_target cb = Some p" "fs_node F p = Some (FileNode b)"
    and "client_from_slice (cf_serde C) (iat_deserialize (cf_os C)) b = Inr st" "jc_private_key st \<noteq> None"
  shows "F' = F"
proof -
  obtain q F1 where q: "client_resolve C cb F = (q, F1)" by force
  have "F1 = F \<and> (\<forall>cb'. q = Inr cb' \<longrightarrow> cb_statefile_read_only cb')"
  proof (cases "cb_node_pubkey_override cb \<and> cb_node_id_override cb \<and> cb_iat_override cb")
    case True
    with q assms show ?thesis
      by (auto simp: client_resolve_def io_test_def io_bind_def io_lift_def is_file_def no_faults read_client_without_faults)
  next
    case False
    obtain x where x: "apply_args C (client_state_args st) client_builder_default = x" by simp
    from False q assms x show ?thesis
      by (cases x) (auto simp: client_resolve_def load_statefile_def io_test_def io_bind_def io_lift_def is_dir_def path_exists_def no_faults
          read_client_without_faults)
  qed
  with assms(1) q show ?thesis
    by (cases q) (auto simp: client_try_build_def io_bind_def io_lift_def Let_def split: option.splits if_splits)
qed

theorem client_spares_server_state_witness:
  "\<exists>b r F'. client_try_build toy_config (with_iat_mode Paranoid (with_node_id (replicate 20 1) (with_node_pubkey (replicate 32 2)
       (with_statefile_path toy_path client_builder_default)))) (toy_fs [toy_path \<mapsto> FileNode b]) = (r, F')
     \<and> F' = toy_fs [toy_path \<mapsto> FileNode b]"
proof -
  let ?sv = "server_of [] TDefault toy_effective"
  obtain b where b: "server_to_vec (cf_serde toy_config) iat_serialize (server_state toy_config ?sv toy_seed) = Inr b" by (metis toy_written)
  let ?cb = "with_iat_mode Paranoid (with_node_id (replicate 20 1) (with_node_pubkey (replicate 32 2)
       (with_statefile_path toy_path client_builder_default)))" and ?F = "toy_fs [toy_path \<mapsto> FileNode b]"
  obtain r F' where run: "client_try_build toy_config ?cb ?F = (r, F')" by force
  have "F' = ?F"
    by (rule client_spares_server_state [OF run _ _ _ server_written_client_reads [OF toy_config_ok b]])
      (simp_all add: toy_fs_def fs_node_def client_target_def with_iat_mode_def with_node_id_def with_node_pubkey_def with_statefile_path_def
        client_view_def server_state_def)
  with run show ?thesis by blast
qed

end
