(* ===== verification/Answers.thy ===== *)
theory Answers
  imports ClientConfig
begin

text \<open>
  Every attempt to set up a connection ends: the futures of \<open>Establish\<close>, behind the time limits of
  \<^verbatim>\<open>Client::establish\<close>, \<^verbatim>\<open>Client::wrap\<close> and \<^verbatim>\<open>Server::wrap\<close>, have an answer at the first poll at or
  after their limit. No input makes them panic: what can is the platform under them, a system
  generator that fails, a system clock before 1970, or a monotonic clock at the end of its range.
\<close>

definition never_panics :: "('a, 'c) future \<Rightarrow> bool" where
  "never_panics f \<longleftrightarrow> (\<forall>ts c. fst (f ts c) \<noteq> Panic)"

lemma never_panics_at: "never_panics f \<Longrightarrow> fst (f ts c) \<noteq> Panic"
  by (simp add: never_panics_def)

lemma never_panicsD: "never_panics f \<Longrightarrow> f ts c = (r, c', ts') \<Longrightarrow> r \<noteq> Panic"
  by (metis fst_conv never_panics_def)

lemma await_panic:
  "fst p \<noteq> Panic \<Longrightarrow> (\<And>x ts c. fst (f x ts c) \<noteq> Panic) \<Longrightarrow> fst (await p f) \<noteq> Panic"
  by (cases "(p, f)" rule: await.cases) auto

lemma timeout_panics: "never_panics f \<Longrightarrow> never_panics (timeout_at dl f)"
  using never_panicsD by (fastforce simp: never_panics_def timeout_at_def Let_def split: prod.splits poll.splits)

lemma timeout_pending:
  assumes "timeout_at dl f ts c = (Pending, c', ts')" "t \<in> set ts" shows "t < dl"
proof -
  have "dropWhile (\<lambda>t. t < dl) ts = []"
    using assms(1) by (auto simp: timeout_at_def Let_def split: prod.splits poll.splits if_splits)
  with assms(2) show ?thesis by (simp add: dropWhile_eq_Nil_conv)
qed

section \<open>No input makes a handshake panic\<close>

text \<open>
  The draws of a handshake that cannot panic: the padding comes from a working generator, and
  the hour is read from a clock past 1970.
\<close>

definition client_draws_work :: "client_draws \<Rightarrow> bool" where
  "client_draws_work D \<longleftrightarrow> 0 \<le> cd_unix D \<and> (\<forall>n. cd_pad D n \<noteq> None)"

definition server_draws_work :: "server_draws \<Rightarrow> bool" where
  "server_draws_work D \<longleftrightarrow> (\<forall>n. 0 \<le> sd_unix D n \<and> (\<forall>k. sd_pad D n k \<noteq> None))"

lemma async_panics:
  assumes "async_ok A out inp shut eof"
  shows "never_panics (a_read A n)" "never_panics (a_write_all A b)" "never_panics (a_shutdown A)" "never_panics (a_copy_sink A)"
  using assms unfolding never_panics_def async_ok_def by (metis prod.collapse)+

lemma shutdown_panics:
  assumes "async_ok A out inp shut eof" shows "fst (await (a_shutdown A ts c) (\<lambda>_ ts c. (Ready x, c, ts))) \<noteq> Panic"
  using async_panics(3) [OF assms] by (intro await_panic) (simp_all add: never_panics_def)

lemma reject_panics:
  assumes "async_ok A out inp shut eof" shows "never_panics (reject A dl e)"
proof -
  note a = async_panics [OF assms]
  have disc: "fst (discard A d ts c) \<noteq> Panic" for d ts c
  proof -
    obtain q c1 ts1 where q: "timeout_at (hd ts + d) (a_copy_sink A) ts c = (q, c1, ts1)" by (metis prod_cases3)
    with never_panicsD [OF timeout_panics [OF a(4)] q] show ?thesis
      using shutdown_panics [OF assms, of ts1 c1 "Inr ()"] by (cases q) (auto simp: discard_def split: option.split)
  qed
  show ?thesis unfolding never_panics_def
  proof (intro allI)
    fix ts c
    obtain q c1 ts1 where q: "(case dl of Some d \<Rightarrow> if d > hd ts then discard A (d - hd ts) ts c else (Ready (Inr ()), c, ts)
        | None \<Rightarrow> (Ready (Inr ()), c, ts)) = (q, c1, ts1)" by (rule prod_cases3)
    have "q \<noteq> Panic"
    proof (cases dl)
      case (Some d)
      with q disc [of "d - hd ts" ts c] show ?thesis by (cases "hd ts < d") auto
    qed (use q in auto)
    with q shutdown_panics [OF assms, of ts1 c1 "Inl e"] show "fst (reject A dl e ts c) \<noteq> Panic"
      by (cases q) (auto simp: reject_def Let_def split: sum.split)
  qed
qed

lemma client_handshake2_total:
  assumes "kdfs_ok K" shows "client_handshake2 K V sip d m st \<noteq> None"
proof -
  have k: "keygen_new K sip seed True \<noteq> None" for seed by (rule keygen_pair [OF assms, of sip seed]) simp
  show ?thesis by (auto simp: k client_handshake2_def Let_def split: sum.splits prod.splits option.splits)
qed

lemma client_loop_panics:
  fixes H :: "'s handshake_env"
  assumes A: "async_ok A out inp shut eof" and K: "kdfs_ok (hs_kdfs H)"
  shows "fst (client_read_loop H D A dl st buf ts c) \<noteq> Panic"
proof (induction "MAX_HANDSHAKE_LENGTH - length buf" arbitrary: buf ts c rule: less_induct)
  case less
  note a = async_panics [OF A]
  obtain q c1 ts1 where q: "a_read A (MAX_HANDSHAKE_LENGTH - length buf) ts c = (q, c1, ts1)" by (metis prod_cases3)
  have np: "q \<noteq> Panic" using never_panicsD [OF a(1) q] .
  consider "q = Pending" | e where "q = Ready (Inl e)" | "q = Ready (Inr [])" | bs where "q = Ready (Inr bs)" "bs \<noteq> []"
    using np by (metis old.sum.exhaust poll.exhaust)
  then show ?case
  proof cases
    case (4 bs)
    have len: "length bs \<le> MAX_HANDSHAKE_LENGTH - length buf" using A q 4 unfolding async_ok_def by fastforce
    note step = client_loop_step [OF q [unfolded 4(1)] 4(2) len, of H D dl st]
    obtain r where r: "client_handshake2 (hs_kdfs H) (hs_curve H) (hs_sip H) (cd_reply_pad D (length (buf @ bs))) (buf @ bs) st = Some r"
      using client_handshake2_total [OF K] by blast
    have "fst (client_read_loop H D A dl st (buf @ bs) ts1 c1) \<noteq> Panic"
      by (rule less) (use len 4(2) in \<open>cases bs; simp\<close>)
    moreover have "fst (reject A dl e ts1 c1 :: (obfs4_error + bytes \<times> 's keygen) poll \<times> _) \<noteq> Panic" for e
      using reject_panics [OF A, of dl e] unfolding never_panics_def by blast
    moreover have "fst (await (a_shutdown A ts1 c1) (\<lambda>_ ts c. (Ready (Inl e :: obfs4_error + bytes \<times> 's keygen), c, ts))) \<noteq> Panic" for e
      by (rule shutdown_panics [OF A])
    ultimately show ?thesis unfolding step r by (auto split: sum.split)
  qed (subst client_read_loop.simps; simp add: q)+
qed

lemma client_complete_panics:
  assumes "async_ok A out inp shut eof" "kdfs_ok (hs_kdfs H)" "\<And>e. pre = Some e \<Longrightarrow> public_representative (hs_curve H) e \<noteq> None"
    and "client_draws_work D"
  shows "never_panics (client_complete_handshake H D A m dl pre)"
proof -
  have rep: "client_handshake_no_keygen K (hs_curve H) (cd_pad D) (cd_unix D) e m \<noteq> None"
    if "public_representative (hs_curve H) e \<noteq> None" for K e
    using that assms(4) by (auto simp: client_handshake_no_keygen_def client_hello_marshall_def make_hs_pad_def get_epoch_hour_def
        client_draws_work_def Let_def split: option.splits) (metis option.distinct(1))
  have "(case pre of Some e \<Rightarrow> map_option Inr (client_handshake_no_keygen (hs_kdfs H) (hs_curve H) (cd_pad D) (cd_unix D) e m)
      | None \<Rightarrow> client_handshake (hs_kdfs H) (hs_curve H) (cd_key D) (cd_pad D) (cd_unix D) m) \<noteq> None"
    using assms(3) rep ephemeral_attempts_representable
    by (auto simp: client_handshake_def ephemeral_from_rng_def split: option.splits sum.splits)
  then obtain x where x: "(case pre of Some e \<Rightarrow> map_option Inr (client_handshake_no_keygen (hs_kdfs H) (hs_curve H) (cd_pad D) (cd_unix D) e m)
      | None \<Rightarrow> client_handshake (hs_kdfs H) (hs_curve H) (cd_key D) (cd_pad D) (cd_unix D) m) = Some x" by blast
  have "fst (await (a_write_all A b ts c) (\<lambda>_ ts c. client_read_loop H D A dl st [] ts c)) \<noteq> Panic" for b ts c st
    using async_panics(2) [OF assms(1)] client_loop_panics [OF assms(1,2)] by (intro await_panic) (simp_all add: never_panics_def)
  then show ?thesis unfolding never_panics_def client_complete_handshake_def x by (auto split: sum.split)
qed

lemma client_session_panics:
  assumes "async_ok A out inp shut eof" "kdfs_ok (hs_kdfs H)" "env_ok E"
    and "\<And>e. pre = Some e \<Longrightarrow> public_representative (hs_curve H) e \<noteq> None"
    and "client_draws_work D" "hd ts + CLIENT_HANDSHAKE_TIMEOUT \<le> env_clock_max E"
  shows "fst (client_session_handshake E H D A col priv s dl pre ts c) \<noteq> Panic"
proof -
  let ?m = "client_materials_new (cd_pad_len D) (cs_node_pubkey (client_transition ClientHandshaking s)) (client_session_id col (client_transition ClientHandshaking s))"
  obtain q c1 ts1 where q: "timeout_at (case dl of Some d \<Rightarrow> d | None \<Rightarrow> hd ts + CLIENT_HANDSHAKE_TIMEOUT)
      (client_complete_handshake H D A ?m dl pre) ts c = (q, c1, ts1)" by (metis prod_cases3)
  have "q \<noteq> Panic" using never_panicsD [OF timeout_panics [OF client_complete_panics [OF assms(1,2,4,5)]] q] .
  with q assms(6) show ?thesis
    by (auto simp: client_session_handshake_def instant_checked_add_def Let_def o4_new_total [OF assms(3)] split: poll.splits option.splits sum.splits prod.splits)
qed

lemma server_attempt_total:
  assumes "kdfs_ok (hs_kdfs H)" "server_draws_work D" shows "server_attempt H D m n now buf f \<noteq> None"
proof -
  have k: "keygen_new (hs_kdfs H) (hs_sip H) seed False \<noteq> None" for seed by (rule keygen_pair [OF assms(1), of "hs_sip H" seed]) simp
  have r: "public_representative (hs_curve H) e \<noteq> None" if "ephemeral_from_rng (hs_curve H) rng = Inr e" for e rng
    using that ephemeral_attempts_representable unfolding ephemeral_from_rng_def by blast
  have t: "try_parse_client_handshake (hs_kdfs H) (hs_sip H) (sd_unix D n) now buf m f \<noteq> None"
    using assms(2) by (simp add: try_parse_client_handshake_def get_epoch_hour_def server_draws_work_def not_less)
  have c: "complete_server_hs (hs_kdfs H) (hs_aead H) (hs_sip H) (sd_pad D n) l ch m sr g auth \<noteq> None" for l ch sr g auth
    using assms(2) by (auto simp: complete_server_hs_def server_hello_marshall_def make_hs_pad_def server_draws_work_def Let_def
        split: option.split sum.split prod.split)
  have "server_handshake_no_keygen (hs_kdfs H) (hs_curve H) (hs_aead H) (hs_sip H) (sd_pad D n) l (sd_unix D n) now e buf m f \<noteq> None"
    if "public_representative (hs_curve H) e \<noteq> None" for e l
    using that t unfolding server_handshake_no_keygen_def Let_def
    by (auto simp: k c split: prod.split sum.split obfs4_error.split relay_handshake_error.split option.split)
  with r show ?thesis by (auto simp: server_attempt_def server_entry_def server_handshake_def split: sum.split)
qed

lemma with_filter_panics: "fst (with_filter f p) = Panic \<longleftrightarrow> fst p = Panic"
  by (cases p) (simp add: with_filter_def)

lemma server_loop_panics:
  fixes H :: "'s handshake_env"
  assumes A: "async_ok A out inp shut eof" and K: "kdfs_ok (hs_kdfs H)" "server_draws_work D"
  shows "fst (server_read_loop H D A dl m buf ts (c, f)) \<noteq> Panic"
proof (induction "MAX_HANDSHAKE_LENGTH - length buf" arbitrary: buf ts c f rule: less_induct)
  case less
  note a = async_panics [OF A]
  obtain q c1 ts1 where q: "a_read A (MAX_HANDSHAKE_LENGTH - length buf) ts c = (q, c1, ts1)" by (metis prod_cases3)
  have np: "q \<noteq> Panic" using never_panicsD [OF a(1) q] .
  note sd = shutdown_panics [OF A, where x = "Inl _ :: obfs4_error + 's keygen"]
  consider "q = Pending" | e where "q = Ready (Inl e)" | "q = Ready (Inr [])" | bs where "q = Ready (Inr bs)" "bs \<noteq> []"
    using np by (metis old.sum.exhaust poll.exhaust)
  then show ?case
  proof cases
    case 3
    with q sd [of ts1 c1 "IOError (IoSimple UnexpectedEof)"] show ?thesis
      by (subst server_read_loop.simps) (simp add: Let_def case_prod_beta)
  next
    case (4 bs)
    have len: "length bs \<le> MAX_HANDSHAKE_LENGTH - length buf" using A q 4 unfolding async_ok_def by fastforce
    note step = server_loop_step [OF q [unfolded 4(1)] 4(2) len, of H D dl m f]
    obtain x f1 where x: "server_attempt H D m (length (buf @ bs)) (hd ts1) (buf @ bs) f = Some (x, f1)"
      using server_attempt_total [OF K] by fastforce
    have "fst (server_read_loop H D A dl m (buf @ bs) ts1 (c1, f1)) \<noteq> Panic"
      by (rule less) (use len 4(2) in \<open>cases bs; simp\<close>)
    moreover have "fst (reject A dl e ts1 c1 :: (obfs4_error + 's keygen) poll \<times> _) \<noteq> Panic" for e
      using reject_panics [OF A, of dl e] unfolding never_panics_def by blast
    moreover have "fst (await (a_write_all A r ts1 c1) (\<lambda>_ ts c. (Ready (Inr kg :: obfs4_error + 's keygen), c, ts))) \<noteq> Panic" for r kg
      using a(2) by (intro await_panic) (simp_all add: never_panics_def)
    ultimately show ?thesis unfolding step x using sd by (auto simp: with_filter_panics split: sum.split)
  qed (subst server_read_loop.simps; simp add: q)+
qed

lemma server_session_panics:
  assumes "async_ok A out inp shut eof" "kdfs_ok (hs_kdfs H)" "env_ok E"
    and "server_draws_work D" "hd ts + SERVER_HANDSHAKE_TIMEOUT \<le> env_clock_max E"
  shows "fst (server_session_handshake E H D A col priv s dl ts cf) \<noteq> Panic"
proof -
  let ?s = "server_transition ServerHandshaking s"
  let ?m = "server_materials_new (ss_identity_keys ?s) (server_session_id col ?s) (ss_len_seed ?s)"
  have "never_panics (server_complete_handshake H D A ?m dl)"
    unfolding never_panics_def server_complete_handshake_def using server_loop_panics [OF assms(1,2,4)] by force
  note np = timeout_panics [OF this]
  obtain q cf1 ts1 where q: "timeout_at (case dl of Some d \<Rightarrow> d | None \<Rightarrow> hd ts + SERVER_HANDSHAKE_TIMEOUT)
      (server_complete_handshake H D A ?m dl) ts cf = (q, cf1, ts1)" by (rule prod_cases3)
  have "q \<noteq> Panic" by (rule never_panicsD [OF np q])
  with q assms(5) show ?thesis
    by (auto simp: server_session_handshake_def instant_checked_add_def Let_def o4_new_total [OF assms(3)] split: poll.splits option.splits sum.splits prod.splits)
qed

section \<open>The limits are kept\<close>

lemma map_poll_same [simp]: "map_poll f r = Pending \<longleftrightarrow> r = Pending" "map_poll f r = Panic \<longleftrightarrow> r = Panic"
  by (cases r; simp)+

lemma ready_unless: "(\<exists>x. r = Ready x) \<or> r = Panic \<and> P \<Longrightarrow> \<not> P \<Longrightarrow> \<exists>x. r = Ready x"
  by blast

lemma ready_or: "r \<noteq> Pending \<Longrightarrow> (r = Panic \<Longrightarrow> P) \<Longrightarrow> (\<exists>x. r = Ready x) \<or> r = Panic \<and> P"
  by (cases r) auto

lemma server_session_in_time:
  assumes "env_ok E" "t \<in> set ts" "server_limit dl ts \<le> t"
  shows "fst (server_session_handshake E H D A col priv s dl ts cf) \<noteq> Pending"
  using timeout_pending [OF _ assms(2)] assms(3)
  by (auto simp: server_session_handshake_def server_limit_def instant_checked_add_def Let_def o4_new_total [OF assms(1)]
      split: poll.splits option.splits sum.splits prod.splits dest!: timeout_pending [OF _ assms(2)])

text \<open>
  What dialling is taken to do: it does not panic, and an answer comes at one of the instants at
  which it is polled.
\<close>

definition dial_ok :: "('a, 'c) future \<Rightarrow> bool" where
  "dial_ok dial \<longleftrightarrow> (\<forall>ts c r c' ts'. dial ts c = (r, c', ts') \<longrightarrow> r \<noteq> Panic \<and> on_time r ts ts')"

lemma dial_panics:
  assumes "async_ok A out inp shut eof" "kdfs_ok (hs_kdfs H)" "env_ok E" "dial_ok dial"
    and "ephemeral_from_rng (hs_curve H) (cd_key D) = Inr e"
    and "client_draws_work D" "\<forall>t \<in> set ts. t + CLIENT_HANDSHAKE_TIMEOUT \<le> env_clock_max E" "os_random = Inr seed"
  shows "fst (dial_and_shake E H D A col priv fill os_random cl dl e dial ts c) \<noteq> Panic"
proof -
  obtain r c1 ts1 where d: "dial ts c = (r, c1, ts1)" by (rule prod_cases3)
  then have r: "r \<noteq> Panic" "on_time r ts ts1" using assms(4) unfolding dial_ok_def by blast+
  have rep: "public_representative (hs_curve H) e \<noteq> None"
    using assms(5) ephemeral_attempts_representable unfolding ephemeral_from_rng_def by blast
  obtain s where s: "new_client_session_with_rng (cl_station_pubkey cl) (cl_iat_mode cl) fill os_random = Some s"
    by (simp add: new_client_session_with_rng_def seed_new_def assms(8))
  show ?thesis
  proof (cases "r = Ready (Inr ())")
    case True
    then have "hd ts1 \<in> set ts" using r(2) unfolding on_time_def by (auto split: if_splits)
    then have "hd ts1 + CLIENT_HANDSHAKE_TIMEOUT \<le> env_clock_max E" using assms(7) by blast
    with client_session_panics [OF assms(1-3) _ assms(6) this, of "Some e"] rep
    show ?thesis by (simp add: dial_and_shake_def d True s)
  next
    case False
    with r(1) show ?thesis by (cases r) (auto simp: dial_and_shake_def d split: sum.split)
  qed
qed

lemma timeout_panics_at:
  assumes "\<And>us. set us \<subseteq> set ts \<Longrightarrow> fst (f us c) \<noteq> Panic" shows "fst (timeout_at dl f ts c) \<noteq> Panic"
proof -
  let ?us = "takeWhile (\<lambda>t. t < dl) ts @ take 1 (dropWhile (\<lambda>t. t < dl) ts)"
  have "set ?us \<subseteq> set ts" by (auto dest: set_takeWhileD in_set_takeD set_dropWhileD)
  from assms [OF this] show ?thesis by (auto simp: timeout_at_def Let_def split: prod.splits poll.splits)
qed

text \<open>What comes out of \<^verbatim>\<open>establish\<close> is what comes out of the block under \<^verbatim>\<open>timeout_at\<close>, if it is reached.\<close>

lemma establish_outcome:
  fixes E :: "('s, 'f) obfs4_env"
  obtains (settled) x where "fst (establish E H D A col priv fill os_random cl dial ts c) = Ready x"
  | (clock) "fst (establish E H D A col priv fill os_random cl dial ts c) = Panic" "env_clock_max E < hd ts + CLIENT_HANDSHAKE_TIMEOUT"
  | (shake) dl e where "deadline (env_clock_max E) (hd ts) (cl_handshake_timeout cl) CLIENT_HANDSHAKE_TIMEOUT = Inr dl"
      "ephemeral_from_rng (hs_curve H) (cd_key D) = Inr e"
      "fst (establish E H D A col priv fill os_random cl dial ts c) =
         map_poll (\<lambda>r. case r of None \<Rightarrow> Inl HandshakeTimeout | Some r \<Rightarrow> r)
           (fst (timeout_at (client_limit dl ts) (dial_and_shake E H D A col priv fill os_random cl dl e dial) ts c))"
proof (cases "cl_configuration_error cl")
  case None
  show thesis
  proof (cases "deadline (env_clock_max E) (hd ts) (cl_handshake_timeout cl) CLIENT_HANDSHAKE_TIMEOUT")
    case (Inr dl)
    note go = None Inr
    show thesis
    proof (cases "dl = None \<and> env_clock_max E < hd ts + CLIENT_HANDSHAKE_TIMEOUT")
      case True
      with go show thesis by (intro clock) (simp_all add: establish_def establish_with_keygen_def instant_checked_add_def)
    next
      case False
      then have b: "(case dl of Some d \<Rightarrow> Some d | None \<Rightarrow> instant_checked_add (env_clock_max E) (hd ts) CLIENT_HANDSHAKE_TIMEOUT)
          = Some (client_limit dl ts)" by (cases dl) (auto simp: client_limit_def instant_checked_add_def)
      show thesis
      proof (cases "ephemeral_from_rng (hs_curve H) (cd_key D)")
        case (Inl m)
        with go b settled show thesis by (cases "client_limit dl ts \<le> hd ts") (simp_all add: establish_def establish_with_keygen_def)
      next
        case (Inr e)
        show thesis
        proof (cases "client_limit dl ts \<le> hd ts")
          case True
          with go b settled show thesis by (simp add: establish_def establish_with_keygen_def)
        next
          case late: False
          show thesis using go b Inr late
            by (intro shake [OF go(2) Inr]) (auto simp: establish_def establish_with_keygen_def split: prod.split poll.split option.split)
        qed
      qed
    qed
  qed (use None settled in \<open>simp add: establish_def establish_with_keygen_def\<close>)
qed (use settled in \<open>simp add: establish_def establish_with_keygen_def\<close>)

section \<open>Properties\<close>

text \<open>
  C9. A server answers every connection. Whatever a peer sends, in whatever pieces, or if it
  sends nothing at all, the server's handshake does not wait beyond its limit: the first poll at
  or after the limit has an answer, a stream or an error. It panics only if the platform fails
  it: the monotonic clock cannot represent an instant sixty seconds ahead, the system clock is
  before 1970, or the system's generator fails while the padding of the reply is drawn.
\<close>

theorem server_always_answers:
  assumes "async_ok A out inp shut eof" "kdfs_ok (hs_kdfs H)" "env_ok E" "t \<in> set ts"
    and "\<forall>dl. deadline (env_clock_max E) (hd ts) (sv_handshake_timeout sv) SERVER_HANDSHAKE_TIMEOUT = Inr dl \<longrightarrow> server_limit dl ts \<le> t"
  shows "(\<exists>x. fst (server_wrap E H D A col priv sid sv ts cf) = Ready x)
    \<or> fst (server_wrap E H D A col priv sid sv ts cf) = Panic
      \<and> (env_clock_max E < hd ts + SERVER_HANDSHAKE_TIMEOUT \<or> (\<exists>n. sd_unix D n < 0) \<or> (\<exists>n k. sd_pad D n k = None))"
proof (rule ready_or)
  show "fst (server_wrap E H D A col priv sid sv ts cf) \<noteq> Pending"
    using assms(5) server_session_in_time [OF assms(3,4), of _ H D A col priv _ cf] by (auto simp: server_wrap_def split: option.split sum.split)
next
  assume "fst (server_wrap E H D A col priv sid sv ts cf) = Panic"
  then have "\<not> (server_draws_work D \<and> hd ts + SERVER_HANDSHAKE_TIMEOUT \<le> env_clock_max E)"
    using server_session_panics [OF assms(1-3), of D ts col priv _ _ cf] by (auto simp: server_wrap_def split: option.splits sum.splits if_splits)
  then show "env_clock_max E < hd ts + SERVER_HANDSHAKE_TIMEOUT \<or> (\<exists>n. sd_unix D n < 0) \<or> (\<exists>n k. sd_pad D n k = None)"
    unfolding server_draws_work_def by (meson not_le)
qed

text \<open>
  C17. A client's attempt to connect ends. Whatever the dialled address and the peer behind it
  do, \<^verbatim>\<open>establish\<close> does not wait beyond its budget, which covers the dialling and the handshake
  together: the first poll at or after the budget has an answer. It panics only if the platform
  fails it: the monotonic clock cannot represent an instant sixty seconds after one at which it
  is polled, the system clock is before 1970, or the system's generator fails while the padding
  of the hello or the seed of the session is drawn.
\<close>

theorem establish_always_answers:
  assumes "async_ok A out inp shut eof" "kdfs_ok (hs_kdfs H)" "env_ok E" "dial_ok dial" "t \<in> set ts"
    and "\<forall>dl. deadline (env_clock_max E) (hd ts) (cl_handshake_timeout cl) CLIENT_HANDSHAKE_TIMEOUT = Inr dl \<longrightarrow> client_limit dl ts \<le> t"
  shows "(\<exists>x. fst (establish E H D A col priv fill os_random cl dial ts c) = Ready x)
    \<or> fst (establish E H D A col priv fill os_random cl dial ts c) = Panic
      \<and> ((\<exists>t \<in> set ts. env_clock_max E < t + CLIENT_HANDSHAKE_TIMEOUT) \<or> cd_unix D < 0 \<or> (\<exists>k. cd_pad D k = None)
         \<or> (\<exists>e. os_random = Inl e))" (is "_ \<or> _ \<and> ?fails")
proof (rule ready_or)
  show "fst (establish E H D A col priv fill os_random cl dial ts c) \<noteq> Pending"
  proof (cases rule: establish_outcome [of E H D A col priv fill os_random cl dial ts c])
    case (shake dl e)
    have "client_limit dl ts \<le> t" using assms(6) shake(1) by blast
    then have "fst (timeout_at (client_limit dl ts) (dial_and_shake E H D A col priv fill os_random cl dl e dial) ts c) \<noteq> Pending"
      using timeout_pending [OF _ assms(5)] by (metis not_le prod.collapse)
    with shake(3) show ?thesis by simp
  qed simp_all
next
  assume pan: "fst (establish E H D A col priv fill os_random cl dial ts c) = Panic"
  show ?fails
  proof (rule ccontr)
    assume no: "\<not> ?fails"
    then have D: "client_draws_work D" unfolding client_draws_work_def by (meson not_le)
    from no have clk: "\<forall>t \<in> set ts. t + CLIENT_HANDSHAKE_TIMEOUT \<le> env_clock_max E" by (meson not_le)
    from no obtain seed where os: "os_random = Inr seed" by (cases os_random) auto
    show False
    proof (cases rule: establish_outcome [of E H D A col priv fill os_random cl dial ts c])
      case clock
      have "hd ts \<in> set ts" using assms(5) by (cases ts) auto
      with clk clock(2) show ?thesis by (meson not_le)
    next
      case (shake dl e)
      have "fst (timeout_at (client_limit dl ts) (dial_and_shake E H D A col priv fill os_random cl dl e dial) ts c) \<noteq> Panic"
      proof (rule timeout_panics_at)
        fix us assume "set us \<subseteq> set ts"
        with clk have "\<forall>t \<in> set us. t + CLIENT_HANDSHAKE_TIMEOUT \<le> env_clock_max E" by blast
        then show "fst (dial_and_shake E H D A col priv fill os_random cl dl e dial us c) \<noteq> Panic"
          by (rule dial_panics [OF assms(1-4) shake(2) D _ os])
      qed
      with shake(3) [unfolded pan, symmetric] show ?thesis by simp
    qed (use pan in simp)
  qed
qed

text \<open>A peer that never says anything, and a dialled address that never answers.\<close>

theorem server_always_answers_witness:
  "\<exists>x. fst (server_wrap toy_env toy_hs toy_server_draws (piece_io 0) (\<lambda>_. []) () [1]
     (server_of [] (TLength 7) toy_effective) [5, 20] (piece_peer_new [1, 2, 3], replay_filter_new [] REPLAY_TTL)) = Ready x"
proof -
  have fine: "\<not> (env_clock_max toy_env < hd [5, 20] + SERVER_HANDSHAKE_TIMEOUT \<or> (\<exists>n. sd_unix toy_server_draws n < 0)
      \<or> (\<exists>n k. sd_pad toy_server_draws n k = None))"
    by (simp add: toy_env_def toy_server_draws_def SERVER_HANDSHAKE_TIMEOUT_def)
  have "\<forall>dl. deadline (env_clock_max toy_env) (hd [5, 20]) (sv_handshake_timeout (server_of [] (TLength 7) toy_effective))
      SERVER_HANDSHAKE_TIMEOUT = Inr dl \<longrightarrow> server_limit dl [5, 20] \<le> 20"
    by (auto simp: server_of_def server_limit_def instant_checked_add_def split: if_splits)
  moreover have "kdfs_ok (hs_kdfs toy_hs)" "20 \<in> set [5, 20 :: nat]" by (simp_all add: toy_hs_def)
  ultimately show ?thesis by (intro ready_unless [OF server_always_answers [OF piece_io_ok _ toy_env_ok] fine])
qed

theorem establish_always_answers_witness:
  "\<exists>x. fst (establish toy_env toy_hs toy_client_draws (piece_io 31) (\<lambda>_. []) () (\<lambda>n. replicate n 1) (Inr toy_seed)
     \<lparr> cl_iat_mode = Off, cl_station_pubkey = nsk_pk toy_key, cl_handshake_timeout = TLength 7, cl_configuration_error = None \<rparr>
     (\<lambda>ts c. (Pending, c, [])) [5, 20] (piece_peer_new [])) = Ready x"
proof -
  let ?cl = "\<lparr> cl_iat_mode = Off, cl_station_pubkey = nsk_pk toy_key, cl_handshake_timeout = TLength 7, cl_configuration_error = None \<rparr>"
  have d: "dial_ok (\<lambda>ts c. (Pending, c, []))" by (simp add: dial_ok_def on_time_def)
  have fine: "\<not> ((\<exists>t \<in> set [5, 20]. env_clock_max toy_env < t + CLIENT_HANDSHAKE_TIMEOUT) \<or> cd_unix toy_client_draws < 0
      \<or> (\<exists>k. cd_pad toy_client_draws k = None) \<or> (\<exists>e. Inr toy_seed = Inl e))"
    by (simp add: toy_env_def toy_client_draws_def CLIENT_HANDSHAKE_TIMEOUT_def)
  have "\<forall>dl. deadline (env_clock_max toy_env) (hd [5, 20]) (cl_handshake_timeout ?cl) CLIENT_HANDSHAKE_TIMEOUT = Inr dl
      \<longrightarrow> client_limit dl [5, 20] \<le> 20"
    by (auto simp: client_limit_def instant_checked_add_def split: if_splits)
  moreover have "kdfs_ok (hs_kdfs toy_hs)" "20 \<in> set [5, 20 :: nat]" by (simp_all add: toy_hs_def)
  ultimately show ?thesis by (intro ready_unless [OF establish_always_answers [OF piece_io_ok _ toy_env_ok d] fine])
qed

end
