(* ===== verification/NetAddr.thy ===== *)
theory NetAddr
  imports Prelude
begin

text \<open>
  The socket addresses of the Rust standard library, as far as the sources use them: the
  text forms that \<^verbatim>\<open>str::parse::<SocketAddr>\<close> reads and \<^verbatim>\<open>Display\<close> writes, for IPv4 and
  IPv6 with compressed zeros, embedded IPv4 tails and scope ids. Bridge lines, the managed
  transport environment and the WebTunnel configuration all go through them.

  A reader takes the text that is left and gives a value with what it leaves, or \<^term>\<open>None\<close>;
  as every reader of the standard library works atomically, a reader that fails has consumed
  nothing.
\<close>

section \<open>Addresses\<close>

type_synonym ipv4 = "u8 \<times> u8 \<times> u8 \<times> u8"
type_synonym ipv6 = "u16 list"
type_synonym 'a reader = "string \<Rightarrow> ('a \<times> string) option"

datatype ip_addr = IpV4 ipv4 | IpV6 ipv6
datatype socket_addr = SockV4 ipv4 u16 | SockV6 ipv6 u16 "32 word" "32 word"

fun ip_wf :: "ip_addr \<Rightarrow> bool" where
  "ip_wf (IpV4 _) = True"
| "ip_wf (IpV6 segs) = (length segs = 8)"

text \<open>The flow label is the third field of an IPv6 address, its scope the fourth.\<close>

fun sock_wf :: "socket_addr \<Rightarrow> bool" where
  "sock_wf (SockV4 _ _) = True"
| "sock_wf (SockV6 segs _ flow _) = (length segs = 8 \<and> flow = 0)"

fun sock_ip :: "socket_addr \<Rightarrow> ip_addr" where
  "sock_ip (SockV4 ip _) = IpV4 ip"
| "sock_ip (SockV6 ip _ _ _) = IpV6 ip"

fun sock_port :: "socket_addr \<Rightarrow> u16" where
  "sock_port (SockV4 _ p) = p"
| "sock_port (SockV6 _ p _ _) = p"

fun sock_new :: "ip_addr \<Rightarrow> u16 \<Rightarrow> socket_addr" where
  "sock_new (IpV4 ip) p = SockV4 ip p"
| "sock_new (IpV6 ip) p = SockV6 ip p 0 0"

fun is_unspecified :: "ip_addr \<Rightarrow> bool" where
  "is_unspecified (IpV4 ip) = (ip = (0, 0, 0, 0))"
| "is_unspecified (IpV6 segs) = (segs = replicate 8 0)"

section \<open>Readers\<close>

definition to_digit :: "nat \<Rightarrow> char \<Rightarrow> nat option" where
  "to_digit radix c =
     (let n = of_char c;
          d = (if 48 \<le> n \<and> n \<le> 57 then n - 48 else if 97 \<le> n \<and> n \<le> 122 then n - 87
               else if 65 \<le> n \<and> n \<le> 90 then n - 55 else radix)
      in if d < radix then Some d else None)"

definition is_digit_of :: "nat \<Rightarrow> char \<Rightarrow> bool" where
  "is_digit_of radix c = (to_digit radix c \<noteq> None)"

definition digits_value :: "nat \<Rightarrow> string \<Rightarrow> nat" where
  "digits_value radix ds = foldl (\<lambda>v c. v * radix + the (to_digit radix c)) 0 ds"

definition read_number :: "nat \<Rightarrow> nat option \<Rightarrow> bool \<Rightarrow> nat \<Rightarrow> nat reader" where
  "read_number radix max_digits allow_zero_prefix bound s =
     (let ds = takeWhile (is_digit_of radix) s;
          v = digits_value radix ds
      in if ds = [] \<or> (case max_digits of None \<Rightarrow> False | Some m \<Rightarrow> m < length ds)
            \<or> \<not> allow_zero_prefix \<and> hd ds = CHR ''0'' \<and> 1 < length ds \<or> bound \<le> v
         then None else Some (v, drop (length ds) s))"

fun read_given_char :: "char \<Rightarrow> unit reader" where
  "read_given_char c [] = None"
| "read_given_char c (d # s) = (if d = c then Some ((), s) else None)"

definition reader_bind :: "'a reader \<Rightarrow> ('a \<Rightarrow> 'b reader) \<Rightarrow> 'b reader" where
  "reader_bind r f s = (case r s of None \<Rightarrow> None | Some (x, s') \<Rightarrow> f x s')"

definition reader_return :: "'a \<Rightarrow> 'a reader" where
  "reader_return x s = Some (x, s)"

definition read_octet :: "nat reader" where
  "read_octet = read_number 10 (Some 3) False 256"

definition read_ipv4 :: "ipv4 reader" where
  "read_ipv4 =
     reader_bind read_octet (\<lambda>a. reader_bind (read_given_char CHR ''.'') (\<lambda>_.
     reader_bind read_octet (\<lambda>b. reader_bind (read_given_char CHR ''.'') (\<lambda>_.
     reader_bind read_octet (\<lambda>c. reader_bind (read_given_char CHR ''.'') (\<lambda>_.
     reader_bind read_octet (\<lambda>d. reader_return (of_nat a, of_nat b, of_nat c, of_nat d))))))))"

definition read_separator :: "bool \<Rightarrow> 'a reader \<Rightarrow> 'a reader" where
  "read_separator first r = (if first then r else reader_bind (read_given_char CHR '':'') (\<lambda>_. r))"

text \<open>The groups read so far are \<open>acc\<close>; at most \<open>n\<close> more fit. An IPv4 tail takes two groups.\<close>

primrec read_groups :: "nat \<Rightarrow> u16 list \<Rightarrow> string \<Rightarrow> u16 list \<times> bool \<times> string" where
  "read_groups 0 acc s = (acc, False, s)"
| "read_groups (Suc n) acc s =
     (case (if 0 < n then read_separator (acc = []) read_ipv4 s else None) of
        Some ((a, b, c, d), s') \<Rightarrow> (acc @ [rd16 a b, rd16 c d], True, s')
      | None \<Rightarrow>
          (case read_separator (acc = []) (read_number 16 (Some 4) True 65536) s of
             Some (g, s') \<Rightarrow> read_groups n (acc @ [of_nat g]) s'
           | None \<Rightarrow> (acc, False, s)))"

definition read_ipv6 :: "ipv6 reader" where
  "read_ipv6 s =
     (let (head, head_ipv4, s) = read_groups 8 [] s in
      if length head = 8 then Some (head, s)
      else if head_ipv4 then None
      else case s of
        CHR '':'' # CHR '':'' # s \<Rightarrow>
          let (tail, _, s) = read_groups (8 - (length head + 1)) [] s
          in Some (head @ replicate (8 - length head - length tail) 0 @ tail, s)
      | _ \<Rightarrow> None)"

definition read_port :: "u16 reader" where
  "read_port = reader_bind (read_given_char CHR '':'') (\<lambda>_.
     reader_bind (read_number 10 None True (2 ^ 16)) (\<lambda>p. reader_return (of_nat p)))"

definition read_scope_id :: "32 word reader" where
  "read_scope_id s =
     (case reader_bind (read_given_char CHR ''%'') (\<lambda>_. read_number 10 None True (2 ^ 32)) s of
        None \<Rightarrow> Some (0, s)
      | Some (n, s) \<Rightarrow> Some (of_nat n, s))"

definition read_socket_v4 :: "socket_addr reader" where
  "read_socket_v4 = reader_bind read_ipv4 (\<lambda>ip. reader_bind read_port (\<lambda>p. reader_return (SockV4 ip p)))"

definition read_socket_v6 :: "socket_addr reader" where
  "read_socket_v6 =
     reader_bind (read_given_char CHR ''['') (\<lambda>_. reader_bind read_ipv6 (\<lambda>ip.
     reader_bind read_scope_id (\<lambda>scope. reader_bind (read_given_char CHR '']'') (\<lambda>_.
     reader_bind read_port (\<lambda>p. reader_return (SockV6 ip p 0 scope))))))"

definition parse_with :: "'a reader \<Rightarrow> string \<Rightarrow> 'a option" where
  "parse_with r s = (case r s of Some (x, []) \<Rightarrow> Some x | _ \<Rightarrow> None)"

definition read_either :: "'a reader \<Rightarrow> 'a reader \<Rightarrow> 'a reader" where
  "read_either r q s = (case r s of None \<Rightarrow> q s | Some x \<Rightarrow> Some x)"

definition parse_socket_addr :: "string \<Rightarrow> socket_addr option" where
  "parse_socket_addr = parse_with (read_either read_socket_v4 read_socket_v6)"

text \<open>\<^verbatim>\<open>Ipv6Addr\<close> and \<^verbatim>\<open>IpAddr\<close> alone.\<close>

definition parse_ipv6 :: "string \<Rightarrow> ipv6 option" where
  "parse_ipv6 = parse_with read_ipv6"

definition parse_ip :: "string \<Rightarrow> ip_addr option" where
  "parse_ip = parse_with (read_either
     (reader_bind read_ipv4 (\<lambda>ip. reader_return (IpV4 ip))) (reader_bind read_ipv6 (\<lambda>ip. reader_return (IpV6 ip))))"

section \<open>Printing\<close>

definition radix_char :: "nat \<Rightarrow> char" where
  "radix_char d = char_of (if d < 10 then 48 + d else 87 + d)"

function show_radix :: "nat \<Rightarrow> nat \<Rightarrow> string" where
  "show_radix r n = (if n < r \<or> r < 2 then [radix_char n] else show_radix r (n div r) @ [radix_char (n mod r)])"
  by pat_completeness auto
termination
  by (relation "measure snd") auto

declare show_radix.simps [simp del]

abbreviation show_hex :: "u16 \<Rightarrow> string" where "show_hex g \<equiv> show_radix 16 (unat g)"
abbreviation show_dec :: "'a::len word \<Rightarrow> string" where "show_dec w \<equiv> show_radix 10 (unat w)"

fun show_ipv4 :: "ipv4 \<Rightarrow> string" where
  "show_ipv4 (a, b, c, d) = show_dec a @ ''.'' @ show_dec b @ ''.'' @ show_dec c @ ''.'' @ show_dec d"

definition more_groups :: "u16 list \<Rightarrow> string" where
  "more_groups gs = concat (map (\<lambda>g. CHR '':'' # show_hex g) gs)"

fun fmt_subslice :: "u16 list \<Rightarrow> string" where
  "fmt_subslice [] = []"
| "fmt_subslice (g # gs) = show_hex g @ more_groups gs"

text \<open>The longest run of zero groups, the first of the longest: a start and a length.\<close>

fun zero_span :: "nat \<Rightarrow> nat \<times> nat \<Rightarrow> nat \<times> nat \<Rightarrow> u16 list \<Rightarrow> nat \<times> nat" where
  "zero_span i longest current [] = longest"
| "zero_span i longest current (g # gs) =
     (if g = 0 then
        let current = (if snd current = 0 then i else fst current, Suc (snd current))
        in zero_span (Suc i) (if snd current > snd longest then current else longest) current gs
      else zero_span (Suc i) longest (0, 0) gs)"

definition show_ipv6 :: "ipv6 \<Rightarrow> string" where
  "show_ipv6 segs =
     (if take 6 segs = [0, 0, 0, 0, 0, 0xFFFF] \<and> length segs = 8 then
        ''::ffff:'' @ show_ipv4 (be16 (segs ! 6) ! 0, be16 (segs ! 6) ! 1, be16 (segs ! 7) ! 0, be16 (segs ! 7) ! 1)
      else let (start, len) = zero_span 0 (0, 0) (0, 0) segs in
        if 1 < len then fmt_subslice (take start segs) @ ''::'' @ fmt_subslice (drop (start + len) segs)
        else fmt_subslice segs)"

fun show_ip :: "ip_addr \<Rightarrow> string" where
  "show_ip (IpV4 ip) = show_ipv4 ip"
| "show_ip (IpV6 segs) = show_ipv6 segs"

fun show_socket_addr :: "socket_addr \<Rightarrow> string" where
  "show_socket_addr (SockV4 ip p) = show_ipv4 ip @ '':'' @ show_dec p"
| "show_socket_addr (SockV6 segs p flow scope) =
     ''['' @ show_ipv6 segs @ (if scope = 0 then '''' else ''%'' @ show_dec scope) @ '']:'' @ show_dec p"

section \<open>Numbers are read back\<close>

definition stops :: "nat \<Rightarrow> string \<Rightarrow> bool" where
  "stops radix s = (s = [] \<or> \<not> is_digit_of radix (hd s))"

lemma radix_char_digit:
  assumes "d < r" "r \<le> 16"
  shows "to_digit r (radix_char d) = Some d"
  using assms by (auto simp: to_digit_def radix_char_def Let_def of_char_of)

lemma show_radix_digits: "2 \<le> r \<Longrightarrow> c \<in> set (show_radix r n) \<Longrightarrow> \<exists>d < r. c = radix_char d"
proof (induction r n rule: show_radix.induct)
  case (1 r n)
  have "n mod r < r" using 1 by simp
  then have last: "\<exists>d < r. radix_char (n mod r) = radix_char d" by blast
  from 1 consider "n < r" "c = radix_char n" | "\<not> n < r" "c \<in> set (show_radix r (n div r))" | "c = radix_char (n mod r)"
    by (auto simp: show_radix.simps [of r n] split: if_splits)
  then show ?case using 1 last by cases auto
qed

lemma show_radix_is_digit:
  "2 \<le> r \<Longrightarrow> r \<le> 16 \<Longrightarrow> c \<in> set (show_radix r n) \<Longrightarrow> is_digit_of r c"
  using show_radix_digits [of r c n] by (auto simp: is_digit_of_def radix_char_digit)

lemma show_radix_not_Nil [simp]: "show_radix r n \<noteq> []"
  by (subst show_radix.simps) simp

lemma digits_value_snoc: "digits_value r (ds @ [c]) = digits_value r ds * r + the (to_digit r c)"
  by (simp add: digits_value_def)

lemma digits_value_show [simp]: "2 \<le> r \<Longrightarrow> r \<le> 16 \<Longrightarrow> digits_value r (show_radix r n) = n"
proof (induction r n rule: show_radix.induct)
  case (1 r n)
  show ?case
  proof (cases "n < r")
    case True
    with 1 show ?thesis by (subst show_radix.simps) (simp add: digits_value_def radix_char_digit)
  next
    case False
    with 1 show ?thesis by (subst show_radix.simps) (simp add: digits_value_snoc radix_char_digit)
  qed
qed

lemma show_radix_length: "2 \<le> r \<Longrightarrow> n < r ^ k \<Longrightarrow> 0 < k \<Longrightarrow> length (show_radix r n) \<le> k"
proof (induction k arbitrary: n)
  case (Suc k)
  show ?case
  proof (cases "n < r")
    case True
    then show ?thesis by (subst show_radix.simps) simp
  next
    case False
    with Suc.prems have k: "0 < k" by (cases k) auto
    from Suc.prems have "n div r < r ^ k" by (simp add: less_mult_imp_div_less mult.commute)
    with Suc.IH k Suc.prems False show ?thesis by (subst show_radix.simps) simp
  qed
qed simp

lemma radix_char_zero: "d < 16 \<Longrightarrow> radix_char d = CHR ''0'' \<longleftrightarrow> d = 0"
proof
  assume z: "d < 16" "radix_char d = CHR ''0''"
  have "to_digit 16 CHR ''0'' = Some 0" by (simp add: to_digit_def)
  with z radix_char_digit [of d 16] show "d = 0" by simp
qed (simp add: radix_char_def char_of_def bit_0)

lemma show_radix_no_zero_prefix:
  assumes "2 \<le> r" "r \<le> 16" "hd (show_radix r n) = CHR ''0''"
  shows "length (show_radix r n) = 1"
proof -
  have "n < r \<or> hd (show_radix r n) \<noteq> CHR ''0''" using assms(1,2)
  proof (induction r n rule: show_radix.induct)
    case (1 r n)
    show ?case
    proof (cases "n < r")
      case False
      show ?thesis
      proof (cases "n div r < r")
        case True
        moreover have "n div r \<noteq> 0" using False 1 by (simp add: div_eq_0_iff)
        moreover have "n div r < 16" using True 1 by simp
        ultimately have "radix_char (n div r) \<noteq> CHR ''0''" by (simp add: radix_char_zero)
        with True False 1 show ?thesis
          by (subst show_radix.simps) (simp add: show_radix.simps [of r "n div r"])
      next
        case far: False
        with False 1 have "hd (show_radix r (n div r)) \<noteq> CHR ''0''" by simp
        with False 1 show ?thesis by (subst show_radix.simps) simp
      qed
    qed simp
  qed
  with assms show ?thesis by (auto simp: show_radix.simps [of r n])
qed

lemma takeWhile_stops: "(\<forall>c \<in> set xs. is_digit_of r c) \<Longrightarrow> stops r rest \<Longrightarrow> takeWhile (is_digit_of r) (xs @ rest) = xs"
  by (cases rest) (auto simp: stops_def takeWhile_append)

lemma read_number_show:
  assumes "2 \<le> r" "r \<le> 16" "stops r rest" "n < bound" "\<And>m. md = Some m \<Longrightarrow> 0 < m \<and> n < r ^ m"
  shows "read_number r md z bound (show_radix r n @ rest) = Some (n, rest)"
proof -
  have t: "takeWhile (is_digit_of r) (show_radix r n @ rest) = show_radix r n"
    using assms by (intro takeWhile_stops) (auto intro: show_radix_is_digit)
  have "\<not> m < length (show_radix r n)" if "md = Some m" for m
    using show_radix_length [of r n m] assms(1) assms(5) [OF that] by simp
  with t assms show_radix_no_zero_prefix [of r n] show ?thesis
    by (auto simp: read_number_def Let_def split: option.splits)
qed

lemma read_number_stops: "stops r s \<Longrightarrow> read_number r md z bound s = None"
  by (cases s) (auto simp: read_number_def stops_def)

section \<open>Addresses are read back\<close>

lemmas reader_simps = reader_bind_def reader_return_def read_separator_def

lemma is_digit_of_simps [simp]:
  "\<not> is_digit_of 10 CHR ''.''" "\<not> is_digit_of 10 CHR '':''" "\<not> is_digit_of 10 CHR '']''" "\<not> is_digit_of 10 CHR ''%''"
  "\<not> is_digit_of 16 CHR '':''" "\<not> is_digit_of 16 CHR '']''" "\<not> is_digit_of 16 CHR ''%''" "\<not> is_digit_of 16 CHR ''.''"
  "\<not> is_digit_of 10 CHR ''[''"
  by (simp_all add: is_digit_of_def to_digit_def)

lemma stops_Cons [simp]: "stops r [] " "stops r (c # s) \<longleftrightarrow> \<not> is_digit_of r c"
  by (simp_all add: stops_def)

lemma read_octet_show: "stops 10 rest \<Longrightarrow> read_octet (show_dec (w :: u8) @ rest) = Some (unat w, rest)"
  unfolding read_octet_def using unsigned_less [of w, where ?'a = nat] by (intro read_number_show) auto

lemma read_ipv4_show: "stops 10 rest \<Longrightarrow> read_ipv4 (show_ipv4 ip @ rest) = Some (ip, rest)"
  by (cases ip) (simp add: read_ipv4_def reader_simps read_octet_show)

text \<open>An IPv4 address is not mistaken for a group: after its digits comes no dot.\<close>

lemma read_ipv4_no_dot:
  assumes "CHR ''.'' \<notin> set xs" "stops 10 rest" "rest = [] \<or> hd rest \<noteq> CHR ''.''"
  shows "read_ipv4 (xs @ rest) = None"
proof (cases "read_octet (xs @ rest)")
  case (Some r)
  let ?ds = "takeWhile (is_digit_of 10) (xs @ rest)"
  from Some obtain v where r: "r = (v, drop (length ?ds) (xs @ rest))"
    by (auto simp: read_octet_def read_number_def Let_def split: if_splits)
  have "?ds = takeWhile (is_digit_of 10) xs"
    using assms(2) by (cases rest) (auto simp: takeWhile_append intro: takeWhile_eq_all_conv [THEN iffD2, symmetric])
  then have "drop (length ?ds) (xs @ rest) = dropWhile (is_digit_of 10) xs @ rest"
    by (simp add: dropWhile_eq_drop length_takeWhile_le)
  moreover have "read_given_char CHR ''.'' (dropWhile (is_digit_of 10) xs @ rest) = None"
  proof (cases "dropWhile (is_digit_of 10) xs @ rest")
    case (Cons c s)
    then have "c \<in> set xs \<or> rest \<noteq> [] \<and> c = hd rest"
      by (metis Cons_eq_append_conv list.sel(1) list.set_intros(1) set_dropWhileD list.distinct(1))
    with assms Cons show ?thesis by auto
  qed (simp only: read_given_char.simps)
  ultimately show ?thesis using Some r by (simp add: read_ipv4_def reader_simps)
qed (simp add: read_ipv4_def reader_simps)

lemma hex_no_dot: "CHR ''.'' \<notin> set (show_hex g)"
  using show_radix_is_digit [of 16 "CHR ''.''" "unat g"] by auto

lemma read_group_show:
  "stops 16 rest \<Longrightarrow> read_number 16 (Some 4) True 65536 (show_hex g @ rest) = Some (unat g, rest)"
  using unsigned_less [of g, where ?'a = nat] by (intro read_number_show) auto

definition group_end :: "string \<Rightarrow> bool" where
  "group_end s = (s = [] \<or> hd s \<in> {CHR '':'', CHR '']'', CHR ''%''})"

lemma group_end_stops: "group_end s \<Longrightarrow> stops 16 s \<and> stops 10 s \<and> (s = [] \<or> hd s \<noteq> CHR ''.'')"
  by (auto simp: group_end_def stops_def)

lemma group_end_more: "group_end rest \<Longrightarrow> group_end (more_groups gs @ rest)"
  by (cases gs) (auto simp: more_groups_def group_end_def)

text \<open>Where no group follows, the groups end.\<close>

definition groups_end :: "string \<Rightarrow> bool" where
  "groups_end s = (s = [] \<or> hd s \<in> {CHR '']'', CHR ''%''} \<or> take 2 s = ''::'')"

lemma groups_end_group_end: "groups_end s \<Longrightarrow> group_end s"
  by (cases s) (auto simp: groups_end_def group_end_def)

lemma read_groups_end: "groups_end s \<Longrightarrow> read_groups n acc s = (acc, False, s)"
proof (cases n)
  case (Suc m)
  assume e: "groups_end s"
  then have none: "read_number 16 (Some 4) True 65536 s = None" "read_ipv4 s = None"
    using group_end_stops [OF groups_end_group_end [OF e]] read_ipv4_no_dot [of "[]" s]
    by (auto intro: read_number_stops)
  show ?thesis
  proof (cases "take 2 s = ''::''")
    case True
    then obtain u where "s = ''::'' @ u" by (metis append_take_drop_id)
    with Suc none read_ipv4_no_dot [of "[]" "CHR '':'' # u"] show ?thesis
      by (simp add: reader_simps read_number_stops)
  next
    case False
    with e have "read_given_char CHR '':'' s = None" by (cases s) (auto simp: groups_end_def)
    with Suc none show ?thesis by (simp add: reader_simps)
  qed
qed simp

lemma read_groups_step:
  assumes "group_end rest"
  shows "read_groups (Suc n) acc ((if acc = [] then '''' else '':'') @ show_hex g @ rest) = read_groups n (acc @ [g]) rest"
  using assms read_ipv4_no_dot [OF hex_no_dot, of rest g] group_end_stops [OF assms]
  by (auto simp: reader_simps read_group_show)

lemma read_groups_more:
  "groups_end rest \<Longrightarrow> length gs \<le> n \<Longrightarrow> acc \<noteq> []
   \<Longrightarrow> read_groups n acc (more_groups gs @ rest) = (acc @ gs, False, rest)"
proof (induction gs arbitrary: n acc)
  case Nil
  then show ?case by (simp add: more_groups_def read_groups_end)
next
  case (Cons g gs)
  then obtain m where m: "n = Suc m" "length gs \<le> m" by (cases n) auto
  have "read_groups n acc (more_groups (g # gs) @ rest) = read_groups m (acc @ [g]) (more_groups gs @ rest)"
    using read_groups_step [OF group_end_more [OF groups_end_group_end [OF Cons.prems(1)]], of m acc g gs] m Cons.prems
    by (simp add: more_groups_def)
  with Cons.IH [of m "acc @ [g]"] m Cons.prems show ?case by simp
qed

lemma read_groups_fmt:
  assumes "groups_end rest" "length gs \<le> n"
  shows "read_groups n [] (fmt_subslice gs @ rest) = (gs, False, rest)"
proof (cases gs)
  case Nil
  with assms show ?thesis by (simp add: read_groups_end)
next
  case (Cons g gs')
  with assms obtain m where m: "n = Suc m" "length gs' \<le> m" by (cases n) auto
  have "read_groups n [] (fmt_subslice gs @ rest) = read_groups m [g] (more_groups gs' @ rest)"
    using read_groups_step [OF group_end_more [OF groups_end_group_end [OF assms(1)]], of m "[]" g gs'] m Cons by simp
  with read_groups_more [OF assms(1) m(2), of "[g]"] Cons show ?thesis by simp
qed

text \<open>The span that is left out when an address is printed holds zeros only.\<close>

definition zeros_at :: "u16 list \<Rightarrow> nat \<times> nat \<Rightarrow> bool" where
  "zeros_at xs sp = (fst sp + snd sp \<le> length xs \<and> take (snd sp) (drop (fst sp) xs) = replicate (snd sp) 0)"

lemma zeros_at_snoc: "zeros_at xs sp \<Longrightarrow> zeros_at (xs @ ys) sp"
  by (auto simp: zeros_at_def)

lemma zeros_at_Suc:
  assumes "zeros_at xs (a, k)" "a + k = length xs"
  shows "zeros_at (xs @ [0]) (a, Suc k)"
  using assms by (auto simp: zeros_at_def replicate_append_same)

lemma zero_span_zeros:
  "zeros_at xs longest \<Longrightarrow> zeros_at xs current \<Longrightarrow> 0 < snd current \<longrightarrow> fst current + snd current = length xs
   \<Longrightarrow> zeros_at (xs @ gs) (zero_span (length xs) longest current gs)"
proof (induction gs arbitrary: xs longest current)
  case (Cons g gs)
  show ?case
  proof (cases "g = 0")
    case True
    let ?c = "(if snd current = 0 then length xs else fst current, Suc (snd current))"
    have c: "zeros_at (xs @ [0]) ?c"
      using Cons.prems zeros_at_Suc [of xs "fst current" "snd current"] zeros_at_Suc [of xs "length xs" 0]
      by (auto simp: zeros_at_def)
    moreover have "fst ?c + snd ?c = length (xs @ [0])" using Cons.prems by auto
    moreover have "zeros_at (xs @ [0]) longest" using Cons.prems(1) by (rule zeros_at_snoc)
    ultimately have "zeros_at ((xs @ [0]) @ gs)
        (zero_span (length (xs @ [0])) (if snd ?c > snd longest then ?c else longest) ?c gs)"
      by (intro Cons.IH) auto
    with True show ?thesis by (simp add: Let_def)
  next
    case False
    have "zeros_at ((xs @ [g]) @ gs) (zero_span (length (xs @ [g])) longest (0, 0) gs)"
      using Cons.prems zeros_at_snoc [of xs longest "[g]"] by (intro Cons.IH) (auto simp: zeros_at_def)
    with False show ?thesis by simp
  qed
qed simp

lemma compressed_split:
  assumes "zeros_at segs (start, len)"
  shows "segs = take start segs @ replicate len 0 @ drop (start + len) segs"
  using assms append_take_drop_id [of start segs] append_take_drop_id [of len "drop start segs"]
  by (simp add: zeros_at_def add.commute)

lemma read_ipv6_mapped:
  assumes "length segs = 8" "take 6 segs = [0, 0, 0, 0, 0, 0xFFFF]" "stops 10 rest"
  shows "read_ipv6 (show_ipv6 segs @ rest) = Some (segs, rest)"
proof -
  from assms(1) obtain a b c d e f x y where segs: "segs = [a, b, c, d, e, f, x, y]"
    by (auto simp: length_Suc_conv numeral_eq_Suc)
  let ?v4 = "(be16 x ! 0, be16 x ! 1, be16 y ! 0, be16 y ! 1)"
  have hex: "''ffff'' = show_hex 0xFFFF" by (simp add: show_radix.simps radix_char_def char_of_def bit_0)
  have "read_groups 7 [] (''ffff'' @ CHR '':'' # show_ipv4 ?v4 @ rest)
      = read_groups (Suc 5) [0xFFFF] (CHR '':'' # show_ipv4 ?v4 @ rest)"
    unfolding hex using read_groups_step [of "CHR '':'' # show_ipv4 ?v4 @ rest" 6 "[]" "0xFFFF"]
    by (simp add: group_end_def del: show_ipv4.simps)
  also have "\<dots> = ([0xFFFF, x, y], True, rest)"
    using read_ipv4_show [OF assms(3), of ?v4] by (subst read_groups.simps) (simp add: reader_simps be16_def del: show_ipv4.simps)
  finally have tail: "read_groups 7 [] (''ffff'' @ CHR '':'' # show_ipv4 ?v4 @ rest) = ([0xFFFF, x, y], True, rest)" .
  have "read_groups 8 [] (''::'' @ ''ffff'' @ CHR '':'' # show_ipv4 ?v4 @ rest)
      = ([], False, ''::'' @ ''ffff'' @ CHR '':'' # show_ipv4 ?v4 @ rest)"
    by (rule read_groups_end) (simp add: groups_end_def)
  with tail segs assms(2) show ?thesis
    by (simp add: read_ipv6_def show_ipv6_def numeral_eq_Suc del: show_ipv4.simps)
qed

lemma read_ipv6_show:
  assumes "length segs = 8" "groups_end rest"
  shows "read_ipv6 (show_ipv6 segs @ rest) = Some (segs, rest)"
proof -
  have rest: "stops 10 rest" using group_end_stops [OF groups_end_group_end [OF assms(2)]] by blast
  obtain start len where sp: "zero_span 0 (0, 0) (0, 0) segs = (start, len)" by fastforce
  have z: "zeros_at segs (start, len)" using zero_span_zeros [of "[]" "(0, 0)" "(0, 0)" segs] sp by (simp add: zeros_at_def)
  let ?h = "take start segs" and ?t = "drop (start + len) segs"
  show ?thesis
  proof (cases "take 6 segs = [0, 0, 0, 0, 0, 0xFFFF]")
    case True
    with assms rest show ?thesis by (intro read_ipv6_mapped)
  next
    case plain: False
    show ?thesis
    proof (cases "1 < len")
      case True
      from z assms(1) have le: "start + len \<le> 8" by (simp add: zeros_at_def)
      have "read_groups 8 [] (fmt_subslice ?h @ ''::'' @ fmt_subslice ?t @ rest) = (?h, False, ''::'' @ fmt_subslice ?t @ rest)"
        using le assms(1) by (intro read_groups_fmt) (simp_all add: groups_end_def)
      moreover have "read_groups (8 - (start + 1)) [] (fmt_subslice ?t @ rest) = (?t, False, rest)"
        using assms le True by (intro read_groups_fmt) auto
      moreover have "?h @ replicate len 0 @ ?t = segs" using compressed_split [OF z] by simp
      ultimately show ?thesis using plain True sp le assms(1) by (simp add: read_ipv6_def show_ipv6_def)
    next
      case False
      with plain sp assms read_groups_fmt [OF assms(2), of segs 8] show ?thesis
        by (simp add: read_ipv6_def show_ipv6_def)
    qed
  qed
qed

lemma read_port_show: "read_port (CHR '':'' # show_dec (p :: u16)) = Some (p, [])"
  using read_number_show [of 10 "[]" "unat p" "2 ^ 16" None True] unsigned_less [of p, where ?'a = nat]
  by (simp add: read_port_def reader_simps)

lemma read_scope_show:
  "read_scope_id ((if scope = 0 then '''' else ''%'' @ show_dec (scope :: 32 word)) @ CHR '']'' # s) = Some (scope, CHR '']'' # s)"
  using read_number_show [of 10 "CHR '']'' # s" "unat scope" "2 ^ 32" None True] unsigned_less [of scope, where ?'a = nat]
  by (auto simp: read_scope_id_def reader_simps)

theorem parse_show_socket_addr: "sock_wf a \<Longrightarrow> parse_socket_addr (show_socket_addr a) = Some a"
proof (cases a)
  case (SockV4 ip p)
  then show ?thesis
    by (simp add: parse_socket_addr_def parse_with_def read_either_def read_socket_v4_def reader_simps
        read_ipv4_show read_port_show del: show_ipv4.simps)
next
  case (SockV6 segs p flow scope)
  assume "sock_wf a"
  with SockV6 have wf: "length segs = 8" "flow = 0" by simp_all
  let ?scope = "if scope = 0 then '''' else ''%'' @ show_dec scope"
  let ?rest = "?scope @ CHR '']'' # CHR '':'' # show_dec p"
  have "read_ipv6 (show_ipv6 segs @ ?rest) = Some (segs, ?rest)"
    using wf by (intro read_ipv6_show) (auto simp: groups_end_def)
  moreover have "read_ipv4 (CHR ''['' # u) = None" for u using read_ipv4_no_dot [of "[]" "CHR ''['' # u"] by simp
  ultimately show ?thesis
    using SockV6 wf read_scope_show [of scope "CHR '':'' # show_dec p"]
    by (simp add: parse_socket_addr_def parse_with_def read_either_def read_socket_v4_def read_socket_v6_def
        reader_simps read_port_show)
qed

lemma read_groups_length: "read_groups n acc s = (gs, v4, s') \<Longrightarrow> length acc \<le> length gs \<and> length gs \<le> length acc + n"
  by (induction n arbitrary: acc s) (fastforce split: option.splits if_splits prod.splits)+

lemma read_ipv6_length: "read_ipv6 s = Some (ip, s') \<Longrightarrow> length ip = 8"
proof -
  assume r: "read_ipv6 s = Some (ip, s')"
  obtain h v s1 where h: "read_groups 8 [] s = (h, v, s1)" by (rule prod_cases3)
  show ?thesis
  proof (cases "length h = 8")
    case False
    have le: "length h \<le> 8" using read_groups_length [OF h] by simp
    from r h False obtain s2 where s2: "s1 = CHR '':'' # CHR '':'' # s2"
      by (auto simp: read_ipv6_def split: if_splits list.splits char.splits bool.splits)
    obtain t w s3 where t: "read_groups (8 - (length h + 1)) [] s2 = (t, w, s3)" by (rule prod_cases3)
    have "length t \<le> 7 - length h" using read_groups_length [OF t] by simp
    with r h False s2 t le show ?thesis by (auto simp: read_ipv6_def split: if_splits)
  qed (use r h in \<open>simp add: read_ipv6_def\<close>)
qed

theorem parse_socket_addr_wf: "parse_socket_addr s = Some a \<Longrightarrow> sock_wf a"
  by (auto simp: parse_socket_addr_def parse_with_def read_either_def read_socket_v4_def read_socket_v6_def reader_simps
      dest!: read_ipv6_length split: option.splits list.splits prod.splits)

text \<open>What is printed holds no space and, for a socket address, a colon.\<close>

lemma show_radix_plain: "2 \<le> r \<Longrightarrow> r \<le> 16 \<Longrightarrow> c \<in> set (show_radix r n) \<Longrightarrow> 48 \<le> (of_char c :: nat)"
  using show_radix_is_digit [of r c n] by (auto simp: is_digit_of_def to_digit_def Let_def split: if_splits)

lemma show_ipv4_plain: "c \<in> set (show_ipv4 ip) \<Longrightarrow> 33 \<le> (of_char c :: nat)"
  by (cases ip) (auto dest: show_radix_plain [rotated 2])

lemma more_groups_plain: "c \<in> set (more_groups gs) \<Longrightarrow> 33 \<le> (of_char c :: nat)"
  by (auto simp: more_groups_def dest: show_radix_plain [rotated 2] split: if_splits)

lemma fmt_subslice_plain: "c \<in> set (fmt_subslice gs) \<Longrightarrow> 33 \<le> (of_char c :: nat)"
  by (cases gs) (auto dest: show_radix_plain [rotated 2] more_groups_plain)

lemma show_ipv6_plain: "c \<in> set (show_ipv6 segs) \<Longrightarrow> 33 \<le> (of_char c :: nat)"
  by (auto simp: show_ipv6_def Let_def dest: fmt_subslice_plain show_ipv4_plain split: if_splits prod.splits
      simp del: show_ipv4.simps)

lemma show_socket_addr_plain: "c \<in> set (show_socket_addr a) \<Longrightarrow> 33 \<le> (of_char c :: nat)"
  by (cases a) (auto dest: show_ipv6_plain show_ipv4_plain show_radix_plain [rotated 2] split: if_splits
      simp del: show_ipv4.simps)

lemma show_socket_addr_chars:
  "c \<in> set (show_socket_addr a) \<Longrightarrow> is_digit_of 16 c \<or> c \<in> set ''.:[]%f''"
proof -
  have hex: "is_digit_of 16 c" if "c \<in> set (show_radix 16 n)" for c n using that by (auto intro: show_radix_is_digit)
  have dec: "is_digit_of 16 c" if "c \<in> set (show_radix 10 n)" for c n
    using show_radix_is_digit [of 10 c n] that
    by (auto simp: is_digit_of_def to_digit_def Let_def split: if_splits)
  have v4: "is_digit_of 16 c \<or> c = CHR ''.''" if "c \<in> set (show_ipv4 ip)" for c ip
    using that by (cases ip) (auto dest: dec)
  have mg: "is_digit_of 16 c \<or> c = CHR '':''" if "c \<in> set (more_groups gs)" for c gs
    using that by (auto simp: more_groups_def dest: hex split: if_splits)
  have fmt: "is_digit_of 16 c \<or> c = CHR '':''" if "c \<in> set (fmt_subslice gs)" for c gs
    using that by (cases gs) (auto dest: hex mg)
  have v6: "is_digit_of 16 c \<or> c \<in> set ''.:f''" if "c \<in> set (show_ipv6 segs)" for c segs
    using that by (auto simp: show_ipv6_def Let_def dest: fmt v4 split: if_splits prod.splits simp del: show_ipv4.simps)
  show "c \<in> set (show_socket_addr a) \<Longrightarrow> is_digit_of 16 c \<or> c \<in> set ''.:[]%f''"
    by (cases a) (auto dest: dec v4 v6 split: if_splits simp del: show_ipv4.simps)
qed

lemma show_socket_addr_colon: "CHR '':'' \<in> set (show_socket_addr a)"
  by (cases a) auto

end
