(* ===== verification/BridgeLine.thy ===== *)
theory BridgeLine
  imports StdText NetAddr
begin

text \<open>
  \<^verbatim>\<open>crates/bridge-line/src/lib.rs\<close>: the bridge lines of \<^verbatim>\<open>torrc\<close>, their parser and their
  text form. The messages of the errors are not modelled, only the errors.
\<close>

section \<open>Data\<close>

record bridge_line =
  bl_transport :: "string option"
  bl_addr :: socket_addr
  bl_fingerprint :: "string option"
  bl_params :: "(string \<times> string) list"

datatype bridge_error = BridgeEmpty | MissingAddress | InvalidAddress string | InvalidFingerprint string
  | InvalidParam string | InvalidTransport string | DuplicateFingerprint

section \<open>Operations\<close>

definition looks_like_address :: "string \<Rightarrow> bool" where
  "looks_like_address s = (CHR '':'' \<in> set s)"

definition is_ascii_alphabetic :: "char \<Rightarrow> bool" where
  "is_ascii_alphabetic c = (is_ascii_upper c \<or> is_ascii_lower c)"

definition is_valid_transport_name :: "string \<Rightarrow> bool" where
  "is_valid_transport_name s =
     (case s of
        [] \<Rightarrow> False
      | c # cs \<Rightarrow> (is_ascii_alphabetic c \<or> c = CHR ''_'')
          \<and> list_all (\<lambda>c. is_ascii_alphabetic c \<or> is_ascii_digit c \<or> c = CHR ''_'') cs)"

definition is_hex_fingerprint :: "string \<Rightarrow> bool" where
  "is_hex_fingerprint s = (length s = 40 \<and> list_all is_ascii_hexdigit s)"

fun settings_loop ::
  "string list \<Rightarrow> string option \<Rightarrow> (string \<times> string) list \<Rightarrow> bridge_error + string option \<times> (string \<times> string) list" where
  "settings_loop [] fingerprint params = Inr (fingerprint, params)"
| "settings_loop (tok # toks) fingerprint params =
     (case split_once CHR ''='' tok of
        Some (k, v) \<Rightarrow>
          if k = [] then Inl (InvalidParam tok) else settings_loop toks fingerprint (btree_insert k v params)
      | None \<Rightarrow>
          if is_hex_fingerprint tok then
            (if fingerprint \<noteq> None then Inl DuplicateFingerprint
             else settings_loop toks (Some (to_ascii_uppercase tok)) params)
          else Inl (InvalidParam tok))"

definition address_tokens :: "string list \<Rightarrow> bridge_error + string option \<times> string \<times> string list" where
  "address_tokens toks =
     (case toks of
        [] \<Rightarrow> Inl MissingAddress
      | word # toks \<Rightarrow>
          if looks_like_address word then Inr (None, word, toks)
          else if \<not> is_valid_transport_name word then Inl (InvalidTransport word)
          else (case toks of [] \<Rightarrow> Inl MissingAddress | addr # toks \<Rightarrow> Inr (Some word, addr, toks)))"

definition bridge_from_str :: "string \<Rightarrow> bridge_error + bridge_line" where
  "bridge_from_str s =
     (case split_ascii_whitespace s of
        [] \<Rightarrow> Inl BridgeEmpty
      | first # toks \<Rightarrow>
          bindr (address_tokens (if eq_ignore_ascii_case first ''bridge'' then toks else first # toks))
            (\<lambda>(transport, addr_token, toks).
          bindr (ok_or (InvalidAddress addr_token) (parse_socket_addr addr_token)) (\<lambda>addr.
          bindr (settings_loop toks None []) (\<lambda>(fingerprint, params).
            Inr \<lparr> bl_transport = transport, bl_addr = addr, bl_fingerprint = fingerprint, bl_params = params \<rparr>))))"

definition bridge_display :: "bridge_line \<Rightarrow> string" where
  "bridge_display b =
     (let (out, sep) = (case bl_transport b of
            Some t \<Rightarrow> ((if eq_ignore_ascii_case t ''bridge'' then ''Bridge '' else '''') @ t, '' '')
          | None \<Rightarrow> ('''', ''''));
          out = out @ sep @ show_socket_addr (bl_addr b);
          out = (case bl_fingerprint b of Some fp \<Rightarrow> out @ '' '' @ fp | None \<Rightarrow> out)
      in foldl (\<lambda>out (k, v). out @ '' '' @ k @ ''='' @ v) out (bl_params b))"

section \<open>What is parsed is well formed\<close>

definition word_free :: "string \<Rightarrow> bool" where
  "word_free t = (\<forall>c \<in> set t. \<not> is_ascii_whitespace c)"

definition param_wf :: "string \<times> string \<Rightarrow> bool" where
  "param_wf p = (fst p \<noteq> [] \<and> CHR ''='' \<notin> set (fst p) \<and> word_free (fst p) \<and> word_free (snd p))"

definition bridge_wf :: "bridge_line \<Rightarrow> bool" where
  "bridge_wf b =
     ((\<forall>t. bl_transport b = Some t \<longrightarrow> is_valid_transport_name t) \<and> sock_wf (bl_addr b)
      \<and> (\<forall>fp. bl_fingerprint b = Some fp \<longrightarrow> is_hex_fingerprint fp \<and> to_ascii_uppercase fp = fp)
      \<and> btree_inv (bl_params b) \<and> (\<forall>p \<in> set (bl_params b). param_wf p))"

lemma ascii_upper_hex: "is_ascii_hexdigit c \<Longrightarrow> is_ascii_hexdigit (ascii_upper c)"
  by (auto simp: ascii_upper_def is_ascii_lower_def is_ascii_hexdigit_def Let_def of_char_of)

lemma ascii_upper_idem [simp]: "ascii_upper (ascii_upper c) = ascii_upper c"
  by (auto simp: ascii_upper_def is_ascii_lower_def Let_def of_char_of)

lemma uppercase_fingerprint:
  "is_hex_fingerprint t \<Longrightarrow> is_hex_fingerprint (to_ascii_uppercase t) \<and> to_ascii_uppercase (to_ascii_uppercase t) = to_ascii_uppercase t"
  by (auto simp: is_hex_fingerprint_def to_ascii_uppercase_def list_all_iff ascii_upper_hex)

lemma btree_insert_entry: "p \<in> set (btree_insert k v m) \<Longrightarrow> p = (k, v) \<or> p \<in> set m"
  by (induction k v m rule: btree_insert.induct) (auto split: if_splits)

lemma settings_loop_wf:
  assumes "settings_loop toks fp ps = Inr (fp', ps')" "list_all plain toks"
    "\<And>f. fp = Some f \<Longrightarrow> is_hex_fingerprint f \<and> to_ascii_uppercase f = f" "btree_inv ps" "\<forall>p \<in> set ps. param_wf p"
  shows "(\<forall>f. fp' = Some f \<longrightarrow> is_hex_fingerprint f \<and> to_ascii_uppercase f = f) \<and> btree_inv ps' \<and> (\<forall>p \<in> set ps'. param_wf p)"
  using assms
proof (induction toks fp ps rule: settings_loop.induct)
  case (2 tok toks fp ps)
  show ?case
  proof (cases "split_once CHR ''='' tok")
    case None
    with "2.prems"(1) have h: "is_hex_fingerprint tok" "fp = None"
      "settings_loop toks (Some (to_ascii_uppercase tok)) ps = Inr (fp', ps')" by (auto split: if_splits)
    show ?thesis
      by (rule "2.IH"(1) [OF None h(1) _ h(3)]) (use h "2.prems" uppercase_fingerprint [OF h(1)] in auto)
  next
    case (Some kv)
    obtain k v where kv: "kv = (k, v)" by (cases kv)
    with Some "2.prems"(1) have h: "k \<noteq> []" "settings_loop toks fp (btree_insert k v ps) = Inr (fp', ps')"
      by (auto split: if_splits)
    have "param_wf (k, v)" using split_once_SomeD [of "CHR ''=''" tok k v] Some kv "2.prems"(2) h(1)
      by (auto simp: param_wf_def plain_def word_free_def)
    then have ps: "\<forall>p \<in> set (btree_insert k v ps). param_wf p" using "2.prems"(5) by (auto dest: btree_insert_entry)
    show ?thesis
      by (rule "2.IH"(2) [OF Some kv [symmetric] h(1) h(2)])
        (use "2.prems" ps in \<open>auto intro: btree_insert_inv\<close>)
  qed
qed auto

lemma address_tokens_ok:
  "address_tokens toks = Inr (tr, a, rest) \<Longrightarrow> (\<forall>t. tr = Some t \<longrightarrow> is_valid_transport_name t) \<and> set rest \<subseteq> set toks"
  by (auto simp: address_tokens_def split: list.splits if_splits)

lemma bridge_from_str_wf: "bridge_from_str s = Inr b \<Longrightarrow> bridge_wf b"
proof -
  assume r: "bridge_from_str s = Inr b"
  then obtain first toks where w: "split_ascii_whitespace s = first # toks"
    by (auto simp: bridge_from_str_def split: list.splits)
  let ?toks = "if eq_ignore_ascii_case first ''bridge'' then toks else first # toks"
  from r w obtain tr a rest addr fp ps where
    h: "address_tokens ?toks = Inr (tr, a, rest)" "parse_socket_addr a = Some addr" "settings_loop rest None [] = Inr (fp, ps)"
      "b = \<lparr> bl_transport = tr, bl_addr = addr, bl_fingerprint = fp, bl_params = ps \<rparr>"
    by (auto simp: bridge_from_str_def split: prod.splits)
  have "list_all plain (first # toks)" using split_words_plain [of _ s] w by (simp add: list_all_iff)
  then have "list_all plain rest" using address_tokens_ok [OF h(1)] by (auto simp: list_all_iff split: if_splits)
  then show ?thesis
    using settings_loop_wf [OF h(3)] address_tokens_ok [OF h(1)] parse_socket_addr_wf [OF h(2)] h(4)
    by (simp add: bridge_wf_def btree_inv_def)
qed

section \<open>What is printed is parsed back\<close>

definition display_settings :: "bridge_line \<Rightarrow> string list" where
  "display_settings b = (case bl_fingerprint b of Some fp \<Rightarrow> [fp] | None \<Rightarrow> []) @ map (\<lambda>(k, v). k @ ''='' @ v) (bl_params b)"

definition display_words :: "bridge_line \<Rightarrow> string list" where
  "display_words b =
     (case bl_transport b of Some t \<Rightarrow> (if eq_ignore_ascii_case t ''bridge'' then [''Bridge''] else []) @ [t] | None \<Rightarrow> [])
     @ show_socket_addr (bl_addr b) # display_settings b"

lemma foldl_spaced:
  "foldl (\<lambda>out (k, v). out @ CHR '' '' # k @ CHR ''='' # v) out ps = out @ spaced (map (\<lambda>(k, v). k @ CHR ''='' # v) ps)"
  by (induction ps arbitrary: out) (auto simp: spaced_def)

lemma spaced_append: "spaced (xs @ ys) = spaced xs @ spaced ys"
  by (simp add: spaced_def)

lemma bridge_display_words: "CHR '' '' # bridge_display b = spaced (display_words b)"
  by (auto simp: bridge_display_def display_words_def display_settings_def foldl_spaced spaced_append Let_def
      split: option.splits) (auto simp: spaced_def)

lemma name_plain: "is_valid_transport_name t \<Longrightarrow> plain t \<and> \<not> looks_like_address t"
  by (cases t)
    (auto simp: is_valid_transport_name_def plain_def looks_like_address_def is_ascii_alphabetic_def is_ascii_upper_def
      is_ascii_lower_def is_ascii_digit_def is_ascii_whitespace_def Let_def list_all_iff)

lemma fingerprint_plain: "is_hex_fingerprint t \<Longrightarrow> plain t \<and> CHR ''='' \<notin> set t"
  by (auto simp: is_hex_fingerprint_def plain_def is_ascii_hexdigit_def is_ascii_whitespace_def Let_def list_all_iff)

lemma address_plain: "plain (show_socket_addr a) \<and> looks_like_address (show_socket_addr a)"
  using show_socket_addr_plain [of _ a] show_socket_addr_colon [of a]
  by (fastforce simp: plain_def looks_like_address_def is_ascii_whitespace_def)

lemma display_words_plain: "bridge_wf b \<Longrightarrow> list_all plain (display_words b)"
proof -
  assume b: "bridge_wf b"
  have "plain (k @ ''='' @ v)" if "param_wf (k, v)" for k v
    using that by (auto simp: param_wf_def plain_def word_free_def is_ascii_whitespace_def)
  then have "list_all plain (display_settings b)"
    using b fingerprint_plain
    by (auto simp: display_settings_def bridge_wf_def list_all_iff split: option.splits)
  moreover have "plain ''Bridge''" by (simp add: plain_def is_ascii_whitespace_def)
  moreover have "plain t" if "bl_transport b = Some t" for t using that b name_plain by (simp add: bridge_wf_def)
  ultimately show ?thesis using address_plain [of "bl_addr b"] by (simp add: display_words_def split: option.split)
qed

lemma settings_loop_params:
  "\<forall>p \<in> set ps. param_wf p
   \<Longrightarrow> settings_loop (map (\<lambda>(k, v). k @ ''='' @ v) ps) fp m = Inr (fp, fold (\<lambda>(k, v). btree_insert k v) ps m)"
  by (induction ps arbitrary: m) (auto simp: param_wf_def split_once_append)

lemma settings_loop_display: "bridge_wf b \<Longrightarrow> settings_loop (display_settings b) None [] = Inr (bl_fingerprint b, bl_params b)"
proof -
  assume b: "bridge_wf b"
  have p: "settings_loop (map (\<lambda>(k, v). k @ ''='' @ v) (bl_params b)) fp [] = Inr (fp, bl_params b)" for fp
    using settings_loop_params [of "bl_params b" fp "[]"] btree_rebuild [of "[]" "bl_params b"] b by (simp add: bridge_wf_def)
  show ?thesis
  proof (cases "bl_fingerprint b")
    case (Some f)
    with b have f: "is_hex_fingerprint f" "to_ascii_uppercase f = f" by (auto simp: bridge_wf_def)
    then have "split_once CHR ''='' f = None" using fingerprint_plain by (auto simp: split_once_None)
    with f p Some show ?thesis by (simp add: display_settings_def)
  qed (use p in \<open>simp add: display_settings_def\<close>)
qed

lemma bridge_parse_display:
  assumes "bridge_wf b" shows "bridge_from_str (bridge_display b) = Inr b"
proof -
  obtain w ws where ws: "display_words b = w # ws" by (cases "display_words b") (auto simp: display_words_def)
  have "bridge_display b = w @ spaced ws" using bridge_display_words [of b] ws by (simp add: spaced_def)
  then have split: "split_ascii_whitespace (bridge_display b) = display_words b"
    using display_words_plain [OF assms] ws by (simp add: split_words)
  have addr: "\<not> eq_ignore_ascii_case (show_socket_addr (bl_addr b)) ''bridge''"
  proof
    assume "eq_ignore_ascii_case (show_socket_addr (bl_addr b)) ''bridge''"
    then have "ascii_lower CHR '':'' \<in> set (to_ascii_lowercase ''bridge'')"
      using show_socket_addr_colon [of "bl_addr b"] unfolding eq_ignore_ascii_case_def to_ascii_lowercase_def
      by (metis image_eqI list.set_map)
    then show False by (simp add: to_ascii_lowercase_def ascii_lower_def is_ascii_upper_def)
  qed
  have br: "eq_ignore_ascii_case ''Bridge'' ''bridge''"
    by (simp add: eq_ignore_ascii_case_def to_ascii_lowercase_def ascii_lower_def is_ascii_upper_def char_of_def bit_0)
  have "parse_socket_addr (show_socket_addr (bl_addr b)) = Some (bl_addr b)"
    using assms by (intro parse_show_socket_addr) (simp add: bridge_wf_def)
  then show ?thesis
    using split addr br settings_loop_display [OF assms] address_plain name_plain assms
    by (cases "bl_transport b") (auto simp: bridge_from_str_def display_words_def address_tokens_def bridge_wf_def)
qed

section \<open>Property\<close>

text \<open>
  C29. Every bridge line that parses has a valid transport name, an upper-case fingerprint of
  forty hex digits and distinct, ordered settings, and its text form, with the addresses of
  either family and a transport named like the directive included, parses back to the same line.
\<close>

theorem bridge_line_roundtrip:
  assumes "bridge_from_str s = Inr b"
  shows "bridge_wf b \<and> bridge_from_str (bridge_display b) = Inr b"
  using bridge_from_str_wf [OF assms] bridge_parse_display by blast

theorem bridge_line_roundtrip_witness:
  "let b = \<lparr> bl_transport = Some ''bridge'', bl_addr = SockV6 [0xfe80, 0, 0, 0, 0, 0, 0, 1] 443 0 7,
             bl_fingerprint = Some (replicate 40 CHR ''A''), bl_params = [(''a'', ''''), (''b'', ''2'')] \<rparr>
   in bridge_from_str (bridge_display b) = Inr b \<and> bridge_wf b"
proof -
  let ?b = "\<lparr> bl_transport = Some ''bridge'', bl_addr = SockV6 [0xfe80, 0, 0, 0, 0, 0, 0, 1] 443 0 7,
             bl_fingerprint = Some (replicate 40 CHR ''A''), bl_params = [(''a'', ''''), (''b'', ''2'')] \<rparr>"
  have "bridge_wf ?b"
    by (simp add: bridge_wf_def is_valid_transport_name_def is_ascii_alphabetic_def is_ascii_lower_def is_ascii_upper_def
        is_hex_fingerprint_def is_ascii_hexdigit_def to_ascii_uppercase_def ascii_upper_def btree_inv_def param_wf_def
        word_free_def is_ascii_whitespace_def list_all_iff)
  from bridge_line_roundtrip [OF bridge_parse_display [OF this]] show ?thesis by (simp only: Let_def simp_thms)
qed

end
