(* ===== verification/PtEnv.thy ===== *)
theory PtEnv
  imports Args StateFile StdText NetAddr
begin

text \<open>
  \<^verbatim>\<open>crates/core/src/helpers.rs\<close>: what a managed transport reads from the \<^verbatim>\<open>TOR_PT_\<close>
  variables its parent sets. The environment is a function from names to byte strings; the
  \<^verbatim>\<open>url\<close> crate and the \<^verbatim>\<open>Debug\<close> form of an ill-formed value are arguments. Log lines are
  left out.
\<close>

section \<open>The environment\<close>

type_synonym environment = "string \<Rightarrow> string option"

datatype var_error = NotPresent | NotUnicode string

definition env_var :: "environment \<Rightarrow> string \<Rightarrow> var_error + string" where
  "env_var V name =
     (case V name of
        None \<Rightarrow> Inl NotPresent
      | Some v \<Rightarrow> if utf8_valid (str_bytes v) then Inr v else Inl (NotUnicode v))"

fun var_error_display :: "(string \<Rightarrow> string) \<Rightarrow> var_error \<Rightarrow> string" where
  "var_error_display dbg NotPresent = ''environment variable not found''"
| "var_error_display dbg (NotUnicode v) = ''environment variable was not valid unicode: '' @ dbg v"

definition CURRENT_TRANSPORT_VER :: string where "CURRENT_TRANSPORT_VER = ''1''"
definition MANAGED_VER :: string where "MANAGED_VER = ''TOR_PT_MANAGED_TRANSPORT_VER''"
definition STATE_LOCATION :: string where "STATE_LOCATION = ''TOR_PT_STATE_LOCATION''"
definition CLIENT_TRANSPORTS :: string where "CLIENT_TRANSPORTS = ''TOR_PT_CLIENT_TRANSPORTS''"
definition PROXY :: string where "PROXY = ''TOR_PT_PROXY''"
definition SERVER_TRANSPORTS :: string where "SERVER_TRANSPORTS = ''TOR_PT_SERVER_TRANSPORTS''"
definition SERVER_TRANSPORT_OPTIONS :: string where "SERVER_TRANSPORT_OPTIONS = ''TOR_PT_SERVER_TRANSPORT_OPTIONS''"
definition SERVER_BINDADDR :: string where "SERVER_BINDADDR = ''TOR_PT_SERVER_BINDADDR''"
definition AUTH_COOKIE_FILE :: string where "AUTH_COOKIE_FILE = ''TOR_PT_AUTH_COOKIE_FILE''"
definition ORPORT :: string where "ORPORT = ''TOR_PT_ORPORT''"
definition EXTENDED_SERVER_PORT :: string where "EXTENDED_SERVER_PORT = ''TOR_PT_EXTENDED_SERVER_PORT''"
definition EXIT_ON_STDIN_CLOSE :: string where "EXIT_ON_STDIN_CLOSE = ''TOR_PT_EXIT_ON_STDIN_CLOSE''"

lemmas pt_names = MANAGED_VER_def STATE_LOCATION_def CLIENT_TRANSPORTS_def PROXY_def SERVER_TRANSPORTS_def
  SERVER_TRANSPORT_OPTIONS_def SERVER_BINDADDR_def AUTH_COOKIE_FILE_def ORPORT_def EXTENDED_SERVER_PORT_def
  EXIT_ON_STDIN_CLOSE_def

definition required_var :: "(string \<Rightarrow> string) \<Rightarrow> environment \<Rightarrow> string \<Rightarrow> io_error + string" where
  "required_var dbg V name = map_err (\<lambda>e. io_other (var_error_display dbg e)) (env_var V name)"

definition get_managed_transport_ver :: "(string \<Rightarrow> string) \<Rightarrow> environment \<Rightarrow> io_error + string" where
  "get_managed_transport_ver dbg V =
     bindr (required_var dbg V MANAGED_VER) (\<lambda>v.
       if CURRENT_TRANSPORT_VER \<in> set (split_char CHR '','' v) then Inr CURRENT_TRANSPORT_VER
       else Inl (io_other ''no-version''))"

definition is_client :: "environment \<Rightarrow> io_error + bool" where
  "is_client V =
     (case (V CLIENT_TRANSPORTS, V SERVER_TRANSPORTS) of
        (Some _, Some _) \<Rightarrow> Inl (io_other ''ENV-ERROR TOR_PT_[CLIENT,SERVER]_TRANSPORTS both set'')
      | (Some _, None) \<Rightarrow> Inr True
      | (None, Some _) \<Rightarrow> Inr False
      | (None, None) \<Rightarrow> Inl (io_other ''not launched as a managed transport''))"

definition make_state_dir :: "os_errors \<Rightarrow> environment \<Rightarrow> (io_error, string, 'k) fsop" where
  "make_state_dir os V =
     io_bind (io_lift (map_err (\<lambda>_. io_other ''missing required TOR_PT_STATE_LOCATION env var'') (env_var V STATE_LOCATION)))
       (\<lambda>path. io_bind (create_dir_all os path) (\<lambda>_. io_lift (Inr path)))"

definition pt_should_exit_on_stdin_close :: "environment \<Rightarrow> bool" where
  "pt_should_exit_on_stdin_close V = (case env_var V EXIT_ON_STDIN_CLOSE of Inr v \<Rightarrow> v = ''1'' | Inl _ \<Rightarrow> False)"

text \<open>The loop of \<^verbatim>\<open>wait_reader_close\<close> over any reader; it ends when the reader does.\<close>

partial_function (option) wait_reader_close :: "('r \<Rightarrow> (io_error + bytes) \<times> 'r) \<Rightarrow> 'r \<Rightarrow> 'r option" where
  "wait_reader_close read r =
     (case read r of
        (Inl _, r) \<Rightarrow> Some r
      | (Inr bs, r) \<Rightarrow> if bs = [] then Some r else wait_reader_close read r)"

section \<open>Addresses\<close>

definition resolve_addr :: "string \<Rightarrow> io_error + socket_addr" where
  "resolve_addr a =
     (case parse_socket_addr a of
        Some sock_addr \<Rightarrow>
          if is_unspecified (sock_ip sock_addr) then Inl (io_other (''address string '' @ a @ '' lacks a host''))
          else if sock_port sock_addr = 0 then Inl (io_other (''address string '' @ a @ '' lacks a port''))
          else Inr sock_addr
      | None \<Rightarrow> Inl (io_other ([DQUOTE] @ a @ [DQUOTE] @ '' - invalid socket address syntax'')))"

section \<open>The client\<close>

record 'u url_ops =
  url_parse :: "string \<Rightarrow> string + 'u"
  url_scheme :: "'u \<Rightarrow> string"
  url_path :: "'u \<Rightarrow> string"
  url_query :: "'u \<Rightarrow> string option"
  url_fragment :: "'u \<Rightarrow> string option"
  url_port :: "'u \<Rightarrow> u16 option"
  url_port_or_known_default :: "'u \<Rightarrow> u16 option"
  url_username :: "'u \<Rightarrow> string"
  url_password :: "'u \<Rightarrow> string option"
  url_host_str :: "'u \<Rightarrow> string option"

record 'u client_info =
  ci_methods :: "string list"
  ci_uri :: "'u option"

definition get_client_transports :: "(string \<Rightarrow> string) \<Rightarrow> environment \<Rightarrow> io_error + string list" where
  "get_client_transports dbg V = bindr (required_var dbg V CLIENT_TRANSPORTS) (\<lambda>v. Inr (split_char CHR '','' v))"

fun authority_of :: "string \<Rightarrow> string" where
  "authority_of [] = []"
| "authority_of (c # s) =
     (if c \<in> {CHR ''/'', CHR ''?'', CHR ''#'', BSLASH} \<or> white_len (c # s) > 0 then [] else c # authority_of s)"

fun after_scheme :: "string \<Rightarrow> string option" where
  "after_scheme [] = None"
| "after_scheme (c # s) = (if take 3 (c # s) = ''://'' then Some (drop 3 (c # s)) else after_scheme s)"

definition authority_explicit_port :: "string \<Rightarrow> u16 option" where
  "authority_explicit_port raw =
     Option.bind (after_scheme raw) (\<lambda>rest.
       let authority = authority_of rest;
           host = (case rsplit_once CHR ''@'' authority of Some (_, host) \<Rightarrow> host | None \<Rightarrow> authority)
       in Option.bind
            (case host of
               CHR ''['' # host \<Rightarrow>
                 (case split_once CHR '']'' host of
                    Some (_, CHR '':'' # port) \<Rightarrow> Some port
                  | _ \<Rightarrow> None)
             | _ \<Rightarrow> map_option snd (rsplit_once CHR '':'' host))
            (\<lambda>port. if port = [] \<or> \<not> list_all is_ascii_digit port then None else (case parse_u16 port of Inr p \<Rightarrow> Some p | Inl _ \<Rightarrow> None)))"

definition credentials_error :: "'u url_ops \<Rightarrow> 'u \<Rightarrow> string option" where
  "credentials_error U spec =
     (if url_scheme U spec = ''socks5'' then
        let username = url_username U spec; passwd = url_password U spec in
        if username \<noteq> [] \<or> passwd \<noteq> None then
          if username = [] \<or> length username > 255 then Some ''proxy URI specified a invalid SOCKS5 username''
          else (case passwd of
                  None \<Rightarrow> Some ''proxy URI specified a invalid SOCKS5 password''
                | Some p \<Rightarrow> if p = [] \<or> length p > 255 then Some ''proxy URI specified a invalid SOCKS5 password'' else None)
        else None
      else if url_scheme U spec = ''socks4a'' then
        (if url_password U spec \<noteq> None then Some ''proxy URI specified SOCKS4a and a password'' else None)
      else if url_scheme U spec = ''http'' then None
      else Some (''proxy URI has invalid scheme: '' @ url_scheme U spec))"

definition validate_proxy_url_with_authority ::
  "os_errors \<Rightarrow> 'u url_ops \<Rightarrow> 'u \<Rightarrow> u16 option \<Rightarrow> io_error + unit" where
  "validate_proxy_url_with_authority os U spec authority_port =
     (if url_scheme U spec \<notin> {''socks5'', ''socks4a'', ''http''}
      then Inl (io_other (''proxy URI has invalid scheme: '' @ url_scheme U spec))
      else if url_path U spec \<noteq> [] \<and> \<not> (url_scheme U spec = ''http'' \<and> url_path U spec = ''/'')
      then Inl (io_other ''proxy URI has a path defined '')
      else if url_query U spec \<notin> {None, Some []} then Inl (io_other ''proxy URI has a query defined'')
      else if url_fragment U spec \<notin> {None, Some []} then Inl (io_other ''proxy URI has a fragment defined'')
      else let port = url_port_or_known_default U spec in
        if authority_port = None \<or> port \<noteq> authority_port then Inl (io_other ''proxy URI lacks a port'')
        else case credentials_error U spec of
          Some m \<Rightarrow> Inl (io_other m)
        | None \<Rightarrow>
            (case url_host_str U spec of
               None \<Rightarrow> Inl (io_other ''proxy URI has missing host'')
             | Some host \<Rightarrow>
                 bindr (map_err (\<lambda>e. io_other (''proxy URI has invalid host: '' @ io_display os e))
                   (resolve_addr (host @ '':'' @ show_nat (unat (the port))))) (\<lambda>_. Inr ())))"

definition get_proxy_url ::
  "os_errors \<Rightarrow> 'u url_ops \<Rightarrow> (string \<Rightarrow> string) \<Rightarrow> environment \<Rightarrow> io_error + 'u option" where
  "get_proxy_url os U dbg V =
     (case env_var V PROXY of
        Inr s \<Rightarrow>
          if s = [] then Inr None
          else bindr (map_err (\<lambda>e. io_other (''failed to parse proxy config '' @ [DQUOTE] @ s @ [DQUOTE] @ '': '' @ e))
                 (url_parse U s)) (\<lambda>uri.
               bindr (validate_proxy_url_with_authority os U uri (authority_explicit_port s)) (\<lambda>_. Inr (Some uri)))
      | Inl NotPresent \<Rightarrow> Inr None
      | Inl e \<Rightarrow> Inl (io_other (''failed to parse proxy config: '' @ var_error_display dbg e)))"

definition client_info_new ::
  "os_errors \<Rightarrow> 'u url_ops \<Rightarrow> (string \<Rightarrow> string) \<Rightarrow> environment \<Rightarrow> io_error + 'u client_info" where
  "client_info_new os U dbg V =
     bindr (get_managed_transport_ver dbg V) (\<lambda>_.
     bindr (get_client_transports dbg V) (\<lambda>methods.
     bindr (get_proxy_url os U dbg V) (\<lambda>uri. Inr \<lparr> ci_methods = methods, ci_uri = uri \<rparr>)))"

section \<open>The server\<close>

record bindaddr =
  ba_method_name :: string
  ba_addr :: socket_addr
  ba_options :: args

record server_info =
  si_bind_addrs :: "bindaddr list"
  si_or_addr :: "socket_addr option"
  si_extended_or_addr :: "socket_addr option"
  si_auth_cookie_path :: "string option"

definition filter_bindaddrs :: "bindaddr list \<Rightarrow> string list \<Rightarrow> bindaddr list" where
  "filter_bindaddrs addrs methods = (if methods = [] then [] else filter (\<lambda>b. ba_method_name b \<in> set methods) addrs)"

fun bindaddrs_loop ::
  "os_errors \<Rightarrow> string list \<Rightarrow> string list \<Rightarrow> opts \<Rightarrow> bindaddr list \<Rightarrow> io_error + bindaddr list" where
  "bindaddrs_loop os [] seen_methods options_map results = Inr results"
| "bindaddrs_loop os (spec # specs) seen_methods options_map results =
     (case split_once CHR ''-'' spec of
        None \<Rightarrow> Inl (io_other (''TPR_PT_SERVER_BINDADDR: '' @ spec @ '' doesn't contain '' @ [DQUOTE] @ ''-'' @ [DQUOTE]))
      | Some (method_name, addr) \<Rightarrow>
          if method_name \<in> set seen_methods
          then Inl (io_other (''TPR_PT_SERVER_BINDADDR: '' @ spec @ '' duplicate method name '' @ method_name))
          else case resolve_addr addr of
            Inl e \<Rightarrow> Inl (io_other (''TOR_PT_SERVER_BINDADDR: '' @ spec @ '': '' @ io_display os e))
          | Inr address \<Rightarrow>
              let (removed, options_map) = opts_remove options_map method_name;
                  b = \<lparr> ba_method_name = method_name, ba_addr = address,
                        ba_options = (case removed of Some a \<Rightarrow> a | None \<Rightarrow> args_new) \<rparr>
              in bindaddrs_loop os specs (seen_methods @ [method_name]) options_map (results @ [b]))"

definition get_server_bindaddrs ::
  "os_errors \<Rightarrow> (string \<Rightarrow> string) \<Rightarrow> environment \<Rightarrow> io_error + bindaddr list" where
  "get_server_bindaddrs os dbg V =
     (let opts_text = (case env_var V SERVER_TRANSPORT_OPTIONS of Inr s \<Rightarrow> s | Inl _ \<Rightarrow> []) in
      bindr (map_err (\<lambda>e. io_other (''TOR_PT_SERVER_TRANSPORT_OPTIONS: '' @ opts_text @ '': '' @ [DQUOTE]
               @ core_error_display e @ [DQUOTE])) (parse_server_transport_options opts_text)) (\<lambda>options_map.
      bindr (required_var dbg V SERVER_BINDADDR) (\<lambda>server_bindaddr.
        if server_bindaddr = []
        then Inl (io_other (''no '' @ [DQUOTE] @ SERVER_BINDADDR @ [DQUOTE] @ '' environment variable value''))
        else bindr (bindaddrs_loop os (split_char CHR '','' server_bindaddr) [] options_map []) (\<lambda>results.
          bindr (required_var dbg V SERVER_TRANSPORTS) (\<lambda>server_transports.
            if server_transports = []
            then Inl (io_other (''no '' @ [DQUOTE] @ SERVER_TRANSPORTS @ [DQUOTE] @ '' environment variable value''))
            else Inr (filter_bindaddrs results (split_char CHR '','' server_transports)))))))"

definition server_info_new ::
  "os_errors \<Rightarrow> (string \<Rightarrow> string) \<Rightarrow> environment \<Rightarrow> io_error + server_info" where
  "server_info_new os dbg V =
     bindr (get_managed_transport_ver dbg V) (\<lambda>_.
     bindr (get_server_bindaddrs os dbg V) (\<lambda>bind_addrs.
     bindr (case env_var V ORPORT of
              Inr a \<Rightarrow> bindr (map_err (\<lambda>e. io_other (''cannot resolve TOR_PT_ORPORT: '' @ io_display os e)) (resolve_addr a))
                (\<lambda>a. Inr (Some a))
            | Inl _ \<Rightarrow> Inr None) (\<lambda>or_addr.
     let auth_cookie_path = (case env_var V AUTH_COOKIE_FILE of Inr p \<Rightarrow> Some p | Inl _ \<Rightarrow> None) in
     bindr (case env_var V EXTENDED_SERVER_PORT of
              Inr a \<Rightarrow> if a = [] then Inr None
                else bindr (map_err (\<lambda>e. io_other (''cannot resolve TOR_PT_EXTENDED_SERVER_PORT: '' @ io_display os e)) (resolve_addr a))
                  (\<lambda>a. Inr (Some a))
            | Inl _ \<Rightarrow> Inr None) (\<lambda>extended_or_addr.
     if extended_or_addr \<noteq> None \<and> auth_cookie_path = None
     then Inl (io_other ''need TOR_PT_AUTH_COOKIE_FILE environment variable with TOR_PT_EXTENDED_SERVER_PORT'')
     else if or_addr = None \<and> extended_or_addr = None
     then Inl (io_other ''need TOR_PT_ORPORT or TOR_PT_EXTENDED_SERVER_PORT environment variable'')
     else Inr \<lparr> si_bind_addrs = bind_addrs, si_or_addr = or_addr, si_extended_or_addr = extended_or_addr,
                si_auth_cookie_path = auth_cookie_path \<rparr>))))"

text \<open>The address that \<^verbatim>\<open>ServerInfo::connect_to_or\<close> dials; the dialling is an argument.\<close>

definition connect_to_or :: "(socket_addr \<Rightarrow> 'w \<Rightarrow> (io_error + 't) \<times> 'w) \<Rightarrow> server_info \<Rightarrow> 'w \<Rightarrow> (io_error + 't) \<times> 'w" where
  "connect_to_or tcp_connect si w =
     (case si_or_addr si of
        Some addr \<Rightarrow> tcp_connect addr w
      | None \<Rightarrow>
          (case si_extended_or_addr si of
             None \<Rightarrow> (Inl (io_other ''no OR addr provided''), w)
           | Some addr \<Rightarrow> tcp_connect addr w))"

section \<open>What a server may rely on\<close>

definition dialable :: "socket_addr \<Rightarrow> bool" where
  "dialable a = (sock_wf a \<and> \<not> is_unspecified (sock_ip a) \<and> sock_port a \<noteq> 0)"

definition info_wf :: "environment \<Rightarrow> server_info \<Rightarrow> bool" where
  "info_wf V si =
     (distinct (map ba_method_name (si_bind_addrs si))
      \<and> (\<forall>b \<in> set (si_bind_addrs si). dialable (ba_addr b)
           \<and> (\<exists>names. V SERVER_TRANSPORTS = Some names \<and> ba_method_name b \<in> set (split_char CHR '','' names)))
      \<and> (\<forall>a. si_or_addr si = Some a \<longrightarrow> dialable a) \<and> (\<forall>a. si_extended_or_addr si = Some a \<longrightarrow> dialable a)
      \<and> (si_or_addr si \<noteq> None \<or> si_extended_or_addr si \<noteq> None)
      \<and> (si_extended_or_addr si \<noteq> None \<longrightarrow> si_auth_cookie_path si \<noteq> None))"

lemma resolve_addr_dialable: "resolve_addr s = Inr a \<Longrightarrow> dialable a"
  by (auto simp: resolve_addr_def dialable_def dest: parse_socket_addr_wf split: option.splits if_splits)

lemma resolve_addr_show: "dialable a \<Longrightarrow> resolve_addr (show_socket_addr a) = Inr a"
  by (simp add: resolve_addr_def dialable_def parse_show_socket_addr)

lemma bindaddrs_loop_ok:
  "bindaddrs_loop os specs methods om res = Inr bs \<Longrightarrow> methods = map ba_method_name res \<Longrightarrow> distinct methods
   \<Longrightarrow> \<forall>b \<in> set res. dialable (ba_addr b)
   \<Longrightarrow> distinct (map ba_method_name bs) \<and> (\<forall>b \<in> set bs. dialable (ba_addr b))"
proof (induction os specs methods om res rule: bindaddrs_loop.induct)
  case (2 os spec specs methods om res)
  from "2.prems"(1) obtain m a addr where
    h: "split_once CHR ''-'' spec = Some (m, a)" "m \<notin> set methods" "resolve_addr a = Inr addr"
    by (auto split: option.splits if_splits sum.splits)
  obtain removed om' where r: "opts_remove om m = (removed, om')" by (cases "opts_remove om m")
  show ?case
    by (rule "2.IH" [OF h(1) refl h(2,3) r [symmetric] refl refl])
      (use "2.prems" h r resolve_addr_dialable [OF h(3)] in auto)
qed simp

lemma env_var_Inr: "env_var V n = Inr v \<Longrightarrow> V n = Some v"
  by (auto simp: env_var_def split: option.splits if_splits)

lemma server_bindaddrs_ok:
  assumes "get_server_bindaddrs os dbg V = Inr bs"
  shows "distinct (map ba_method_name bs) \<and> (\<forall>b \<in> set bs. dialable (ba_addr b)
           \<and> (\<exists>names. V SERVER_TRANSPORTS = Some names \<and> ba_method_name b \<in> set (split_char CHR '','' names)))"
proof -
  from assms obtain om binds all names where
    h: "bindaddrs_loop os binds [] om [] = Inr all" "env_var V SERVER_TRANSPORTS = Inr names"
      "bs = filter_bindaddrs all (split_char CHR '','' names)"
    by (auto simp: get_server_bindaddrs_def required_var_def Let_def split: if_splits)
  have "distinct (map ba_method_name all)" "\<forall>b \<in> set all. dialable (ba_addr b)"
    using bindaddrs_loop_ok [OF h(1)] by auto
  with h(3) env_var_Inr [OF h(2)] show ?thesis
    by (auto simp: filter_bindaddrs_def distinct_map inj_on_def)
qed

section \<open>What the parent announces is what the server reads\<close>

definition bind_text :: "(string \<times> socket_addr) list \<Rightarrow> string" where
  "bind_text bs = join_with CHR '','' (map (\<lambda>(m, a). m @ ''-'' @ show_socket_addr a) bs)"

definition announced :: "opts \<Rightarrow> string \<times> socket_addr \<Rightarrow> bindaddr" where
  "announced om = (\<lambda>(m, a). \<lparr> ba_method_name = m, ba_addr = a,
     ba_options = (case opts_get om m of Some o_ \<Rightarrow> o_ | None \<Rightarrow> args_new) \<rparr>)"

definition method_ok :: "string \<Rightarrow> bool" where
  "method_ok m = (CHR ''-'' \<notin> set m \<and> CHR '','' \<notin> set m)"

lemma map_of_filter_keys: "m' \<noteq> m \<Longrightarrow> map_of (filter (\<lambda>e. fst e \<noteq> m) om) m' = map_of om m'"
  by (induction om) auto

lemma announced_remove: "fst b \<noteq> m \<Longrightarrow> announced (snd (opts_remove om m)) b = announced om b"
  by (cases b) (simp add: announced_def opts_remove_def opts_get_def map_of_filter_keys)

lemma bindaddrs_loop_announced:
  "distinct (map fst bs) \<Longrightarrow> set ms \<inter> fst ` set bs = {} \<Longrightarrow> \<forall>(m, a) \<in> set bs. method_ok m \<and> dialable a
   \<Longrightarrow> bindaddrs_loop os (map (\<lambda>(m, a). m @ ''-'' @ show_socket_addr a) bs) ms om res = Inr (res @ map (announced om) bs)"
proof (induction bs arbitrary: ms om res)
  case (Cons b bs)
  obtain m a where b: "b = (m, a)" by (cases b)
  have split: "split_once CHR ''-'' (m @ CHR ''-'' # show_socket_addr a) = Some (m, show_socket_addr a)"
    using Cons.prems b by (intro split_once_append) (auto simp: method_ok_def)
  have addr: "resolve_addr (show_socket_addr a) = Inr a" using Cons.prems b by (intro resolve_addr_show) auto
  have same: "map (announced (snd (opts_remove om m))) bs = map (announced om) bs"
    using Cons.prems b by (force intro: announced_remove)
  have head: "announced om b = \<lparr> ba_method_name = m, ba_addr = a, ba_options = (case fst (opts_remove om m) of Some a \<Rightarrow> a | None \<Rightarrow> args_new) \<rparr>"
    by (simp add: b announced_def opts_remove_def opts_get_def)
  show ?case
    using Cons.prems b split addr
      Cons.IH [of "ms @ [m]" "snd (opts_remove om m)" "res @ [announced om b]"] same head
    by (simp add: case_prod_beta Let_def)
qed simp

lemma show_socket_addr_no_comma: "CHR '','' \<notin> set (show_socket_addr a)"
  using show_socket_addr_chars [of "CHR '',''" a] by (auto simp: is_digit_of_def to_digit_def)

lemma bind_text_split:
  assumes "bs \<noteq> []" "\<forall>(m, a) \<in> set bs. method_ok m"
  shows "split_char CHR '','' (bind_text bs) = map (\<lambda>(m, a). m @ ''-'' @ show_socket_addr a) bs"
  unfolding bind_text_def using assms show_socket_addr_no_comma
  by (intro split_join) (auto simp: method_ok_def)

lemma bind_text_not_Nil: "bs \<noteq> [] \<Longrightarrow> bind_text bs \<noteq> []"
  by (cases bs; cases "tl bs") (auto simp: bind_text_def)

lemma get_server_bindaddrs_announced:
  assumes "env_var V SERVER_TRANSPORT_OPTIONS = Inr t" "parse_server_transport_options t = Inr om"
    "env_var V SERVER_BINDADDR = Inr (bind_text bs)" "env_var V SERVER_TRANSPORTS = Inr (join_with CHR '','' names)"
    "bs \<noteq> []" "distinct (map fst bs)" "\<forall>(m, a) \<in> set bs. method_ok m \<and> dialable a"
    "names \<noteq> []" "\<forall>n \<in> set names. n \<noteq> [] \<and> CHR '','' \<notin> set n"
  shows "get_server_bindaddrs os dbg V = Inr (map (announced om) (filter (\<lambda>b. fst b \<in> set names) bs))"
proof -
  have n: "split_char CHR '','' (join_with CHR '','' names) = names" using assms(8,9) by (intro split_join) auto
  have ne: "join_with CHR '','' names \<noteq> []" using assms(8,9) by (cases names rule: list.exhaust; cases "tl names") auto
  have "ba_method_name (announced om b) = fst b" for b by (cases b) (simp add: announced_def)
  then have "filter_bindaddrs (map (announced om) bs) names = map (announced om) (filter (\<lambda>b. fst b \<in> set names) bs)"
    using assms(8) by (simp add: filter_bindaddrs_def filter_map comp_def)
  moreover have "split_char CHR '','' (bind_text bs) = map (\<lambda>(m, a). m @ ''-'' @ show_socket_addr a) bs"
    using assms(5,7) by (intro bind_text_split) auto
  ultimately show ?thesis
    using assms n ne bind_text_not_Nil bindaddrs_loop_announced [of bs "[]" os om "[]"]
    by (simp add: get_server_bindaddrs_def required_var_def Let_def)
qed

lemma server_info_announced:
  assumes "env_var V MANAGED_VER = Inr vers" "''1'' \<in> set (split_char CHR '','' vers)"
    "env_var V SERVER_TRANSPORT_OPTIONS = Inr t" "parse_server_transport_options t = Inr om"
    "env_var V SERVER_BINDADDR = Inr (bind_text bs)" "env_var V SERVER_TRANSPORTS = Inr (join_with CHR '','' names)"
    "bs \<noteq> []" "distinct (map fst bs)" "\<forall>(m, a) \<in> set bs. method_ok m \<and> dialable a"
    "names \<noteq> []" "\<forall>n \<in> set names. n \<noteq> [] \<and> CHR '','' \<notin> set n"
    "env_var V ORPORT = Inr (show_socket_addr orport)" "dialable orport" "env_var V EXTENDED_SERVER_PORT = Inr []"
    "env_var V AUTH_COOKIE_FILE = Inl NotPresent"
  shows "server_info_new os dbg V =
    Inr \<lparr> si_bind_addrs = map (announced om) (filter (\<lambda>b. fst b \<in> set names) bs), si_or_addr = Some orport,
          si_extended_or_addr = None, si_auth_cookie_path = None \<rparr>"
  using assms(1,2,12-15) get_server_bindaddrs_announced [OF assms(3-11)] resolve_addr_show [OF assms(13)]
  by (simp add: server_info_new_def get_managed_transport_ver_def required_var_def CURRENT_TRANSPORT_VER_def Let_def)

text \<open>An environment to try the properties on.\<close>

definition toy_bind :: "string \<times> socket_addr" where
  "toy_bind = (''obfs4'', SockV4 (127, 0, 0, 1) 443)"

definition toy_pt_env :: environment where
  "toy_pt_env = map_of [(MANAGED_VER, ''2,1''), (SERVER_TRANSPORT_OPTIONS, ''''), (SERVER_BINDADDR, bind_text [toy_bind]),
     (SERVER_TRANSPORTS, ''obfs4''), (ORPORT, show_socket_addr (snd toy_bind)), (EXTENDED_SERVER_PORT, '''')]"

definition toy_info :: server_info where
  "toy_info = \<lparr> si_bind_addrs = [announced [] toy_bind], si_or_addr = Some (snd toy_bind), si_extended_or_addr = None,
     si_auth_cookie_path = None \<rparr>"

lemma toy_pt_env_vars:
  "env_var toy_pt_env MANAGED_VER = Inr ''2,1''" "env_var toy_pt_env SERVER_TRANSPORT_OPTIONS = Inr ''''"
  "env_var toy_pt_env SERVER_BINDADDR = Inr (bind_text [toy_bind])" "env_var toy_pt_env SERVER_TRANSPORTS = Inr ''obfs4''"
  "env_var toy_pt_env ORPORT = Inr (show_socket_addr (snd toy_bind))" "env_var toy_pt_env EXTENDED_SERVER_PORT = Inr ''''"
  "env_var toy_pt_env AUTH_COOKIE_FILE = Inl NotPresent"
  by (simp_all add: toy_pt_env_def env_var_def pt_names toy_bind_def bind_text_def show_radix.simps radix_char_def
      char_of_def bit_0 str_bytes_def)

lemma toy_bind_ok: "method_ok (fst toy_bind) \<and> dialable (snd toy_bind)"
  by (simp add: toy_bind_def method_ok_def dialable_def)

lemma toy_info_read: "server_info_new os dbg toy_pt_env = Inr toy_info"
  using server_info_announced [of toy_pt_env "''2,1''" "''''" "[]" "[toy_bind]" "[''obfs4'']" "snd toy_bind" os dbg]
    toy_pt_env_vars toy_bind_ok
  by (simp add: toy_info_def split_char_def case_prod_beta parse_server_transport_options_def options_loop.simps toy_bind_def)

section \<open>Properties\<close>

text \<open>
  C25. Whatever the environment holds, the server information read from it is well formed: the
  transports are pairwise different and among those asked for, every address to listen on or to
  dial has a host and a port, an extended port comes with its cookie file, and there is always an
  address for \<^verbatim>\<open>connect_to_or\<close> to dial.
\<close>

theorem server_info_wf:
  assumes "server_info_new os dbg V = Inr si"
  shows "info_wf V si \<and> (\<exists>a. dialable a \<and> connect_to_or dial si w = dial a w)"
proof -
  from assms obtain bs where "get_server_bindaddrs os dbg V = Inr bs" "si_bind_addrs si = bs"
    by (auto simp: server_info_new_def Let_def split: if_splits)
  moreover from assms have
    "(\<forall>a. si_or_addr si = Some a \<longrightarrow> dialable a) \<and> (\<forall>a. si_extended_or_addr si = Some a \<longrightarrow> dialable a)
     \<and> (si_or_addr si \<noteq> None \<or> si_extended_or_addr si \<noteq> None)
     \<and> (si_extended_or_addr si \<noteq> None \<longrightarrow> si_auth_cookie_path si \<noteq> None)"
    by (auto simp: server_info_new_def Let_def dest: resolve_addr_dialable split: if_splits sum.splits option.splits)
  ultimately show ?thesis using server_bindaddrs_ok [of os dbg V bs]
    by (auto simp: info_wf_def connect_to_or_def split: option.splits)
qed

theorem server_info_wf_witness:
  "info_wf toy_pt_env toy_info
   \<and> (\<exists>a. dialable a \<and> connect_to_or (\<lambda>a w. (Inr a, w)) toy_info () = (Inr a, ()))"
  using server_info_wf [OF toy_info_read, where dial = "\<lambda>a w. (Inr a, w)" and w = "()"] by simp

text \<open>
  C26. What the parent announces is what the server reads: for a list of transports with different
  names and usable addresses of either family, printed into the variables as the specification
  lays down, the server gets, in the same order, exactly those that are asked for, each with
  its address and with the options given for it.
\<close>

theorem server_env_roundtrip:
  assumes "env_var V MANAGED_VER = Inr vers" "''1'' \<in> set (split_char CHR '','' vers)"
    "env_var V SERVER_TRANSPORT_OPTIONS = Inr t" "parse_server_transport_options t = Inr om"
    "env_var V SERVER_BINDADDR = Inr (bind_text bs)" "env_var V SERVER_TRANSPORTS = Inr (join_with CHR '','' names)"
    "bs \<noteq> []" "distinct (map fst bs)" "\<forall>(m, a) \<in> set bs. method_ok m \<and> dialable a"
    "names \<noteq> []" "\<forall>n \<in> set names. n \<noteq> [] \<and> CHR '','' \<notin> set n"
    "env_var V ORPORT = Inr (show_socket_addr orport)" "dialable orport" "env_var V EXTENDED_SERVER_PORT = Inr []"
    "env_var V AUTH_COOKIE_FILE = Inl NotPresent"
  shows "server_info_new os dbg V =
    Inr \<lparr> si_bind_addrs = map (announced om) (filter (\<lambda>b. fst b \<in> set names) bs), si_or_addr = Some orport,
          si_extended_or_addr = None, si_auth_cookie_path = None \<rparr>"
  by (rule server_info_announced) (use assms in auto)

theorem server_env_roundtrip_witness:
  "server_info_new \<lparr> os_kind = \<lambda>_. OtherKind, os_message = \<lambda>_. [], kind_message = \<lambda>_. [] \<rparr> (\<lambda>_. []) toy_pt_env = Inr toy_info"
  using server_env_roundtrip [of toy_pt_env "''2,1''" "''''" "[]" "[toy_bind]" "[''obfs4'']" "snd toy_bind"]
    toy_pt_env_vars toy_bind_ok
  by (simp add: toy_info_def split_char_def case_prod_beta parse_server_transport_options_def options_loop.simps toy_bind_def)

end
