(* ===== verification/WebTunnel.thy ===== *)
theory WebTunnel
  imports PtEnv Establish
begin

text \<open>
  \<^verbatim>\<open>crates/webtunnel/src/lib.rs\<close> and the upgrade half of \<^verbatim>\<open>handshake.rs\<close>: the configuration
  of a WebTunnel bridge, the HTTP upgrade that opens it, the search for the end of the
  response head, and the stream that first gives back what was read too much. Futures are
  those of \<open>Establish\<close>. The \<^verbatim>\<open>url\<close>, \<^verbatim>\<open>httparse\<close>, \<^verbatim>\<open>rustls\<close> and \<^verbatim>\<open>base64\<close> crates are
  arguments; log lines are left out.
\<close>

section \<open>Errors\<close>

datatype web_error = MissingUrl | InvalidUrl string | WebHandshake string | HttpParse string | Non101 string
  | WebTls string | WebIo io_error | WebOther string | WebUnsupported string

definition timeout_error :: web_error where
  "timeout_error = WebIo (IoCustom TimedOut ''WebTunnel handshake timed out'')"

definition DEFAULT_HANDSHAKE_TIMEOUT :: nat where "DEFAULT_HANDSHAKE_TIMEOUT = 30 * 10 ^ 9"

text \<open>Instants are nanoseconds; \<open>horizon\<close> is the last one the platform can represent.\<close>

definition deadline_for :: "nat \<Rightarrow> nat \<Rightarrow> nat \<Rightarrow> web_error + nat" where
  "deadline_for horizon now timeout =
     (if now + timeout \<le> horizon then Inr (now + timeout)
      else Inl (WebIo (IoCustom InvalidInput ''handshake timeout overflows deadline'')))"

section \<open>Configuration\<close>

datatype doh_mode = DohOff | DohStrict | DohFallback

fun doh_mode_display :: "doh_mode \<Rightarrow> string" where
  "doh_mode_display DohOff = ''off''"
| "doh_mode_display DohStrict = ''strict''"
| "doh_mode_display DohFallback = ''fallback''"

definition doh_mode_from_str :: "(string \<Rightarrow> string) \<Rightarrow> string \<Rightarrow> string + doh_mode" where
  "doh_mode_from_str dbg s =
     (let other = to_ascii_lowercase (trim s) in
      if other = ''off'' then Inr DohOff
      else if other = ''strict'' then Inr DohStrict
      else if other = ''fallback'' then Inr DohFallback
      else Inl (''invalid doh-mode '' @ dbg other @ '': expected one of off, strict, fallback''))"

record webtunnel_config =
  wc_url :: string
  wc_version :: "string option"
  wc_servername :: "string option"
  wc_tcp_addr :: "string option"
  wc_doh_mode :: doh_mode

record 'u prepared_config =
  pc_url :: 'u
  pc_request_target :: string
  pc_host :: string
  pc_port :: u16
  pc_sni :: string
  pc_use_tls :: bool
  pc_doh_mode :: doh_mode

text \<open>What the code takes of other crates: URLs, server names, \<^verbatim>\<open>{:?}\<close> of a text, base64.\<close>

record ('u, 'n) web_env =
  web_url :: "'u url_ops"
  web_server_name :: "string \<Rightarrow> string + 'n"
  web_debug :: "string \<Rightarrow> string"
  web_base64 :: "bytes \<Rightarrow> string"

definition trim_start_char :: "char \<Rightarrow> string \<Rightarrow> string" where
  "trim_start_char c s = dropWhile (\<lambda>d. d = c) s"

definition trim_end_char :: "char \<Rightarrow> string \<Rightarrow> string" where
  "trim_end_char c s = rev (dropWhile (\<lambda>d. d = c) (rev s))"

definition unbracketed :: "string \<Rightarrow> string" where
  "unbracketed s = trim_end_char CHR '']'' (trim_start_char CHR ''['' s)"

definition connect_target ::
  "('u, 'n) web_env \<Rightarrow> webtunnel_config \<Rightarrow> 'u \<Rightarrow> web_error + string \<times> u16" where
  "connect_target W config url =
     (case wc_tcp_addr config of
        Some addr \<Rightarrow>
          (case parse_socket_addr addr of
             Some socket \<Rightarrow> Inr (show_ip (sock_ip socket), sock_port socket)
           | None \<Rightarrow>
               (case rsplit_once CHR '':'' addr of
                  None \<Rightarrow> Inl (InvalidUrl (''addr= missing ':' (expected host:port): '' @ addr))
                | Some (host, port) \<Rightarrow>
                    if host = [] \<or> set host \<inter> {CHR '':'', CHR ''['', CHR '']''} \<noteq> {}
                    then Inl (InvalidUrl (''invalid addr= host: '' @ host))
                    else bindr (map_err (\<lambda>e. InvalidUrl (''addr= invalid port '' @ web_debug W port @ '': '' @ e)) (parse_u16 port))
                           (\<lambda>port. Inr (host, port))))
      | None \<Rightarrow>
          bindr (ok_or (InvalidUrl ''url has no host'') (url_host_str (web_url W) url)) (\<lambda>host.
          bindr (ok_or (InvalidUrl ''cannot determine port from url scheme'') (url_port_or_known_default (web_url W) url))
            (\<lambda>port. Inr (unbracketed host, port))))"

definition prepare :: "('u, 'n) web_env \<Rightarrow> webtunnel_config \<Rightarrow> web_error + 'u prepared_config" where
  "prepare W config =
     bindr (map_err InvalidUrl (url_parse (web_url W) (wc_url config))) (\<lambda>url.
       if url_scheme (web_url W) url \<notin> {''http'', ''https''} \<or> url_host_str (web_url W) url = None
       then Inl (InvalidUrl ''expected an http or https URL with a host'')
       else bindr (connect_target W config url) (\<lambda>(host, port).
         let sni = unbracketed (case wc_servername config of Some s \<Rightarrow> s
               | None \<Rightarrow> (case url_host_str (web_url W) url of Some h \<Rightarrow> h | None \<Rightarrow> [])) in
         bindr (map_err (\<lambda>e. InvalidUrl (''invalid servername: '' @ e)) (web_server_name W sni)) (\<lambda>_.
         let path = (if url_path (web_url W) url = [] then ''/'' else url_path (web_url W) url);
             request_target = (case url_query (web_url W) url of
                 Some query \<Rightarrow> if query \<noteq> [] then path @ ''?'' @ query else path
               | None \<Rightarrow> path)
         in Inr \<lparr> pc_url = url, pc_request_target = request_target, pc_host = host, pc_port = port, pc_sni = sni,
                  pc_use_tls = eq_ignore_ascii_case (url_scheme (web_url W) url) ''https'', pc_doh_mode = wc_doh_mode config \<rparr>)))"

definition web_from_args :: "('u, 'n) web_env \<Rightarrow> args \<Rightarrow> web_error + webtunnel_config" where
  "web_from_args W a =
     bindr (ok_or MissingUrl (retrieve a ''url'')) (\<lambda>url_str.
     bindr (map_err InvalidUrl (url_parse (web_url W) url_str)) (\<lambda>parsed.
       if url_host_str (web_url W) parsed = None then Inl (InvalidUrl ''url has no host'')
       else if url_scheme (web_url W) parsed \<notin> {''http'', ''https''}
       then Inl (InvalidUrl ''url scheme must be http or https'')
       else bindr (case retrieve a ''doh-mode'' of
                     Some s \<Rightarrow> map_err (\<lambda>e. InvalidUrl (''doh-mode: '' @ e)) (doh_mode_from_str (web_debug W) s)
                   | None \<Rightarrow> Inr DohFallback) (\<lambda>doh_mode.
         let config = \<lparr> wc_url = url_str, wc_version = retrieve a ''ver'', wc_servername = retrieve a ''servername'',
                        wc_tcp_addr = retrieve a ''addr'', wc_doh_mode = doh_mode \<rparr>
         in bindr (prepare W config) (\<lambda>_. Inr config))))"

definition with_doh_mode :: "webtunnel_config \<Rightarrow> doh_mode \<Rightarrow> webtunnel_config" where
  "with_doh_mode config mode = config \<lparr> wc_doh_mode := mode \<rparr>"

section \<open>The upgrade request\<close>

abbreviation CRLF :: string where "CRLF \<equiv> [CHR 0x0D, CHR 0x0A]"

text \<open>The sixteen random bytes are an argument; the code panics where the system has none.\<close>

definition generate_websocket_key :: "('u, 'n) web_env \<Rightarrow> bytes option \<Rightarrow> string option" where
  "generate_websocket_key W buf = map_option (web_base64 W) buf"

definition build_upgrade_request_prepared ::
  "('u, 'n) web_env \<Rightarrow> bytes option \<Rightarrow> 'u prepared_config \<Rightarrow> string option" where
  "build_upgrade_request_prepared W buf config =
     (let host = pc_sni config;
          host = (if parse_ipv6 host \<noteq> None then ''['' @ host @ '']'' else host);
          host = (case url_port (web_url W) (pc_url config) of
                    Some port \<Rightarrow> host @ '':'' @ show_nat (unat port)
                  | None \<Rightarrow> host)
      in map_option (\<lambda>key.
           ''GET '' @ pc_request_target config @ '' HTTP/1.1'' @ CRLF
           @ ''Host: '' @ host @ CRLF
           @ ''Upgrade: websocket'' @ CRLF
           @ ''Connection: Upgrade'' @ CRLF
           @ ''Sec-WebSocket-Key: '' @ key @ CRLF
           @ ''Sec-WebSocket-Version: 13'' @ CRLF
           @ CRLF) (generate_websocket_key W buf))"

definition build_upgrade_request :: "('u, 'n) web_env \<Rightarrow> bytes option \<Rightarrow> webtunnel_config \<Rightarrow> string option" where
  "build_upgrade_request W buf config =
     (case prepare W config of Inl _ \<Rightarrow> None | Inr prepared \<Rightarrow> build_upgrade_request_prepared W buf prepared)"

section \<open>The response\<close>

record http_response =
  hr_code :: "u16 option"
  hr_reason :: "string option"

text \<open>\<^verbatim>\<open>httparse\<close>: an error, not complete yet, or the length of the head with what it says.\<close>

type_synonym http_parser = "bytes \<Rightarrow> string + (nat \<times> http_response) option"

definition parse_response_complete :: "http_parser \<Rightarrow> bytes \<Rightarrow> web_error + (u16 \<times> nat) option" where
  "parse_response_complete H buf =
     (case H buf of
        Inl e \<Rightarrow> Inl (HttpParse e)
      | Inr None \<Rightarrow> Inr None
      | Inr (Some (body_offset, resp)) \<Rightarrow>
          bindr (ok_or (HttpParse ''no status code'') (hr_code resp)) (\<lambda>code.
            if code \<noteq> 101 then
              Inl (Non101 (show_nat (unat code) @ '' '' @ (case hr_reason resp of Some r \<Rightarrow> r | None \<Rightarrow> ''(no reason)'')))
            else Inr (Some (code, body_offset))))"

definition parse_response :: "http_parser \<Rightarrow> bytes \<Rightarrow> web_error + u16 \<times> bytes" where
  "parse_response H buf =
     bindr (parse_response_complete H buf) (\<lambda>r.
     bindr (ok_or (HttpParse ''incomplete HTTP response'') r) (\<lambda>(code, body_offset). Inr (code, drop body_offset buf)))"

record header_boundary =
  hb_scanned :: nat
  hb_line_start :: nat
  hb_saw_status_line :: bool

definition header_boundary_default :: header_boundary where
  "header_boundary_default = \<lparr> hb_scanned = 0, hb_line_start = 0, hb_saw_status_line = False \<rparr>"

function header_find :: "header_boundary \<Rightarrow> bytes \<Rightarrow> nat option \<times> header_boundary" where
  "header_find hb bs =
     (if hb_scanned hb < length bs then
        let index = hb_scanned hb;
            hb = hb \<lparr> hb_scanned := hb_scanned hb + 1 \<rparr>
        in if bs ! index \<noteq> 10 then header_find hb bs
           else let line = take (index - hb_line_start hb) (drop (hb_line_start hb) bs);
                    hb = hb \<lparr> hb_line_start := hb_scanned hb \<rparr>;
                    empty = (line = [] \<or> line = [13])
                in if empty \<and> hb_saw_status_line hb then (Some (hb_scanned hb), hb)
                   else header_find (hb \<lparr> hb_saw_status_line := hb_saw_status_line hb \<or> \<not> empty \<rparr>) bs
      else (None, hb))"
  by pat_completeness auto
termination
  by (relation "measure (\<lambda>(hb, bs). length bs - hb_scanned hb)") auto

declare header_find.simps [simp del]

section \<open>The upgrade\<close>

record 's web_io =
  w_read :: "nat \<Rightarrow> (io_error + bytes, 's) future"
  w_write_all :: "bytes \<Rightarrow> (io_error + unit, 's) future"
  w_flush :: "(io_error + unit, 's) future"

fun await_with ::
  "('e \<Rightarrow> 'f) \<Rightarrow> ('e + 'a) poll \<times> 's \<times> nat list \<Rightarrow> ('a \<Rightarrow> ('f + 'b, 's) future) \<Rightarrow> ('f + 'b) poll \<times> 's \<times> nat list" where
  "await_with g (Pending, s, ts) f = (Pending, s, ts)"
| "await_with g (Panic, s, ts) f = (Panic, s, ts)"
| "await_with g (Ready (Inl e), s, ts) f = (Ready (Inl (g e)), s, ts)"
| "await_with g (Ready (Inr x), s, ts) f = f x ts s"

definition RESPONSE_BUFFER :: nat where "RESPONSE_BUFFER = 4096"

text \<open>
  One turn of the loop of \<^verbatim>\<open>read_upgrade\<close>. A read that reports more than it was asked for
  would make the slice panic.
\<close>

function upgrade_loop ::
  "os_errors \<Rightarrow> http_parser \<Rightarrow> 's web_io \<Rightarrow> bytes \<Rightarrow> header_boundary \<Rightarrow> (web_error + bytes, 's) future" where
  "upgrade_loop os H X buf boundary ts s =
     (if length buf \<ge> RESPONSE_BUFFER then (Ready (Inl (WebHandshake ''response headers too large'')), s, ts)
      else await_with (\<lambda>e. WebHandshake (''read response: '' @ io_display os e))
        (w_read X (RESPONSE_BUFFER - length buf) ts s) (\<lambda>bs ts s.
          if bs = [] then (Ready (Inl (WebHandshake ''connection closed before 101'')), s, ts)
          else if length bs > RESPONSE_BUFFER - length buf then (Panic, s, ts)
          else let buf = buf @ bs in
            case header_find boundary buf of
              (None, boundary) \<Rightarrow> upgrade_loop os H X buf boundary ts s
            | (Some header_end, _) \<Rightarrow>
                (case parse_response H buf of
                   Inl e \<Rightarrow> (Ready (Inl e), s, ts)
                 | Inr (_, leftover_slice) \<Rightarrow>
                     let body_offset = length buf - length leftover_slice in
                     if body_offset < header_end
                     then (Ready (Inl (HttpParse ''invalid HTTP response boundary'')), s, ts)
                     else (Ready (Inr (drop body_offset buf)), s, ts))))"
  by pat_completeness auto
termination
  by (relation "measure (\<lambda>(_, _, _, buf, _). RESPONSE_BUFFER - length buf)") (auto simp: neq_Nil_conv)

declare upgrade_loop.simps [simp del]

definition read_upgrade ::
  "os_errors \<Rightarrow> ('u, 'n) web_env \<Rightarrow> http_parser \<Rightarrow> 's web_io \<Rightarrow> bytes option \<Rightarrow> 'u prepared_config
   \<Rightarrow> (web_error + bytes, 's) future" where
  "read_upgrade os W H X key config ts s =
     (case build_upgrade_request_prepared W key config of
        None \<Rightarrow> (Panic, s, ts)
      | Some request \<Rightarrow>
          await_with (\<lambda>e. WebHandshake (''write upgrade request: '' @ io_display os e)) (w_write_all X (str_bytes request) ts s) (\<lambda>_ ts s.
          await_with (\<lambda>e. WebHandshake (''flush: '' @ io_display os e)) (w_flush X ts s) (\<lambda>_ ts s.
          upgrade_loop os H X [] header_boundary_default ts s)))"

section \<open>Streams\<close>

datatype ('t, 'c) webtunnel_stream = TlsStream 't | PlainStream 'c

record 's prefix_stream =
  ps_inner :: 's
  ps_prefix :: "(bytes \<times> nat) option"

definition prefix_stream_new :: "'s \<Rightarrow> bytes \<Rightarrow> 's prefix_stream" where
  "prefix_stream_new inner pre = \<lparr> ps_inner = inner, ps_prefix = (if pre = [] then None else Some (pre, 0)) \<rparr>"

text \<open>
  A polled stream reads up to \<open>n\<close> bytes, writes, flushes and closes. \<^verbatim>\<open>WebTunnelStream\<close>
  passes every call on to the stream it holds, \<^verbatim>\<open>PrefixStream\<close> all but the reads of its prefix.
\<close>

record 's polled =
  p_read :: "nat \<Rightarrow> 's \<Rightarrow> (io_error + bytes) poll \<times> 's"
  p_write :: "bytes \<Rightarrow> 's \<Rightarrow> (io_error + nat) poll \<times> 's"
  p_flush :: "'s \<Rightarrow> (io_error + unit) poll \<times> 's"
  p_shutdown :: "'s \<Rightarrow> (io_error + unit) poll \<times> 's"

fun on_stream ::
  "('t \<Rightarrow> 'r \<times> 't) \<Rightarrow> ('c \<Rightarrow> 'r \<times> 'c) \<Rightarrow> ('t, 'c) webtunnel_stream \<Rightarrow> 'r \<times> ('t, 'c) webtunnel_stream" where
  "on_stream f g (TlsStream t) = (case f t of (r, t) \<Rightarrow> (r, TlsStream t))"
| "on_stream f g (PlainStream c) = (case g c of (r, c) \<Rightarrow> (r, PlainStream c))"

definition webtunnel_polled :: "'t polled \<Rightarrow> 'c polled \<Rightarrow> ('t, 'c) webtunnel_stream polled" where
  "webtunnel_polled T C =
     \<lparr> p_read = (\<lambda>n. on_stream (p_read T n) (p_read C n)), p_write = (\<lambda>b. on_stream (p_write T b) (p_write C b)),
       p_flush = on_stream (p_flush T) (p_flush C), p_shutdown = on_stream (p_shutdown T) (p_shutdown C) \<rparr>"

definition on_inner :: "('s \<Rightarrow> 'r \<times> 's) \<Rightarrow> 's prefix_stream \<Rightarrow> 'r \<times> 's prefix_stream" where
  "on_inner f p = (case f (ps_inner p) of (r, s) \<Rightarrow> (r, p \<lparr> ps_inner := s \<rparr>))"

definition prefix_poll_read :: "'s polled \<Rightarrow> nat \<Rightarrow> 's prefix_stream \<Rightarrow> (io_error + bytes) poll \<times> 's prefix_stream" where
  "prefix_poll_read P n p =
     (case ps_prefix p of
        Some (bs, pos) \<Rightarrow>
          let remaining = length bs - pos in
          if remaining > 0 then
            let to_read = min remaining n
            in (Ready (Inr (take to_read (drop pos bs))), p \<lparr> ps_prefix := Some (bs, pos + to_read) \<rparr>)
          else on_inner (p_read P n) (p \<lparr> ps_prefix := None \<rparr>)
      | None \<Rightarrow> on_inner (p_read P n) p)"

definition prefix_polled :: "'s polled \<Rightarrow> 's prefix_stream polled" where
  "prefix_polled P =
     \<lparr> p_read = prefix_poll_read P, p_write = (\<lambda>b. on_inner (p_write P b)), p_flush = on_inner (p_flush P),
       p_shutdown = on_inner (p_shutdown P) \<rparr>"

section \<open>From a carrier to a stream\<close>

text \<open>The crates and the two kinds of stream of one connection; \<open>ue_tls\<close> is the TLS handshake.\<close>

record ('u, 'n, 'c, 't, 'w) upgrade_env =
  ue_os :: os_errors
  ue_web :: "('u, 'n) web_env"
  ue_http :: http_parser
  ue_plain_io :: "'c web_io"
  ue_tls_io :: "'t web_io"
  ue_tls :: "'n \<Rightarrow> 'c \<Rightarrow> (string + 't, 'w) future"
  ue_key :: "bytes option"
  ue_horizon :: nat

definition tls_connect ::
  "('u, 'n, 'c, 't, 'w) upgrade_env \<Rightarrow> 'u prepared_config \<Rightarrow> 'c \<Rightarrow> (web_error + 't, 'w) future" where
  "tls_connect E config tcp ts w =
     (case web_server_name (ue_web E) (pc_sni config) of
        Inl e \<Rightarrow> (Ready (Inl (WebTls (''invalid SNI: '' @ e))), w, ts)
      | Inr server_name \<Rightarrow> await_with WebTls (ue_tls E server_name tcp ts w) (\<lambda>t ts w. (Ready (Inr t), w, ts)))"

text \<open>Running a future on a stream that the caller owns, and giving the stream away with the result.\<close>

definition run_owned :: "('e + 'a, 's) future \<Rightarrow> ('s \<Rightarrow> 'a \<Rightarrow> 'b) \<Rightarrow> 's \<Rightarrow> ('e + 'b, 'w) future" where
  "run_owned fut k s ts w =
     (case fut ts s of
        (Ready (Inr x), s, ts) \<Rightarrow> (Ready (Inr (k s x)), w, ts)
      | (Ready (Inl e), s, ts) \<Rightarrow> (Ready (Inl e), w, ts)
      | (Pending, s, ts) \<Rightarrow> (Pending, w, ts)
      | (Panic, s, ts) \<Rightarrow> (Panic, w, ts))"

definition upgrade_and_return ::
  "('u, 'n, 'c, 't, 'w) upgrade_env \<Rightarrow> 'u prepared_config \<Rightarrow> 'c \<Rightarrow> (web_error + ('t, 'c) webtunnel_stream prefix_stream, 'w) future" where
  "upgrade_and_return E config =
     run_owned (read_upgrade (ue_os E) (ue_web E) (ue_http E) (ue_plain_io E) (ue_key E) config)
       (\<lambda>s leftover. prefix_stream_new (PlainStream s) leftover)"

definition upgrade_tls_and_return ::
  "('u, 'n, 'c, 't, 'w) upgrade_env \<Rightarrow> 'u prepared_config \<Rightarrow> 't \<Rightarrow> (web_error + ('t, 'c) webtunnel_stream prefix_stream, 'w) future" where
  "upgrade_tls_and_return E config =
     run_owned (read_upgrade (ue_os E) (ue_web E) (ue_http E) (ue_tls_io E) (ue_key E) config)
       (\<lambda>s leftover. prefix_stream_new (TlsStream s) leftover)"

definition upgrade_with_stream ::
  "('u, 'n, 'c, 't, 'w) upgrade_env \<Rightarrow> 'u prepared_config \<Rightarrow> 'c \<Rightarrow> (web_error + ('t, 'c) webtunnel_stream prefix_stream, 'w) future" where
  "upgrade_with_stream E config io ts w =
     (if pc_use_tls config
      then await_with (\<lambda>e. e) (tls_connect E config io ts w) (\<lambda>tls_stream. upgrade_tls_and_return E config tls_stream)
      else upgrade_and_return E config io ts w)"

section \<open>Builder and client\<close>

record webtunnel_client =
  wt_config :: "webtunnel_config option"
  wt_timeout :: nat
  wt_v4_bind :: "(ipv4 \<times> u16) option"
  wt_v6_bind :: "socket_addr option"

definition web_builder_default :: webtunnel_client where
  "web_builder_default = \<lparr> wt_config = None, wt_timeout = DEFAULT_HANDSHAKE_TIMEOUT, wt_v4_bind = None, wt_v6_bind = None \<rparr>"

definition web_options :: "('u, 'n) web_env \<Rightarrow> args \<Rightarrow> webtunnel_client \<Rightarrow> (web_error + unit) \<times> webtunnel_client" where
  "web_options W opts b =
     (case web_from_args W opts of Inl e \<Rightarrow> (Inl e, b) | Inr c \<Rightarrow> (Inr (), b \<lparr> wt_config := Some c \<rparr>))"

definition web_statefile_location :: "string \<Rightarrow> webtunnel_client \<Rightarrow> (web_error + unit) \<times> webtunnel_client" where
  "web_statefile_location path b = (Inl (WebUnsupported ''WebTunnel has no persistent client state''), b)"

definition web_timeout :: "nat option \<Rightarrow> webtunnel_client \<Rightarrow> webtunnel_client" where
  "web_timeout t b = b \<lparr> wt_timeout := (case t of Some d \<Rightarrow> d | None \<Rightarrow> DEFAULT_HANDSHAKE_TIMEOUT) \<rparr>"

definition web_v4_bind_addr :: "ipv4 \<times> u16 \<Rightarrow> webtunnel_client \<Rightarrow> webtunnel_client" where
  "web_v4_bind_addr a b = b \<lparr> wt_v4_bind := Some a \<rparr>"

definition web_v6_bind_addr :: "socket_addr \<Rightarrow> webtunnel_client \<Rightarrow> webtunnel_client" where
  "web_v6_bind_addr a b = b \<lparr> wt_v6_bind := Some a \<rparr>"

definition web_build :: "webtunnel_client \<Rightarrow> webtunnel_client" where
  "web_build b = b"

definition reject_bound_carrier :: "(ipv4 \<times> u16) option \<Rightarrow> socket_addr option \<Rightarrow> web_error + unit" where
  "reject_bound_carrier v4 v6 =
     (if v4 \<noteq> None \<or> v6 \<noteq> None then Inl (WebUnsupported ''bind addresses apply only to direct URL connections'') else Inr ())"

definition timed_out_as :: "'e \<Rightarrow> nat \<Rightarrow> ('e + 'a, 'w) future \<Rightarrow> ('e + 'a, 'w) future" where
  "timed_out_as e dl fut ts w =
     (case timeout_at dl fut ts w of
        (Ready (Some r), w, ts) \<Rightarrow> (Ready r, w, ts)
      | (Ready None, w, ts) \<Rightarrow> (Ready (Inl e), w, ts)
      | (Pending, w, ts) \<Rightarrow> (Pending, w, ts)
      | (Panic, w, ts) \<Rightarrow> (Panic, w, ts))"

text \<open>The checks both entry points make before they touch the carrier.\<close>

definition carrier_checks ::
  "('u, 'n, 'c, 't, 'w) upgrade_env \<Rightarrow> webtunnel_client \<Rightarrow> nat \<Rightarrow> web_error + 'u prepared_config \<times> nat" where
  "carrier_checks E client now =
     bindr (ok_or MissingUrl (wt_config client)) (\<lambda>config.
     bindr (prepare (ue_web E) config) (\<lambda>prepared.
     bindr (deadline_for (ue_horizon E) now (wt_timeout client)) (\<lambda>dl.
     bindr (reject_bound_carrier (wt_v4_bind client) (wt_v6_bind client)) (\<lambda>_. Inr (prepared, dl)))))"

definition web_wrap ::
  "('u, 'n, 'c, 't, 'w) upgrade_env \<Rightarrow> webtunnel_client \<Rightarrow> 'c \<Rightarrow> (web_error + ('t, 'c) webtunnel_stream prefix_stream, 'w) future" where
  "web_wrap E client io ts w =
     (case carrier_checks E client (hd ts) of
        Inl e \<Rightarrow> (Ready (Inl e), w, ts)
      | Inr (prepared, dl) \<Rightarrow> timed_out_as timeout_error dl (upgrade_with_stream E prepared io) ts w)"

definition web_establish ::
  "('u, 'n, 'c, 't, 'w) upgrade_env \<Rightarrow> webtunnel_client \<Rightarrow> (string + 'c, 'w) future
   \<Rightarrow> (web_error + ('t, 'c) webtunnel_stream prefix_stream, 'w) future" where
  "web_establish E client input ts w =
     (case carrier_checks E client (hd ts) of
        Inl e \<Rightarrow> (Ready (Inl e), w, ts)
      | Inr (prepared, dl) \<Rightarrow>
          timed_out_as timeout_error dl (\<lambda>ts w.
            await_with (\<lambda>error. WebIo (io_other (''carrier dial failed: '' @ error))) (input ts w)
              (\<lambda>io. upgrade_with_stream E prepared io)) ts w)"

section \<open>The end of the head, found piece by piece\<close>

text \<open>
  A one-pass reference for \<open>header_find\<close>: the number of bytes up to and with the first empty
  line that follows a line that is not empty. \<open>line\<close> is the part of the current line already seen.
\<close>

definition blank :: "bytes \<Rightarrow> bool" where
  "blank line = (line = [] \<or> line = [13])"

fun head_end :: "bool \<Rightarrow> bytes \<Rightarrow> bytes \<Rightarrow> nat option" where
  "head_end saw line [] = None"
| "head_end saw line (b # bs) =
     (if b \<noteq> 10 then map_option Suc (head_end saw (line @ [b]) bs)
      else if blank line \<and> saw then Some 1
      else map_option Suc (head_end (saw \<or> \<not> blank line) [] bs))"

fun find_chunks :: "header_boundary \<Rightarrow> bytes \<Rightarrow> bytes list \<Rightarrow> nat option" where
  "find_chunks hb buf [] = None"
| "find_chunks hb buf (c # cs) =
     (case header_find hb (buf @ c) of
        (Some n, _) \<Rightarrow> Some n
      | (None, hb) \<Rightarrow> find_chunks hb (buf @ c) cs)"

lemma head_end_append: "head_end saw line bs = Some n \<Longrightarrow> head_end saw line (bs @ xs) = Some n"
  by (induction saw line bs arbitrary: n rule: head_end.induct) (auto split: if_splits)

lemma head_end_le: "head_end saw line bs = Some n \<Longrightarrow> 0 < n \<and> n \<le> length bs"
  by (induction saw line bs arbitrary: n rule: head_end.induct) (fastforce split: if_splits)+

definition hb_inv :: "header_boundary \<Rightarrow> bytes \<Rightarrow> bool" where
  "hb_inv hb pre = (hb_scanned hb = length pre \<and> hb_line_start hb \<le> length pre
     \<and> (\<forall>suf. head_end False [] (pre @ suf)
          = map_option ((+) (length pre)) (head_end (hb_saw_status_line hb) (drop (hb_line_start hb) pre) suf)))"

lemma plus_fun: "(+) (Suc n) = (\<lambda>x. Suc (n + x))" "(+) (0::nat) = (\<lambda>x. x)"
  by auto

lemma hb_inv_default: "hb_inv header_boundary_default []"
  by (simp add: hb_inv_def header_boundary_default_def plus_fun option.map_ident)

lemma hb_inv_step:
  assumes "hb_inv hb pre" "head_end (hb_saw_status_line hb) (drop (hb_line_start hb) pre) [b] = None"
    "hb' = hb \<lparr> hb_scanned := Suc (length pre),
       hb_line_start := (if b = 10 then Suc (length pre) else hb_line_start hb),
       hb_saw_status_line := (if b = 10 then hb_saw_status_line hb \<or> \<not> blank (drop (hb_line_start hb) pre) else hb_saw_status_line hb) \<rparr>"
  shows "hb_inv hb' (pre @ [b])"
proof -
  have "head_end False [] (pre @ b # suf) = map_option ((+) (Suc (length pre)))
      (head_end (hb_saw_status_line hb') (drop (hb_line_start hb') (pre @ [b])) suf)" for suf
    using assms by (auto simp: hb_inv_def option.map_comp comp_def plus_fun split: if_splits)
  with assms show ?thesis by (auto simp: hb_inv_def)
qed

lemma header_find_correct:
  assumes "hb_inv hb pre"
  shows "fst (header_find hb (pre @ suf)) = head_end False [] (pre @ suf)
    \<and> (head_end False [] (pre @ suf) = None \<longrightarrow> hb_inv (snd (header_find hb (pre @ suf))) (pre @ suf))"
  using assms
proof (induction suf arbitrary: hb pre)
  case Nil
  then have "head_end False [] pre = None" using Nil [unfolded hb_inv_def] by (metis append_Nil2 head_end.simps(1) option.map(1))
  with Nil show ?case by (subst header_find.simps, simp add: hb_inv_def) (subst header_find.simps, simp)
next
  case (Cons b suf)
  let ?line = "drop (hb_line_start hb) pre"
  from Cons.prems have sc: "hb_scanned hb = length pre" "hb_line_start hb \<le> length pre" by (simp_all add: hb_inv_def)
  then have line: "take (length pre - hb_line_start hb) (drop (hb_line_start hb) (pre @ b # suf)) = ?line" by simp
  show ?case
  proof (cases "b = 10 \<and> blank ?line \<and> hb_saw_status_line hb")
    case True
    then have "head_end False [] (pre @ b # suf) = Some (Suc (length pre))" using Cons.prems by (simp add: hb_inv_def)
    moreover have "fst (header_find hb (pre @ b # suf)) = Some (Suc (length pre))"
      using True sc line by (subst header_find.simps) (auto simp: Let_def nth_append blank_def)
    ultimately show ?thesis by simp
  next
    case False
    define hb' where "hb' = hb \<lparr> hb_scanned := Suc (length pre),
       hb_line_start := (if b = 10 then Suc (length pre) else hb_line_start hb),
       hb_saw_status_line := (if b = 10 then hb_saw_status_line hb \<or> \<not> blank ?line else hb_saw_status_line hb) \<rparr>"
    have inv: "hb_inv hb' (pre @ [b])" by (rule hb_inv_step [OF Cons.prems _ hb'_def]) (use False in auto)
    have "header_find hb (pre @ b # suf) = header_find hb' (pre @ b # suf)"
      using False sc line by (subst header_find.simps) (auto simp: Let_def nth_append hb'_def blank_def)
    with Cons.IH [OF inv] show ?thesis by simp
  qed
qed

lemma find_chunks_correct: "hb_inv hb buf \<Longrightarrow> head_end False [] buf = None \<Longrightarrow> find_chunks hb buf cs = head_end False [] (buf @ concat cs)"
proof (induction hb buf cs rule: find_chunks.induct)
  case (2 hb buf c cs)
  show ?case
  proof (cases "head_end False [] (buf @ c)")
    case None
    with 2 header_find_correct [OF "2.prems"(1), of c] show ?thesis by (cases "header_find hb (buf @ c)") auto
  next
    case (Some n)
    with head_end_append [OF Some, of "concat cs"] header_find_correct [OF "2.prems"(1), of c] show ?thesis
      by (cases "header_find hb (buf @ c)") auto
  qed
qed simp

section \<open>What follows the head is what the stream gives\<close>

text \<open>
  What is relied on. \<open>http_ok\<close>: \<^verbatim>\<open>httparse\<close> reports a head that lies in the buffer, and the
  same one when more bytes follow it. \<open>web_io_ok\<close> and \<open>polled_ok\<close>: \<open>inp\<close> is what the peer sends
  and the stream has not handed out yet; a read takes from its front, nothing else touches it.
\<close>

definition http_ok :: "http_parser \<Rightarrow> bool" where
  "http_ok H = (\<forall>b n r. H b = Inr (Some (n, r)) \<longrightarrow> n \<le> length b \<and> (\<forall>x. H (b @ x) = Inr (Some (n, r))))"

definition web_io_ok :: "'s web_io \<Rightarrow> ('s \<Rightarrow> bytes) \<Rightarrow> bool" where
  "web_io_ok X inp =
     ((\<forall>n ts s bs s' ts'. w_read X n ts s = (Ready (Inr bs), s', ts') \<longrightarrow> inp s = bs @ inp s')
      \<and> (\<forall>b ts s r s' ts'. w_write_all X b ts s = (r, s', ts') \<longrightarrow> inp s' = inp s)
      \<and> (\<forall>ts s r s' ts'. w_flush X ts s = (r, s', ts') \<longrightarrow> inp s' = inp s))"

definition took :: "(io_error + bytes) poll \<Rightarrow> bytes" where
  "took r = (case r of Ready (Inr bs) \<Rightarrow> bs | _ \<Rightarrow> [])"

definition polled_ok :: "'s polled \<Rightarrow> ('s \<Rightarrow> bytes) \<Rightarrow> bool" where
  "polled_ok P inp =
     ((\<forall>n s. inp s = took (fst (p_read P n s)) @ inp (snd (p_read P n s)))
      \<and> (\<forall>b s. inp (snd (p_write P b s)) = inp s) \<and> (\<forall>s. inp (snd (p_flush P s)) = inp s)
      \<and> (\<forall>s. inp (snd (p_shutdown P s)) = inp s))"

lemma polled_okD:
  assumes "polled_ok P inp"
  shows "inp s = took (fst (p_read P n s)) @ inp (snd (p_read P n s))" "inp (snd (p_write P b s)) = inp s"
    "inp (snd (p_flush P s)) = inp s" "inp (snd (p_shutdown P s)) = inp s"
  using assms unfolding polled_ok_def by blast+

fun stream_input :: "('t \<Rightarrow> bytes) \<Rightarrow> ('c \<Rightarrow> bytes) \<Rightarrow> ('t, 'c) webtunnel_stream \<Rightarrow> bytes" where
  "stream_input f g (TlsStream t) = f t"
| "stream_input f g (PlainStream c) = g c"

definition pending_input :: "('s \<Rightarrow> bytes) \<Rightarrow> 's prefix_stream \<Rightarrow> bytes" where
  "pending_input inp p = (case ps_prefix p of Some (bs, pos) \<Rightarrow> drop pos bs | None \<Rightarrow> []) @ inp (ps_inner p)"

lemma on_stream_input:
  "\<forall>t. f' (snd (f t)) = f' t \<Longrightarrow> \<forall>c. g' (snd (g c)) = g' c \<Longrightarrow> stream_input f' g' (snd (on_stream f g st)) = stream_input f' g' st"
  by (cases st) (auto split: prod.splits, metis snd_conv, metis snd_conv)

lemma webtunnel_polled_ok:
  assumes "polled_ok T f" "polled_ok C g"
  shows "polled_ok (webtunnel_polled T C) (stream_input f g)"
proof -
  have "stream_input f g st = took (fst (on_stream (p_read T n) (p_read C n) st)) @ stream_input f g (snd (on_stream (p_read T n) (p_read C n) st))"
    for n st using polled_okD(1) [OF assms(1)] polled_okD(1) [OF assms(2)] by (cases st) (simp_all add: case_prod_beta)
  with on_stream_input polled_okD(2-4) [OF assms(1)] polled_okD(2-4) [OF assms(2)] show ?thesis
    by (simp add: polled_ok_def webtunnel_polled_def on_stream_input)
qed

lemma on_inner_pending: "\<forall>s. inp (snd (f s)) = inp s \<Longrightarrow> pending_input inp (snd (on_inner f p)) = pending_input inp p"
  by (simp add: on_inner_def pending_input_def case_prod_beta)

lemma prefix_polled_ok:
  assumes "polled_ok P inp" shows "polled_ok (prefix_polled P) (pending_input inp)"
proof -
  have inner: "pending_input inp p = took (fst (on_inner (p_read P n) p)) @ pending_input inp (snd (on_inner (p_read P n) p))"
    if "ps_prefix p = None" for n p
    using that polled_okD(1) [OF assms, of "ps_inner p" n] by (simp add: on_inner_def pending_input_def case_prod_beta)
  have "pending_input inp p = took (fst (prefix_poll_read P n p)) @ pending_input inp (snd (prefix_poll_read P n p))" for n p
  proof (cases "ps_prefix p")
    case (Some c)
    obtain bs pos where c: "c = (bs, pos)" by (cases c)
    show ?thesis
    proof (cases "length bs - pos > 0")
      case True
      let ?k = "min (length bs - pos) n"
      have "drop pos bs = take ?k (drop pos bs) @ drop (pos + ?k) bs" by (metis append_take_drop_id drop_drop add.commute)
      with True Some c show ?thesis by (simp add: prefix_poll_read_def pending_input_def took_def Let_def)
    next
      case False
      with Some c have "prefix_poll_read P n p = on_inner (p_read P n) (p \<lparr> ps_prefix := None \<rparr>)"
        and "pending_input inp p = pending_input inp (p \<lparr> ps_prefix := None \<rparr>)"
        by (simp_all add: prefix_poll_read_def pending_input_def Let_def)
      with inner [of "p \<lparr> ps_prefix := None \<rparr>"] show ?thesis by simp
    qed
  qed (use inner in \<open>simp add: prefix_poll_read_def\<close>)
  then show ?thesis using polled_okD(2-4) [OF assms] by (simp add: polled_ok_def prefix_polled_def on_inner_pending)
qed

text \<open>Any sequence of calls, with the bytes its reads have given.\<close>

datatype web_op = WRead nat | WWrite bytes | WFlush | WShutdown

fun web_step :: "'s polled \<Rightarrow> web_op \<Rightarrow> 's \<Rightarrow> bytes \<times> 's" where
  "web_step P (WRead n) s = (took (fst (p_read P n s)), snd (p_read P n s))"
| "web_step P (WWrite b) s = ([], snd (p_write P b s))"
| "web_step P WFlush s = ([], snd (p_flush P s))"
| "web_step P WShutdown s = ([], snd (p_shutdown P s))"

fun web_run :: "'s polled \<Rightarrow> web_op list \<Rightarrow> 's \<Rightarrow> bytes \<times> 's" where
  "web_run P [] s = ([], s)"
| "web_run P (x # xs) s = (case web_step P x s of (b, s) \<Rightarrow> (case web_run P xs s of (c, s) \<Rightarrow> (b @ c, s)))"

lemma web_step_input: "polled_ok P inp \<Longrightarrow> inp s = fst (web_step P x s) @ inp (snd (web_step P x s))"
  using polled_okD [of P inp] by (cases x) auto

lemma web_run_input: "polled_ok P inp \<Longrightarrow> inp s = fst (web_run P xs s) @ inp (snd (web_run P xs s))"
proof (induction xs arbitrary: s)
  case (Cons x xs)
  from web_step_input [OF Cons.prems, of s x] Cons.IH [OF Cons.prems, of "snd (web_step P x s)"] show ?case
    by (simp add: case_prod_beta)
qed simp

text \<open>A 101 head found in what has been read is the head of all that comes.\<close>

lemma await_with_Ready:
  "await_with g x f = (Ready (Inr y), s', ts') \<longleftrightarrow>
     (\<exists>v s ts. x = (Ready (Inr v), s, ts) \<and> f v ts s = (Ready (Inr y), s', ts'))"
  by (cases "(g, x, f)" rule: await_with.cases) auto

lemma parse_response_101:
  assumes "http_ok H" "parse_response H buf = Inr (code, rest)"
  shows "\<exists>n r. H buf = Inr (Some (n, r)) \<and> hr_code r = Some 101 \<and> n \<le> length buf \<and> rest = drop n buf"
proof -
  from assms(2) obtain n r where "H buf = Inr (Some (n, r))" "hr_code r = Some 101" "rest = drop n buf"
    by (auto simp: parse_response_def parse_response_complete_def split: sum.splits option.splits if_splits prod.splits)
  with assms(1) show ?thesis unfolding http_ok_def by blast
qed

lemma upgrade_loop_input:
  assumes "http_ok H" "web_io_ok X inp" "upgrade_loop os H X buf hb ts s = (Ready (Inr leftover), s', ts')"
  shows "\<exists>n r. H (buf @ inp s) = Inr (Some (n, r)) \<and> hr_code r = Some 101 \<and> leftover @ inp s' = drop n (buf @ inp s)"
  using assms(3)
proof (induction "RESPONSE_BUFFER - length buf" arbitrary: buf hb ts s rule: less_induct)
  case less
  from less.prems obtain bs s1 ts1 where
    r: "w_read X (RESPONSE_BUFFER - length buf) ts s = (Ready (Inr bs), s1, ts1)" "length buf < RESPONSE_BUFFER" "bs \<noteq> []"
      "length bs \<le> RESPONSE_BUFFER - length buf"
    by (subst (asm) upgrade_loop.simps) (auto simp: await_with_Ready split: if_splits)
  have inp: "inp s = bs @ inp s1" using assms(2) r(1) unfolding web_io_ok_def by blast
  obtain found hb' where h: "header_find hb (buf @ bs) = (found, hb')" by (cases "header_find hb (buf @ bs)")
  have turn: "upgrade_loop os H X buf hb ts s =
      (case found of
         None \<Rightarrow> upgrade_loop os H X (buf @ bs) hb' ts1 s1
       | Some header_end \<Rightarrow>
           (case parse_response H (buf @ bs) of
              Inl e \<Rightarrow> (Ready (Inl e), s1, ts1)
            | Inr (_, leftover_slice) \<Rightarrow>
                let body_offset = length (buf @ bs) - length leftover_slice in
                if body_offset < header_end then (Ready (Inl (HttpParse ''invalid HTTP response boundary'')), s1, ts1)
                else (Ready (Inr (drop body_offset (buf @ bs))), s1, ts1)))"
    using r h by (subst upgrade_loop.simps) (simp add: Let_def split: option.split)
  show ?case
  proof (cases found)
    case None
    have "upgrade_loop os H X (buf @ bs) hb' ts1 s1 = (Ready (Inr leftover), s', ts')" using turn less.prems None by simp
    moreover have "RESPONSE_BUFFER - length (buf @ bs) < RESPONSE_BUFFER - length buf" using r by (auto simp: neq_Nil_conv)
    ultimately show ?thesis using less.hyps [of "buf @ bs" hb' ts1 s1] inp by simp
  next
    case (Some header_end)
    from turn less.prems Some obtain code rest where
      p: "parse_response H (buf @ bs) = Inr (code, rest)" "s' = s1" "leftover = drop (length (buf @ bs) - length rest) (buf @ bs)"
      by (auto simp: Let_def split: sum.splits if_splits)
    from parse_response_101 [OF assms(1) p(1)] obtain n r where
      n: "H (buf @ bs) = Inr (Some (n, r))" "hr_code r = Some 101" "n \<le> length (buf @ bs)" "rest = drop n (buf @ bs)" by blast
    have "H ((buf @ bs) @ inp s1) = Inr (Some (n, r))" using assms(1) n(1) unfolding http_ok_def by blast
    moreover have "length (buf @ bs) - length rest = n" using n(3) by (simp only: n(4) length_drop diff_diff_cancel)
    then have "leftover = drop n (buf @ bs)" by (simp only: p(3))
    ultimately show ?thesis using n p(2) inp by auto
  qed
qed

lemma read_upgrade_input:
  assumes "http_ok H" "web_io_ok X inp" "read_upgrade os W H X key config ts s = (Ready (Inr leftover), s', ts')"
  shows "\<exists>n r. H (inp s) = Inr (Some (n, r)) \<and> hr_code r = Some 101 \<and> leftover @ inp s' = drop n (inp s)"
proof -
  from assms(3) obtain req s1 ts1 s2 ts2 where
    h: "w_write_all X (str_bytes req) ts s = (Ready (Inr ()), s1, ts1)" "w_flush X ts1 s1 = (Ready (Inr ()), s2, ts2)"
      "upgrade_loop os H X [] header_boundary_default ts2 s2 = (Ready (Inr leftover), s', ts')"
    by (auto simp: read_upgrade_def await_with_Ready split: option.splits)
  have "inp s2 = inp s" using assms(2) h(1,2) unfolding web_io_ok_def by metis
  with upgrade_loop_input [OF assms(1,2) h(3)] show ?thesis by simp
qed

lemma pending_input_new: "pending_input inp (prefix_stream_new s pre) = pre @ inp s"
  by (simp add: pending_input_def prefix_stream_new_def)

text \<open>The stream the upgrade runs on: the carrier itself, or what the TLS handshake made of it.\<close>

definition opened ::
  "('u, 'n, 'c, 't, 'w) upgrade_env \<Rightarrow> 'u prepared_config \<Rightarrow> 'c \<Rightarrow> ('t, 'c) webtunnel_stream \<Rightarrow> bool" where
  "opened E config io st =
     (if pc_use_tls config
      then \<exists>name t ts w w' ts'. web_server_name (ue_web E) (pc_sni config) = Inr name
             \<and> ue_tls E name io ts w = (Ready (Inr t), w', ts') \<and> st = TlsStream t
      else st = PlainStream io)"

lemma run_owned_Ready:
  "run_owned fut k s ts w = (Ready (Inr y), w', ts') \<longleftrightarrow> (\<exists>x s'. fut ts s = (Ready (Inr x), s', ts') \<and> y = k s' x \<and> w' = w)"
  by (auto simp: run_owned_def split: prod.splits poll.splits sum.splits)

lemma upgrade_with_stream_input:
  assumes "http_ok (ue_http E)" "web_io_ok (ue_plain_io E) g" "web_io_ok (ue_tls_io E) f"
    "upgrade_with_stream E config io ts w = (Ready (Inr p), w', ts')"
  shows "\<exists>st n r. opened E config io st \<and> ue_http E (stream_input f g st) = Inr (Some (n, r)) \<and> hr_code r = Some 101
    \<and> pending_input (stream_input f g) p = drop n (stream_input f g st)"
proof (cases "pc_use_tls config")
  case True
  with assms(4) obtain name t w1 ts1 leftover t' where
    h: "web_server_name (ue_web E) (pc_sni config) = Inr name" "ue_tls E name io ts w = (Ready (Inr t), w1, ts1)"
      "read_upgrade (ue_os E) (ue_web E) (ue_http E) (ue_tls_io E) (ue_key E) config ts1 t = (Ready (Inr leftover), t', ts')"
      "p = prefix_stream_new (TlsStream t') leftover"
    by (auto simp: upgrade_with_stream_def tls_connect_def upgrade_tls_and_return_def await_with_Ready run_owned_Ready
        split: sum.splits)
  from read_upgrade_input [OF assms(1,3) h(3)] h True show ?thesis
    by (intro exI [of _ "TlsStream t"]) (auto simp: opened_def pending_input_new)
next
  case False
  with assms(4) obtain leftover c' where
    h: "read_upgrade (ue_os E) (ue_web E) (ue_http E) (ue_plain_io E) (ue_key E) config ts io = (Ready (Inr leftover), c', ts')"
      "p = prefix_stream_new (PlainStream c') leftover"
    by (auto simp: upgrade_with_stream_def upgrade_and_return_def run_owned_Ready)
  from read_upgrade_input [OF assms(1,2) h(1)] h(2) False show ?thesis
    by (intro exI [of _ "PlainStream io"]) (auto simp: opened_def pending_input_new)
qed

lemma timed_out_as_Ready:
  "timed_out_as e dl fut ts w = (Ready (Inr y), w', ts') \<Longrightarrow> \<exists>ts0 ts1. fut ts0 w = (Ready (Inr y), w', ts1)"
  by (fastforce simp: timed_out_as_def timeout_at_def Let_def split: prod.splits poll.splits option.splits if_splits)

lemma prepare_doh_mode:
  assumes "prepare W config = Inr prepared"
  shows "prepare W (with_doh_mode config mode) = Inr (prepared \<lparr> pc_doh_mode := mode \<rparr>)"
proof -
  have t: "connect_target W (config \<lparr> wc_doh_mode := mode \<rparr>) u = connect_target W config u" for u by (simp add: connect_target_def)
  from assms obtain url where "url_parse (web_url W) (wc_url config) = Inr url" by (auto simp: prepare_def)
  moreover from this assms obtain target where "connect_target W config url = Inr target"
    by (auto simp: prepare_def split: if_splits)
  ultimately show ?thesis using assms
    by (cases target) (auto simp: prepare_def with_doh_mode_def t Let_def split: if_split_asm)
qed

section \<open>A bridge to try the properties on\<close>

definition toy_url :: "unit url_ops" where
  "toy_url = \<lparr> url_parse = \<lambda>_. Inr (), url_scheme = \<lambda>_. ''http'', url_path = \<lambda>_. ''/'', url_query = \<lambda>_. None, url_fragment = \<lambda>_. None,
     url_port = \<lambda>_. None, url_port_or_known_default = \<lambda>_. Some 80, url_username = \<lambda>_. '''', url_password = \<lambda>_. None,
     url_host_str = \<lambda>_. Some ''h'' \<rparr>"

definition toy_web :: "(unit, unit) web_env" where
  "toy_web = \<lparr> web_url = toy_url, web_server_name = \<lambda>_. Inr (), web_debug = \<lambda>s. s, web_base64 = bytes_str \<rparr>"

definition toy_http :: http_parser where
  "toy_http bs = Inr (map_option (\<lambda>n. (n, \<lparr> hr_code = Some 101, hr_reason = None \<rparr>)) (head_end False [] bs))"

definition toy_web_io :: "bytes web_io" where
  "toy_web_io = \<lparr> w_read = \<lambda>n ts s. (Ready (Inr (take n s)), drop n s, ts), w_write_all = \<lambda>_ ts s. (Ready (Inr ()), s, ts),
     w_flush = \<lambda>ts s. (Ready (Inr ()), s, ts) \<rparr>"

definition toy_polled :: "bytes polled" where
  "toy_polled = \<lparr> p_read = \<lambda>n s. (Ready (Inr (take n s)), drop n s), p_write = \<lambda>b s. (Ready (Inr (length b)), s),
     p_flush = \<lambda>s. (Ready (Inr ()), s), p_shutdown = \<lambda>s. (Ready (Inr ()), s) \<rparr>"

definition toy_upgrade :: "(unit, unit, bytes, bytes, 'w) upgrade_env" where
  "toy_upgrade = \<lparr> ue_os = \<lparr> os_kind = \<lambda>_. OtherKind, os_message = \<lambda>_. [], kind_message = \<lambda>_. [] \<rparr>, ue_web = toy_web, ue_http = toy_http,
     ue_plain_io = toy_web_io, ue_tls_io = toy_web_io, ue_tls = \<lambda>_ c ts w. (Ready (Inr c), w, ts), ue_key = Some [], ue_horizon = 100 \<rparr>"

definition toy_web_config :: webtunnel_config where
  "toy_web_config = \<lparr> wc_url = ''http://h/'', wc_version = None, wc_servername = None, wc_tcp_addr = None, wc_doh_mode = DohFallback \<rparr>"

definition toy_web_client :: webtunnel_client where
  "toy_web_client = web_builder_default \<lparr> wt_config := Some toy_web_config, wt_timeout := 9 \<rparr>"

lemma toy_http_ok: "http_ok toy_http"
  by (auto simp: http_ok_def toy_http_def head_end_append dest: head_end_le)

lemma toy_web_io_ok: "web_io_ok toy_web_io (\<lambda>s. s)" "polled_ok toy_polled (\<lambda>s. s)"
  by (auto simp: web_io_ok_def toy_web_io_def polled_ok_def toy_polled_def took_def)

lemma toy_web_wrap: "web_wrap toy_upgrade toy_web_client [72, 10, 10, 7, 8] [0] ()
    = (Ready (Inr \<lparr> ps_inner = PlainStream [], ps_prefix = Some ([7, 8], 0) \<rparr>), (), [0])"
proof -
  have "fst (header_find header_boundary_default ([] @ [72, 10, 10, 7, 8])) = Some 3"
    using header_find_correct [OF hb_inv_default, of "[72, 10, 10, 7, 8]"] by (simp add: blank_def)
  then obtain hb where "header_find header_boundary_default [72, 10, 10, 7, 8] = (Some 3, hb)"
    by (cases "header_find header_boundary_default [72, 10, 10, 7, 8]") auto
  then show ?thesis
    by (simp add: web_wrap_def carrier_checks_def toy_web_client_def web_builder_default_def prepare_def toy_upgrade_def
        toy_web_def toy_url_def toy_web_config_def connect_target_def Let_def deadline_for_def reject_bound_carrier_def
        timed_out_as_def timeout_at_def upgrade_with_stream_def eq_ignore_ascii_case_def to_ascii_lowercase_def
        upgrade_and_return_def run_owned_def read_upgrade_def build_upgrade_request_prepared_def
        generate_websocket_key_def toy_web_io_def upgrade_loop.simps RESPONSE_BUFFER_def parse_response_def
        parse_response_complete_def toy_http_def blank_def prefix_stream_new_def)
qed

section \<open>Properties\<close>

text \<open>
  Searching for the end of the response head as the bytes arrive, without looking at any
  of them twice, finds the place that a single pass over the whole response finds, in
  whatever pieces it arrives.
\<close>

theorem header_find_incremental:
  "find_chunks header_boundary_default [] cs = head_end False [] (concat cs)"
  using find_chunks_correct [OF hb_inv_default, of cs] by simp

text \<open>
  C22. A WebTunnel connection gives its user exactly the bytes that follow the 101 response: however
  the response arrives, whatever is read together with it, with TLS or without, any sequence of reads,
  writes, flushes and shutdowns gets these bytes in order, none lost and none repeated.
\<close>

theorem webtunnel_stream_integrity:
  assumes "http_ok (ue_http E)" "web_io_ok (ue_plain_io E) g" "web_io_ok (ue_tls_io E) f" "polled_ok T f" "polled_ok C g"
    "web_wrap E client io ts w = (Ready (Inr p), w', ts')"
  shows "\<exists>config prepared st n r.
    wt_config client = Some config \<and> prepare (ue_web E) config = Inr prepared \<and> opened E prepared io st
    \<and> ue_http E (stream_input f g st) = Inr (Some (n, r)) \<and> hr_code r = Some 101
    \<and> (\<forall>xs. drop n (stream_input f g st) = fst (web_run (prefix_polled (webtunnel_polled T C)) xs p)
           @ pending_input (stream_input f g) (snd (web_run (prefix_polled (webtunnel_polled T C)) xs p)))"
proof -
  from assms(6) obtain config prepared dl where
    c: "wt_config client = Some config" "prepare (ue_web E) config = Inr prepared"
      "timed_out_as timeout_error dl (upgrade_with_stream E prepared io) ts w = (Ready (Inr p), w', ts')"
    by (auto simp: web_wrap_def carrier_checks_def split: sum.splits)
  from timed_out_as_Ready [OF c(3)] upgrade_with_stream_input [OF assms(1-3)] obtain st n r where
    h: "opened E prepared io st" "ue_http E (stream_input f g st) = Inr (Some (n, r))" "hr_code r = Some 101"
      "pending_input (stream_input f g) p = drop n (stream_input f g st)" by blast
  have "polled_ok (prefix_polled (webtunnel_polled T C)) (pending_input (stream_input f g))"
    using assms(4,5) by (intro prefix_polled_ok webtunnel_polled_ok)
  from web_run_input [OF this, of p] c(1,2) h show ?thesis by auto
qed

theorem webtunnel_stream_integrity_witness:
  "\<exists>n. n = 3 \<and> (\<exists>p. web_wrap toy_upgrade toy_web_client [72, 10, 10, 7, 8] [0] () = (Ready (Inr p), (), [0])
     \<and> [7, 8] = fst (web_run (prefix_polled (webtunnel_polled toy_polled toy_polled)) [WRead 1, WFlush, WRead 9] p))"
  using webtunnel_stream_integrity [of toy_upgrade "\<lambda>s. s" "\<lambda>s. s" toy_polled toy_polled toy_web_client "[72, 10, 10, 7, 8]" "[0]" "()"]
    toy_http_ok toy_web_io_ok toy_web_wrap
  by (auto simp: toy_upgrade_def prefix_polled_def prefix_poll_read_def webtunnel_polled_def toy_polled_def on_inner_def took_def Let_def)

text \<open>
  A configuration that was accepted stays usable: every later preparation of it succeeds, also
  after its resolution mode is changed, so that the upgrade request can be built without a panic
  whenever random bytes are to be had.
\<close>

theorem accepted_config_prepares:
  assumes "web_from_args W a = Inr config"
  shows "(\<exists>prepared. prepare W (with_doh_mode config mode) = Inr prepared \<and> pc_doh_mode prepared = mode)
    \<and> build_upgrade_request W (Some key) (with_doh_mode config mode) \<noteq> None"
proof -
  from assms obtain prepared where "prepare W config = Inr prepared"
    by (auto simp: web_from_args_def Let_def split: if_splits)
  then have "prepare W (with_doh_mode config mode) = Inr (prepared \<lparr> pc_doh_mode := mode \<rparr>)" by (simp add: prepare_doh_mode)
  then show ?thesis by (simp add: build_upgrade_request_def build_upgrade_request_prepared_def generate_websocket_key_def Let_def)
qed

theorem accepted_config_prepares_witness:
  "web_from_args toy_web [(''url'', [''http://h/''])] = Inr toy_web_config
   \<and> build_upgrade_request toy_web (Some []) (with_doh_mode toy_web_config DohStrict) \<noteq> None"
proof -
  have "web_from_args toy_web [(''url'', [''http://h/''])] = Inr toy_web_config"
    by (simp add: web_from_args_def retrieve_def toy_web_def toy_url_def prepare_def connect_target_def toy_web_config_def Let_def)
  with accepted_config_prepares [OF this] show ?thesis by blast
qed

end
