(* ===== verification/WebDial.thy ===== *)
theory WebDial
  imports WebTunnel Answers
begin

text \<open>
  How a WebTunnel client reaches its bridge: the dialling half of
  \<^verbatim>\<open>crates/webtunnel/src/handshake.rs\<close> with the cache of \<^verbatim>\<open>lib.rs\<close>, and the DNS-over-HTTPS
  resolver and endpoints of \<^verbatim>\<open>dns\<close>. Sockets, the system resolver and the \<^verbatim>\<open>hickory\<close>
  resolver are arguments; futures are those of \<open>Establish\<close>.
\<close>

section \<open>Endpoints\<close>

record doh_endpoint =
  de_name :: string
  de_sni :: string
  de_path :: "string option"
  de_bootstrap :: "ip_addr list"

type_synonym name_server = "ip_addr \<times> string \<times> string option"

definition to_name_server_configs :: "doh_endpoint \<Rightarrow> name_server list" where
  "to_name_server_configs ep = map (\<lambda>ip. (ip, de_sni ep, de_path ep)) (de_bootstrap ep)"

definition CLOUDFLARE_IPS :: "ip_addr list" where
  "CLOUDFLARE_IPS = [IpV4 (1, 1, 1, 1), IpV4 (1, 0, 0, 1),
     IpV6 [0x2606, 0x4700, 0x4700, 0, 0, 0, 0, 0x1111], IpV6 [0x2606, 0x4700, 0x4700, 0, 0, 0, 0, 0x1001]]"

definition QUAD9_IPS :: "ip_addr list" where
  "QUAD9_IPS = [IpV4 (9, 9, 9, 9), IpV4 (149, 112, 112, 112),
     IpV6 [0x2620, 0xfe, 0, 0, 0, 0, 0, 0xfe], IpV6 [0x2620, 0xfe, 0, 0, 0, 0, 0, 9]]"

definition GOOGLE_IPS :: "ip_addr list" where
  "GOOGLE_IPS = [IpV4 (8, 8, 8, 8), IpV4 (8, 8, 4, 4),
     IpV6 [0x2001, 0x4860, 0x4860, 0, 0, 0, 0, 0x8888], IpV6 [0x2001, 0x4860, 0x4860, 0, 0, 0, 0, 0x8844]]"

definition ADGUARD_IPS :: "ip_addr list" where
  "ADGUARD_IPS = [IpV4 (94, 140, 14, 14), IpV4 (94, 140, 15, 15),
     IpV6 [0x2a10, 0x50c0, 0, 0, 0, 0, 0xad, 1], IpV6 [0x2a10, 0x50c0, 0, 0, 0, 0, 0xad, 2]]"

definition MULLVAD_IPS :: "ip_addr list" where
  "MULLVAD_IPS = [IpV4 (194, 242, 2, 2), IpV4 (194, 242, 2, 3),
     IpV6 [0x2a07, 0xe340, 0, 0, 0, 0, 0, 2], IpV6 [0x2a07, 0xe340, 0, 0, 0, 0, 0, 3]]"

definition NEXTDNS_IPS :: "ip_addr list" where
  "NEXTDNS_IPS = [IpV4 (45, 90, 28, 0), IpV4 (45, 90, 30, 0),
     IpV6 [0x2a07, 0xa8c0, 0, 0, 0, 0, 0, 0], IpV6 [0x2a07, 0xa8c1, 0, 0, 0, 0, 0, 0]]"

definition DNS_SB_IPS :: "ip_addr list" where
  "DNS_SB_IPS = [IpV4 (185, 222, 222, 222), IpV4 (45, 11, 45, 11),
     IpV6 [0x2a09, 0, 0, 0, 0, 0, 0, 0], IpV6 [0x2a11, 0, 0, 0, 0, 0, 0, 0]]"

definition CONTROLD_IPS :: "ip_addr list" where
  "CONTROLD_IPS = [IpV4 (76, 76, 2, 0), IpV4 (76, 76, 10, 0),
     IpV6 [0x2606, 0x1a40, 0, 0, 0, 0, 0, 0], IpV6 [0x2606, 0x1a40, 1, 0, 0, 0, 0, 0]]"

definition CLEANBROWSING_IPS :: "ip_addr list" where
  "CLEANBROWSING_IPS = [IpV4 (185, 228, 168, 9), IpV4 (185, 228, 169, 9)]"

definition OPENDNS_IPS :: "ip_addr list" where
  "OPENDNS_IPS = [IpV4 (208, 67, 222, 222), IpV4 (208, 67, 220, 220),
     IpV6 [0x2620, 0x119, 0x35, 0, 0, 0, 0, 0x35], IpV6 [0x2620, 0x119, 0x53, 0, 0, 0, 0, 0x53]]"

definition DEFAULT_DOH :: "doh_endpoint list" where
  "DEFAULT_DOH =
     [\<lparr> de_name = ''Cloudflare'', de_sni = ''cloudflare-dns.com'', de_path = Some ''/dns-query'', de_bootstrap = CLOUDFLARE_IPS \<rparr>,
      \<lparr> de_name = ''Quad9'', de_sni = ''dns.quad9.net'', de_path = Some ''/dns-query'', de_bootstrap = QUAD9_IPS \<rparr>,
      \<lparr> de_name = ''Google'', de_sni = ''dns.google'', de_path = Some ''/dns-query'', de_bootstrap = GOOGLE_IPS \<rparr>,
      \<lparr> de_name = ''AdGuard'', de_sni = ''dns.adguard-dns.com'', de_path = Some ''/dns-query'', de_bootstrap = ADGUARD_IPS \<rparr>,
      \<lparr> de_name = ''Mullvad'', de_sni = ''dns.mullvad.net'', de_path = Some ''/dns-query'', de_bootstrap = MULLVAD_IPS \<rparr>,
      \<lparr> de_name = ''NextDNS'', de_sni = ''dns.nextdns.io'', de_path = Some ''/dns-query'', de_bootstrap = NEXTDNS_IPS \<rparr>,
      \<lparr> de_name = ''DNS.SB'', de_sni = ''doh.sb'', de_path = Some ''/dns-query'', de_bootstrap = DNS_SB_IPS \<rparr>,
      \<lparr> de_name = ''ControlD'', de_sni = ''freedns.controld.com'', de_path = Some ''/p0'', de_bootstrap = CONTROLD_IPS \<rparr>,
      \<lparr> de_name = ''CleanBrowsing'', de_sni = ''doh.cleanbrowsing.org'', de_path = Some ''/doh/security-filter'', de_bootstrap = CLEANBROWSING_IPS \<rparr>,
      \<lparr> de_name = ''OpenDNS'', de_sni = ''doh.opendns.com'', de_path = Some ''/dns-query'', de_bootstrap = OPENDNS_IPS \<rparr>]"

lemmas doh_ips = CLOUDFLARE_IPS_def QUAD9_IPS_def GOOGLE_IPS_def ADGUARD_IPS_def MULLVAD_IPS_def NEXTDNS_IPS_def DNS_SB_IPS_def CONTROLD_IPS_def CLEANBROWSING_IPS_def OPENDNS_IPS_def

section \<open>The network\<close>

text \<open>
  \<open>net_build\<close> makes a \<^verbatim>\<open>hickory\<close> resolver for name servers, with or without the hosts file;
  \<open>net_lookup_ip\<close> asks it, \<open>net_lookup_host\<close> asks the system.
\<close>

record ('r, 'k, 'c, 'w) network =
  net_build :: "name_server list \<Rightarrow> bool \<Rightarrow> string + 'r"
  net_lookup_ip :: "'r \<Rightarrow> string \<Rightarrow> (string + ip_addr list, 'w) future"
  net_lookup_host :: "string \<Rightarrow> u16 \<Rightarrow> (io_error + socket_addr list, 'w) future"
  net_socket :: "bool \<Rightarrow> 'w \<Rightarrow> (io_error + 'k) \<times> 'w"
  net_bind :: "'k \<Rightarrow> socket_addr \<Rightarrow> 'w \<Rightarrow> (io_error + unit) \<times> 'w"
  net_connect :: "'k \<Rightarrow> socket_addr \<Rightarrow> (io_error + 'c, 'w) future"

section \<open>The resolver\<close>

definition from_endpoints :: "('r, 'k, 'c, 'w) network \<Rightarrow> doh_endpoint list \<Rightarrow> io_error + 'r" where
  "from_endpoints N pool =
     (if pool = [] then Inl (IoCustom InvalidInput ''DohResolver requires at least one endpoint'')
      else map_err (\<lambda>e. io_other (''failed to build hickory resolver: '' @ e))
             (net_build N (concat (map to_name_server_configs pool)) False))"

definition with_default_pool :: "('r, 'k, 'c, 'w) network \<Rightarrow> io_error + 'r" where
  "with_default_pool N = from_endpoints N DEFAULT_DOH"

definition doh_resolve :: "('r, 'k, 'c, 'w) network \<Rightarrow> 'r \<Rightarrow> string \<Rightarrow> u16 \<Rightarrow> (io_error + socket_addr list, 'w) future" where
  "doh_resolve N r host port ts w =
     await_with (\<lambda>e. io_other (''DoH lookup failed: '' @ e)) (net_lookup_ip N r host ts w) (\<lambda>lookup ts w.
       let addrs = map (\<lambda>ip. sock_new ip port) lookup in
       if addrs = [] then (Ready (Inl (IoCustom NotFound (''DoH returned no addresses for '' @ host))), w, ts)
       else (Ready (Inr addrs), w, ts))"

text \<open>\<^verbatim>\<open>ClientCache\<close>: a value is kept once it has been made, a failure is not.\<close>

definition get_or_try_init :: "'v option \<Rightarrow> 'e + 'v \<Rightarrow> ('e + 'v) \<times> 'v option" where
  "get_or_try_init cache made =
     (case cache of
        Some v \<Rightarrow> (Inr v, cache)
      | None \<Rightarrow> (case made of Inl e \<Rightarrow> (Inl e, None) | Inr v \<Rightarrow> (Inr v, Some v)))"

definition get_resolver :: "('r, 'k, 'c, 'w) network \<Rightarrow> 'r option \<Rightarrow> (io_error + 'r) \<times> 'r option" where
  "get_resolver N cache = get_or_try_init cache (with_default_pool N)"

definition lookup_system :: "('r, 'k, 'c, 'w) network \<Rightarrow> string \<Rightarrow> u16 \<Rightarrow> (io_error + socket_addr list, 'w) future" where
  "lookup_system N host port ts w =
     await_with (\<lambda>e. e) (net_lookup_host N host port ts w) (\<lambda>addrs ts w.
       if addrs = [] then (Ready (Inl (IoCustom NotFound ''system resolver returned no addresses'')), w, ts)
       else (Ready (Inr addrs), w, ts))"

section \<open>Dialling\<close>

definition connect_bound ::
  "('r, 'k, 'c, 'w) network \<Rightarrow> (ipv4 \<times> u16) option \<Rightarrow> socket_addr option \<Rightarrow> socket_addr \<Rightarrow> (io_error + 'c, 'w) future" where
  "connect_bound N v4_bind v6_bind addr ts w =
     (let (v6, bind_addr) = (case addr of
            SockV4 _ _ \<Rightarrow> (False, map_option (\<lambda>(ip, p). SockV4 ip p) v4_bind)
          | SockV6 _ _ _ _ \<Rightarrow> (True, v6_bind)) in
      case net_socket N v6 w of
        (Inl e, w) \<Rightarrow> (Ready (Inl e), w, ts)
      | (Inr socket, w) \<Rightarrow>
          (case bind_addr of
             None \<Rightarrow> net_connect N socket addr ts w
           | Some b \<Rightarrow>
               (case net_bind N socket b w of
                  (Inl e, w) \<Rightarrow> (Ready (Inl e), w, ts)
                | (Inr _, w) \<Rightarrow> net_connect N socket addr ts w)))"

definition deadline_elapsed :: io_error where
  "deadline_elapsed = IoCustom TimedOut ''connection deadline elapsed''"

definition lookup_until :: "nat \<Rightarrow> (io_error + 'a, 'w) future \<Rightarrow> (io_error + 'a, 'w) future" where
  "lookup_until dl fut ts w =
     (if dl \<le> hd ts then (Ready (Inl deadline_elapsed), w, ts)
      else timed_out_as (IoCustom TimedOut ''resolution attempt timed out'') dl fut ts w)"

definition CONNECT_ATTEMPT_TIMEOUT :: nat where "CONNECT_ATTEMPT_TIMEOUT = 5 * 10 ^ 9"
definition FALLBACK_SYSTEM_RESERVE :: nat where "FALLBACK_SYSTEM_RESERVE = 5 * 10 ^ 9"

fun connect_loop ::
  "nat \<Rightarrow> (socket_addr \<Rightarrow> (io_error + 'c, 'w) future) \<Rightarrow> io_error option \<Rightarrow> socket_addr list \<Rightarrow> (io_error + 'c, 'w) future" where
  "connect_loop dl dial last_err [] ts w =
     (Ready (Inl (case last_err of Some e \<Rightarrow> e | None \<Rightarrow> IoCustom AddrNotAvailable ''no addresses to connect to'')), w, ts)"
| "connect_loop dl dial last_err (addr # addrs) ts w =
     (if dl \<le> hd ts then (Ready (Inl deadline_elapsed), w, ts)
      else let remaining = dl - hd ts;
               attempt = (if addrs = [] then remaining else min remaining CONNECT_ATTEMPT_TIMEOUT)
           in case timeout_at (hd ts + attempt) (dial addr) ts w of
                (Ready None, w, ts) \<Rightarrow>
                  connect_loop dl dial (Some (IoCustom TimedOut (''connection attempt to '' @ show_socket_addr addr @ '' timed out''))) addrs ts w
              | (Ready (Some (Inr s)), w, ts) \<Rightarrow> (Ready (Inr s), w, ts)
              | (Ready (Some (Inl e)), w, ts) \<Rightarrow> connect_loop dl dial (Some e) addrs ts w
              | (Pending, w, ts) \<Rightarrow> (Pending, w, ts)
              | (Panic, w, ts) \<Rightarrow> (Panic, w, ts))"

definition connect_first_until ::
  "socket_addr list \<Rightarrow> nat \<Rightarrow> (socket_addr \<Rightarrow> (io_error + 'c, 'w) future) \<Rightarrow> (io_error + 'c, 'w) future" where
  "connect_first_until addrs dl dial = connect_loop dl dial None addrs"

definition connect_system_with ::
  "('r, 'k, 'c, 'w) network \<Rightarrow> string \<Rightarrow> u16 \<Rightarrow> nat \<Rightarrow> (socket_addr \<Rightarrow> (io_error + 'c, 'w) future) \<Rightarrow> (web_error + 'c, 'w) future" where
  "connect_system_with N host port dl dial ts w =
     await_with WebIo (lookup_until dl (lookup_system N host port) ts w) (\<lambda>addrs ts w.
     await_with WebIo (connect_first_until addrs dl dial ts w) (\<lambda>s ts w. (Ready (Inr s), w, ts)))"

text \<open>The strict path is handed the system resolver too, and does not use it.\<close>

definition connect_strict_with ::
  "(io_error + socket_addr list, 'w) future \<Rightarrow> (io_error + socket_addr list, 'w) future \<Rightarrow> nat
   \<Rightarrow> (socket_addr \<Rightarrow> (io_error + 'c, 'w) future) \<Rightarrow> (io_error + 'c, 'w) future" where
  "connect_strict_with resolve system dl dial ts w =
     await_with (\<lambda>e. e) (lookup_until dl resolve ts w) (\<lambda>addrs. connect_first_until addrs dl dial)"

definition connect_via_doh_strict_until ::
  "('r, 'k, 'c, 'w) network \<Rightarrow> 'r \<Rightarrow> string \<Rightarrow> u16 \<Rightarrow> nat \<Rightarrow> (socket_addr \<Rightarrow> (io_error + 'c, 'w) future)
   \<Rightarrow> (web_error + 'c, 'w) future" where
  "connect_via_doh_strict_until N r host port dl dial ts w =
     await_with WebIo (connect_strict_with (doh_resolve N r host port) (lookup_system N host port) dl dial ts w)
       (\<lambda>s ts w. (Ready (Inr s), w, ts))"

text \<open>Going on with either outcome of a future.\<close>

fun await_either :: "'r poll \<times> 's \<times> nat list \<Rightarrow> ('r \<Rightarrow> ('b, 's) future) \<Rightarrow> 'b poll \<times> 's \<times> nat list" where
  "await_either (Pending, s, ts) f = (Pending, s, ts)"
| "await_either (Panic, s, ts) f = (Panic, s, ts)"
| "await_either (Ready r, s, ts) f = f r ts s"

definition connect_fallback_with ::
  "(io_error + socket_addr list, 'w) future option \<Rightarrow> (io_error + socket_addr list, 'w) future \<Rightarrow> nat
   \<Rightarrow> (socket_addr \<Rightarrow> (io_error + 'c, 'w) future) \<Rightarrow> (io_error + 'c, 'w) future" where
  "connect_fallback_with doh system dl dial ts w =
     (let remaining = dl - hd ts;
          reserve = min FALLBACK_SYSTEM_RESERVE (remaining div 2);
          doh_deadline = dl - reserve;
          rest = (\<lambda>ts w. await_with (\<lambda>e. e) (lookup_until dl system ts w) (\<lambda>addrs. connect_first_until addrs dl dial))
      in case doh of
           Some resolve \<Rightarrow>
             if doh_deadline > hd ts then
               await_either (lookup_until doh_deadline resolve ts w) (\<lambda>r ts w.
                 case r of
                   Inl _ \<Rightarrow> rest ts w
                 | Inr addrs \<Rightarrow>
                     await_either (connect_first_until addrs doh_deadline dial ts w) (\<lambda>r ts w.
                       case r of Inr stream \<Rightarrow> (Ready (Inr stream), w, ts) | Inl _ \<Rightarrow> rest ts w))
             else rest ts w
         | None \<Rightarrow> rest ts w)"

definition connect_via_doh_fallback_until ::
  "('r, 'k, 'c, 'w) network \<Rightarrow> 'r option \<Rightarrow> string \<Rightarrow> u16 \<Rightarrow> nat \<Rightarrow> (socket_addr \<Rightarrow> (io_error + 'c, 'w) future)
   \<Rightarrow> (web_error + 'c, 'w) future" where
  "connect_via_doh_fallback_until N resolver host port dl dial ts w =
     await_with WebIo (connect_fallback_with (map_option (\<lambda>r. doh_resolve N r host port) resolver) (lookup_system N host port) dl dial ts w)
       (\<lambda>s ts w. (Ready (Inr s), w, ts))"

text \<open>The world of a connection is the resolver cache and the network's own state.\<close>

definition on_network :: "('a, 'w) future \<Rightarrow> ('a, 'r option \<times> 'w) future" where
  "on_network fut ts cw = (case fut ts (snd cw) of (r, w, ts) \<Rightarrow> (r, (fst cw, w), ts))"

definition open_tcp ::
  "('r, 'k, 'c, 'w) network \<Rightarrow> 'u prepared_config \<Rightarrow> nat \<Rightarrow> (ipv4 \<times> u16) option \<Rightarrow> socket_addr option
   \<Rightarrow> (web_error + 'c, 'r option \<times> 'w) future" where
  "open_tcp N config dl v4_bind v6_bind ts cw =
     (let host = pc_host config; port = pc_port config; dial = connect_bound N v4_bind v6_bind in
      case parse_ip host of
        Some ip \<Rightarrow>
          on_network (\<lambda>ts w. await_with WebIo (connect_first_until [sock_new ip port] dl dial ts w) (\<lambda>s ts w. (Ready (Inr s), w, ts))) ts cw
      | None \<Rightarrow>
          (case pc_doh_mode config of
             DohOff \<Rightarrow> on_network (connect_system_with N host port dl dial) ts cw
           | DohStrict \<Rightarrow>
               (case get_resolver N (fst cw) of
                  (Inl e, cache) \<Rightarrow> (Ready (Inl (WebIo e)), (cache, snd cw), ts)
                | (Inr r, cache) \<Rightarrow> on_network (connect_via_doh_strict_until N r host port dl dial) ts (cache, snd cw))
           | DohFallback \<Rightarrow>
               (case get_resolver N (fst cw) of
                  (r, cache) \<Rightarrow>
                    on_network (connect_via_doh_fallback_until N (case r of Inl _ \<Rightarrow> None | Inr r \<Rightarrow> Some r) host port dl dial)
                      ts (cache, snd cw))))"

section \<open>The whole connection\<close>

definition connect_inner ::
  "('r, 'k, 'c, 'w) network \<Rightarrow> ('u, 'n, 'c, 't, 'r option \<times> 'w) upgrade_env \<Rightarrow> webtunnel_config \<Rightarrow> nat
   \<Rightarrow> (ipv4 \<times> u16) option \<Rightarrow> socket_addr option \<Rightarrow> (web_error + ('t, 'c) webtunnel_stream prefix_stream, 'r option \<times> 'w) future" where
  "connect_inner N E config dl v4_bind v6_bind ts cw =
     (case prepare (ue_web E) config of
        Inl e \<Rightarrow> (Ready (Inl e), cw, ts)
      | Inr prepared \<Rightarrow>
          await_with (\<lambda>e. e) (open_tcp N prepared dl v4_bind v6_bind ts cw) (\<lambda>tcp. upgrade_with_stream E prepared tcp))"

definition connect_with_timeout_context_bound ::
  "('r, 'k, 'c, 'w) network \<Rightarrow> ('u, 'n, 'c, 't, 'r option \<times> 'w) upgrade_env \<Rightarrow> webtunnel_config \<Rightarrow> nat
   \<Rightarrow> (ipv4 \<times> u16) option \<Rightarrow> socket_addr option \<Rightarrow> (web_error + ('t, 'c) webtunnel_stream prefix_stream, 'r option \<times> 'w) future" where
  "connect_with_timeout_context_bound N E config timeout v4_bind v6_bind ts cw =
     (case deadline_for (ue_horizon E) (hd ts) timeout of
        Inl e \<Rightarrow> (Ready (Inl e), cw, ts)
      | Inr dl \<Rightarrow> timed_out_as timeout_error dl (connect_inner N E config dl v4_bind v6_bind) ts cw)"

definition web_connect ::
  "('r, 'k, 'c, 'w) network \<Rightarrow> ('u, 'n, 'c, 't, 'r option \<times> 'w) upgrade_env \<Rightarrow> webtunnel_config
   \<Rightarrow> (web_error + ('t, 'c) webtunnel_stream prefix_stream, 'w) future" where
  "web_connect N E config ts w =
     (case connect_with_timeout_context_bound N E config DEFAULT_HANDSHAKE_TIMEOUT None None ts (None, w) of
        (r, cw, ts) \<Rightarrow> (r, snd cw, ts))"

definition connect_url ::
  "('r, 'k, 'c, 'w) network \<Rightarrow> ('u, 'n, 'c, 't, 'r option \<times> 'w) upgrade_env \<Rightarrow> webtunnel_client
   \<Rightarrow> (web_error + ('t, 'c) webtunnel_stream prefix_stream, 'r option \<times> 'w) future" where
  "connect_url N E client ts cw =
     (case wt_config client of
        None \<Rightarrow> (Ready (Inl MissingUrl), cw, ts)
      | Some config \<Rightarrow>
          connect_with_timeout_context_bound N E config (wt_timeout client) (wt_v4_bind client) (wt_v6_bind client) ts cw)"

section \<open>Strict mode\<close>

lemma prepare_keeps_mode: "prepare W config = Inr prepared \<Longrightarrow> pc_doh_mode prepared = wc_doh_mode config"
  by (auto simp: prepare_def Let_def split: if_split_asm)

lemma strict_independent:
  "doh_resolve (N \<lparr> net_lookup_host := f \<rparr>) = doh_resolve N" "connect_bound (N \<lparr> net_lookup_host := f \<rparr>) = connect_bound N"
  "get_resolver (N \<lparr> net_lookup_host := f \<rparr>) = get_resolver N"
proof -
  show "doh_resolve (N \<lparr> net_lookup_host := f \<rparr>) = doh_resolve N" by (intro ext) (simp add: doh_resolve_def)
  show "connect_bound (N \<lparr> net_lookup_host := f \<rparr>) = connect_bound N"
    by (intro ext) (simp add: connect_bound_def split: prod.split sum.split option.split)
  show "get_resolver (N \<lparr> net_lookup_host := f \<rparr>) = get_resolver N"
    by (intro ext) (simp add: get_resolver_def with_default_pool_def from_endpoints_def)
qed

lemma strict_path_independent:
  "connect_via_doh_strict_until (N \<lparr> net_lookup_host := f \<rparr>) r host port dl dial = connect_via_doh_strict_until N r host port dl dial"
  by (intro ext) (simp add: connect_via_doh_strict_until_def connect_strict_with_def strict_independent)

lemma open_tcp_strict:
  "pc_doh_mode config = DohStrict \<Longrightarrow> open_tcp (N \<lparr> net_lookup_host := f \<rparr>) config dl v4 v6 = open_tcp N config dl v4 v6"
  by (intro ext) (simp add: open_tcp_def strict_independent strict_path_independent Let_def split: option.split prod.split sum.split)

section \<open>Silent addresses\<close>

text \<open>The instants at which a task is woken: in order, never further apart than \<open>g\<close>.\<close>

fun ticks :: "nat \<Rightarrow> nat list \<Rightarrow> bool" where
  "ticks g (t # u # ts) = (t \<le> u \<and> u \<le> t + g \<and> ticks g (u # ts))"
| "ticks g ts = True"

definition silent :: "(socket_addr \<Rightarrow> (io_error + 'c, 'w) future) \<Rightarrow> socket_addr \<Rightarrow> bool" where
  "silent dial a = (\<forall>ts w. \<exists>w'. dial a ts w = (Pending, w', []))"

definition accepts :: "(socket_addr \<Rightarrow> (io_error + 'c, 'w) future) \<Rightarrow> socket_addr \<Rightarrow> 'c \<Rightarrow> bool" where
  "accepts dial a s = (\<forall>ts w. \<exists>w'. dial a ts w = (Ready (Inr s), w', ts))"

lemma ticks_dropWhile:
  "ticks g ts \<Longrightarrow> ts \<noteq> [] \<Longrightarrow> hd ts < d \<Longrightarrow> d \<le> last ts
   \<Longrightarrow> \<exists>u us. dropWhile (\<lambda>t. t < d) ts = u # us \<and> u \<le> d + g \<and> ticks g (u # us) \<and> last (u # us) = last ts"
proof (induction g ts rule: ticks.induct)
  case (1 g t u ts)
  show ?case
  proof (cases "u < d")
    case True
    with 1 show ?thesis by simp
  next
    case False
    with 1 show ?thesis by (intro exI [of _ u] exI [of _ ts]) simp
  qed
qed simp_all

lemma connect_loop_silent:
  "\<forall>a \<in> set qs. silent dial a \<Longrightarrow> accepts dial b s \<Longrightarrow> ticks g ts \<Longrightarrow> ts \<noteq> [] \<Longrightarrow> dl \<le> last ts
   \<Longrightarrow> hd ts + length qs * (CONNECT_ATTEMPT_TIMEOUT + g) < dl
   \<Longrightarrow> \<exists>w' ts'. connect_loop dl dial e (qs @ b # rest) ts w = (Ready (Inr s), w', ts')"
proof (induction qs arbitrary: e ts w)
  case Nil
  let ?d = "hd ts + (if rest = [] then dl - hd ts else min (dl - hd ts) CONNECT_ATTEMPT_TIMEOUT)"
  obtain w' where "dial b (takeWhile (\<lambda>t. t < ?d) ts @ take 1 (dropWhile (\<lambda>t. t < ?d) ts)) w
      = (Ready (Inr s), w', takeWhile (\<lambda>t. t < ?d) ts @ take 1 (dropWhile (\<lambda>t. t < ?d) ts))"
    using Nil.prems(2) unfolding accepts_def by blast
  with Nil.prems(6) show ?case by (simp add: timeout_at_def Let_def)
next
  case (Cons a qs)
  let ?d = "hd ts + CONNECT_ATTEMPT_TIMEOUT"
  have pos: "0 < CONNECT_ATTEMPT_TIMEOUT" by (simp add: CONNECT_ATTEMPT_TIMEOUT_def)
  have room: "?d + g + length qs * (CONNECT_ATTEMPT_TIMEOUT + g) < dl" using Cons.prems(6) by simp
  from Cons.prems(3-5) pos room obtain u us where
    u: "dropWhile (\<lambda>t. t < ?d) ts = u # us" "u \<le> ?d + g" "ticks g (u # us)" "last (u # us) = last ts"
    using ticks_dropWhile [of g ts ?d] by force
  obtain w' where "dial a (takeWhile (\<lambda>t. t < ?d) ts @ take 1 (dropWhile (\<lambda>t. t < ?d) ts)) w = (Pending, w', [])"
    using Cons.prems(1) unfolding silent_def by fastforce
  then have "timeout_at ?d (dial a) ts w = (Ready None, w', u # us)" using u(1) by (simp add: timeout_at_def Let_def)
  moreover have "\<not> dl \<le> hd ts" "min (dl - hd ts) CONNECT_ATTEMPT_TIMEOUT = CONNECT_ATTEMPT_TIMEOUT" using room by auto
  moreover have "\<exists>w'' ts'. connect_loop dl dial e' (qs @ b # rest) (u # us) w' = (Ready (Inr s), w'', ts')" for e'
    using Cons.prems u room by (intro Cons.IH) auto
  ultimately show ?case by (simp add: Let_def)
qed

section \<open>Every attempt ends\<close>

text \<open>
  What the connection takes of the libraries under it: the resolvers, the sockets, \<^verbatim>\<open>rustls\<close> and the
  streams do not panic, and a read returns no more than it was asked for. The system's generator
  may fail: \<open>ue_key\<close> is then \<open>None\<close>, and \<^verbatim>\<open>generate_websocket_key\<close> panics.
\<close>

definition network_calm :: "('r, 'k, 'c, 'w) network \<Rightarrow> bool" where
  "network_calm N = ((\<forall>r host. never_panics (net_lookup_ip N r host)) \<and> (\<forall>host port. never_panics (net_lookup_host N host port))
     \<and> (\<forall>k a. never_panics (net_connect N k a)))"

definition web_io_calm :: "'s web_io \<Rightarrow> bool" where
  "web_io_calm X = ((\<forall>n. never_panics (w_read X n)) \<and> (\<forall>b. never_panics (w_write_all X b)) \<and> never_panics (w_flush X)
     \<and> (\<forall>n ts s bs s' ts'. w_read X n ts s = (Ready (Inr bs), s', ts') \<longrightarrow> length bs \<le> n))"

definition upgrade_calm :: "('u, 'n, 'c, 't, 'w) upgrade_env \<Rightarrow> bool" where
  "upgrade_calm E = (web_io_calm (ue_plain_io E) \<and> web_io_calm (ue_tls_io E)
     \<and> (\<forall>name c. never_panics (ue_tls E name c)))"

lemma await_with_panic:
  "fst p \<noteq> Panic \<Longrightarrow> (\<And>x ts s. fst p = Ready (Inr x) \<Longrightarrow> fst (f x ts s) \<noteq> Panic) \<Longrightarrow> fst (await_with g p f) \<noteq> Panic"
  by (cases "(g, p, f)" rule: await_with.cases) auto

lemma await_either_panic:
  "fst p \<noteq> Panic \<Longrightarrow> (\<And>x ts s. fst (f x ts s) \<noteq> Panic) \<Longrightarrow> fst (await_either p f) \<noteq> Panic"
  by (cases "(p, f)" rule: await_either.cases) auto

lemma timed_out_as_panics: "never_panics f \<Longrightarrow> never_panics (timed_out_as e dl f)"
proof -
  assume f: "never_panics f"
  have "fst (timed_out_as e dl f ts w) \<noteq> Panic" for ts w
    using never_panics_at [OF timeout_panics [OF f], of dl ts w]
    by (cases "timeout_at dl f ts w") (auto simp: timed_out_as_def split: poll.splits option.splits)
  then show ?thesis by (simp add: never_panics_def)
qed

lemma lookup_until_panics: "never_panics f \<Longrightarrow> never_panics (lookup_until dl f)"
  using timed_out_as_panics [of f] by (simp add: never_panics_def lookup_until_def)

lemma connect_loop_panics:
  assumes "\<forall>a. never_panics (dial a)" shows "fst (connect_loop dl dial e addrs ts w) \<noteq> Panic"
proof (induction addrs arbitrary: e ts w)
  case (Cons a addrs)
  have "fst (timeout_at d (dial a) ts w) \<noteq> Panic" for d using assms by (intro never_panics_at timeout_panics) simp
  then have t: "timeout_at d (dial a) ts w \<noteq> (Panic, w', ts')" for d w' ts' by (metis fst_conv)
  show ?case using Cons t by (auto simp: Let_def split: prod.split poll.split option.split sum.split)
qed simp

lemma connect_first_panics: "\<forall>a. never_panics (dial a) \<Longrightarrow> fst (connect_first_until addrs dl dial ts w) \<noteq> Panic"
  by (simp add: connect_first_until_def connect_loop_panics)

lemma connect_bound_panics: "network_calm N \<Longrightarrow> never_panics (connect_bound N v4 v6 a)"
  by (auto simp: never_panics_def network_calm_def connect_bound_def split: prod.split sum.split option.split)

lemma resolvers_panic:
  assumes "network_calm N"
  shows "never_panics (doh_resolve N r host port)" "never_panics (lookup_system N host port)"
proof -
  have "fst (doh_resolve N r host port ts w) \<noteq> Panic" for ts w
    unfolding doh_resolve_def using assms by (intro await_with_panic) (auto simp: network_calm_def never_panics_def Let_def)
  then show "never_panics (doh_resolve N r host port)" by (simp add: never_panics_def)
  have "fst (lookup_system N host port ts w) \<noteq> Panic" for ts w
    unfolding lookup_system_def using assms by (intro await_with_panic) (auto simp: network_calm_def never_panics_def)
  then show "never_panics (lookup_system N host port)" by (simp add: never_panics_def)
qed

lemma fallback_panics:
  assumes "\<forall>d. doh = Some d \<longrightarrow> never_panics d" "never_panics system" "\<forall>a. never_panics (dial a)"
  shows "fst (connect_fallback_with doh system dl dial ts w) \<noteq> Panic"
proof -
  define rest where "rest = (\<lambda>ts w. await_with (\<lambda>e. e) (lookup_until dl system ts w) (\<lambda>addrs. connect_first_until addrs dl dial))"
  have r: "fst (rest ts w) \<noteq> Panic" for ts w
    unfolding rest_def using assms
    by (intro await_with_panic never_panics_at [OF lookup_until_panics] connect_first_panics)
  have "fst (await_either (lookup_until d resolve ts w) (\<lambda>r ts w.
          case r of Inl _ \<Rightarrow> rest ts w
          | Inr addrs \<Rightarrow> await_either (connect_first_until addrs d dial ts w) (\<lambda>r ts w.
              case r of Inr stream \<Rightarrow> (Ready (Inr stream), w, ts) | Inl _ \<Rightarrow> rest ts w))) \<noteq> Panic" if "doh = Some resolve" for d resolve
  proof -
    have "fst (await_either (connect_first_until addrs d dial ts w) (\<lambda>r ts w.
        case r of Inr stream \<Rightarrow> (Ready (Inr stream), w, ts) | Inl _ \<Rightarrow> rest ts w)) \<noteq> Panic" for addrs ts w
      using assms(3) r by (intro await_either_panic connect_first_panics) (auto split: sum.split)
    with r assms(1) that show ?thesis
      by (intro await_either_panic never_panics_at [OF lookup_until_panics]) (auto split: sum.split)
  qed
  with r show ?thesis unfolding connect_fallback_with_def rest_def by (simp add: Let_def split: option.split)
qed

lemma on_network_panics: "never_panics f \<Longrightarrow> fst (on_network f ts cw) \<noteq> Panic"
  by (auto simp: on_network_def never_panics_def split: prod.split) (metis fst_conv)

lemma open_tcp_panics:
  assumes N: "network_calm N" shows "fst (open_tcp N config dl v4 v6 ts cw) \<noteq> Panic"
proof -
  let ?dial = "connect_bound N v4 v6"
  have d: "\<forall>a. never_panics (?dial a)" using connect_bound_panics [OF N] by blast
  have one: "fst (await_with WebIo (connect_first_until addrs dl ?dial ts w) (\<lambda>s ts w. (Ready (Inr s), w, ts))) \<noteq> Panic" for addrs ts w
    by (intro await_with_panic connect_first_panics d) simp
  then have lit: "never_panics (\<lambda>ts w. await_with WebIo (connect_first_until addrs dl ?dial ts w) (\<lambda>s ts w. (Ready (Inr s), w, ts)))" for addrs
    by (simp add: never_panics_def)
  have sys: "never_panics (connect_system_with N host port dl ?dial)" for host port
    unfolding never_panics_def connect_system_with_def
    by (intro allI await_with_panic never_panics_at [OF lookup_until_panics] resolvers_panic N one)
  have strict: "never_panics (connect_via_doh_strict_until N r host port dl ?dial)" for r host port
    unfolding never_panics_def connect_via_doh_strict_until_def connect_strict_with_def
    by (intro allI await_with_panic never_panics_at [OF lookup_until_panics] resolvers_panic N connect_first_panics d) simp
  have fall: "never_panics (connect_via_doh_fallback_until N r host port dl ?dial)" for r host port
    unfolding never_panics_def connect_via_doh_fallback_until_def
    by (intro allI await_with_panic fallback_panics d resolvers_panic N) (auto intro: resolvers_panic [OF N])
  show ?thesis
    by (simp add: open_tcp_def Let_def on_network_panics [OF sys] on_network_panics [OF strict] on_network_panics [OF fall]
        on_network_panics [OF lit] split: option.split doh_mode.split prod.split sum.split)
qed

lemma upgrade_loop_panics:
  assumes "web_io_calm X" shows "fst (upgrade_loop os H X buf hb ts s) \<noteq> Panic"
proof (induction "RESPONSE_BUFFER - length buf" arbitrary: buf hb ts s rule: less_induct)
  case less
  let ?n = "RESPONSE_BUFFER - length buf"
  have np: "fst (w_read X ?n ts s) \<noteq> Panic" using assms by (intro never_panics_at) (simp add: web_io_calm_def)
  have le: "length bs \<le> ?n" if "fst (w_read X ?n ts s) = Ready (Inr bs)" for bs
    using assms that unfolding web_io_calm_def by (metis prod.collapse)
  have ih: "fst (upgrade_loop os H X (buf @ bs) hb' us s') \<noteq> Panic" if "bs \<noteq> []" "length buf < RESPONSE_BUFFER" for bs hb' us s'
    using that by (intro less.hyps) (auto simp: neq_Nil_conv)
  show ?case
  proof (cases "length buf < RESPONSE_BUFFER")
    case True
    then have "\<not> RESPONSE_BUFFER \<le> length buf" by simp
    then show ?thesis unfolding upgrade_loop.simps [of os H X buf hb ts s] if_not_P [OF \<open>\<not> RESPONSE_BUFFER \<le> length buf\<close>]
    proof (intro await_with_panic [OF np])
      fix bs us s'
      assume "fst (w_read X ?n ts s) = Ready (Inr bs)"
      with le have "\<not> ?n < length bs" by (simp add: not_less)
      then show "fst (if bs = [] then (Ready (Inl (WebHandshake ''connection closed before 101'')), s', us)
          else if ?n < length bs then (Panic, s', us)
          else let buf = buf @ bs in
            case header_find hb buf of
              (None, boundary) \<Rightarrow> upgrade_loop os H X buf boundary us s'
            | (Some header_end, _) \<Rightarrow>
                (case parse_response H buf of
                   Inl e \<Rightarrow> (Ready (Inl e), s', us)
                 | Inr (_, leftover_slice) \<Rightarrow>
                     let body_offset = length buf - length leftover_slice in
                     if body_offset < header_end
                     then (Ready (Inl (HttpParse ''invalid HTTP response boundary'')), s', us)
                     else (Ready (Inr (drop body_offset buf)), s', us))) \<noteq> Panic"
        using ih True by (simp add: Let_def split: prod.split option.split sum.split)
    qed
  next
    case False
    then show ?thesis by (subst upgrade_loop.simps) simp
  qed
qed

lemma read_upgrade_panics:
  assumes "web_io_calm X" "key \<noteq> None" shows "fst (read_upgrade os W H X key config ts s) \<noteq> Panic"
proof -
  from assms(2) obtain req where "build_upgrade_request_prepared W key config = Some req"
    by (auto simp: build_upgrade_request_prepared_def generate_websocket_key_def Let_def)
  moreover have "never_panics (w_write_all X b)" "never_panics (w_flush X)" for b using assms(1) by (simp_all add: web_io_calm_def)
  ultimately show ?thesis unfolding read_upgrade_def
    by (simp only: option.case) (intro await_with_panic upgrade_loop_panics assms(1) never_panics_at)
qed

lemma run_owned_panics: "fst (fut ts s) \<noteq> Panic \<Longrightarrow> fst (run_owned fut k s ts w) \<noteq> Panic"
  by (auto simp: run_owned_def split: prod.split poll.split sum.split)

lemma upgrade_with_stream_panics:
  assumes "upgrade_calm E" and key: "ue_key E \<noteq> None" shows "fst (upgrade_with_stream E config io ts w) \<noteq> Panic"
proof -
  have X: "web_io_calm (ue_plain_io E)" "web_io_calm (ue_tls_io E)"
    and tls: "never_panics (ue_tls E name c)" for name c using assms(1) by (simp_all add: upgrade_calm_def)
  have plain: "fst (upgrade_and_return E config io ts w) \<noteq> Panic"
    unfolding upgrade_and_return_def by (intro run_owned_panics read_upgrade_panics X key)
  have sec: "fst (upgrade_tls_and_return E config t ts w) \<noteq> Panic" for t ts w
    unfolding upgrade_tls_and_return_def by (intro run_owned_panics read_upgrade_panics X key)
  have "fst (tls_connect E config io ts w) \<noteq> Panic"
    unfolding tls_connect_def
    by (cases "web_server_name (ue_web E) (pc_sni config)")
      (simp, simp only: sum.case, intro await_with_panic never_panics_at [OF tls], simp)
  with plain sec show ?thesis unfolding upgrade_with_stream_def by (simp add: await_with_panic)
qed

lemma connect_inner_panics:
  assumes "network_calm N" "upgrade_calm E" "ue_key E \<noteq> None" shows "never_panics (connect_inner N E config dl v4 v6)"
  unfolding never_panics_def connect_inner_def
  by (simp split: sum.split) (intro allI impI await_with_panic open_tcp_panics upgrade_with_stream_panics assms)

lemma timed_out_as_in_time:
  assumes "t \<in> set ts" "dl \<le> t" shows "fst (timed_out_as e dl f ts w) \<noteq> Pending"
proof -
  obtain q w' ts' where q: "timeout_at dl f ts w = (q, w', ts')" by (rule prod_cases3)
  then have "q \<noteq> Pending" using timeout_pending [of dl f ts w w' ts' t] assms by auto
  with q show ?thesis by (cases q) (auto simp: timed_out_as_def split: option.split)
qed

section \<open>A network to try the properties on\<close>

definition toy_network :: "(unit, unit, bytes, unit) network" where
  "toy_network = \<lparr> net_build = \<lambda>_ _. Inr (), net_lookup_ip = \<lambda>_ _ ts w. (Ready (Inr [IpV4 (192, 0, 2, 1)]), w, ts),
     net_lookup_host = \<lambda>_ _ ts w. (Ready (Inr []), w, ts), net_socket = \<lambda>_ w. (Inr (), w), net_bind = \<lambda>_ _ w. (Inr (), w),
     net_connect = \<lambda>_ _ ts w. (Ready (Inr [72, 10, 10, 7]), w, ts) \<rparr>"

definition toy_dial :: "socket_addr \<Rightarrow> (io_error + bytes, unit) future" where
  "toy_dial a ts w = (if sock_port a = 1 then (Pending, w, []) else (Ready (Inr []), w, ts))"

lemma toy_calm: "network_calm toy_network" "upgrade_calm toy_upgrade"
  by (auto simp: network_calm_def toy_network_def upgrade_calm_def toy_upgrade_def web_io_calm_def toy_web_io_def never_panics_def)

section \<open>Properties\<close>

text \<open>
  C21. In strict mode the system resolver has no say: whatever it would answer, fail with or observe, a
  WebTunnel client with DNS over HTTPS made strict does exactly the same, so no failure on the
  way ever leaks the bridge's name to it.
\<close>

theorem strict_mode_ignores_system_dns:
  assumes "wt_config client = Some config" "wc_doh_mode config = DohStrict"
  shows "connect_url (N \<lparr> net_lookup_host := system \<rparr>) E client ts cw = connect_url N E client ts cw"
proof -
  have "connect_inner (N \<lparr> net_lookup_host := system \<rparr>) E config dl v4 v6 = connect_inner N E config dl v4 v6" for dl v4 v6
    using prepare_keeps_mode [of "ue_web E" config] assms(2)
    by (intro ext) (auto simp: connect_inner_def open_tcp_strict split: sum.split)
  with assms(1) show ?thesis by (simp add: connect_url_def connect_with_timeout_context_bound_def split: sum.split)
qed

theorem strict_mode_ignores_system_dns_witness:
  "let client = toy_web_client \<lparr> wt_config := Some (with_doh_mode toy_web_config DohStrict) \<rparr> in
   connect_url (toy_network \<lparr> net_lookup_host := \<lambda>_ _ ts w. (Panic, w, ts) \<rparr>) toy_upgrade client [0] (None, ())
   = connect_url toy_network toy_upgrade client [0] (None, ())"
  unfolding Let_def
  by (rule strict_mode_ignores_system_dns [where config = "with_doh_mode toy_web_config DohStrict"]) (simp_all add: with_doh_mode_def)

text \<open>
  C24. Addresses that do not answer cannot starve the ones after them: where the clock wakes the client
  at least every \<open>g\<close> nanoseconds, an address that accepts is reached behind any number of silent
  ones for each of which the deadline leaves five seconds and \<open>g\<close>.
\<close>

theorem silent_addresses_passed:
  assumes "\<forall>a \<in> set quiets. silent dial a" "accepts dial b s" "ticks g ts" "ts \<noteq> []" "dl \<le> last ts"
    "hd ts + length quiets * (CONNECT_ATTEMPT_TIMEOUT + g) < dl"
  shows "\<exists>w' ts'. connect_first_until (quiets @ b # rest) dl dial ts w = (Ready (Inr s), w', ts')"
  using connect_loop_silent [OF assms] by (simp add: connect_first_until_def)

theorem silent_addresses_passed_witness:
  "\<exists>w' ts'. connect_first_until ([SockV4 (192, 0, 2, 1) 1] @ SockV4 (192, 0, 2, 2) 2 # []) (2 * 10 ^ 10) toy_dial
     [0, 10 ^ 10, 2 * 10 ^ 10] () = (Ready (Inr []), w', ts')"
  by (rule silent_addresses_passed [where g = "10 ^ 10"])
    (simp_all add: silent_def accepts_def toy_dial_def CONNECT_ATTEMPT_TIMEOUT_def)

text \<open>
  C23. A direct WebTunnel connection always gets an answer: once the clock has passed the time limit,
  \<^verbatim>\<open>connect_url\<close> has returned a stream or an error, whatever the resolvers, the bridge and the
  network answer or fail to answer. It panics only if the system's generator fails to give it the
  bytes of the websocket key.
\<close>

theorem connect_url_answers:
  assumes "network_calm N" "upgrade_calm E" "t \<in> set ts" "hd ts + wt_timeout client \<le> t"
  shows "(\<exists>r. fst (connect_url N E client ts cw) = Ready r) \<or> fst (connect_url N E client ts cw) = Panic \<and> ue_key E = None"
proof (rule ready_or)
  show "fst (connect_url N E client ts cw) \<noteq> Pending"
    using timed_out_as_in_time [OF assms(3,4), of timeout_error "connect_inner N E _ _ _ _" cw]
    by (auto simp: connect_url_def connect_with_timeout_context_bound_def deadline_for_def split: option.split)
next
  assume pan: "fst (connect_url N E client ts cw) = Panic"
  show "ue_key E = None"
  proof (rule ccontr)
    assume "ue_key E \<noteq> None"
    from never_panics_at [OF timed_out_as_panics [OF connect_inner_panics [OF assms(1,2) this]]] pan show False
      by (auto simp: connect_url_def connect_with_timeout_context_bound_def deadline_for_def split: option.splits sum.splits)
  qed
qed

theorem connect_url_answers_witness:
  "\<exists>r. fst (connect_url toy_network toy_upgrade toy_web_client [0, 9] (None, ())) = Ready r"
proof -
  have "ue_key toy_upgrade \<noteq> None" by (simp add: toy_upgrade_def)
  then show ?thesis by (intro ready_unless [OF connect_url_answers [OF toy_calm, of 9]]) (simp_all add: toy_web_client_def)
qed

end
