(* ===== verification/Lifecycle.thy ===== *)
theory Lifecycle
  imports Prelude Errors
begin

text \<open>
  \<^verbatim>\<open>crates/lyrebird/src/lifecycle.rs\<close> with the accept loops of \<^verbatim>\<open>lib.rs\<close>: how the daemon owns its
  accept loops and its connection tasks, and how it stops them. The tasks run concurrently, so
  the model is a state machine: a state holds \<^verbatim>\<open>RunTasks\<close> and where each task stands between
  two awaits, an event is one step of one task, and \<open>run_step\<close> says what the event does and when
  it can happen. Tokio's semaphore, mutex, \<^verbatim>\<open>JoinSet\<close> and cancellation token appear as the
  counter, the flag, the list and the flag their documentation describes; time appears as the
  events in which a timer fires. What a connection does inside its task is left open: its
  body may end at any time, or never. The lock around the abort handles is never
  poisoned, since nothing that can panic runs under it.
\<close>

section \<open>Accept errors\<close>

text \<open>The codes that \<^verbatim>\<open>libc\<close> gives the transient errors of the platform are a parameter.\<close>

record accept_env =
  ae_os :: os_errors
  ae_transient_codes :: "int list"

definition is_transient_accept_error :: "accept_env \<Rightarrow> io_error \<Rightarrow> bool" where
  "is_transient_accept_error E e =
     (if io_kind (ae_os E) e \<in> {Interrupted, WouldBlock, ConnectionAborted, ConnectionReset, TimedOut} then True
      else case io_raw_os_error e of Some code \<Rightarrow> code \<in> set (ae_transient_codes E) | None \<Rightarrow> False)"

definition accept_retry_delay :: "32 word \<Rightarrow> nat" where
  "accept_retry_delay consecutive_failures =
     (let factor = push_bit (unat (min consecutive_failures 5)) (1 :: 64 word)
      in min (min (50 * unat factor) (2 ^ 64 - 1)) 1000)"

definition saturating_inc :: "32 word \<Rightarrow> 32 word" where
  "saturating_inc n = (if n = - 1 then n else n + 1)"

lemma accept_retry_delay_bounds: "50 \<le> accept_retry_delay n \<and> accept_retry_delay n \<le> 1000"
proof -
  define k where "k = unat (min n (5 :: 32 word))"
  have "min n (5 :: 32 word) \<le> 5" by simp
  then have "k \<le> 5" unfolding k_def word_le_nat_alt by simp
  then have "k \<in> {0, 1, 2, 3, 4, 5}" by auto
  then show ?thesis unfolding accept_retry_delay_def k_def[symmetric] Let_def by (auto simp: push_bit_eq_mult)
qed

section \<open>State\<close>

definition MAX_CONCURRENT_CONNS :: nat where "MAX_CONCURRENT_CONNS = 1024"

text \<open>
  A connection task is live until its body returned, was cancelled or was dropped; it holds a
  permit exactly as long. It stays in the \<^verbatim>\<open>JoinSet\<close> until it is joined.
\<close>

record conn_task =
  ct_id :: nat
  ct_live :: bool
  ct_abort :: bool

text \<open>Why a listener task ended: \<open>Inl\<close> is what \<^verbatim>\<open>drive\<close> treats as the loss of a transport.\<close>

datatype cause = AcceptFailed io_error | ListenerTaskFailed

text \<open>
  Where an accept loop stands. \<open>Accepting\<close> and \<open>Backing\<close> carry the number of transient
  failures, \<open>Backing\<close> also the delay. From \<open>Permitted\<close> to \<open>Scheduling\<close> the loop itself
  holds the permit of the connection it will spawn; from \<open>Spawned\<close> to the end of \<open>Reaping\<close> it
  holds the lock of the \<^verbatim>\<open>JoinSet\<close>. \<open>Joined\<close> keeps the result that was joined.
\<close>

datatype accept_pc =
    Accepting "32 word" | Backing "32 word" nat | Admitting | Permitted | Scheduling
  | Spawned nat | Reaping | Stopped "cause + unit" | Joined "cause + unit"

datatype shutdown = SigInterrupt | SigTerminate

datatype exit_kind = ProxyClosed | Interrupt | Terminate | ParentClosedStdin | ListenerFailed cause

text \<open>
  Where \<^verbatim>\<open>drive\<close> stands. The flag of \<open>WantJoin\<close> and \<open>Joining\<close> tells the join inside
  \<^verbatim>\<open>cancel_connections\<close> from the last one. The four last values are those of a run whose
  future was dropped.
\<close>

datatype drive_pc =
    Selecting | JoiningLoops exit_kind | Draining exit_kind | Forcing exit_kind | WantAbort exit_kind
  | WantJoin bool exit_kind | Joining bool exit_kind | Returned "cause + unit"
  | OwnerDropping | TokensCancelled | HandlesAborted | Dropped

record run_tasks =
  accept_cancelled :: bool
  conns_cancelled :: bool
  permits :: nat
  connections :: "conn_task list"
  aborts :: "nat list"
  next_id :: nat
  locked :: bool
  loops :: "accept_pc list"
  loops_aborted :: bool
  drv :: drive_pc

definition run_tasks_new :: "nat \<Rightarrow> run_tasks" where
  "run_tasks_new n = \<lparr>accept_cancelled = False, conns_cancelled = False, permits = MAX_CONCURRENT_CONNS,
     connections = [], aborts = [], next_id = 0, locked = False, loops = replicate n (Accepting 0),
     loops_aborted = False, drv = Selecting\<rparr>"

definition stop_accepting :: "run_tasks \<Rightarrow> run_tasks" where
  "stop_accepting s = s\<lparr>accept_cancelled := True\<rparr>"

definition abort_ids :: "(nat \<Rightarrow> bool) \<Rightarrow> conn_task list \<Rightarrow> conn_task list" where
  "abort_ids P = map (\<lambda>t. if P (ct_id t) then t\<lparr>ct_abort := True\<rparr> else t)"

definition remove_task :: "nat \<Rightarrow> run_tasks \<Rightarrow> run_tasks" where
  "remove_task k s = s\<lparr>connections := filter (\<lambda>t. ct_id t \<noteq> k) (connections s), aborts := removeAll k (aborts s)\<rparr>"

definition ended_task :: "nat \<Rightarrow> run_tasks \<Rightarrow> bool" where
  "ended_task k s = list_ex (\<lambda>t. ct_id t = k \<and> \<not> ct_live t) (connections s)"

definition wait_idle :: "run_tasks \<Rightarrow> bool" where
  "wait_idle s = (permits s = MAX_CONCURRENT_CONNS)"

section \<open>Accept loops\<close>

definition set_loop :: "nat \<Rightarrow> accept_pc \<Rightarrow> run_tasks \<Rightarrow> run_tasks" where
  "set_loop i pc s = s\<lparr>loops := (loops s)[i := pc]\<rparr>"

definition release :: "run_tasks \<Rightarrow> run_tasks" where
  "release s = s\<lparr>permits := permits s + 1\<rparr>"

text \<open>
  The first await of the loop and the pause after a transient error. A pause that starts when
  acceptance is already cancelled ends the loop at once: its timer has not elapsed when both
  are first polled.
\<close>

definition on_accept :: "accept_env \<Rightarrow> nat \<Rightarrow> 32 word \<Rightarrow> io_error + unit \<Rightarrow> run_tasks \<Rightarrow> run_tasks" where
  "on_accept E i n r s = (case r of
     Inr _ \<Rightarrow> set_loop i Admitting s
   | Inl e \<Rightarrow>
       if \<not> is_transient_accept_error E e then set_loop i (Stopped (Inl (AcceptFailed e))) s
       else if accept_cancelled s then set_loop i (Stopped (Inr ())) s
       else set_loop i (Backing (saturating_inc n) (accept_retry_delay n)) s)"

definition on_cancelled :: "nat \<Rightarrow> run_tasks \<Rightarrow> run_tasks option" where
  "on_cancelled i s = (if accept_cancelled s then Some (set_loop i (Stopped (Inr ())) s) else None)"

text \<open>
  The permit, biased towards the token; \<^verbatim>\<open>acquire_owned\<close> never fails since nothing closes the
  semaphore. A successful accept resets the number of failures, so the loop returns to
  \<open>Accepting 0\<close>.
\<close>

definition connection_permit :: "nat \<Rightarrow> run_tasks \<Rightarrow> run_tasks option" where
  "connection_permit i s =
     (if accept_cancelled s then Some (set_loop i (Stopped (Inr ())) s)
      else if permits s = 0 then None
      else Some (set_loop i Permitted (s\<lparr>permits := permits s - 1\<rparr>)))"

definition check_admitted :: "nat \<Rightarrow> run_tasks \<Rightarrow> run_tasks" where
  "check_admitted i s =
     (if accept_cancelled s then set_loop i (Stopped (Inr ())) (release s) else set_loop i Scheduling s)"

text \<open>
  \<^verbatim>\<open>spawn_connection\<close>: lock and spawn, then register the abort handle, then reap what has
  ended. Other tasks run in between, and so does a drop of the run.
\<close>

definition sc_spawn :: "nat \<Rightarrow> run_tasks \<Rightarrow> run_tasks option" where
  "sc_spawn i s =
     (if locked s then None
      else Some (set_loop i (Spawned (next_id s))
             (s\<lparr>locked := True, next_id := next_id s + 1,
                connections := connections s @ [\<lparr>ct_id = next_id s, ct_live = True, ct_abort = False\<rparr>]\<rparr>)))"

definition sc_register :: "nat \<Rightarrow> nat \<Rightarrow> run_tasks \<Rightarrow> run_tasks" where
  "sc_register i k s = set_loop i Reaping
     (s\<lparr>aborts := k # removeAll k (aborts s),
        connections := (if accept_cancelled s \<or> conns_cancelled s then abort_ids (\<lambda>j. j = k) (connections s)
                        else connections s)\<rparr>)"

definition sc_reap :: "nat \<Rightarrow> nat option \<Rightarrow> run_tasks \<Rightarrow> run_tasks option" where
  "sc_reap i r s = (case r of
     Some k \<Rightarrow> if ended_task k s then Some (remove_task k s) else None
   | None \<Rightarrow> if list_ex (\<lambda>t. \<not> ct_live t) (connections s) then None
             else Some (set_loop i (Accepting 0) (s\<lparr>locked := False\<rparr>)))"

fun holds_permit :: "accept_pc \<Rightarrow> bool" where
  "holds_permit Permitted = True"
| "holds_permit Scheduling = True"
| "holds_permit _ = False"

fun holds_lock :: "accept_pc \<Rightarrow> bool" where
  "holds_lock (Spawned _) = True"
| "holds_lock Reaping = True"
| "holds_lock _ = False"

fun at_await :: "accept_pc \<Rightarrow> bool" where
  "at_await (Accepting _) = True"
| "at_await (Backing _ _) = True"
| "at_await Admitting = True"
| "at_await Scheduling = True"
| "at_await _ = False"

text \<open>The accept itself, and the clone of the builder under the permit, are not known not to panic.\<close>

fun may_panic :: "accept_pc \<Rightarrow> bool" where
  "may_panic (Accepting _) = True"
| "may_panic Permitted = True"
| "may_panic _ = False"

text \<open>A loop that is dropped or unwinds gives back what it holds.\<close>

definition drop_loop :: "nat \<Rightarrow> run_tasks \<Rightarrow> run_tasks" where
  "drop_loop i s = set_loop i (Stopped (Inl ListenerTaskFailed))
     (s\<lparr>permits := (if holds_permit (loops s ! i) then permits s + 1 else permits s)\<rparr>)"

datatype loop_event =
    LoopCancelled | LoopAccepts "io_error + unit" | LoopSlept | LoopAdmits | LoopChecks
  | LoopSpawns | LoopRegisters | LoopReaps "nat option" | LoopPanics | LoopAborted

definition client_accept_loop :: "accept_env \<Rightarrow> nat \<Rightarrow> loop_event \<Rightarrow> accept_pc \<Rightarrow> run_tasks \<Rightarrow> run_tasks option" where
  "client_accept_loop E i ev pc s = (case ev of
     LoopCancelled \<Rightarrow> (case pc of Accepting n \<Rightarrow> on_cancelled i s | Backing n d \<Rightarrow> on_cancelled i s | _ \<Rightarrow> None)
   | LoopAccepts r \<Rightarrow> (case pc of Accepting n \<Rightarrow> Some (on_accept E i n r s) | _ \<Rightarrow> None)
   | LoopSlept \<Rightarrow> (case pc of Backing n d \<Rightarrow> Some (set_loop i (Accepting n) s) | _ \<Rightarrow> None)
   | LoopAdmits \<Rightarrow> (if pc = Admitting then connection_permit i s else None)
   | LoopChecks \<Rightarrow> (if pc = Permitted then Some (check_admitted i s) else None)
   | LoopSpawns \<Rightarrow> (if pc = Scheduling then sc_spawn i s else None)
   | LoopRegisters \<Rightarrow> (case pc of Spawned k \<Rightarrow> Some (sc_register i k s) | _ \<Rightarrow> None)
   | LoopReaps r \<Rightarrow> (if pc = Reaping then sc_reap i r s else None)
   | LoopPanics \<Rightarrow> (if may_panic pc then Some (drop_loop i s) else None)
   | LoopAborted \<Rightarrow> (if loops_aborted s \<and> at_await pc then Some (drop_loop i s) else None))"

section \<open>Connection tasks\<close>

datatype task_event = TaskEnds | TaskCancelled | TaskAborted

definition task_may :: "task_event \<Rightarrow> run_tasks \<Rightarrow> conn_task \<Rightarrow> bool" where
  "task_may ev s t = (ct_live t \<and> (case ev of TaskEnds \<Rightarrow> True | TaskCancelled \<Rightarrow> conns_cancelled s | TaskAborted \<Rightarrow> ct_abort t))"

definition end_task :: "nat \<Rightarrow> conn_task list \<Rightarrow> conn_task list" where
  "end_task k = map (\<lambda>t. if ct_id t = k then t\<lparr>ct_live := False\<rparr> else t)"

definition connection_task :: "task_event \<Rightarrow> nat \<Rightarrow> run_tasks \<Rightarrow> run_tasks option" where
  "connection_task ev k s =
     (if list_ex (\<lambda>t. ct_id t = k \<and> task_may ev s t) (connections s)
      then Some (release (s\<lparr>connections := end_task k (connections s)\<rparr>))
      else None)"

section \<open>The driver\<close>

datatype drive_event =
    ListenerJoined nat | NoListeners | Signal shutdown | StdinClosed | DrvIdle | BudgetElapsed
  | DrvLocks | TaskJoined nat | NoTasks

fun listener_exit :: "cause + unit \<Rightarrow> exit_kind option" where
  "listener_exit (Inr _) = None"
| "listener_exit (Inl c) = Some (ListenerFailed c)"

fun signal_exit :: "shutdown \<Rightarrow> exit_kind" where
  "signal_exit SigTerminate = Terminate"
| "signal_exit SigInterrupt = Interrupt"

definition leave_select :: "exit_kind \<Rightarrow> run_tasks \<Rightarrow> run_tasks" where
  "leave_select ex s = (stop_accepting s)\<lparr>drv := JoiningLoops ex\<rparr>"

text \<open>The first step of \<^verbatim>\<open>cancel_connections\<close>, up to its wait.\<close>

definition cancel_connections :: "exit_kind \<Rightarrow> run_tasks \<Rightarrow> run_tasks" where
  "cancel_connections ex s = s\<lparr>conns_cancelled := True, drv := Forcing ex\<rparr>"

definition join_listener :: "nat \<Rightarrow> run_tasks \<Rightarrow> ((cause + unit) \<times> run_tasks) option" where
  "join_listener i s =
     (if i < length (loops s) then
        case loops s ! i of Stopped r \<Rightarrow> Some (r, set_loop i (Joined r) s) | _ \<Rightarrow> None
      else None)"

fun is_joined :: "accept_pc \<Rightarrow> bool" where
  "is_joined (Joined _) = True"
| "is_joined _ = False"

definition all_joined :: "run_tasks \<Rightarrow> bool" where
  "all_joined s = list_all is_joined (loops s)"

fun graceful :: "exit_kind \<Rightarrow> bool" where
  "graceful Terminate = False"
| "graceful ParentClosedStdin = False"
| "graceful _ = True"

definition loops_joined :: "exit_kind \<Rightarrow> run_tasks \<Rightarrow> run_tasks" where
  "loops_joined ex s = (if graceful ex then s\<lparr>drv := Draining ex\<rparr> else cancel_connections ex s)"

fun drive_outcome :: "exit_kind \<Rightarrow> cause + unit" where
  "drive_outcome (ListenerFailed c) = Inl c"
| "drive_outcome _ = Inr ()"

definition tasks_joined :: "bool \<Rightarrow> exit_kind \<Rightarrow> run_tasks \<Rightarrow> run_tasks" where
  "tasks_joined first ex s = s\<lparr>locked := False,
     drv := (if first then WantJoin False ex else Returned (drive_outcome ex))\<rparr>"

definition selecting :: "drive_event \<Rightarrow> run_tasks \<Rightarrow> run_tasks option" where
  "selecting ev s = (case ev of
     ListenerJoined i \<Rightarrow> (case join_listener i s of
       None \<Rightarrow> None
     | Some (r, s') \<Rightarrow> (case listener_exit r of None \<Rightarrow> Some s' | Some ex \<Rightarrow> Some (leave_select ex s')))
   | NoListeners \<Rightarrow> (if all_joined s then Some (leave_select ProxyClosed s) else None)
   | Signal g \<Rightarrow> Some (leave_select (signal_exit g) s)
   | StdinClosed \<Rightarrow> Some (leave_select ParentClosedStdin s)
   | _ \<Rightarrow> None)"

definition join_accept_loops :: "drive_event \<Rightarrow> exit_kind \<Rightarrow> run_tasks \<Rightarrow> run_tasks option" where
  "join_accept_loops ev ex s = (case ev of
     ListenerJoined i \<Rightarrow> map_option snd (join_listener i s)
   | NoListeners \<Rightarrow> (if all_joined s then Some (loops_joined ex s) else None)
   | _ \<Rightarrow> None)"

definition drain_connections :: "drive_event \<Rightarrow> exit_kind \<Rightarrow> run_tasks \<Rightarrow> run_tasks option" where
  "drain_connections ev ex s = (case ev of
     DrvIdle \<Rightarrow> (if wait_idle s then Some (s\<lparr>drv := WantJoin False ex\<rparr>) else None)
   | BudgetElapsed \<Rightarrow> Some (cancel_connections ex s)
   | Signal g \<Rightarrow> Some (cancel_connections ex s)
   | StdinClosed \<Rightarrow> Some (cancel_connections ex s)
   | _ \<Rightarrow> None)"

definition force_connections :: "drive_event \<Rightarrow> exit_kind \<Rightarrow> run_tasks \<Rightarrow> run_tasks option" where
  "force_connections ev ex s = (case ev of
     DrvIdle \<Rightarrow> (if wait_idle s then Some (s\<lparr>drv := WantJoin True ex\<rparr>) else None)
   | BudgetElapsed \<Rightarrow> Some (s\<lparr>drv := WantAbort ex\<rparr>)
   | _ \<Rightarrow> None)"

definition abort_connections :: "drive_event \<Rightarrow> exit_kind \<Rightarrow> run_tasks \<Rightarrow> run_tasks option" where
  "abort_connections ev ex s =
     (if ev = DrvLocks \<and> \<not> locked s
      then Some (s\<lparr>connections := abort_ids (\<lambda>_. True) (connections s), drv := WantJoin True ex\<rparr>)
      else None)"

definition join_connection_tasks :: "drive_event \<Rightarrow> bool \<Rightarrow> exit_kind \<Rightarrow> run_tasks \<Rightarrow> run_tasks option" where
  "join_connection_tasks ev b ex s = (case ev of
     TaskJoined k \<Rightarrow> (if ended_task k s then Some (remove_task k s) else None)
   | NoTasks \<Rightarrow> (if connections s = [] then Some (tasks_joined b ex s) else None)
   | _ \<Rightarrow> None)"

definition drive :: "drive_event \<Rightarrow> run_tasks \<Rightarrow> run_tasks option" where
  "drive ev s = (case drv s of
     Selecting \<Rightarrow> selecting ev s
   | JoiningLoops ex \<Rightarrow> join_accept_loops ev ex s
   | Draining ex \<Rightarrow> drain_connections ev ex s
   | Forcing ex \<Rightarrow> force_connections ev ex s
   | WantAbort ex \<Rightarrow> abort_connections ev ex s
   | WantJoin b ex \<Rightarrow> if ev = DrvLocks \<and> \<not> locked s then Some (s\<lparr>locked := True, drv := Joining b ex\<rparr>) else None
   | Joining b ex \<Rightarrow> join_connection_tasks ev b ex s
   | _ \<Rightarrow> None)"

section \<open>A dropped run\<close>

datatype drop_event = RunDropped | OwnerCancels | OwnerAborts | OwnerTriesLock

fun drv_holds :: "drive_pc \<Rightarrow> bool" where
  "drv_holds (Joining _ _) = True"
| "drv_holds _ = False"

fun running :: "drive_pc \<Rightarrow> bool" where
  "running (Returned _) = False"
| "running OwnerDropping = False"
| "running TokensCancelled = False"
| "running HandlesAborted = False"
| "running Dropped = False"
| "running _ = True"

text \<open>
  Dropping the future of \<^verbatim>\<open>run\<close> drops the pending \<^verbatim>\<open>drive\<close> first, with its set of
  listeners, whose tasks are aborted, and with the lock if it holds it; then \<^verbatim>\<open>RunOwner\<close>.
\<close>

definition run_owner_drop :: "drop_event \<Rightarrow> run_tasks \<Rightarrow> run_tasks option" where
  "run_owner_drop ev s = (case ev of
     RunDropped \<Rightarrow>
       (if running (drv s)
        then Some (s\<lparr>loops_aborted := True, locked := (locked s \<and> \<not> drv_holds (drv s)), drv := OwnerDropping\<rparr>) else None)
   | OwnerCancels \<Rightarrow>
       (if drv s = OwnerDropping then Some ((stop_accepting s)\<lparr>conns_cancelled := True, drv := TokensCancelled\<rparr>) else None)
   | OwnerAborts \<Rightarrow>
       (if drv s = TokensCancelled
        then Some (s\<lparr>connections := abort_ids (\<lambda>k. k \<in> set (aborts s)) (connections s), drv := HandlesAborted\<rparr>) else None)
   | OwnerTriesLock \<Rightarrow>
       (if drv s = HandlesAborted
        then Some (s\<lparr>connections := (if locked s then connections s else abort_ids (\<lambda>_. True) (connections s)), drv := Dropped\<rparr>)
        else None))"

section \<open>Runs\<close>

datatype event = Loop nat loop_event | Task nat task_event | Drive drive_event | Drop drop_event

definition run_step :: "accept_env \<Rightarrow> event \<Rightarrow> run_tasks \<Rightarrow> run_tasks option" where
  "run_step E ev s = (case ev of
     Loop i l \<Rightarrow> if i < length (loops s) then client_accept_loop E i l (loops s ! i) s else None
   | Task k t \<Rightarrow> connection_task t k s
   | Drive d \<Rightarrow> drive d s
   | Drop d \<Rightarrow> run_owner_drop d s)"

primrec run_steps :: "accept_env \<Rightarrow> event list \<Rightarrow> run_tasks \<Rightarrow> run_tasks option" where
  "run_steps E [] s = Some s"
| "run_steps E (ev # evs) s = (case run_step E ev s of None \<Rightarrow> None | Some s' \<Rightarrow> run_steps E evs s')"

inductive reachable :: "accept_env \<Rightarrow> nat \<Rightarrow> run_tasks \<Rightarrow> bool" for E n where
  reach_new: "reachable E n (run_tasks_new n)"
| reach_step: "reachable E n s \<Longrightarrow> run_step E ev s = Some s' \<Longrightarrow> reachable E n s'"

section \<open>Invariants\<close>

definition tally :: "('a \<Rightarrow> bool) \<Rightarrow> 'a list \<Rightarrow> nat" where
  "tally P xs = length (filter P xs)"

text \<open>Every permit is free, held by a live task, or held by a loop that is about to spawn one.\<close>

definition permits_inv :: "run_tasks \<Rightarrow> bool" where
  "permits_inv s \<longleftrightarrow>
     permits s + tally ct_live (connections s) + tally holds_permit (loops s) = MAX_CONCURRENT_CONNS"

text \<open>The lock has one holder while it is locked.\<close>

definition lock_inv :: "run_tasks \<Rightarrow> bool" where
  "lock_inv s \<longleftrightarrow>
     tally holds_lock (loops s) + (if drv_holds (drv s) then 1 else 0) = (if locked s then 1 else 0 :: nat)"

text \<open>Every task has its abort handle registered, unless the loop that spawned it is about to.\<close>

definition handles_inv :: "run_tasks \<Rightarrow> bool" where
  "handles_inv s \<longleftrightarrow> distinct (map ct_id (connections s))
     \<and> ct_id ` set (connections s) \<subseteq> {..< next_id s}
     \<and> set (aborts s) \<subseteq> ct_id ` set (connections s)
     \<and> (\<forall>k. Spawned k \<in> set (loops s) \<longrightarrow> k \<in> ct_id ` set (connections s))
     \<and> ct_id ` set (connections s) \<subseteq> set (aborts s) \<union> {k. Spawned k \<in> set (loops s)}"

lemma tally_update:
  "i < length xs \<Longrightarrow>
     tally P (xs[i := y]) = tally P xs - (if P (xs ! i) then 1 else 0) + (if P y then 1 else 0)"
proof (induction xs arbitrary: i)
  case (Cons x xs)
  have "P (xs ! j) \<Longrightarrow> j < length xs \<Longrightarrow> tally P xs \<noteq> 0" for j by (auto simp: tally_def filter_empty_conv)
  then show ?case using Cons by (cases i) (auto simp: tally_def Suc_diff_le)
qed simp

lemma tally_nth: "i < length xs \<Longrightarrow> P (xs ! i) \<Longrightarrow> 0 < tally P xs"
  by (auto simp: tally_def filter_empty_conv)

lemma tally_simps [simp]: "tally P [] = 0" "tally P (xs @ [x]) = tally P xs + (if P x then 1 else 0)"
  by (simp_all add: tally_def)

lemmas loop_ops = on_accept_def on_cancelled_def connection_permit_def check_admitted_def sc_spawn_def
  sc_register_def sc_reap_def drop_loop_def release_def set_loop_def remove_task_def

lemmas drive_ops = leave_select_def stop_accepting_def cancel_connections_def join_listener_def loops_joined_def
  tasks_joined_def remove_task_def set_loop_def

lemma abort_ids_sel [simp]:
  "map ct_id (abort_ids P ts) = map ct_id ts" "ct_id ` set (abort_ids P ts) = ct_id ` set ts"
  "tally ct_live (abort_ids P ts) = tally ct_live ts" "abort_ids P ts = [] \<longleftrightarrow> ts = []"
  by (induction ts) (auto simp: abort_ids_def tally_def)

lemma live_removed:
  "ended_task k s \<Longrightarrow> distinct (map ct_id (connections s)) \<Longrightarrow>
     tally ct_live (filter (\<lambda>t. ct_id t \<noteq> k) (connections s)) = tally ct_live (connections s)"
  unfolding ended_task_def tally_def
  by (rule arg_cong[where f = length]) (auto simp: list_ex_iff distinct_map inj_on_def intro!: filter_cong)

lemma live_ended:
  "list_ex (\<lambda>t. ct_id t = k \<and> ct_live t) ts \<Longrightarrow> distinct (map ct_id ts) \<Longrightarrow>
     Suc (tally ct_live (end_task k ts)) = tally ct_live ts"
proof (induction ts)
  case (Cons t ts)
  have "end_task k ts = ts \<and> \<not> list_ex (\<lambda>t. ct_id t = k \<and> ct_live t) ts" if "k \<notin> ct_id ` set ts"
    using that unfolding end_task_def by (auto intro!: map_idI simp: list_ex_iff)
  then show ?case using Cons by (cases "ct_id t = k") (auto simp: end_task_def tally_def)
qed simp

lemmas drive_event_cases = drive_def selecting_def join_accept_loops_def drain_connections_def force_connections_def
  abort_connections_def join_connection_tasks_def

lemma permits_loop:
  assumes "permits_inv s" "distinct (map ct_id (connections s))" "i < length (loops s)"
    "client_accept_loop E i l (loops s ! i) s = Some s'"
  shows "permits_inv s'"
  using assms tally_nth[of i "loops s" holds_permit]
  unfolding permits_inv_def client_accept_loop_def
  by (auto simp: loop_ops tally_update live_removed
      split: loop_event.splits accept_pc.splits sum.splits option.splits if_splits)

lemma permits_task: "permits_inv s \<Longrightarrow> distinct (map ct_id (connections s)) \<Longrightarrow> connection_task t k s = Some s' \<Longrightarrow> permits_inv s'"
  using live_ended[of k "connections s"]
  by (fastforce simp: permits_inv_def connection_task_def release_def task_may_def list_ex_iff split: if_splits)

lemma permits_drive:
  assumes "permits_inv s" "distinct (map ct_id (connections s))" "drive d s = Some s'"
  shows "permits_inv s'"
  using assms tally_nth[of _ "loops s" holds_permit]
  unfolding permits_inv_def drive_event_cases
  by (auto simp: drive_ops tally_update live_removed split: drive_event.splits drive_pc.splits accept_pc.splits option.splits sum.splits if_splits)

lemma permits_drop: "permits_inv s \<Longrightarrow> run_owner_drop d s = Some s' \<Longrightarrow> permits_inv s'"
  by (auto simp: permits_inv_def run_owner_drop_def stop_accepting_def split: drop_event.splits if_splits)

lemma stops_without_lock [simp]:
  "may_panic pc \<Longrightarrow> \<not> holds_lock pc" "at_await pc \<Longrightarrow> \<not> holds_lock pc"
  "may_panic pc \<Longrightarrow> pc \<noteq> Spawned k" "at_await pc \<Longrightarrow> pc \<noteq> Spawned k"
  by (cases pc; simp)+

lemma lock_loop:
  assumes "lock_inv s" "i < length (loops s)" "client_accept_loop E i l (loops s ! i) s = Some s'"
  shows "lock_inv s'"
  using assms tally_nth[of i "loops s" holds_lock]
  unfolding lock_inv_def client_accept_loop_def
  by (auto simp: loop_ops tally_update split: loop_event.splits accept_pc.splits sum.splits option.splits if_splits)

lemma lock_task: "lock_inv s \<Longrightarrow> connection_task t k s = Some s' \<Longrightarrow> lock_inv s'"
  by (auto simp: lock_inv_def connection_task_def release_def split: if_splits)

lemma lock_drive:
  assumes "lock_inv s" "drive d s = Some s'"
  shows "lock_inv s'"
  using assms unfolding lock_inv_def drive_event_cases
  by (auto simp: drive_ops tally_update split: drive_event.splits drive_pc.splits accept_pc.splits option.splits sum.splits if_splits)

lemma lock_drop: "lock_inv s \<Longrightarrow> run_owner_drop d s = Some s' \<Longrightarrow> lock_inv s'"
  by (auto simp: lock_inv_def run_owner_drop_def stop_accepting_def split: drop_event.splits if_splits)

text \<open>While one holder removes tasks, no other has spawned one that is not registered.\<close>

lemma no_spawned_reaping:
  assumes "lock_inv s" "i < length (loops s)" "loops s ! i = Reaping"
  shows "Spawned k \<notin> set (loops s)"
proof
  assume "Spawned k \<in> set (loops s)"
  then obtain j where j: "j < length (loops s)" "loops s ! j = Spawned k" by (auto simp: in_set_conv_nth)
  with assms have "i \<noteq> j" by auto
  moreover have "tally holds_lock ((loops s)[i := Stopped (Inr ())]) = 0"
    using assms tally_nth[of i "loops s" holds_lock] by (auto simp: tally_update lock_inv_def split: if_splits)
  ultimately show False using j tally_nth[of j "(loops s)[i := Stopped (Inr ())]" holds_lock] by simp
qed

lemma no_spawned_joining:
  assumes "lock_inv s" "drv_holds (drv s)"
  shows "Spawned k \<notin> set (loops s)"
  using assms tally_nth[of _ "loops s" holds_lock] by (fastforce simp: lock_inv_def in_set_conv_nth split: if_splits)

lemma handles_remove:
  assumes "handles_inv s" "\<And>j. Spawned j \<notin> set (loops s)"
  shows "handles_inv (remove_task k s)"
  using assms by (auto simp: handles_inv_def remove_task_def distinct_map_filter)

lemma spawned_update:
  "i < length xs \<Longrightarrow> Spawned k \<in> set (xs[i := y]) \<longleftrightarrow> y = Spawned k \<or> (\<exists>j < length xs. j \<noteq> i \<and> xs ! j = Spawned k)"
  by (auto simp: in_set_conv_nth nth_list_update split: if_splits)

lemma spawned_set:
  assumes "i < length (loops s)" "\<And>k. loops s ! i \<noteq> Spawned k"
  shows "Spawned k \<in> set ((loops s)[i := pc]) \<longleftrightarrow> pc = Spawned k \<or> Spawned k \<in> set (loops s)"
proof -
  have "Spawned k \<in> set (loops s) \<longleftrightarrow> (\<exists>j < length (loops s). j \<noteq> i \<and> loops s ! j = Spawned k)"
    using assms(2)[of k] by (auto simp: in_set_conv_nth)
  then show ?thesis using assms(1) by (auto simp: spawned_update)
qed

lemma handles_same:
  assumes "handles_inv s" "connections s' = connections s" "aborts s' = aborts s" "next_id s' = next_id s"
    "\<And>k. Spawned k \<in> set (loops s') \<longleftrightarrow> Spawned k \<in> set (loops s)"
  shows "handles_inv s'"
  using assms by (simp add: handles_inv_def)

lemma handles_spawn:
  assumes "handles_inv s" "i < length (loops s)" "loops s ! i = Scheduling" "sc_spawn i s = Some s'"
  shows "handles_inv s'"
proof -
  define t where "t = \<lparr>ct_id = next_id s, ct_live = True, ct_abort = False\<rparr>"
  have s': "connections s' = connections s @ [t]" "aborts s' = aborts s" "next_id s' = Suc (next_id s)"
    "loops s' = (loops s)[i := Spawned (ct_id t)]" "ct_id t = next_id s"
    using assms(4) by (auto simp: sc_spawn_def set_loop_def t_def split: if_splits)
  have "next_id s \<notin> ct_id ` set (connections s)" using assms(1) by (auto simp: handles_inv_def)
  with assms(1-3) show ?thesis by (auto simp: handles_inv_def s' spawned_set)
qed

lemma handles_register:
  assumes "handles_inv s" "i < length (loops s)" "loops s ! i = Spawned k"
  shows "handles_inv (sc_register i k s)"
proof -
  have "Spawned k \<in> set (loops s)" using assms(2,3) nth_mem by metis
  then have k: "k \<in> ct_id ` set (connections s)" using assms(1) by (simp add: handles_inv_def)
  have kept: "{j. Spawned j \<in> set (loops s)} \<subseteq> insert k {j. Spawned j \<in> set ((loops s)[i := Reaping])}"
    using assms(2,3) by (auto simp: spawned_update in_set_conv_nth[of _ "loops s"])
  have old: "Spawned j \<in> set (loops s)" if "Spawned j \<in> set ((loops s)[i := Reaping])" for j
    using that assms(2) by (auto simp: spawned_update in_set_conv_nth[of _ "loops s"])
  define u where "u = sc_register i k s"
  have "map ct_id (connections u) = map ct_id (connections s)" "set (aborts u) = insert k (set (aborts s))"
    "next_id u = next_id s" "loops u = (loops s)[i := Reaping]"
    by (auto simp: u_def sc_register_def set_loop_def)
  moreover from this(1) have "ct_id ` set (connections u) = ct_id ` set (connections s)" by (metis set_map)
  ultimately have "handles_inv u" using assms(1) k kept old unfolding handles_inv_def by (simp, blast)
  then show ?thesis by (simp add: u_def)
qed

lemma handles_loop:
  assumes H: "handles_inv s" and L: "lock_inv s" and i: "i < length (loops s)"
    and st: "client_accept_loop E i l (loops s ! i) s = Some s'"
  shows "handles_inv s'"
proof (cases l)
  case LoopSpawns
  then show ?thesis using st H i handles_spawn by (auto simp: client_accept_loop_def split: if_splits)
next
  case LoopRegisters
  then show ?thesis using st H i handles_register by (auto simp: client_accept_loop_def split: accept_pc.splits)
next
  case (LoopReaps r)
  then have at: "loops s ! i = Reaping" and r: "sc_reap i r s = Some s'"
    using st by (auto simp: client_accept_loop_def split: if_splits)
  show ?thesis
    using r handles_remove[OF H no_spawned_reaping[OF L i at]] handles_same[OF H] spawned_set[OF i] at
    by (auto simp: sc_reap_def set_loop_def split: option.splits if_splits)
qed (use st handles_same[OF H] spawned_set[OF i] in
     \<open>auto simp: client_accept_loop_def loop_ops split: accept_pc.splits sum.splits if_splits\<close>)

lemma handles_tasks:
  assumes "handles_inv s" "map ct_id (connections s') = map ct_id (connections s)" "aborts s' = aborts s"
    "next_id s' = next_id s" "\<And>k. Spawned k \<in> set (loops s') \<longleftrightarrow> Spawned k \<in> set (loops s)"
  shows "handles_inv s'"
proof -
  have "ct_id ` set (connections s') = ct_id ` set (connections s)" using assms(2) by (metis set_map)
  with assms show ?thesis by (simp add: handles_inv_def)
qed

lemma handles_task: "handles_inv s \<Longrightarrow> connection_task t k s = Some s' \<Longrightarrow> handles_inv s'"
  by (erule handles_tasks) (auto simp: connection_task_def release_def end_task_def split: if_splits)

lemma join_listener_SomeD:
  assumes "join_listener i s = Some (r, s')"
  shows "i < length (loops s)" "loops s ! i = Stopped r" "s' = s\<lparr>loops := (loops s)[i := Joined r]\<rparr>"
  using assms by (auto simp: join_listener_def set_loop_def split: if_splits accept_pc.splits)

lemma handles_joined: "handles_inv s \<Longrightarrow> join_listener i s = Some (r, s') \<Longrightarrow> handles_inv s'"
  by (frule join_listener_SomeD(1), frule join_listener_SomeD(2), drule join_listener_SomeD(3))
     (erule handles_same; simp add: spawned_set)

lemma handles_drive:
  assumes H: "handles_inv s" and L: "lock_inv s" and st: "drive d s = Some s'"
  shows "handles_inv s'"
proof (cases d)
  case (TaskJoined k)
  with st have "drv_holds (drv s)" "s' = remove_task k s"
    by (auto simp: drive_event_cases split: drive_pc.splits if_splits)
  then show ?thesis using handles_remove[OF H no_spawned_joining[OF L]] by simp
next
  case (ListenerJoined i)
  have "handles_inv (leave_select ex u)" if "handles_inv u" for ex u
    using that by (auto simp: handles_inv_def leave_select_def stop_accepting_def)
  with st ListenerJoined show ?thesis
    by (auto simp: drive_event_cases handles_joined[OF H] split: drive_pc.splits option.splits)
qed (use st handles_tasks[OF H] in
     \<open>auto simp: drive_event_cases drive_ops split: drive_pc.splits if_splits\<close>)

lemma handles_drop: "handles_inv s \<Longrightarrow> run_owner_drop d s = Some s' \<Longrightarrow> handles_inv s'"
  by (erule handles_tasks) (auto simp: run_owner_drop_def stop_accepting_def split: drop_event.splits if_splits)

text \<open>What is settled at each stage of the shutdown.\<close>

fun cause_known :: "exit_kind \<Rightarrow> accept_pc list \<Rightarrow> bool" where
  "cause_known (ListenerFailed c) ps = (Joined (Inl c) \<in> set ps)"
| "cause_known _ ps = True"

definition registered_aborted :: "run_tasks \<Rightarrow> bool" where
  "registered_aborted s \<longleftrightarrow> (\<forall>t \<in> set (connections s). ct_live t \<longrightarrow> ct_id t \<in> set (aborts s) \<longrightarrow> ct_abort t)"

fun phase_inv :: "drive_pc \<Rightarrow> run_tasks \<Rightarrow> bool" where
  "phase_inv Selecting s = (\<not> accept_cancelled s \<and> \<not> conns_cancelled s)"
| "phase_inv (JoiningLoops ex) s = (accept_cancelled s \<and> cause_known ex (loops s))"
| "phase_inv (Draining ex) s = (accept_cancelled s \<and> cause_known ex (loops s) \<and> all_joined s)"
| "phase_inv (Forcing ex) s = (accept_cancelled s \<and> cause_known ex (loops s) \<and> all_joined s \<and> conns_cancelled s)"
| "phase_inv (WantAbort ex) s = (accept_cancelled s \<and> cause_known ex (loops s) \<and> all_joined s \<and> conns_cancelled s)"
| "phase_inv (WantJoin b ex) s = (accept_cancelled s \<and> cause_known ex (loops s) \<and> all_joined s
     \<and> (if b then conns_cancelled s else tally ct_live (connections s) = 0))"
| "phase_inv (Joining b ex) s = (accept_cancelled s \<and> cause_known ex (loops s) \<and> all_joined s
     \<and> (if b then conns_cancelled s else tally ct_live (connections s) = 0))"
| "phase_inv (Returned r) s = (accept_cancelled s \<and> all_joined s \<and> connections s = []
     \<and> (\<forall>c. r = Inl c \<longrightarrow> Joined (Inl c) \<in> set (loops s)))"
| "phase_inv OwnerDropping s = loops_aborted s"
| "phase_inv TokensCancelled s = (loops_aborted s \<and> accept_cancelled s \<and> conns_cancelled s)"
| "phase_inv HandlesAborted s = (loops_aborted s \<and> accept_cancelled s \<and> conns_cancelled s \<and> registered_aborted s)"
| "phase_inv Dropped s = (loops_aborted s \<and> accept_cancelled s \<and> conns_cancelled s \<and> registered_aborted s)"

lemma all_joined_stuck: "all_joined s \<Longrightarrow> i < length (loops s) \<Longrightarrow> client_accept_loop E i l (loops s ! i) s = None"
  by (cases "loops s ! i"; force simp: client_accept_loop_def all_joined_def list_all_length split: loop_event.splits)

lemma loop_frame:
  assumes "client_accept_loop E i l (loops s ! i) s = Some s'"
  shows "drv s' = drv s" "accept_cancelled s' = accept_cancelled s" "conns_cancelled s' = conns_cancelled s"
    "loops_aborted s' = loops_aborted s"
  using assms unfolding client_accept_loop_def
  by (auto simp: loop_ops split: loop_event.splits accept_pc.splits sum.splits option.splits if_splits)

lemma joined_update: "i < length xs \<Longrightarrow> \<not> is_joined (xs ! i) \<Longrightarrow> Joined r \<in> set xs \<Longrightarrow> Joined r \<in> set (xs[i := y])"
  by (metis in_set_conv_nth is_joined.simps(1) length_list_update nth_list_update_neq)

lemma loop_keeps_joined:
  assumes "client_accept_loop E i l (loops s ! i) s = Some s'" "i < length (loops s)" "Joined r \<in> set (loops s)"
  shows "Joined r \<in> set (loops s')"
proof -
  have "loops s' = loops s \<or> (\<exists>y. loops s' = (loops s)[i := y])"
    using assms(1) unfolding client_accept_loop_def
    by (auto simp: loop_ops split: loop_event.splits accept_pc.splits sum.splits option.splits if_splits)
  moreover have "\<not> is_joined (loops s ! i)"
    using assms(1) by (cases "loops s ! i") (auto simp: client_accept_loop_def split: loop_event.splits)
  ultimately show ?thesis using assms(2,3) joined_update by metis
qed

lemma loop_registered:
  assumes "client_accept_loop E i l (loops s ! i) s = Some s'" "registered_aborted s" "accept_cancelled s"
    "next_id s \<notin> set (aborts s)"
  shows "registered_aborted s'"
  using assms unfolding client_accept_loop_def registered_aborted_def
  by (auto simp: loop_ops abort_ids_def split: loop_event.splits accept_pc.splits sum.splits option.splits if_splits)

lemma cause_known_mono: "cause_known ex ps \<Longrightarrow> (\<And>r. Joined r \<in> set ps \<Longrightarrow> Joined r \<in> set ps') \<Longrightarrow> cause_known ex ps'"
  by (cases ex) auto

lemma phase_loop:
  assumes "phase_inv (drv s) s" "handles_inv s" "i < length (loops s)" "client_accept_loop E i l (loops s ! i) s = Some s'"
  shows "phase_inv (drv s') s'"
proof -
  have "set (aborts s) \<subseteq> {..< next_id s}" using assms(2) unfolding handles_inv_def by (meson subset_trans)
  then have ab: "next_id s \<notin> set (aborts s)" by blast
  have aj: "\<not> all_joined s" using all_joined_stuck[OF _ assms(3)] assms(4) by fastforce
  show ?thesis
    using assms(1) loop_frame[OF assms(4)] loop_registered[OF assms(4) _ _ ab] aj
      cause_known_mono[OF _ loop_keeps_joined[OF assms(4,3)]]
    by (cases "drv s") auto
qed

lemma task_frame:
  assumes "connection_task t k s = Some s'"
  shows "drv s' = drv s" "accept_cancelled s' = accept_cancelled s" "conns_cancelled s' = conns_cancelled s"
    "loops_aborted s' = loops_aborted s" "loops s' = loops s" "connections s' = end_task k (connections s)"
    "aborts s' = aborts s"
  using assms by (auto simp: connection_task_def release_def split: if_splits)

lemma phase_task:
  assumes "phase_inv (drv s) s" "connection_task t k s = Some s'"
  shows "phase_inv (drv s') s'"
proof -
  have "tally ct_live (end_task k (connections s)) = 0" if "tally ct_live (connections s) = 0"
    using that by (auto simp: tally_def end_task_def filter_empty_conv)
  moreover have "registered_aborted s'" if "registered_aborted s"
    using that task_frame[OF assms(2)] by (auto simp: registered_aborted_def end_task_def split: if_splits)
  moreover have "all_joined s' = all_joined s" using task_frame(5)[OF assms(2)] by (simp add: all_joined_def)
  moreover have "connections s \<noteq> []" using assms(2) by (auto simp: connection_task_def split: if_splits)
  ultimately show ?thesis using assms(1) task_frame[OF assms(2)] by (cases "drv s") auto
qed

lemma idle_none_live: "permits_inv s \<Longrightarrow> wait_idle s \<Longrightarrow> tally ct_live (connections s) = 0"
  by (simp add: permits_inv_def wait_idle_def)

lemma removed_live: "tally ct_live (connections s) = 0 \<Longrightarrow> tally ct_live (connections (remove_task k s)) = 0"
  by (auto simp: tally_def remove_task_def filter_empty_conv)

lemma phase_selecting:
  assumes "phase_inv (drv s) s" "drv s = Selecting" "selecting d s = Some s'"
  shows "phase_inv (drv s') s'"
  using assms
  by (auto simp: selecting_def leave_select_def stop_accepting_def set_update_memI join_listener_def set_loop_def
      split: drive_event.splits option.splits if_splits accept_pc.splits elim!: listener_exit.elims)
     (metis cause_known.simps(3,4) signal_exit.elims)

lemma phase_joining_loops:
  assumes "phase_inv (drv s) s" "drv s = JoiningLoops ex" "join_accept_loops d ex s = Some s'"
  shows "phase_inv (drv s') s'"
proof (cases d)
  case (ListenerJoined i)
  then obtain r where "join_listener i s = Some (r, s')" using assms(3) by (auto simp: join_accept_loops_def)
  note j = join_listener_SomeD[OF this]
  then have "cause_known ex (loops s')"
    using assms(1,2) cause_known_mono[of ex "loops s" "loops s'"] joined_update[of i "loops s"] by simp
  then show ?thesis using assms(1,2) j by simp
qed (use assms in \<open>auto simp: join_accept_loops_def loops_joined_def cancel_connections_def all_joined_def split: if_splits\<close>)

lemma phase_drive:
  assumes "phase_inv (drv s) s" "permits_inv s" "drive d s = Some s'"
  shows "phase_inv (drv s') s'"
proof (cases "drv s")
  case Selecting
  then show ?thesis using assms phase_selecting by (simp add: drive_def)
next
  case (JoiningLoops ex)
  then show ?thesis using assms phase_joining_loops by (simp add: drive_def)
next
  case (Joining b ex)
  then show ?thesis using assms removed_live[of s]
    by (cases ex) (auto simp: drive_def join_connection_tasks_def tasks_joined_def remove_task_def all_joined_def
        split: drive_event.splits if_splits)
qed (use assms in \<open>auto simp: drive_def drain_connections_def force_connections_def abort_connections_def cancel_connections_def
       idle_none_live all_joined_def split: drive_event.splits if_splits\<close>)

lemma phase_drop: "phase_inv (drv s) s \<Longrightarrow> run_owner_drop d s = Some s' \<Longrightarrow> phase_inv (drv s') s'"
  by (auto simp: run_owner_drop_def stop_accepting_def registered_aborted_def abort_ids_def
      split: drop_event.splits if_splits)

definition run_inv :: "run_tasks \<Rightarrow> bool" where
  "run_inv s \<longleftrightarrow> permits_inv s \<and> lock_inv s \<and> handles_inv s \<and> phase_inv (drv s) s"

lemma handles_distinct: "handles_inv s \<Longrightarrow> distinct (map ct_id (connections s))"
  by (simp add: handles_inv_def)

lemma run_inv_step:
  assumes "run_inv s" "run_step E ev s = Some s'"
  shows "run_inv s'"
proof -
  have inv: "permits_inv s" "lock_inv s" "handles_inv s" "phase_inv (drv s) s" using assms(1) by (simp_all add: run_inv_def)
  note d = handles_distinct[OF inv(3)]
  show ?thesis
  proof (cases ev)
    case (Loop i l)
    then have "i < length (loops s)" "client_accept_loop E i l (loops s ! i) s = Some s'"
      using assms(2) by (auto simp: run_step_def split: if_splits)
    with inv d show ?thesis unfolding run_inv_def by (blast intro: permits_loop lock_loop handles_loop phase_loop)
  next
    case (Task k t)
    then have "connection_task t k s = Some s'" using assms(2) by (simp add: run_step_def)
    with inv d show ?thesis unfolding run_inv_def by (blast intro: permits_task lock_task handles_task phase_task)
  next
    case (Drive e)
    then have "drive e s = Some s'" using assms(2) by (simp add: run_step_def)
    with inv d show ?thesis unfolding run_inv_def by (blast intro: permits_drive lock_drive handles_drive phase_drive)
  next
    case (Drop e)
    then have "run_owner_drop e s = Some s'" using assms(2) by (simp add: run_step_def)
    with inv show ?thesis unfolding run_inv_def by (blast intro: permits_drop lock_drop handles_drop phase_drop)
  qed
qed

lemma run_inv_new: "run_inv (run_tasks_new n)"
  by (auto simp: run_inv_def permits_inv_def lock_inv_def handles_inv_def run_tasks_new_def tally_def)

lemma run_inv_reachable: "reachable E n s \<Longrightarrow> run_inv s"
  by (induction rule: reachable.induct) (auto intro: run_inv_new run_inv_step)

section \<open>Every shutdown ends\<close>

fun loop_weight :: "accept_pc \<Rightarrow> nat" where
  "loop_weight (Accepting _) = 3"
| "loop_weight (Backing _ _) = 4"
| "loop_weight Admitting = 2"
| "loop_weight Permitted = 9"
| "loop_weight Scheduling = 8"
| "loop_weight (Spawned _) = 5"
| "loop_weight Reaping = 4"
| "loop_weight (Stopped _) = 1"
| "loop_weight (Joined _) = 0"

fun drive_weight :: "drive_pc \<Rightarrow> nat" where
  "drive_weight Selecting = 15"
| "drive_weight (JoiningLoops _) = 14"
| "drive_weight (Draining _) = 13"
| "drive_weight (Forcing _) = 12"
| "drive_weight (WantAbort _) = 11"
| "drive_weight (WantJoin b _) = (if b then 10 else 8)"
| "drive_weight (Joining b _) = (if b then 9 else 7)"
| "drive_weight (Returned _) = 0"
| "drive_weight OwnerDropping = 6"
| "drive_weight TokensCancelled = 5"
| "drive_weight HandlesAborted = 4"
| "drive_weight Dropped = 0"

definition task_weight :: "conn_task \<Rightarrow> nat" where
  "task_weight t = (if ct_live t then 2 else 1)"

definition run_weight :: "run_tasks \<Rightarrow> nat" where
  "run_weight s = sum_list (map loop_weight (loops s)) + sum_list (map task_weight (connections s)) + drive_weight (drv s)"

lemma weight_update:
  assumes "i < length xs"
  shows "sum_list (map w (xs[i := y])) = sum_list (map w xs) - w (xs ! i) + (w y :: nat)" "w (xs ! i) \<le> sum_list (map w xs)"
  using assms by (simp_all add: map_update sum_list_update member_le_sum_list)

lemma abort_weight [simp]: "sum_list (map task_weight (abort_ids P ts)) = sum_list (map task_weight ts)"
  by (induction ts) (auto simp: abort_ids_def task_weight_def)

lemma task_weight_pos: "1 \<le> task_weight t"
  by (simp add: task_weight_def)

lemma end_task_Cons [simp]:
  "end_task k (t # ts) = (if ct_id t = k then t\<lparr>ct_live := False\<rparr> else t) # end_task k ts" "end_task k [] = []"
  by (simp_all add: end_task_def)

lemma end_task_weight: "task_weight (t\<lparr>ct_live := False\<rparr>) \<le> task_weight t" "ct_live t \<Longrightarrow> task_weight (t\<lparr>ct_live := False\<rparr>) < task_weight t"
  by (simp_all add: task_weight_def)

lemma removed_weight:
  assumes "ended_task k s"
  shows "sum_list (map task_weight (filter (\<lambda>t. ct_id t \<noteq> k) (connections s))) < sum_list (map task_weight (connections s))"
proof -
  have "k \<in> ct_id ` set ts \<Longrightarrow> sum_list (map task_weight (filter (\<lambda>t. ct_id t \<noteq> k) ts)) < sum_list (map task_weight ts)" for ts
  proof (induction ts)
    case (Cons t ts)
    have "sum_list (map task_weight (filter (\<lambda>t. ct_id t \<noteq> k) ts)) \<le> sum_list (map task_weight ts)"
      by (rule sum_list_filter_le_nat)
    then show ?case using Cons task_weight_pos[of t] by (cases "ct_id t = k") auto
  qed simp
  then show ?thesis using assms by (auto simp: ended_task_def list_ex_iff)
qed

lemma ended_weight:
  "list_ex (\<lambda>t. ct_id t = k \<and> ct_live t) ts \<Longrightarrow> sum_list (map task_weight (end_task k ts)) < sum_list (map task_weight ts)"
proof (induction ts)
  case (Cons t ts)
  have "sum_list (map task_weight (end_task k ts)) \<le> sum_list (map task_weight ts)"
    by (induction ts) (auto intro: add_mono end_task_weight)
  then show ?case using Cons end_task_weight[of t]
    by (cases "ct_id t = k \<and> ct_live t") (auto intro: add_less_le_mono add_le_less_mono)
qed simp

lemma weight_loop:
  assumes "accept_cancelled s" "i < length (loops s)" "client_accept_loop E i l (loops s ! i) s = Some s'"
  shows "run_weight s' < run_weight s"
  using assms weight_update(2)[OF assms(2), of loop_weight] removed_weight[of _ s]
  unfolding run_weight_def client_accept_loop_def
  by (auto simp: loop_ops weight_update(1) task_weight_def
      split: loop_event.splits accept_pc.splits sum.splits option.splits if_splits elim!: at_await.elims may_panic.elims)

lemma weight_task: "connection_task t k s = Some s' \<Longrightarrow> run_weight s' < run_weight s"
  using ended_weight[of k "connections s"]
  by (fastforce simp: run_weight_def connection_task_def release_def task_may_def list_ex_iff split: if_splits)

lemma stopped_weight: "i < length ps \<Longrightarrow> ps ! i = Stopped r \<Longrightarrow> 0 < sum_list (map loop_weight ps)"
  using weight_update(2)[of i ps loop_weight] by simp

lemma weight_drive:
  assumes "accept_cancelled s" "phase_inv (drv s) s" "drive d s = Some s'"
  shows "run_weight s' < run_weight s"
  using assms removed_weight[of _ s]
  unfolding run_weight_def drive_event_cases
  by (auto simp: drive_ops weight_update(1) intro!: diff_less stopped_weight split: drive_event.splits drive_pc.splits accept_pc.splits option.splits if_splits)

lemma weight_drop: "run_owner_drop d s = Some s' \<Longrightarrow> run_weight s' < run_weight s"
  by (cases "drv s") (auto simp: run_owner_drop_def run_weight_def stop_accepting_def split: drop_event.splits if_splits)

lemma cancelled_step:
  assumes "run_inv s" "accept_cancelled s" "run_step E ev s = Some s'"
  shows "accept_cancelled s'" "run_weight s' < run_weight s"
proof -
  have "accept_cancelled s' \<and> run_weight s' < run_weight s"
  proof (cases ev)
    case (Loop i l)
    then have "i < length (loops s)" "client_accept_loop E i l (loops s ! i) s = Some s'"
      using assms(3) by (auto simp: run_step_def split: if_splits)
    with assms(2) show ?thesis using weight_loop loop_frame(2) by metis
  next
    case (Task k t)
    then have "connection_task t k s = Some s'" using assms(3) by (simp add: run_step_def)
    with assms(2) show ?thesis using weight_task task_frame(2) by metis
  next
    case (Drive e)
    then have st: "drive e s = Some s'" using assms(3) by (simp add: run_step_def)
    then have "accept_cancelled s'"
      using assms(1,2) unfolding drive_event_cases run_inv_def
      by (auto simp: drive_ops split: drive_event.splits drive_pc.splits accept_pc.splits option.splits if_splits)
    then show ?thesis using weight_drive[OF assms(2) _ st] assms(1) by (simp add: run_inv_def)
  next
    case (Drop e)
    then have st: "run_owner_drop e s = Some s'" using assms(3) by (simp add: run_step_def)
    then have "accept_cancelled s'"
      using assms(2) by (auto simp: run_owner_drop_def stop_accepting_def split: drop_event.splits if_splits)
    then show ?thesis using weight_drop[OF st] by simp
  qed
  then show "accept_cancelled s'" "run_weight s' < run_weight s" by auto
qed

lemma cancelled_run:
  assumes "run_inv s" "accept_cancelled s" "run_steps E evs s = Some s'"
  shows "length evs + run_weight s' \<le> run_weight s \<and> run_inv s' \<and> accept_cancelled s'"
  using assms
proof (induction evs arbitrary: s)
  case (Cons ev evs)
  then obtain u where u: "run_step E ev s = Some u" "run_steps E evs u = Some s'" by (auto split: option.splits)
  have "length evs + run_weight s' \<le> run_weight u \<and> run_inv s' \<and> accept_cancelled s'"
    using Cons.IH[OF run_inv_step[OF Cons.prems(1) u(1)] cancelled_step(1)[OF Cons.prems(1,2) u(1)] u(2)] .
  then show ?case using cancelled_step(2)[OF Cons.prems(1,2) u(1)] by simp
qed simp

text \<open>
  What happens without the outside: no new connection, no signal, no end of standard input, no
  body that returns by itself, no panic and no drop of the run is needed.
\<close>

fun unaided :: "event \<Rightarrow> bool" where
  "unaided (Loop i l) = (case l of LoopAccepts _ \<Rightarrow> False | LoopPanics \<Rightarrow> False | _ \<Rightarrow> True)"
| "unaided (Task k t) = (t \<noteq> TaskEnds)"
| "unaided (Drive d) = (case d of Signal _ \<Rightarrow> False | StdinClosed \<Rightarrow> False | _ \<Rightarrow> True)"
| "unaided (Drop d) = (d \<noteq> RunDropped)"

definition moves :: "accept_env \<Rightarrow> run_tasks \<Rightarrow> bool" where
  "moves E s \<longleftrightarrow> (\<exists>ev. unaided ev \<and> run_step E ev s \<noteq> None)"

lemma movesI: "run_step E ev s = Some s' \<Longrightarrow> unaided ev \<Longrightarrow> moves E s"
  by (auto simp: moves_def)

lemma holder_moves:
  assumes "i < length (loops s)" "holds_lock (loops s ! i)"
  shows "moves E s"
proof (cases "loops s ! i")
  case (Spawned k)
  then show ?thesis using assms(1) movesI[of E "Loop i LoopRegisters"] by (simp add: run_step_def client_accept_loop_def)
next
  case Reaping
  show ?thesis
  proof (cases "list_ex (\<lambda>t. \<not> ct_live t) (connections s)")
    case True
    then obtain k where "ended_task k s" by (auto simp: ended_task_def list_ex_iff)
    then show ?thesis using assms(1) Reaping movesI[of E "Loop i (LoopReaps (Some k))"]
      by (simp add: run_step_def client_accept_loop_def sc_reap_def)
  next
    case False
    then show ?thesis using assms(1) Reaping movesI[of E "Loop i (LoopReaps None)"]
      by (simp add: run_step_def client_accept_loop_def sc_reap_def)
  qed
qed (use assms in auto)

fun at_end :: "accept_pc \<Rightarrow> bool" where
  "at_end (Stopped _) = True"
| "at_end (Joined _) = True"
| "at_end _ = False"

lemma loop_moves:
  assumes "lock_inv s" "\<not> drv_holds (drv s)" "accept_cancelled s" "i < length (loops s)" "\<not> at_end (loops s ! i)"
  shows "moves E s"
proof (cases "loops s ! i")
  case Scheduling
  show ?thesis
  proof (cases "locked s")
    case True
    then have "tally holds_lock (loops s) \<noteq> 0" using assms(1,2) by (auto simp: lock_inv_def)
    then obtain pc where "pc \<in> set (loops s)" "holds_lock pc" by (auto simp: tally_def filter_empty_conv)
    then show ?thesis using holder_moves by (metis in_set_conv_nth)
  next
    case False
    then show ?thesis using Scheduling assms(4) movesI[of E "Loop i LoopSpawns"]
      by (simp add: run_step_def client_accept_loop_def sc_spawn_def)
  qed
next
  case (Spawned k)
  then show ?thesis using holder_moves[OF assms(4)] by simp
next
  case Reaping
  then show ?thesis using holder_moves[OF assms(4)] by simp
qed (use assms movesI[of E "Loop i LoopCancelled"] movesI[of E "Loop i LoopAdmits"] movesI[of E "Loop i LoopChecks"] in
     \<open>simp_all add: run_step_def client_accept_loop_def on_cancelled_def connection_permit_def\<close>)

lemma live_moves:
  assumes "conns_cancelled s" "t \<in> set (connections s)" "ct_live t"
  shows "moves E s"
proof -
  have "list_ex (\<lambda>u. ct_id u = ct_id t \<and> task_may TaskCancelled s u) (connections s)"
    using assms by (auto simp: list_ex_iff task_may_def)
  then show ?thesis using movesI[of E "Task (ct_id t) TaskCancelled" s] by (simp add: run_step_def connection_task_def)
qed

lemma joining_loops_moves:
  assumes "run_inv s" "accept_cancelled s" "drv s = JoiningLoops ex"
  shows "moves E s"
proof (cases "all_joined s")
  case True
  then show ?thesis using assms(3) movesI[of E "Drive NoListeners"]
    by (simp add: run_step_def drive_def join_accept_loops_def)
next
  case False
  then obtain i where i: "i < length (loops s)" "\<not> is_joined (loops s ! i)" by (auto simp: all_joined_def list_all_length)
  show ?thesis
  proof (cases "at_end (loops s ! i)")
    case True
    with i obtain r where "loops s ! i = Stopped r" by (cases "loops s ! i") auto
    then show ?thesis using i(1) assms(3) movesI[of E "Drive (ListenerJoined i)"]
      by (simp add: run_step_def drive_def join_accept_loops_def join_listener_def)
  next
    case False
    then show ?thesis using loop_moves[OF _ _ assms(2) i(1)] assms(1,3) by (simp add: run_inv_def)
  qed
qed

lemma unlocked_joined:
  assumes "lock_inv s" "all_joined s" "\<not> drv_holds (drv s)"
  shows "\<not> locked s"
proof -
  have "holds_lock pc \<Longrightarrow> \<not> is_joined pc" for pc by (cases pc) auto
  then have "filter holds_lock (loops s) = []"
    using assms(2) unfolding all_joined_def list_all_iff filter_empty_conv by blast
  then show ?thesis using assms(1,3) by (auto simp: lock_inv_def tally_def split: if_splits)
qed

lemma joining_moves:
  assumes "run_inv s" "drv s = Joining b ex"
  shows "moves E s"
proof (cases "connections s")
  case Nil
  then show ?thesis using assms(2) movesI[of E "Drive NoTasks"] by (simp add: run_step_def drive_def join_connection_tasks_def)
next
  case (Cons t ts)
  have phase: "phase_inv (Joining b ex) s" using assms by (metis run_inv_def)
  show ?thesis
  proof (cases "ct_live t")
    case True
    then have "conns_cancelled s" using phase Cons by (auto simp: tally_def split: if_splits)
    then show ?thesis using live_moves[of s t] Cons True by simp
  next
    case False
    then have "ended_task (ct_id t) s" using Cons by (simp add: ended_task_def)
    then show ?thesis using assms(2) movesI[of E "Drive (TaskJoined (ct_id t))"]
      by (simp add: run_step_def drive_def join_connection_tasks_def)
  qed
qed

lemma stuck_means_over:
  assumes "run_inv s" "accept_cancelled s" "\<not> moves E s"
  shows "(\<exists>r. drv s = Returned r) \<or> drv s = Dropped \<and> (\<forall>t \<in> set (connections s). \<not> ct_live t)"
proof (cases "drv s")
  case Selecting
  then show ?thesis using assms(1,2) by (simp add: run_inv_def)
next
  case (JoiningLoops ex)
  then show ?thesis using joining_loops_moves[OF assms(1,2)] assms(3) by simp
next
  case (Joining b ex)
  then show ?thesis using joining_moves[OF assms(1)] assms(3) by simp
next
  case Dropped
  then show ?thesis using assms(1,3) live_moves by (auto simp: run_inv_def)
qed (use assms unlocked_joined[of s] movesI[of E "Drive BudgetElapsed"] movesI[of E "Drive DrvLocks"] movesI[of E "Drop OwnerCancels"]
       movesI[of E "Drop OwnerAborts"] movesI[of E "Drop OwnerTriesLock"] in
     \<open>auto simp: run_inv_def run_step_def drive_def drain_connections_def force_connections_def abort_connections_def run_owner_drop_def\<close>)

lemma run_reachable: "run_steps E evs s = Some s' \<Longrightarrow> reachable E n s \<Longrightarrow> reachable E n s'"
  by (induction evs arbitrary: s) (auto split: option.splits intro: reachable.intros)

lemma returned_clean:
  assumes "run_inv s" "drv s = Returned r"
  shows "all_joined s" "connections s = []" "aborts s = []" "permits s = MAX_CONCURRENT_CONNS" "\<not> locked s"
    "r = Inl c \<Longrightarrow> Joined (Inl c) \<in> set (loops s)"
proof -
  have inv: "permits_inv s" "lock_inv s" "handles_inv s" "phase_inv (Returned r) s"
    using assms by (auto simp: run_inv_def)
  then show aj: "all_joined s" and "connections s = []" and "r = Inl c \<Longrightarrow> Joined (Inl c) \<in> set (loops s)" by auto
  then show "aborts s = []" using inv(3) by (simp add: handles_inv_def)
  have "holds_permit pc \<Longrightarrow> \<not> is_joined pc" for pc by (cases pc) auto
  then have "filter holds_permit (loops s) = []"
    using aj unfolding all_joined_def list_all_iff filter_empty_conv by blast
  then show "permits s = MAX_CONCURRENT_CONNS" using inv(1,4) by (simp add: permits_inv_def tally_def)
  show "\<not> locked s" using unlocked_joined[OF inv(2) aj] assms(2) by simp
qed

section \<open>Properties\<close>

text \<open>The runs that the witnesses below look at: a connection is admitted before each of them.\<close>

definition toy_accept :: accept_env where
  "toy_accept = \<lparr>ae_os = \<lparr>os_kind = (\<lambda>_. OtherKind), os_message = (\<lambda>_. []), kind_message = (\<lambda>_. [])\<rparr>,
     ae_transient_codes = [24]\<rparr>"

definition admit_one :: "event list" where
  "admit_one = [Loop 0 (LoopAccepts (Inl (IoOs 24))), Loop 0 LoopSlept, Loop 0 (LoopAccepts (Inr ())), Loop 0 LoopAdmits,
     Loop 0 LoopChecks, Loop 0 LoopSpawns, Loop 0 LoopRegisters, Loop 0 (LoopReaps None)]"

definition lost_listener :: "event list" where
  "lost_listener = admit_one @ [Loop 0 (LoopAccepts (Inl (IoOs 9))), Drive (ListenerJoined 0)]"

definition drained :: "event list" where
  "drained = [Drive NoListeners, Drive BudgetElapsed, Task 0 TaskCancelled, Drive DrvIdle, Drive DrvLocks,
     Drive (TaskJoined 0), Drive NoTasks, Drive DrvLocks, Drive NoTasks]"

definition dropped_early :: "event list" where
  "dropped_early = admit_one @ [Drop RunDropped, Drop OwnerCancels, Drop OwnerAborts, Drop OwnerTriesLock]"

lemmas run_evaluation = run_step_def client_accept_loop_def loop_ops drive_event_cases drive_ops connection_task_def task_may_def
  end_task_def abort_ids_def ended_task_def wait_idle_def all_joined_def run_owner_drop_def
  is_transient_accept_error_def run_tasks_new_def MAX_CONCURRENT_CONNS_def toy_accept_def

lemma lost_listener_run: "\<exists>s. run_steps toy_accept lost_listener (run_tasks_new 1) = Some s \<and> accept_cancelled s
    \<and> drv s = JoiningLoops (ListenerFailed (AcceptFailed (IoOs 9)))"
  by (simp add: lost_listener_def admit_one_def run_evaluation)

lemma drained_run: "\<exists>s. run_steps toy_accept (lost_listener @ drained) (run_tasks_new 1) = Some s \<and> drv s = Returned (Inl (AcceptFailed (IoOs 9)))"
  by (simp add: lost_listener_def admit_one_def drained_def run_evaluation)

lemma dropped_early_run: "\<exists>s. run_steps toy_accept dropped_early (run_tasks_new 1) = Some s \<and> drv s = Dropped
    \<and> connections s = [\<lparr>ct_id = 0, ct_live = True, ct_abort = True\<rparr>]"
  by (simp add: dropped_early_def admit_one_def run_evaluation)

text \<open>
  C18. However the accept loops, the connections, signals and the parent interleave, at most
  1024 connections are live, and each holds one of the 1024 permits. When \<^verbatim>\<open>drive\<close> returns, every
  accept loop and every connection task has been joined, no abort handle and no lock is left
  and all permits are back; an error it returns is the result of a listener that was joined.
\<close>

theorem shutdown_leaves_nothing:
  assumes "reachable E n s"
  shows "permits s + tally ct_live (connections s) + tally holds_permit (loops s) = MAX_CONCURRENT_CONNS
    \<and> (\<forall>r. drv s = Returned r \<longrightarrow> all_joined s \<and> connections s = [] \<and> aborts s = []
         \<and> permits s = MAX_CONCURRENT_CONNS \<and> \<not> locked s \<and> (\<forall>c. r = Inl c \<longrightarrow> Joined (Inl c) \<in> set (loops s)))"
proof -
  note inv = run_inv_reachable[OF assms]
  have "permits_inv s" using inv by (simp add: run_inv_def)
  then show ?thesis unfolding permits_inv_def using returned_clean[OF inv] by blast
qed

theorem shutdown_leaves_nothing_witness:
  "\<exists>s. run_steps toy_accept (lost_listener @ drained) (run_tasks_new 1) = Some s \<and> connections s = []
     \<and> permits s = MAX_CONCURRENT_CONNS \<and> Joined (Inl (AcceptFailed (IoOs 9))) \<in> set (loops s)"
proof -
  obtain s where s: "run_steps toy_accept (lost_listener @ drained) (run_tasks_new 1) = Some s"
    "drv s = Returned (Inl (AcceptFailed (IoOs 9)))" using drained_run by blast
  have "reachable toy_accept 1 s" using run_reachable[OF s(1) reach_new] .
  from shutdown_leaves_nothing[OF this] s show ?thesis by blast
qed

text \<open>
  C19. Once acceptance is cancelled, whether by \<^verbatim>\<open>drive\<close> or by a drop of the run, every run is
  finite: there is a bound on the steps that all tasks together can still make. And no task
  waits forever for another: while \<^verbatim>\<open>drive\<close> has not returned, and as long as a connection of a
  dropped run is live, some task can move without help from outside, even when no connection
  ever ends by itself.
\<close>

theorem shutdown_terminates:
  assumes "reachable E n s" "accept_cancelled s" "run_steps E evs s = Some s'"
  shows "length evs \<le> run_weight s
    \<and> (moves E s' \<or> (\<exists>r. drv s' = Returned r) \<or> drv s' = Dropped \<and> (\<forall>t \<in> set (connections s'). \<not> ct_live t))"
  using cancelled_run[OF run_inv_reachable[OF assms(1)] assms(2,3)] stuck_means_over[of s' E] by auto

theorem shutdown_terminates_witness:
  "\<exists>s s'. run_steps toy_accept lost_listener (run_tasks_new 1) = Some s \<and> run_steps toy_accept drained s = Some s'
     \<and> length drained \<le> run_weight s"
proof -
  obtain s where s: "run_steps toy_accept lost_listener (run_tasks_new 1) = Some s" "accept_cancelled s"
    using lost_listener_run by blast
  have app: "run_steps E (xs @ ys) u = (case run_steps E xs u of None \<Rightarrow> None | Some v \<Rightarrow> run_steps E ys v)" for E xs ys u
    by (induction xs arbitrary: u) (auto split: option.splits)
  obtain s' where s': "run_steps toy_accept drained s = Some s'" using drained_run s(1) by (auto simp: app)
  have "reachable toy_accept 1 s" using run_reachable[OF s(1) reach_new] .
  from shutdown_terminates[OF this s(2) s'] s(1) s' show ?thesis by auto
qed

text \<open>
  C20. A run whose future is dropped leaves no tunnel behind: after \<^verbatim>\<open>RunOwner\<close> was dropped the
  tokens are cancelled and every live connection has been asked to abort, also one that was
  spawned while the scheduler lock was held; the one exception is a task whose spawning loop
  has yet to register its handle, and registering aborts it. This is what the code does; the
  documentation of \<^verbatim>\<open>run\<close> says instead that a dropped run abandons its tunnels without any
  shutdown.
\<close>

theorem dropped_run_aborts:
  assumes "reachable E n s" "drv s = Dropped" "t \<in> set (connections s)" "ct_live t"
  shows "accept_cancelled s \<and> conns_cancelled s \<and> loops_aborted s \<and>
    (ct_abort t \<or> (\<exists>i < length (loops s). loops s ! i = Spawned (ct_id t)
       \<and> t\<lparr>ct_abort := True\<rparr> \<in> set (connections (sc_register i (ct_id t) s))))"
proof -
  have inv: "handles_inv s" "phase_inv Dropped s" using run_inv_reachable[OF assms(1)] assms(2) by (auto simp: run_inv_def)
  have "t\<lparr>ct_abort := True\<rparr> \<in> set (connections (sc_register i (ct_id t) s))" for i
    using inv(2) assms(3) by (auto simp: sc_register_def set_loop_def abort_ids_def image_iff intro!: bexI[of _ t])
  moreover have "ct_id t \<in> set (aborts s) \<or> Spawned (ct_id t) \<in> set (loops s)"
    using inv(1) assms(3) unfolding handles_inv_def by blast
  ultimately show ?thesis using inv(2) assms(3,4) by (auto simp: registered_aborted_def in_set_conv_nth[of _ "loops s"])
qed

theorem dropped_run_aborts_witness:
  "\<exists>s t. run_steps toy_accept dropped_early (run_tasks_new 1) = Some s \<and> t \<in> set (connections s) \<and> ct_live t
     \<and> accept_cancelled s \<and> conns_cancelled s \<and> loops_aborted s"
proof -
  obtain s where s: "run_steps toy_accept dropped_early (run_tasks_new 1) = Some s" "drv s = Dropped"
    "connections s = [\<lparr>ct_id = 0, ct_live = True, ct_abort = True\<rparr>]" using dropped_early_run by blast
  define t where "t = \<lparr>ct_id = 0, ct_live = True, ct_abort = True\<rparr>"
  have t: "t \<in> set (connections s)" "ct_live t" using s(3) by (auto simp: t_def)
  have "reachable toy_accept 1 s" using run_reachable[OF s(1) reach_new] .
  from dropped_run_aborts[OF this s(2) t] s(1) t show ?thesis by blast
qed

end
