(* ===== verification/Lyrebird.thy ===== *)
theory Lyrebird
  imports Lifecycle PtEnv ClientConfig WebDial
begin

text \<open>
  \<^verbatim>\<open>crates/lyrebird/src/lib.rs\<close> and \<^verbatim>\<open>pt_proto.rs\<close>: what the daemon tells its parent when it
  starts, and what it does with one connection that its parent opens. The sockets, the
  \<^verbatim>\<open>fast_socks5\<close> crate and the copy loop of tokio are parameters; the transports are those of
  \<open>ClientConfig\<close> and \<open>WebDial\<close>. An \<^verbatim>\<open>anyhow::Error\<close> is the datatype of the places that raise one.
\<close>

datatype daemon_error =
    EnvFailed io_error | BindFailed io_error | ProxyRefused | ServerUnsupported | SocksTimedOut | SocksFailed string
  | MissingTarget | ArgsRefused core_error | OptionsRefused string | NoRemote io_error | TransportFailed string
  | ReplyFailed io_error | FlushFailed io_error

section \<open>Lines to the parent\<close>

definition print_version :: string where
  "print_version = ''VERSION 1''"

definition print_cmethod :: "string \<Rightarrow> string \<Rightarrow> socket_addr \<Rightarrow> string" where
  "print_cmethod transport proto addr = ''CMETHOD '' @ transport @ '' '' @ proto @ '' '' @ show_socket_addr addr"

definition print_cmethod_error :: "string \<Rightarrow> string \<Rightarrow> string" where
  "print_cmethod_error transport reason = ''CMETHOD-ERROR '' @ transport @ '' '' @ reason"

definition print_cmethods_done :: string where
  "print_cmethods_done = ''CMETHODS DONE''"

definition print_proxy_error :: "string \<Rightarrow> string" where
  "print_proxy_error reason = ''PROXY-ERROR '' @ reason"

section \<open>Setup\<close>

definition OBFS4_NAME :: string where "OBFS4_NAME = ''obfs4''"
definition WEBTUNNEL_NAME :: string where "WEBTUNNEL_NAME = ''webtunnel''"

definition supported :: "string \<Rightarrow> bool" where
  "supported name = (name = OBFS4_NAME \<or> name = WEBTUNNEL_NAME)"

text \<open>
  \<open>lsn k\<close> is what the \<open>k\<close>-th bind of the loopback listener and the query of its address give.
  A setup returns its result, the lines printed so far and the number of binds; the accept
  loops it hands over are named by their transport and their address.
\<close>

type_synonym listener_source = "nat \<Rightarrow> io_error + socket_addr"
type_synonym accept_tasks = "(string \<times> socket_addr) list"
type_synonym setup_result = "(daemon_error + accept_tasks) \<times> string list \<times> nat"

fun setup_methods :: "listener_source \<Rightarrow> string list \<Rightarrow> accept_tasks \<Rightarrow> string list \<Rightarrow> nat \<Rightarrow> setup_result" where
  "setup_methods lsn [] tasks out k = (Inr tasks, out @ [print_cmethods_done], k)"
| "setup_methods lsn (name # names) tasks out k =
     (if name = OBFS4_NAME then
        (case lsn k of
           Inl e \<Rightarrow> (Inl (BindFailed e), out, Suc k)
         | Inr a \<Rightarrow> setup_methods lsn names (tasks @ [(name, a)]) (out @ [print_cmethod name ''socks5'' a]) (Suc k))
      else if name = WEBTUNNEL_NAME then
        (case lsn k of
           Inl e \<Rightarrow> (Inl (BindFailed e), out, Suc k)
         | Inr a \<Rightarrow> setup_methods lsn names (tasks @ [(name, a)]) (out @ [print_cmethod name ''socks5'' a]) (Suc k))
      else setup_methods lsn names tasks (out @ [print_cmethod_error name ''no such transport is supported'']) k)"

definition PROXY_REFUSAL :: string where
  "PROXY_REFUSAL = ''upstream proxy dialing is not supported by this transport''"

definition client_setup :: "os_errors \<Rightarrow> 'u url_ops \<Rightarrow> (string \<Rightarrow> string) \<Rightarrow> environment \<Rightarrow> listener_source \<Rightarrow> setup_result" where
  "client_setup os U dbg V lsn =
     (if (case V PROXY of Some v \<Rightarrow> v \<noteq> [] | None \<Rightarrow> False)
      then (Inl ProxyRefused, [print_version, print_proxy_error PROXY_REFUSAL], 0)
      else (case client_info_new os U dbg V of
          Inl e \<Rightarrow> (Inl (EnvFailed e), [print_version], 0)
        | Inr info \<Rightarrow> setup_methods lsn (ci_methods info) [] [print_version] 0))"

text \<open>The build without the feature \<^verbatim>\<open>experimental-server\<close>, which is off by default.\<close>

definition setup_listeners :: "os_errors \<Rightarrow> 'u url_ops \<Rightarrow> (string \<Rightarrow> string) \<Rightarrow> environment \<Rightarrow> listener_source \<Rightarrow> setup_result" where
  "setup_listeners os U dbg V lsn =
     (case is_client V of
        Inl e \<Rightarrow> (Inl (EnvFailed e), [], 0)
      | Inr True \<Rightarrow> client_setup os U dbg V lsn
      | Inr False \<Rightarrow> (Inl ServerUnsupported, [], 0))"

text \<open>A run starts with the accept loops of a setup that succeeded.\<close>

definition run_with_setup :: "setup_result \<Rightarrow> daemon_error + run_tasks" where
  "run_with_setup st = (case fst st of Inl e \<Rightarrow> Inl e | Inr tasks \<Rightarrow> Inr (run_tasks_new (length tasks)))"

section \<open>One connection\<close>

text \<open>\<open>disp\<close> is the display form that \<^verbatim>\<open>fast_socks5\<close> gives a domain and a port.\<close>

datatype target_addr = TargetIp socket_addr | TargetDomain string u16

fun resolve_target_addr :: "(string \<Rightarrow> u16 \<Rightarrow> string) \<Rightarrow> target_addr \<Rightarrow> io_error + socket_addr" where
  "resolve_target_addr disp (TargetIp sa) = Inr sa"
| "resolve_target_addr disp (TargetDomain d p) = resolve_addr (disp d p)"

definition authenticate :: "(string \<times> string) option \<Rightarrow> (string \<times> string) option" where
  "authenticate credentials = Some (case credentials of Some c \<Rightarrow> c | None \<Rightarrow> ([], []))"

definition NUL :: char where "NUL = char_of (0 :: nat)"

definition arg_string_from_creds :: "(string \<times> string) option \<Rightarrow> string" where
  "arg_string_from_creds creds = (case creds of
     None \<Rightarrow> []
   | Some (uname, passwd) \<Rightarrow> if passwd = [NUL] then uname else uname @ passwd)"

text \<open>
  The side of the parent: the SOCKS negotiation, with the credentials and the target it ends
  with, and the two operations of the reply. A transport is its builder and its connection path.
\<close>

record 'w parent_ops =
  pa_upgrade :: "(string + (string \<times> string) option \<times> target_addr option, 'w) future"
  pa_write_all :: "bytes \<Rightarrow> (io_error + unit, 'w) future"
  pa_flush :: "(io_error + unit, 'w) future"

record ('b, 'l, 's, 'w) transport_ops =
  tr_options :: "args \<Rightarrow> 'b \<Rightarrow> 'w \<Rightarrow> (string + 'b) \<times> 'w"
  tr_build :: "'b \<Rightarrow> 'w \<Rightarrow> 'l \<times> 'w"
  tr_connect :: "'l \<Rightarrow> target_addr \<Rightarrow> (daemon_error + 's, 'w) future"

definition SOCKS5_SETUP_TIMEOUT :: nat where "SOCKS5_SETUP_TIMEOUT = 10 * 10 ^ 9"

definition socks_success :: bytes where
  "socks_success = [5, 0, 0, 1, 0, 0, 0, 0, 0, 0]"

definition pt_args :: "(string \<times> string) option \<Rightarrow> daemon_error + args" where
  "pt_args creds =
     (let arg_string = arg_string_from_creds creds
      in if arg_string = [] then Inr args_new else map_err ArgsRefused (parse_client_parameters arg_string))"

text \<open>After the negotiation: options, client, connection, reply, and only then the copy.\<close>

definition serve_tunnel ::
  "'w parent_ops \<Rightarrow> ('s \<Rightarrow> (io_error + unit, 'w) future) \<Rightarrow> 's \<Rightarrow> (daemon_error + unit, 'w) future" where
  "serve_tunnel P copy pt_conn ts w =
     await_with ReplyFailed (pa_write_all P socks_success ts w) (\<lambda>_ ts w.
     await_with FlushFailed (pa_flush P ts w) (\<lambda>_ ts w.
     case copy pt_conn ts w of
       (Pending, w, ts) \<Rightarrow> (Pending, w, ts)
     | (Panic, w, ts) \<Rightarrow> (Panic, w, ts)
     | (Ready _, w, ts) \<Rightarrow> (Ready (Inr ()), w, ts)))"

definition open_tunnel ::
  "('b, 'l, 's, 'w) transport_ops \<Rightarrow> 'b \<Rightarrow> args \<Rightarrow> target_addr \<Rightarrow> (daemon_error + 's, 'w) future" where
  "open_tunnel T builder a target ts w =
     (case tr_options T a builder w of
        (Inl e, w) \<Rightarrow> (Ready (Inl (OptionsRefused e)), w, ts)
      | (Inr builder, w) \<Rightarrow>
          (case tr_build T builder w of (pt_client, w) \<Rightarrow> tr_connect T pt_client target ts w))"

definition client_handle_connection ::
  "'w parent_ops \<Rightarrow> ('b, 'l, 's, 'w) transport_ops \<Rightarrow> ('s \<Rightarrow> (io_error + unit, 'w) future) \<Rightarrow> 'b
   \<Rightarrow> (daemon_error + unit, 'w) future" where
  "client_handle_connection P T copy builder ts w =
     (case timeout_at (hd ts + SOCKS5_SETUP_TIMEOUT) (pa_upgrade P) ts w of
        (Pending, w, ts) \<Rightarrow> (Pending, w, ts)
      | (Panic, w, ts) \<Rightarrow> (Panic, w, ts)
      | (Ready None, w, ts) \<Rightarrow> (Ready (Inl SocksTimedOut), w, ts)
      | (Ready (Some (Inl e)), w, ts) \<Rightarrow> (Ready (Inl (SocksFailed e)), w, ts)
      | (Ready (Some (Inr (creds, None))), w, ts) \<Rightarrow> (Ready (Inl MissingTarget), w, ts)
      | (Ready (Some (Inr (creds, Some target))), w, ts) \<Rightarrow>
          (case pt_args creds of
             Inl e \<Rightarrow> (Ready (Inl e), w, ts)
           | Inr a \<Rightarrow> await_with id (open_tunnel T builder a target ts w) (serve_tunnel P copy)))"

section \<open>The two transports\<close>

text \<open>
  \<^verbatim>\<open>managed_connect\<close> of both clients. An obfs4 client dials the SOCKS target; a WebTunnel client
  ignores it and dials its URL.
\<close>

definition establish_pt_conn ::
  "os_errors \<Rightarrow> (obfs4_error + 's, 'w) future \<Rightarrow> (daemon_error + 's, 'w) future" where
  "establish_pt_conn os fut ts w =
     await_with (\<lambda>e. TransportFailed (''handshake failed: '' @ obfs4_error_display os e)) (fut ts w) (\<lambda>c ts w. (Ready (Inr c), w, ts))"

definition obfs4_managed_connect ::
  "os_errors \<Rightarrow> (string \<Rightarrow> u16 \<Rightarrow> string) \<Rightarrow> (client \<Rightarrow> (string + unit, 'w) future \<Rightarrow> (obfs4_error + 's, 'w) future)
   \<Rightarrow> (socket_addr \<Rightarrow> (string + unit, 'w) future) \<Rightarrow> client \<Rightarrow> target_addr \<Rightarrow> (daemon_error + 's, 'w) future" where
  "obfs4_managed_connect os disp est dial_bridge cl target ts w =
     (case resolve_target_addr disp target of
        Inl e \<Rightarrow> (Ready (Inl (NoRemote e)), w, ts)
      | Inr remote_addr \<Rightarrow> establish_pt_conn os (est cl (dial_bridge remote_addr)) ts w)"

definition web_managed_connect ::
  "(web_error \<Rightarrow> string) \<Rightarrow> ('r, 'k, 'c, 'w) network \<Rightarrow> ('u, 'n, 'c, 't, 'r option \<times> 'w) upgrade_env \<Rightarrow> webtunnel_client \<Rightarrow> target_addr
   \<Rightarrow> (daemon_error + ('t, 'c) webtunnel_stream prefix_stream, 'r option \<times> 'w) future" where
  "web_managed_connect disp N E cl target ts w =
     await_with (\<lambda>e. TransportFailed (''WebTunnel URL connection failed: '' @ disp e)) (connect_url N E cl ts w)
       (\<lambda>c ts w. (Ready (Inr c), w, ts))"

section \<open>What the parent is told\<close>

fun announcement :: "string list \<Rightarrow> socket_addr list \<Rightarrow> string list" where
  "announcement [] as = []"
| "announcement (n # ns) as =
     (if supported n then print_cmethod n ''socks5'' (hd as) # announcement ns (tl as)
      else print_cmethod_error n ''no such transport is supported'' # announcement ns as)"

definition bound_from :: "listener_source \<Rightarrow> nat \<Rightarrow> socket_addr list \<Rightarrow> bool" where
  "bound_from lsn k as \<longleftrightarrow> (\<forall>i < length as. lsn (k + i) = Inr (as ! i))"

lemma not_done [simp]: "print_cmethod n p a \<noteq> print_cmethods_done" "print_cmethod_error n p \<noteq> print_cmethods_done"
  "print_version \<noteq> print_cmethods_done" "print_proxy_error n \<noteq> print_cmethods_done"
  by (simp_all add: print_cmethod_def print_cmethods_done_def print_cmethod_error_def print_version_def print_proxy_error_def)

lemma setup_methods_supported:
  "setup_methods lsn (name # names) tasks out k =
     (if supported name then
        (case lsn k of
           Inl e \<Rightarrow> (Inl (BindFailed e), out, Suc k)
         | Inr a \<Rightarrow> setup_methods lsn names (tasks @ [(name, a)]) (out @ [print_cmethod name ''socks5'' a]) (Suc k))
      else setup_methods lsn names tasks (out @ [print_cmethod_error name ''no such transport is supported'']) k)"
  by (simp add: supported_def)

lemma setup_methods_ok:
  assumes "setup_methods lsn names tasks out k = (Inr ts, out', k')"
  shows "\<exists>new. ts = tasks @ new \<and> map fst new = filter supported names \<and> k' = k + length new
     \<and> bound_from lsn k (map snd new) \<and> out' = out @ announcement names (map snd new) @ [print_cmethods_done]"
  using assms
proof (induction names arbitrary: tasks out k)
  case (Cons name names)
  note step = setup_methods_supported[of lsn name names tasks out k]
  show ?case
  proof (cases "supported name")
    case True
    with Cons.prems step obtain a where a: "lsn k = Inr a"
      "setup_methods lsn names (tasks @ [(name, a)]) (out @ [print_cmethod name ''socks5'' a]) (Suc k) = (Inr ts, out', k')"
      by (auto simp del: setup_methods.simps split: sum.splits)
    from Cons.IH[OF a(2)] obtain new where new: "ts = tasks @ (name, a) # new" "map fst new = filter supported names"
      "k' = Suc k + length new" "bound_from lsn (Suc k) (map snd new)"
      "out' = out @ print_cmethod name ''socks5'' a # announcement names (map snd new) @ [print_cmethods_done]" by auto
    have "bound_from lsn k (map snd ((name, a) # new))"
      using a(1) new(4) by (auto simp: bound_from_def nth_Cons split: nat.split)
    with new True show ?thesis by (intro exI[of _ "(name, a) # new"]) simp
  next
    case False
    with Cons.prems step have "setup_methods lsn names tasks (out @ [print_cmethod_error name ''no such transport is supported'']) k
      = (Inr ts, out', k')" by (simp del: setup_methods.simps)
    from Cons.IH[OF this] False show ?thesis by auto
  qed
qed (simp add: bound_from_def)

lemma setup_methods_error:
  assumes "setup_methods lsn names tasks out k = (Inl e, out', k')" "print_cmethods_done \<notin> set out"
  shows "print_cmethods_done \<notin> set out'"
  using assms
proof (induction names arbitrary: tasks out k)
  case (Cons name names)
  from Cons.prems show ?case unfolding setup_methods_supported
    by (auto split: if_splits sum.splits elim!: Cons.IH[THEN notE, rotated 2] simp: not_done[symmetric])
qed simp

lemma setup_methods_version: "setup_methods lsn names tasks (v # out) k = (r, out', k') \<Longrightarrow> \<exists>rest. out' = v # rest"
  by (induction names arbitrary: tasks out k) (auto simp: setup_methods_supported simp del: setup_methods.simps(2) split: if_splits sum.splits)

section \<open>Arguments in credentials\<close>

text \<open>
  How a parent splits the argument text: 255 bytes at most are the user name, the rest is the
  password. SOCKS gives either field one to 255 bytes, so 510 bytes of text can be carried.
\<close>

definition pack_args :: "string \<Rightarrow> string \<times> string" where
  "pack_args s = (take 255 s, if length s \<le> 255 then [NUL] else drop 255 s)"

lemma pack_args_fits:
  "length s \<le> 510 \<Longrightarrow> length (fst (pack_args s)) \<le> 255 \<and> 1 \<le> length (snd (pack_args s)) \<and> length (snd (pack_args s)) \<le> 255"
  by (auto simp: pack_args_def)

lemma arg_string_packed: "drop 255 s \<noteq> [NUL] \<Longrightarrow> arg_string_from_creds (Some (pack_args s)) = s"
  by (auto simp: arg_string_from_creds_def pack_args_def)

lemma pt_args_packed:
  assumes "args_wf a" "drop 255 (encode_client_parameters a) \<noteq> [NUL]"
  shows "pt_args (Some (pack_args (encode_client_parameters a))) = Inr (sort_key fst a)"
proof -
  have parsed: "parse_client_parameters (encode_client_parameters a) = Inr (sort_key fst a)"
    using client_form.parse_encode[OF assms(1)] by (simp add: parse_client_parameters_def encode_client_parameters_def)
  moreover have "parse_client_parameters [] = Inr args_new"
    by (simp add: parse_client_parameters_def parse_delimited_def)
  ultimately show ?thesis using arg_string_packed[OF assms(2)]
    by (auto simp: pt_args_def Let_def)
qed

lemma literal_domain_resolves:
  assumes "\<And>d p. disp d p = d @ '':'' @ show_dec p" "dialable (SockV4 ip p)"
  shows "resolve_target_addr disp (TargetDomain (show_ipv4 ip) p) = Inr (SockV4 ip p)"
  using resolve_addr_show[OF assms(2)] by (simp add: assms(1))

section \<open>Properties\<close>

definition toy_client_env :: environment where
  "toy_client_env = map_of [(MANAGED_VER, ''1''), (CLIENT_TRANSPORTS, ''obfs4,snow,webtunnel'')]"

definition toy_listeners :: listener_source where
  "toy_listeners k = Inr (SockV4 (127, 0, 0, 1) (of_nat (40000 + k)))"

text \<open>
  C27. The parent learns exactly what the daemon offers. The version comes first. A setup that
  succeeds has announced every transport it was asked for in order, each supported one with the
  address of the listener whose accept loop it starts and every other one as an error, and
  then the end of the list; a setup that fails never prints that end. If an upstream proxy is
  requested, whatever the value, the setup fails and no listener is bound.
\<close>

theorem setup_announces:
  assumes "client_setup os U dbg V lsn = (r, out, k)"
  shows "(\<exists>rest. out = print_version # rest)
    \<and> (case r of
         Inl e \<Rightarrow> print_cmethods_done \<notin> set out
       | Inr tasks \<Rightarrow> (\<exists>names. get_client_transports dbg V = Inr names \<and> map fst tasks = filter supported names
           \<and> k = length tasks \<and> bound_from lsn 0 (map snd tasks)
           \<and> out = print_version # announcement names (map snd tasks) @ [print_cmethods_done]))
    \<and> ((\<exists>v. V PROXY = Some v \<and> v \<noteq> []) \<longrightarrow> r = Inl ProxyRefused \<and> k = 0)"
proof (cases "(\<exists>v. V PROXY = Some v \<and> v \<noteq> []) \<or> (\<exists>e. client_info_new os U dbg V = Inl e)")
  case True
  then show ?thesis using assms by (auto simp: client_setup_def not_done[symmetric] split: option.splits if_splits sum.splits)
next
  case False
  then obtain info where info: "client_info_new os U dbg V = Inr info" by (cases "client_info_new os U dbg V") auto
  with False assms have run: "setup_methods lsn (ci_methods info) [] [print_version] 0 = (r, out, k)"
    by (auto simp: client_setup_def split: option.splits if_splits)
  have "get_client_transports dbg V = Inr (ci_methods info)"
    using info by (auto simp: client_info_new_def bindr_eq_Inr)
  moreover have "print_cmethods_done \<notin> set [print_version]" by (simp add: not_done[symmetric])
  ultimately show ?thesis
    using setup_methods_version[OF run] setup_methods_error[of lsn "ci_methods info" "[]" "[print_version]" 0 _ out k]
      setup_methods_ok[of lsn "ci_methods info" "[]" "[print_version]" 0 _ out k] run False
    by (cases r) auto
qed

lemma toy_client_vars:
  "env_var toy_client_env MANAGED_VER = Inr ''1''" "env_var toy_client_env CLIENT_TRANSPORTS = Inr ''obfs4,snow,webtunnel''"
  "env_var toy_client_env PROXY = Inl NotPresent" "toy_client_env PROXY = None"
  by (simp_all add: toy_client_env_def env_var_def pt_names str_bytes_def)

lemma toy_methods: "split_char CHR '','' ''obfs4,snow,webtunnel'' = [''obfs4'', ''snow'', ''webtunnel'']"
  "split_char CHR '','' ''1'' = [''1'']"
  by code_simp+

lemma toy_client_info:
  "client_info_new os toy_url dbg toy_client_env = Inr \<lparr> ci_methods = [''obfs4'', ''snow'', ''webtunnel''], ci_uri = None \<rparr>"
  by (simp add: client_info_new_def get_managed_transport_ver_def get_client_transports_def required_var_def
      get_proxy_url_def toy_client_vars CURRENT_TRANSPORT_VER_def toy_methods)

lemma toy_setup:
  "\<exists>tasks out. client_setup os toy_url dbg toy_client_env toy_listeners = (Inr tasks, out, 2)"
  by (simp add: client_setup_def toy_client_info toy_client_vars toy_listeners_def OBFS4_NAME_def WEBTUNNEL_NAME_def)

theorem setup_announces_witness:
  "\<exists>tasks out. client_setup (ae_os toy_accept) toy_url id toy_client_env toy_listeners = (Inr tasks, out, 2)
     \<and> bound_from toy_listeners 0 (map snd tasks)
     \<and> out = print_version # announcement [''obfs4'', ''snow'', ''webtunnel''] (map snd tasks) @ [print_cmethods_done]"
proof -
  obtain tasks out where run: "client_setup (ae_os toy_accept) toy_url id toy_client_env toy_listeners = (Inr tasks, out, 2)"
    using toy_setup by blast
  have "get_client_transports id toy_client_env = Inr [''obfs4'', ''snow'', ''webtunnel'']"
    by (simp add: get_client_transports_def required_var_def toy_client_vars toy_methods)
  with setup_announces[OF run] run show ?thesis by auto
qed

text \<open>
  C28. The arguments of a bridge reach the transport through the SOCKS credentials: if the parent
  packs the text of a well-formed bag into user name and password, the first 255 bytes in the
  user name and the rest in the password, the handler opens the tunnel with an equal bag. Both
  fields keep within the 255 bytes that SOCKS allows them as long as the text has at most 510;
  a longer text does not fit, and no parent can send it. The one text within that limit that
  cannot be packed has 256 bytes of which the last is zero, since a password of one zero byte
  means that there is none.
\<close>

theorem socks_carries_arguments:
  assumes "args_wf a" "drop 255 (encode_client_parameters a) \<noteq> [NUL]"
    and "pack_args (encode_client_parameters a) = (user, pass)"
    and "timeout_at (hd ts + SOCKS5_SETUP_TIMEOUT) (pa_upgrade P) ts w
      = (Ready (Some (Inr (authenticate (Some (user, pass)), Some target))), w', ts')"
  shows "(\<exists>b. args_eq b a \<and> client_handle_connection P T copy builder ts w
      = await_with id (open_tunnel T builder b target ts' w') (serve_tunnel P copy))
    \<and> (length (encode_client_parameters a) \<le> 510 \<longrightarrow> length user \<le> 255 \<and> 1 \<le> length pass \<and> length pass \<le> 255)"
proof (intro conjI exI impI)
  show "args_eq (sort_key fst a) a" using args_eq_sort assms(1) by (auto simp: args_wf_def)
  show "client_handle_connection P T copy builder ts w
      = await_with id (open_tunnel T builder (sort_key fst a) target ts' w') (serve_tunnel P copy)"
    using assms(3,4) pt_args_packed[OF assms(1,2)] by (simp add: client_handle_connection_def authenticate_def)
qed (use pack_args_fits [of "encode_client_parameters a"] assms(3) in auto)

text \<open>A certificate of 300 bytes, which does not fit the user name alone.\<close>

definition long_args :: args where
  "long_args = [(''cert'', [replicate 300 CHR ''A''])]"

definition toy_parent :: "unit parent_ops" where
  "toy_parent = \<lparr> pa_upgrade = (\<lambda>ts w. (Ready (Inr (authenticate (Some (''cert='' @ replicate 250 CHR ''A'', replicate 50 CHR ''A'')),
       Some (TargetIp (SockV4 (1, 2, 3, 4) 5)))), w, ts)),
     pa_write_all = (\<lambda>_ ts w. (Ready (Inr ()), w, ts)), pa_flush = (\<lambda>ts w. (Ready (Inr ()), w, ts)) \<rparr>"

definition toy_transport :: "(args, args, args, unit) transport_ops" where
  "toy_transport = \<lparr> tr_options = (\<lambda>a b w. (Inr a, w)), tr_build = (\<lambda>b w. (b, w)), tr_connect = (\<lambda>b _ ts w. (Ready (Inr b), w, ts)) \<rparr>"

lemma long_args_text: "encode_client_parameters long_args = ''cert='' @ replicate 300 CHR ''A''"
proof -
  have "esc [CHR ''='', CHR '';''] (replicate n CHR ''A'') = replicate n CHR ''A''" for n by (induction n) auto
  then show ?thesis by (simp add: encode_client_parameters_def encode_delimited_def args_is_empty_def long_args_def Let_def)
qed

lemma long_args_packed:
  "pack_args (encode_client_parameters long_args) = (''cert='' @ replicate 250 CHR ''A'', replicate 50 CHR ''A'')"
  by (simp add: pack_args_def long_args_text)

theorem socks_carries_arguments_witness:
  "\<exists>b. args_eq b long_args \<and>
     client_handle_connection toy_parent toy_transport (\<lambda>_ ts w. (Ready (Inr ()), w, ts)) [] [0] ()
       = await_with id (open_tunnel toy_transport [] b (TargetIp (SockV4 (1, 2, 3, 4) 5)) [0] ())
           (serve_tunnel toy_parent (\<lambda>_ ts w. (Ready (Inr ()), w, ts)))"
proof (rule socks_carries_arguments [OF _ _ long_args_packed, THEN conjunct1])
  show "args_wf long_args" by (simp add: args_wf_def args_inv_def long_args_def)
  show "drop 255 (encode_client_parameters long_args) \<noteq> [NUL]" by (auto simp: long_args_text dest: arg_cong [of _ _ length])
  show "timeout_at (hd [0] + SOCKS5_SETUP_TIMEOUT) (pa_upgrade toy_parent) [0] ()
      = (Ready (Some (Inr (authenticate (Some (''cert='' @ replicate 250 CHR ''A'', replicate 50 CHR ''A'')),
          Some (TargetIp (SockV4 (1, 2, 3, 4) 5))))), (), [0])"
    by (simp add: timeout_at_def toy_parent_def SOCKS5_SETUP_TIMEOUT_def)
qed

end
