(* ===== verification/Spec2Isabelle.thy ===== *)
theory Spec2Isabelle
  imports Prelude Args Errors SipHash ReplayFilter Drbg Framing Codec Keys Handshake ProbDist Shaping Sessions Proto Stream Establish Tunnel StateFile ServerConfig ClientConfig Answers StdText NetAddr BridgeLine PtEnv WebTunnel WebDial Lifecycle Lyrebird
begin

text \<open>
  A verification of ptrs-gesher, the Rust implementation of the pluggable transports obfs4 and
  WebTunnel together with the parts of the managed-transport protocol around them. Paths
  below are relative to \<^verbatim>\<open>src/crates\<close>.

  \<^bold>\<open>The program.\<close> A transport carries a byte stream between a Tor client and a bridge such that
  an observer sees no protocol. \<^verbatim>\<open>core\<close> holds what every transport shares: argument bags and
  the \<^verbatim>\<open>TOR_PT_\<close> environment. \<^verbatim>\<open>obfs4\<close> holds the obfs4 transport: builders read
  arguments and state files and give a client or a server; a client or server wraps a carrier
  by running the ntor handshake over it, behind a time limit; the handshake gives both sides
  the key of a frame codec, and the stream writes and reads through that codec, pads and
  delays. \<^verbatim>\<open>webtunnel\<close> holds the WebTunnel client: it resolves a name, dials, runs an HTTP
  upgrade over TLS and hands the connection through. \<^verbatim>\<open>bridge-line\<close> reads and writes the
  lines that configure a bridge. \<^verbatim>\<open>lyrebird\<close> is the daemon that offers the transports to
  Tor.

  \<^bold>\<open>Theories, from the bottom up.\<close> Each definition carries the name of the Rust item it
  translates, with a prefix for the type where several types share a method name.

  \<^item> \<open>Prelude\<close>: results with errors, big-endian fields, decimal numbers, generic lemmas.
    \<open>StdText\<close> and \<open>NetAddr\<close>: what the sources use of the standard library's \<^verbatim>\<open>str\<close>,
    \<^verbatim>\<open>BTreeMap\<close> and \<^verbatim>\<open>SocketAddr\<close>; the address printer and parser are inverse.
  \<^item> \<open>Args\<close> (\<^verbatim>\<open>core/src/args.rs\<close>): bags of arguments, their escaping and their three text
    forms. The locale \<open>delimited_form\<close> states the round trip once for a separator; the client
    form and the SMETHOD form are its interpretations.
  \<^item> \<open>PtEnv\<close> (\<^verbatim>\<open>core/src/helpers.rs\<close>): the environment of a managed transport. What is
    read is well formed, and what a parent announces is what a server reads.
  \<^item> \<open>BridgeLine\<close> (\<^verbatim>\<open>bridge-line/src/lib.rs\<close>): what parses is well formed and prints to a
    line that parses to the same.
  \<^item> \<open>Errors\<close> (\<^verbatim>\<open>obfs4/src/error.rs\<close>, \<^verbatim>\<open>framing/mod.rs\<close>,
    \<^verbatim>\<open>common/ntor_arti/mod.rs\<close>): the error types and their conversions.
  \<^item> \<open>SipHash\<close>, \<open>ReplayFilter\<close> (\<^verbatim>\<open>common/replay_filter.rs\<close>): the queue and the set of digests.
    The invariant is that both agree; the filter refines a bounded set of recent digests
    (locale \<open>replay_guard\<close>, interpreted on the filter), so replays are found and its size is
    bounded.
  \<^item> \<open>Drbg\<close> (\<^verbatim>\<open>common/drbg.rs\<close>), \<open>Framing\<close> (\<^verbatim>\<open>framing/mod.rs\<close>,
    \<^verbatim>\<open>messages_base.rs\<close>, \<^verbatim>\<open>messages_v1/mod.rs\<close>), \<open>Codec\<close> (\<^verbatim>\<open>framing/codecs.rs\<close>):
    length masks, packets, the zero-copy frames (locale \<open>byte_source\<close>, the contract of
    \<^verbatim>\<open>bytes::Buf\<close>, interpreted on both frame types) and the frame codec. Encoder and decoder
    invert each other for every cutting of the stream, the decoder accepts only what was
    sealed, and no nonce is used twice.
  \<^item> \<open>Keys\<close> (\<^verbatim>\<open>common/x25519_elligator2.rs\<close>), \<open>Handshake\<close> (\<^verbatim>\<open>handshake/\<close>,
    \<^verbatim>\<open>framing/handshake.rs\<close>, \<^verbatim>\<open>common/kdf.rs\<close>): ephemeral keys, both hellos, the search
    for the mark, key derivation and both sides. Honest sides agree, a client accepts only
    its server, a hello is accepted once.
  \<^item> \<open>ProbDist\<close> (\<^verbatim>\<open>common/probdist.rs\<close>), \<open>Shaping\<close> and \<open>Proto\<close>
    (\<^verbatim>\<open>obfs4/src/proto.rs\<close>), \<open>Stream\<close>: the weighted distribution, the shaping carrier, the
    poll functions of the stream, and what they guarantee.
  \<^item> \<open>Sessions\<close>, \<open>Establish\<close> (\<^verbatim>\<open>obfs4/src/sessions.rs\<close>), \<open>Tunnel\<close>, \<open>Answers\<close>: session
    records, the futures that establish a session, the connection as a whole from its first
    byte to its last, and that every attempt ends.
  \<^item> \<open>StateFile\<close> (\<^verbatim>\<open>obfs4/src/lib.rs\<close>), \<open>ServerConfig\<close> (\<^verbatim>\<open>server.rs\<close>, \<^verbatim>\<open>pt.rs\<close>),
    \<open>ClientConfig\<close> (\<^verbatim>\<open>client.rs\<close>, \<^verbatim>\<open>pt.rs\<close>): atomic writes over a file system in which
    every system call may fail, and the builders, whose calls may see any file system.
    The locale \<open>fs_frame\<close> carries the frame conditions of the file operations; it is
    interpreted once for operations that change no node and once for those that may add
    directories but change no file.
  \<^item> \<open>WebTunnel\<close> (\<^verbatim>\<open>webtunnel/src/lib.rs\<close>, \<^verbatim>\<open>handshake.rs\<close>), \<open>WebDial\<close>
    (\<^verbatim>\<open>handshake.rs\<close>, \<^verbatim>\<open>dns/\<close>): configuration, upgrade, streams, dialling and name
    resolution. The stream starts right after the response, strict mode never asks the
    system resolver, and every connection attempt ends.
  \<^item> \<open>Lifecycle\<close> (\<^verbatim>\<open>lyrebird/src/lifecycle.rs\<close>, the accept loops of \<^verbatim>\<open>lib.rs\<close>) and \<open>Lyrebird\<close>
    (\<^verbatim>\<open>lib.rs\<close>, \<^verbatim>\<open>pt_proto.rs\<close>): the tasks of the daemon as a state machine, whose events are
    the steps of accept loops, connection tasks, the driver and a dropped run in any order;
    and the setup of a client with the handler of one connection. The invariant accounts for
    permits, the lock and the abort handles at every stage of a shutdown; every shutdown is
    bounded, cannot get stuck and leaves no task behind. The parent is told exactly what is
    offered, and the arguments of a bridge reach its transport.

  \<^bold>\<open>How code is modelled.\<close> Fixed-width integers are words; a \<^verbatim>\<open>usize\<close> is a natural number, and
  a subtraction that could underflow is an explicit panic. A \<^verbatim>\<open>Result\<close> is a sum with the
  error on the left, and a panic is a value of its own (\<open>Panic\<close> of the poll results, \<open>None\<close> of
  the options named so). A struct is a record and an enum a datatype. A poll function maps a
  state to \<open>Pending\<close>, \<open>Ready\<close> or \<open>Panic\<close> and a new state; an awaited future also takes the
  clock readings that are still to come and gives back those it has not used, so that a time
  limit is a comparison with a reading. Random draws are arguments. A draw from the system's
  generator that the code unwraps may fail, and is an option or a sum: the padding of the hellos
  (\<^verbatim>\<open>make_hs_pad\<close>), the sampling of lengths and delays (\<^verbatim>\<open>WeightedDist::sample\<close>), the seed of a
  client's session and the websocket key are panics when they do. The system clock is an integer
  number of seconds, and reading the hour before 1970 is a panic. The monotonic clock counts
  nanoseconds up to \<open>env_clock_max\<close>, and adding a duration to it beyond that is a panic, or an
  error where the code checks. Text is a list of characters, one for each byte of the UTF-8 form.
  Logging has no counterpart.

  \<^bold>\<open>Loops and bounds.\<close> Every \<^verbatim>\<open>while\<close> and \<^verbatim>\<open>loop\<close> that consumes input or a queue is
  structural recursion or a \<open>function\<close> with a termination proof; no fuel is used. The loops of
  the stream that end only if the carrier does, the copying out of a \<^verbatim>\<open>Buf\<close>, and the loop that
  waits for standard input to close are partial functions whose value is \<open>None\<close> when they do not
  return; that copying returns is a lemma of \<open>Framing\<close>, and that writing, flushing and closing
  return, without a panic, in every mode of shaping, is a property of its own. The constants are those of the code: a hello is at most
  8192 bytes, a frame at most 1448 bytes, the filter holds at most 102400 digests for
  30 hours, an upgrade response is at most 4096 bytes, and 1024 connections are live.

  \<^bold>\<open>What is assumed of other code.\<close> Code outside the repository is an argument of the
  definitions. The hypotheses state its documented behaviour: \<open>aead_ok\<close> that opening inverts
  sealing and accepts only sealed boxes, \<open>curve_ok\<close> that Diffie-Hellman commutes and that
  Elligator representatives decode, \<open>kdfs_ok\<close> the output lengths of the hashes, \<open>rand_ok\<close> the
  ranges of the \<^verbatim>\<open>rand\<close> crate, \<open>carrier_ok\<close>, \<open>duplex_ok\<close> and \<open>async_ok\<close> the contract of
  \<^verbatim>\<open>AsyncRead\<close> and \<^verbatim>\<open>AsyncWrite\<close>, \<open>framed_ok\<close> that of \<^verbatim>\<open>tokio_util\<close>'s \<^verbatim>\<open>Framed\<close>,
  \<open>serde_ok\<close> and \<open>config_ok\<close> that reading inverts writing for JSON, hexadecimal and base64,
  \<open>http_ok\<close> that what a complete HTTP head parses to does not depend on the bytes after it,
  \<open>web_io_ok\<close> and \<open>polled_ok\<close> that a connection delivers the bytes of its peer in order,
  \<open>network_calm\<close> and \<open>upgrade_calm\<close> that resolvers, sockets, rustls and connections do not panic,
  \<open>dial_ok\<close> the same of the future that dials for obfs4, \<open>benign\<close> that a failing
  system call does not report a file as missing that is there. Every property that uses one has
  a witness over concrete functions that satisfy it. In \<open>Lifecycle\<close>, tokio's semaphore, mutex,
  set of tasks and cancellation token are the counter, flag, list and flag they document.
  Collisions of hashes are named where they matter, as hypotheses that no earlier or second mark
  occurs. That a generator works or that a clock is in range is never hidden in one of these
  contracts: the properties about answers say in their conclusion which failure of the platform
  a panic comes from, and the properties about successful runs name it as a hypothesis of its own.

  \<^bold>\<open>Not modelled.\<close> Timing side channels (\<^verbatim>\<open>common/ct.rs\<close>; a constant-time comparison is an
  equality), \<^verbatim>\<open>Debug\<close> output, tracing (\<^verbatim>\<open>core/src/log.rs\<close>,
  \<^verbatim>\<open>lyrebird/src/logging_layer.rs\<close>), the reserved messages of
  \<^verbatim>\<open>framing/messages_v1/crypto.rs\<close> that no code uses, the traits and the proof-of-concept
  transport of \<^verbatim>\<open>core/src/lib.rs\<close> and \<^verbatim>\<open>passthrough.rs\<close>, which has no logic of its own,
  the umbrella crate, and tests, benches and examples. Permission bits of files and
  directories have no counterpart in the file system model, nor has the TLS configuration
  that is handed to rustls. Of the daemon, the command line, signal handlers, socket options, the
  descriptor modes of standard input (\<^verbatim>\<open>stdin_watch.rs\<close>) and the stub behind the feature
  \<^verbatim>\<open>experimental-server\<close> are left out. The identity and the key of a new server and the key of its
  replay filter are arguments of \<open>server_getrandom\<close> and of the builders; that \<^verbatim>\<open>Server::getrandom\<close>
  and \<^verbatim>\<open>ReplayFilter::new\<close> panic when the system's generator fails has no counterpart, and no
  property says that building a server cannot panic. Draws from \<^verbatim>\<open>thread_rng\<close> by \<^verbatim>\<open>fill_bytes\<close> have no
  error to report. The poisoning of a mutex by a panic elsewhere has no counterpart.
\<close>

end
